(* ===== verification/Prelude.thy ===== *)
theory Prelude
  imports Main "HOL-Library.AList"
begin

text \<open>
  Shared ground of the development.

  \<^item> Exceptions: an \<open>async\<close> function or a throwing expression of the TypeScript
    is a value of \<open>js_exn + 'a\<close>: \<open>Inl\<close> is the thrown value or rejected
    promise, \<open>Inr\<close> the returned one.
  \<^item> \<open>bigint\<close> is HOL's \<open>int\<close>; its division truncates towards zero
    (\<open>tdiv\<close>) and throws on a zero divisor (\<open>big_div\<close>).
  \<^item> A JavaScript \<open>Map\<close> is an association list in insertion order:
    \<open>set\<close> on a present key keeps its position. The locale \<open>js_map\<close> states
    the laws its clients use; the interpretation \<open>jm\<close> proves them for the model.
  \<^item> \<open>Array.prototype.sort\<close> is the stable insertion \<open>js_sort\<close>,
    parametrised by "the comparator answers a positive number".
\<close>

section \<open>Collections of rewrite rules\<close>

named_theorems amount_simps \<open>arithmetic of bigint amounts\<close>
named_theorems frame_simps \<open>what an operation leaves unchanged\<close>

section \<open>Exceptions\<close>

datatype js_exn =
    RangeError
  | TypeError
  | Thrown string

type_synonym 'a js = "js_exn + 'a"

definition js_bind :: "'a js \<Rightarrow> ('a \<Rightarrow> 'b js) \<Rightarrow> 'b js" where
  "js_bind m f = (case m of Inl e \<Rightarrow> Inl e | Inr x \<Rightarrow> f x)"

lemma js_bind_simps [simp]:
  "js_bind (Inl e) f = Inl e"
  "js_bind (Inr x) f = f x"
  by (simp_all add: js_bind_def)

lemma js_bind_Inr_iff: "js_bind m f = Inr y \<longleftrightarrow> (\<exists>x. m = Inr x \<and> f x = Inr y)"
  by (cases m) auto

text \<open>\<open>p.catch(() => d)\<close>\<close>

definition js_catch :: "'a js \<Rightarrow> 'a \<Rightarrow> 'a" where
  "js_catch m d = (case m of Inl _ \<Rightarrow> d | Inr x \<Rightarrow> x)"

lemma js_catch_simps [simp]:
  "js_catch (Inl e) d = d"
  "js_catch (Inr x) d = x"
  by (simp_all add: js_catch_def)

text \<open>\<open>Promise.all(xs.map(f))\<close>: the first rejection, in list order, is the result.\<close>

fun js_all :: "('a \<Rightarrow> 'b js) \<Rightarrow> 'a list \<Rightarrow> 'b list js" where
  "js_all f [] = Inr []"
| "js_all f (x # xs) = js_bind (f x) (\<lambda>y. js_bind (js_all f xs) (\<lambda>ys. Inr (y # ys)))"

lemma js_all_Inr:
  "js_all f xs = Inr ys \<Longrightarrow> list_all2 (\<lambda>x y. f x = Inr y) xs ys"
  by (induction xs arbitrary: ys) (auto simp: js_bind_Inr_iff)

lemma js_all_length: "js_all f xs = Inr ys \<Longrightarrow> length ys = length xs"
  by (drule js_all_Inr) (simp add: list_all2_lengthD)

lemma js_all_mem: "js_all f xs = Inr ys \<Longrightarrow> y \<in> set ys \<Longrightarrow> \<exists>x\<in>set xs. f x = Inr y"
  by (induction xs arbitrary: ys) (auto simp: js_bind_Inr_iff)

lemma js_all_pure: "(\<And>x. x \<in> set xs \<Longrightarrow> f x = Inr (g x)) \<Longrightarrow> js_all f xs = Inr (map g xs)"
  by (induction xs) auto

section \<open>BigInt arithmetic\<close>

definition tdiv :: "int \<Rightarrow> int \<Rightarrow> int" where
  "tdiv a b = sgn a * sgn b * (\<bar>a\<bar> div \<bar>b\<bar>)"

definition big_div :: "int \<Rightarrow> int \<Rightarrow> int js" where
  "big_div a b = (if b = 0 then Inl RangeError else Inr (tdiv a b))"

lemma le_div_iff: "0 < b \<Longrightarrow> q \<le> a div b \<longleftrightarrow> q * b \<le> a" for a b q :: int
proof
  assume b: "0 < b" and "q \<le> a div b"
  then have "q * b \<le> a div b * b" by (simp add: mult_right_mono)
  also have "\<dots> \<le> a" using b pos_mod_sign [of b a] div_mult_mod_eq [of a b] by linarith
  finally show "q * b \<le> a" .
next
  assume b: "0 < b" and "q * b \<le> a"
  then have "(q * b) div b \<le> a div b" by (intro zdiv_mono1)
  with b show "q \<le> a div b" by simp
qed

lemma div_less_iff: "0 < b \<Longrightarrow> a div b < q \<longleftrightarrow> a < q * b" for a b q :: int
  using le_div_iff [of b q a] by linarith

lemma div_mult_below: "0 < b \<Longrightarrow> a div b * b \<le> a" for a b :: int
  using le_div_iff [of b "a div b" a] by simp

text \<open>\<open>a % b\<close>: the sign follows the dividend.\<close>

definition tmod :: "int \<Rightarrow> int \<Rightarrow> int" where
  "tmod a b = a - b * tdiv a b"

lemma tdiv_nonneg [amount_simps]: "0 \<le> a \<Longrightarrow> 0 < b \<Longrightarrow> tdiv a b = a div b"
  by (cases "a = 0") (simp_all add: tdiv_def)

lemma tdiv_0_left [simp]: "tdiv 0 b = 0"
  by (simp add: tdiv_def)

lemma tdiv_neg: "a < 0 \<Longrightarrow> 0 < b \<Longrightarrow> tdiv a b = - ((- a) div b)"
  by (simp add: tdiv_def)

lemma tdiv_sign:
  assumes "0 < b"
  shows "0 \<le> a \<Longrightarrow> 0 \<le> tdiv a b" and "a \<le> 0 \<Longrightarrow> tdiv a b \<le> 0"
  using assms by (auto simp: tdiv_def sgn_if zdiv_int pos_imp_zdiv_nonneg_iff)

lemma tdiv_mono:
  assumes "0 < b" and "a \<le> c"
  shows "tdiv a b \<le> tdiv c b"
proof (cases "0 \<le> a")
  case True
  with assms show ?thesis by (simp add: tdiv_nonneg zdiv_mono1)
next
  case False
  show ?thesis
  proof (cases "0 \<le> c")
    case True
    from False assms(1) have "tdiv a b \<le> 0" by (intro tdiv_sign) auto
    also from True assms(1) have "0 \<le> tdiv c b" by (intro tdiv_sign)
    finally show ?thesis .
  next
    case c: False
    from assms(2) have "(- c) div b \<le> (- a) div b" using assms(1) by (intro zdiv_mono1) auto
    with False c assms(1) show ?thesis by (simp add: tdiv_neg)
  qed
qed

lemma tdiv_mult_le: "0 \<le> a \<Longrightarrow> 0 < b \<Longrightarrow> tdiv a b * b \<le> a"
  by (simp add: tdiv_nonneg div_mult_below)

lemma tdiv_le_iff: "0 \<le> a \<Longrightarrow> 0 < b \<Longrightarrow> q \<le> tdiv a b \<longleftrightarrow> q * b \<le> a"
  by (simp add: tdiv_nonneg le_div_iff)
    
lemma tdiv_less_iff: "0 \<le> a \<Longrightarrow> 0 < b \<Longrightarrow> tdiv a b < q \<longleftrightarrow> a < q * b"
  using tdiv_le_iff [of a b q] by linarith

lemma big_div_pos [simp]: "b \<noteq> 0 \<Longrightarrow> big_div a b = Inr (tdiv a b)"
  by (simp add: big_div_def)

text \<open>\<open>muldivCeil(a, b, d) = (a * b + d - 1n) / d\<close>, which the server and the TWAP
  keeper both declare.\<close>

definition muldiv_ceil :: "int \<Rightarrow> int \<Rightarrow> int \<Rightarrow> int js" where
  "muldiv_ceil a b d = big_div (a * b + d - 1) d"

text \<open>The rounded-up quotient as a total function, for divisors known to be positive.\<close>

definition cdiv :: "int \<Rightarrow> int \<Rightarrow> int" where
  "cdiv n d = (n + d - 1) div d"

lemma muldiv_ceil_eq: "0 \<le> a * b \<Longrightarrow> 0 < d \<Longrightarrow> muldiv_ceil a b d = Inr (cdiv (a * b) d)"
  by (simp add: muldiv_ceil_def cdiv_def tdiv_nonneg)

lemma cdiv_le_iff: "0 < d \<Longrightarrow> cdiv n d \<le> q \<longleftrightarrow> n \<le> q * d"
proof -
  assume d: "0 < d"
  have "cdiv n d \<le> q \<longleftrightarrow> cdiv n d < q + 1" by auto
  also have "\<dots> \<longleftrightarrow> n + d - 1 < (q + 1) * d"
    unfolding cdiv_def by (rule div_less_iff [OF d])
  also have "\<dots> \<longleftrightarrow> n \<le> q * d" by (auto simp: algebra_simps)
  finally show ?thesis .
qed

lemma less_cdiv_iff: "0 < d \<Longrightarrow> q < cdiv n d \<longleftrightarrow> q * d < n"
  using cdiv_le_iff [of d n q] by auto

lemma cdiv_mono: "0 < d \<Longrightarrow> n \<le> m \<Longrightarrow> cdiv n d \<le> cdiv m d"
  by (simp add: cdiv_def zdiv_mono1)

lemma cdiv_ge: "0 < d \<Longrightarrow> n \<le> cdiv n d * d"
  using cdiv_le_iff [of d n "cdiv n d"] by simp

lemma cdiv_nonneg: "0 < d \<Longrightarrow> 0 \<le> n \<Longrightarrow> 0 \<le> cdiv n d"
  by (simp add: cdiv_def pos_imp_zdiv_nonneg_iff)

lemma cdiv_pos: "0 < d \<Longrightarrow> 0 < n \<Longrightarrow> 0 < cdiv n d"
  by (simp add: less_cdiv_iff)

lemma cdiv_0 [simp]: "0 < d \<Longrightarrow> cdiv 0 d = 0"
  by (simp add: cdiv_def)

section \<open>Fees rounded up\<close>

text \<open>The arithmetic of a fee of \<open>fee / den\<close>, rounded up against the payer.\<close>

locale fee_schedule =
  fixes fee :: int and den :: int
  assumes fee_nonneg: "0 \<le> fee" and fee_less: "fee < den"
begin

lemma den_pos: "0 < den"
  using fee_nonneg fee_less by linarith

text \<open>What is left of a gross payment covers a net amount exactly from the
  rounded-up quotient on.\<close>

lemma net_ge_iff: "net \<le> g - cdiv (g * fee) den \<longleftrightarrow> cdiv (net * den) (den - fee) \<le> g"
proof -
  have "net \<le> g - cdiv (g * fee) den \<longleftrightarrow> cdiv (g * fee) den \<le> g - net" by linarith
  also have "\<dots> \<longleftrightarrow> g * fee \<le> (g - net) * den" using den_pos by (rule cdiv_le_iff)
  also have "\<dots> \<longleftrightarrow> net * den \<le> g * (den - fee)" by (simp add: algebra_simps)
  also have "\<dots> \<longleftrightarrow> cdiv (net * den) (den - fee) \<le> g"
    using fee_less by (intro cdiv_le_iff [symmetric]) simp
  finally show ?thesis .
qed

lemma fee_bounds:
  assumes "0 \<le> g"
  shows "0 \<le> cdiv (g * fee) den" "cdiv (g * fee) den \<le> g"
proof -
  show "0 \<le> cdiv (g * fee) den" using assms fee_nonneg den_pos by (intro cdiv_nonneg) auto
  have "g * fee \<le> g * den" using assms fee_less by (intro mult_left_mono) auto
  then show "cdiv (g * fee) den \<le> g" using den_pos by (simp add: cdiv_le_iff)
qed

text \<open>The net part of a budget, rounded down, is affordable within the budget.\<close>

lemma gross_of_net_part:
  assumes "net \<le> g * (den - fee) div den"
  shows "cdiv (net * den) (den - fee) \<le> g"
proof -
  from assms have "net * den \<le> g * (den - fee)" using den_pos by (simp add: le_div_iff)
  then show ?thesis using fee_less by (simp add: cdiv_le_iff)
qed

lemma gross_above_net_part:
  assumes "g * (den - fee) div den < net"
  shows "g < cdiv (net * den) (den - fee)"
proof -
  from assms have "g * (den - fee) < net * den" using den_pos by (simp add: div_less_iff)
  then show ?thesis using fee_less by (simp add: less_cdiv_iff)
qed

end

section \<open>JavaScript maps\<close>

text \<open>\<open>new Map<K, V>()\<close>: an association list in insertion order, keys distinct.\<close>

type_synonym ('k, 'v) jmap = "('k \<times> 'v) list"

definition jm_empty :: "('k, 'v) jmap" where
  "jm_empty = []"

definition jm_get :: "('k, 'v) jmap \<Rightarrow> 'k \<Rightarrow> 'v option" where
  "jm_get m k = map_of m k"

fun jm_set :: "'k \<Rightarrow> 'v \<Rightarrow> ('k, 'v) jmap \<Rightarrow> ('k, 'v) jmap" where
  "jm_set k v [] = [(k, v)]"
| "jm_set k v ((k', v') # m) = (if k' = k then (k, v) # m else (k', v') # jm_set k v m)"

definition jm_delete :: "'k \<Rightarrow> ('k, 'v) jmap \<Rightarrow> ('k, 'v) jmap" where
  "jm_delete k m = filter (\<lambda>e. fst e \<noteq> k) m"

definition jm_ok :: "('k, 'v) jmap \<Rightarrow> bool" where
  "jm_ok m \<longleftrightarrow> distinct (map fst m)"

locale js_map =
  fixes empty :: "'m"
    and get :: "'m \<Rightarrow> 'k \<Rightarrow> 'v option"
    and put :: "'k \<Rightarrow> 'v \<Rightarrow> 'm \<Rightarrow> 'm"
    and del :: "'k \<Rightarrow> 'm \<Rightarrow> 'm"
    and size_of :: "'m \<Rightarrow> nat"
    and ok :: "'m \<Rightarrow> bool"
  assumes ok_empty: "ok empty"
    and ok_put: "ok m \<Longrightarrow> ok (put k v m)"
    and ok_del: "ok m \<Longrightarrow> ok (del k m)"
    and get_empty: "get empty k = None"
    and get_put: "get (put k v m) k' = (if k' = k then Some v else get m k')"
    and get_del: "get (del k m) k' = (if k' = k then None else get m k')"
    and size_put: "ok m \<Longrightarrow> size_of (put k v m) = (if get m k = None then Suc (size_of m) else size_of m)"
    and size_del: "ok m \<Longrightarrow> size_of (del k m) = (if get m k = None then size_of m else size_of m - 1)"
begin

lemma get_put_same: "get (put k v m) k = Some v"
  by (simp add: get_put)

lemma get_put_other: "k' \<noteq> k \<Longrightarrow> get (put k v m) k' = get m k'"
  by (simp add: get_put)

lemma size_put_le: "ok m \<Longrightarrow> size_of (put k v m) \<le> Suc (size_of m)"
  by (simp add: size_put)

lemma del_put_absent: "get m k = None \<Longrightarrow> get (del k (put k v m)) = get m"
  by (rule ext) (simp add: get_del get_put)

end

lemma jm_set_keys: "fst ` set (jm_set k v m) = insert k (fst ` set m)"
  by (induction k v m rule: jm_set.induct) auto

lemma jm_set_map_of: "map_of (jm_set k v m) = (map_of m)(k \<mapsto> v)"
  by (induction k v m rule: jm_set.induct) auto

lemma jm_set_distinct: "distinct (map fst m) \<Longrightarrow> distinct (map fst (jm_set k v m))"
  by (induction k v m rule: jm_set.induct) (auto simp: jm_set_keys)

lemma jm_set_length:
  "length (jm_set k v m) = (if map_of m k = None then Suc (length m) else length m)"
  by (induction k v m rule: jm_set.induct) auto

lemma jm_delete_distinct: "distinct (map fst m) \<Longrightarrow> distinct (map fst (jm_delete k m))"
  by (simp add: jm_delete_def distinct_map_filter)

lemma jm_delete_map_of: "map_of (jm_delete k m) k' = (if k' = k then None else map_of m k')"
  by (induction m) (auto simp: jm_delete_def)

lemma jm_delete_length:
  "distinct (map fst m) \<Longrightarrow>
    length (jm_delete k m) = (if map_of m k = None then length m else length m - 1)"
proof (induction m)
  case Nil
  then show ?case by (simp add: jm_delete_def)
next
  case (Cons e m)
  show ?case
  proof (cases "fst e = k")
    case True
    with Cons.prems have "\<forall>x\<in>set m. fst x \<noteq> k"
      by (metis distinct.simps(2) image_eqI list.map(2) set_map)
    then have "filter (\<lambda>e. fst e \<noteq> k) m = m" by (simp add: filter_id_conv)
    with True show ?thesis by (cases e) (simp add: jm_delete_def)
  next
    case False
    with Cons have "length (jm_delete k m) = (if map_of m k = None then length m else length m - 1)"
      by simp
    moreover have "map_of m k \<noteq> None \<Longrightarrow> m \<noteq> []" by auto
    ultimately show ?thesis using False by (cases e) (auto simp: jm_delete_def)
  qed
qed

interpretation jm: js_map jm_empty jm_get jm_set jm_delete length jm_ok
  by unfold_locales
    (auto simp: jm_empty_def jm_get_def jm_ok_def jm_set_map_of jm_set_distinct jm_delete_distinct
      jm_delete_map_of jm_set_length jm_delete_length)

lemma jm_get_mem: "jm_get m k = Some v \<Longrightarrow> (k, v) \<in> set m"
  by (simp add: jm_get_def map_of_SomeD)

lemma jm_get_iff: "jm_ok m \<Longrightarrow> jm_get m k = Some v \<longleftrightarrow> (k, v) \<in> set m"
  by (simp add: jm_get_def jm_ok_def)

lemma jm_set_mem: "(k', v') \<in> set (jm_set k v m) \<Longrightarrow> (k', v') = (k, v) \<or> (k', v') \<in> set m"
  by (induction k v m rule: jm_set.induct) (auto split: if_splits)

lemma jm_delete_set: "set (jm_delete k m) = {e \<in> set m. fst e \<noteq> k}"
  by (auto simp: jm_delete_def)

section \<open>Array.prototype.sort\<close>

text \<open>
  \<open>gt a b\<close> says that the comparator answers a positive number for \<open>(a, b)\<close>;
  a NaN or negative answer keeps the order. For a comparator that is a total preorder the
  result of the standard's stable sort is unique, so any stable algorithm models it.
\<close>

fun js_insert :: "('a \<Rightarrow> 'a \<Rightarrow> bool) \<Rightarrow> 'a \<Rightarrow> 'a list \<Rightarrow> 'a list" where
  "js_insert gt x [] = [x]"
| "js_insert gt x (y # ys) = (if gt x y then y # js_insert gt x ys else x # y # ys)"

fun js_sort :: "('a \<Rightarrow> 'a \<Rightarrow> bool) \<Rightarrow> 'a list \<Rightarrow> 'a list" where
  "js_sort gt [] = []"
| "js_sort gt (x # xs) = js_insert gt x (js_sort gt xs)"

lemma js_insert_set [simp]: "set (js_insert gt x xs) = insert x (set xs)"
  by (induction xs) auto

lemma js_sort_set [simp]: "set (js_sort gt xs) = set xs"
  by (induction xs) auto

lemma js_insert_length [simp]: "length (js_insert gt x xs) = Suc (length xs)"
  by (induction xs) auto

lemma js_sort_length [simp]: "length (js_sort gt xs) = length xs"
  by (induction xs) auto

lemma js_insert_distinct: "distinct (js_insert gt x xs) \<longleftrightarrow> x \<notin> set xs \<and> distinct xs"
  by (induction xs) auto

lemma js_sort_distinct [simp]: "distinct (js_sort gt xs) = distinct xs"
  by (induction xs) (auto simp: js_insert_distinct)

lemma js_sort_sum: "(\<Sum>x\<leftarrow>js_sort gt xs. f x) = (\<Sum>x\<leftarrow>xs. f x)" for f :: "'a \<Rightarrow> int"
proof -
  have ins: "(\<Sum>x\<leftarrow>js_insert gt y ys. f x) = f y + (\<Sum>x\<leftarrow>ys. f x)" for y ys
    by (induction ys) auto
  show ?thesis by (induction xs) (auto simp: ins)
qed

text \<open>When the comparator compares a key of a linear order, \<open>js_sort\<close> is
  \<open>sort_key\<close> of the library.\<close>

lemma js_insert_key:
  "js_insert (\<lambda>a b. key b < key a) x xs = insort_key key x xs" for key :: "'a \<Rightarrow> 'b::linorder"
  by (induction xs) auto

lemma js_sort_key: "js_sort (\<lambda>a b. key b < key a) xs = sort_key key xs"
  for key :: "'a \<Rightarrow> 'b::linorder"
  by (induction xs) (simp_all add: js_insert_key)

lemma js_sort_sorted: "sorted (map key (js_sort (\<lambda>a b. key b < key a) xs))"
  for key :: "'a \<Rightarrow> 'b::linorder"
  by (simp add: js_sort_key)

end
