(* ===== verification/JsNumber.thy ===== *)
theory JsNumber
  imports Prelude Complex_Main "HOL-Library.Log_Nat"
begin

text \<open>
  JavaScript's \<open>number\<close>: IEEE 754 binary64. A finite double is the rational it
  denotes (the two zeros are one value: no modelled expression tells them apart), and every
  arithmetic operation is the exact rational operation followed by \<open>rnd\<close>, the
  round-to-nearest-even into the 53-bit format with gradual underflow and overflow to the
  infinities. The lemmas the components use: \<open>rnd\<close> is monotone, exact on integers up
  to \<open>2 ^ 53\<close>, and a difference of integer-valued doubles keeps its sign (which makes
  \<open>(a, b) => a.key - b.key\<close> a sorting comparator).
\<close>

section \<open>Rounding to the nearest integer, ties to even\<close>

definition rhe :: "rat \<Rightarrow> int" where
  "rhe x = (let f = \<lfloor>x\<rfloor>; d = x - of_int f
            in if d < 1 / 2 then f else if 1 / 2 < d then f + 1 else if even f then f else f + 1)"

lemma rhe_of_int [simp]: "rhe (of_int n) = n"
  by (simp add: rhe_def)

lemma rhe_bounds: "\<lfloor>x\<rfloor> \<le> rhe x" "rhe x \<le> \<lfloor>x\<rfloor> + 1"
  by (simp_all add: rhe_def Let_def)

lemma rhe_mono: "x \<le> y \<Longrightarrow> rhe x \<le> rhe y"
proof -
  assume xy: "x \<le> y"
  then have "\<lfloor>x\<rfloor> \<le> \<lfloor>y\<rfloor>" by (rule floor_mono)
  then consider "\<lfloor>x\<rfloor> + 1 \<le> \<lfloor>y\<rfloor>" | "\<lfloor>x\<rfloor> = \<lfloor>y\<rfloor>" by linarith
  then show ?thesis
  proof cases
    case 1
    with rhe_bounds(2) [of x] rhe_bounds(1) [of y] show ?thesis by linarith
  next
    case 2
    with xy show ?thesis by (auto simp: rhe_def Let_def)
  qed
qed

lemma rhe_le_int: "x \<le> of_int n \<Longrightarrow> rhe x \<le> n"
  using rhe_mono [of x "of_int n"] by simp

lemma rhe_ge_int: "of_int n \<le> x \<Longrightarrow> n \<le> rhe x"
  using rhe_mono [of "of_int n" x] by simp

section \<open>Binary exponent and unit in the last place\<close>

definition ilog2 :: "rat \<Rightarrow> int" where
  "ilog2 x = (let (p, q) = quotient_of x; e = bitlen p - bitlen q
              in if 2 powi e \<le> x then e else e - 1)"

lemma bitlen_pos_bounds:
  "0 < p \<Longrightarrow> (2::rat) powi (bitlen p - 1) \<le> of_int p \<and> of_int p < (2::rat) powi bitlen p"
proof -
  assume p: "0 < p"
  from bitlen_bounds [OF p]
  have b: "2 ^ nat (bitlen p - 1) \<le> p" "p < 2 ^ nat (bitlen p)" by auto
  have pos: "0 < bitlen p" using p by (metis bitlen_eq_zero_iff bitlen_nonneg not_le order.order_iff_strict)
  from b have "of_int (2 ^ nat (bitlen p - 1)) \<le> (of_int p :: rat)"
    and "(of_int p :: rat) < of_int (2 ^ nat (bitlen p))"
    by (simp_all only: of_int_le_iff of_int_less_iff)
  with pos show ?thesis by (simp add: power_int_def)
qed

lemma ilog2_bounds:
  assumes x: "0 < x"
  shows "2 powi ilog2 x \<le> x" "x < 2 powi (ilog2 x + 1)"
proof -
  obtain p q where pq: "quotient_of x = (p, q)" by force
  then have xq: "x = of_int p / of_int q" and q: "0 < q"
    by (auto simp: quotient_of_div quotient_of_denom_pos)
  with x have p: "0 < p" by (simp add: zero_less_divide_iff)
  define e where "e = bitlen p - bitlen q"
  note bp = bitlen_pos_bounds [OF p] and bq = bitlen_pos_bounds [OF q]
  have hi: "x < 2 powi (e + 1)"
  proof -
    have "of_int p < (2::rat) powi (bitlen p - (bitlen q - 1)) * 2 powi (bitlen q - 1)"
      using bp by (simp flip: power_int_add)
    also have "\<dots> \<le> 2 powi (bitlen p - (bitlen q - 1)) * of_int q"
      using bq by (intro mult_left_mono) auto
    finally show ?thesis using q by (simp add: xq e_def pos_divide_less_eq algebra_simps)
  qed
  have lo: "2 powi (e - 1) \<le> x"
  proof -
    have "(2::rat) powi (e - 1) * of_int q \<le> 2 powi (e - 1) * 2 powi bitlen q"
      using bq by (intro mult_left_mono) auto
    also have "\<dots> = 2 powi (bitlen p - 1)" by (simp add: e_def flip: power_int_add)
    also have "\<dots> \<le> of_int p" using bp by simp
    finally show ?thesis using q by (simp add: xq pos_le_divide_eq)
  qed
  from hi lo show "2 powi ilog2 x \<le> x" "x < 2 powi (ilog2 x + 1)"
    by (auto simp: ilog2_def pq e_def [symmetric])
qed

lemma ilog2_mono: "0 < x \<Longrightarrow> x \<le> y \<Longrightarrow> ilog2 x \<le> ilog2 y"
proof (rule ccontr)
  assume x: "0 < x" "x \<le> y" and "\<not> ilog2 x \<le> ilog2 y"
  then have "ilog2 y + 1 \<le> ilog2 x" by simp
  then have "(2::rat) powi (ilog2 y + 1) \<le> 2 powi ilog2 x" by (intro power_int_increasing) auto
  with ilog2_bounds [of x] ilog2_bounds [of y] x show False by linarith
qed

definition ulp_exp :: "rat \<Rightarrow> int" where
  "ulp_exp a = max (ilog2 a - 52) (-1074)"

definition ulp :: "rat \<Rightarrow> rat" where
  "ulp a = 2 powi ulp_exp a"

lemma ulp_pos [simp]: "0 < ulp a"
  by (simp add: ulp_def)

lemma ulp_nonneg [simp]: "0 \<le> ulp a"
  by (rule less_imp_le) simp

text \<open>The magnitude of the nearest double of a positive rational, ignoring overflow.\<close>

definition mag :: "rat \<Rightarrow> rat" where
  "mag a = of_int (rhe (a / ulp a)) * ulp a"

lemma powi_int: "0 \<le> k \<Longrightarrow> (2::rat) powi k = of_int (2 ^ nat k)"
  by (simp add: power_int_def)

lemma mag_below_pow:
  assumes a: "0 < a" and k: "ilog2 a < k" "-1074 \<le> k"
  shows "mag a \<le> 2 powi k"
proof -
  have ue: "ulp_exp a \<le> k" using k by (auto simp: ulp_exp_def)
  have "a < 2 powi (ilog2 a + 1)" using a by (rule ilog2_bounds)
  also have "\<dots> \<le> 2 powi k" using k by (intro power_int_increasing) auto
  also have "(2::rat) powi k = 2 powi (k - ulp_exp a) * ulp a"
    by (simp add: ulp_def flip: power_int_add)
  finally have "a / ulp a \<le> 2 powi (k - ulp_exp a)" by (simp add: divide_le_eq)
  with ue have "rhe (a / ulp a) \<le> 2 ^ nat (k - ulp_exp a)"
    by (intro rhe_le_int) (simp add: powi_int)
  then have "(of_int (rhe (a / ulp a)) :: rat) \<le> of_int (2 ^ nat (k - ulp_exp a))"
    by (simp only: of_int_le_iff)
  then have "mag a \<le> 2 powi (k - ulp_exp a) * ulp a"
    using ue by (simp add: mag_def powi_int mult_right_mono)
  then show ?thesis by (simp add: ulp_def flip: power_int_add)
qed

lemma mag_above_pow:
  assumes a: "0 < a" and k: "k \<le> ilog2 a" "ulp_exp a \<le> k"
  shows "2 powi k \<le> mag a"
proof -
  have "(2::rat) powi k \<le> 2 powi ilog2 a" using k by (intro power_int_increasing) auto
  also have "\<dots> \<le> a" using a by (rule ilog2_bounds)
  finally have "2 powi (k - ulp_exp a) * ulp a \<le> a" by (simp add: ulp_def flip: power_int_add)
  then have "2 powi (k - ulp_exp a) \<le> a / ulp a" by (simp add: le_divide_eq)
  with k have "2 ^ nat (k - ulp_exp a) \<le> rhe (a / ulp a)"
    by (intro rhe_ge_int) (simp add: powi_int)
  then have "(of_int (2 ^ nat (k - ulp_exp a)) :: rat) \<le> of_int (rhe (a / ulp a))"
    by (simp only: of_int_le_iff)
  then have "2 powi (k - ulp_exp a) * ulp a \<le> mag a"
    using k by (simp add: mag_def powi_int mult_right_mono)
  then show ?thesis by (simp add: ulp_def flip: power_int_add)
qed

lemma mag_mono:
  assumes x: "0 < x" and xy: "x \<le> y"
  shows "mag x \<le> mag y"
proof -
  from x xy have y: "0 < y" by simp
  from ilog2_mono [OF x xy] have le: "ulp_exp x \<le> ulp_exp y" by (auto simp: ulp_exp_def)
  show ?thesis
  proof (cases "ulp_exp x = ulp_exp y")
    case True
    then have "ulp x = ulp y" by (simp add: ulp_def)
    moreover from this xy have "rhe (x / ulp x) \<le> rhe (y / ulp y)"
      by (intro rhe_mono) (simp add: divide_right_mono)
    ultimately show ?thesis by (simp add: mag_def mult_right_mono)
  next
    case False
    with le have lt: "ulp_exp x < ulp_exp y" by simp
    then have uy: "ulp_exp y = ilog2 y - 52" "ilog2 x < ilog2 y" "-1074 \<le> ilog2 y"
      by (auto simp: ulp_exp_def max_def split: if_splits)
    with x y have "mag x \<le> 2 powi ilog2 y" and "2 powi ilog2 y \<le> mag y"
      by (auto intro: mag_below_pow mag_above_pow)
    then show ?thesis by simp
  qed
qed

lemma mag_nonneg: "0 < a \<Longrightarrow> 0 \<le> mag a"
proof -
  assume "0 < a"
  then have "0 \<le> rhe (a / ulp a)" by (intro rhe_ge_int) (simp add: less_imp_le)
  then show ?thesis by (simp add: mag_def)
qed

lemma mag_int:
  assumes n: "0 < n" "n \<le> 2 ^ 53"
  shows "mag (of_int n) = of_int n"
proof (cases "n = 2 ^ 53")
  case False
  with n have "n < 2 ^ 53" by simp
  then have "(of_int n :: rat) < of_int (2 ^ 53)" by (simp only: of_int_less_iff)
  then have nn: "(of_int n :: rat) < 2 powi 53" by simp
  have "ilog2 (of_int n) < 53"
  proof (rule ccontr)
    assume "\<not> ilog2 (of_int n) < 53"
    then have "(2::rat) powi 53 \<le> 2 powi ilog2 (of_int n)" by (intro power_int_increasing) auto
    with ilog2_bounds(1) [of "of_int n"] n nn show False by simp
  qed
  then have ue: "ulp_exp (of_int n) \<le> 0" by (simp add: ulp_exp_def)
  have "of_int n / ulp (of_int n) = of_int n * 2 powi (- ulp_exp (of_int n))"
    by (simp add: ulp_def power_int_minus divide_inverse)
  also have "\<dots> = of_int (n * 2 ^ nat (- ulp_exp (of_int n)))" using ue by (simp add: powi_int)
  finally have eq: "of_int n / ulp (of_int n) = (of_int (n * 2 ^ nat (- ulp_exp (of_int n))) :: rat)" .
  then have "rhe (of_int n / ulp (of_int n)) = n * 2 ^ nat (- ulp_exp (of_int n))"
    by (simp only: rhe_of_int)
  then have "mag (of_int n) = of_int (n * 2 ^ nat (- ulp_exp (of_int n))) * ulp (of_int n)"
    by (simp only: mag_def)
  also have "\<dots> = of_int n / ulp (of_int n) * ulp (of_int n)" by (simp only: eq)
  also have "\<dots> = of_int n" using ulp_pos [of "of_int n"] by (simp del: ulp_pos)
  finally show ?thesis .
next
  case True
  have "ilog2 (2 ^ 53) = 53"
  proof (rule order.antisym)
    show "ilog2 (2 ^ 53) \<le> 53"
    proof (rule ccontr)
      assume "\<not> ilog2 (2 ^ 53) \<le> 53"
      then have "(2::rat) powi 54 \<le> 2 powi ilog2 (2 ^ 53)" by (intro power_int_increasing) auto
      with ilog2_bounds(1) [of "2 ^ 53"] show False by simp
    qed
    show "53 \<le> ilog2 (2 ^ 53)"
    proof (rule ccontr)
      assume "\<not> 53 \<le> ilog2 (2 ^ 53)"
      then have "(2::rat) powi (ilog2 (2 ^ 53) + 1) \<le> 2 powi 53" by (intro power_int_increasing) auto
      with ilog2_bounds(2) [of "2 ^ 53"] show False by simp
    qed
  qed
  then have u: "ulp (2 ^ 53) = 2" by (simp add: ulp_def ulp_exp_def)
  have "rhe (2 ^ 53 / 2) = 2 ^ 52" using rhe_of_int [of "2 ^ 52"] by simp
  with True u show ?thesis by (simp add: mag_def)
qed

section \<open>The values of the type number\<close>

datatype num = NaN | NInf | Fin rat | PInf

definition rnd :: "rat \<Rightarrow> num" where
  "rnd x = (if x = 0 then Fin 0
            else let m = mag \<bar>x\<bar>
                 in if 2 powi 1024 \<le> m then (if x < 0 then NInf else PInf)
                    else Fin (if x < 0 then - m else m))"

fun num_add :: "num \<Rightarrow> num \<Rightarrow> num" where
  "num_add NaN _ = NaN"
| "num_add _ NaN = NaN"
| "num_add (Fin a) (Fin b) = rnd (a + b)"
| "num_add PInf NInf = NaN"
| "num_add NInf PInf = NaN"
| "num_add PInf _ = PInf"
| "num_add _ PInf = PInf"
| "num_add NInf _ = NInf"
| "num_add _ NInf = NInf"

fun num_neg :: "num \<Rightarrow> num" where
  "num_neg NaN = NaN"
| "num_neg PInf = NInf"
| "num_neg NInf = PInf"
| "num_neg (Fin a) = Fin (- a)"

definition num_sub :: "num \<Rightarrow> num \<Rightarrow> num" where
  "num_sub a b = num_add a (num_neg b)"

text \<open>An infinity with the sign of the rational, NaN for \<open>0 * Infinity\<close>.\<close>

definition inf_of :: "rat \<Rightarrow> num" where
  "inf_of s = (if s = 0 then NaN else if s < 0 then NInf else PInf)"

fun num_sgn :: "num \<Rightarrow> rat" where
  "num_sgn NaN = 0"
| "num_sgn PInf = 1"
| "num_sgn NInf = -1"
| "num_sgn (Fin a) = sgn a"

fun num_mul :: "num \<Rightarrow> num \<Rightarrow> num" where
  "num_mul NaN _ = NaN"
| "num_mul _ NaN = NaN"
| "num_mul (Fin a) (Fin b) = rnd (a * b)"
| "num_mul a b = inf_of (num_sgn a * num_sgn b)"

fun num_div :: "num \<Rightarrow> num \<Rightarrow> num" where
  "num_div NaN _ = NaN"
| "num_div _ NaN = NaN"
| "num_div (Fin a) (Fin b) = (if b = 0 then inf_of a else rnd (a / b))"
| "num_div (Fin a) _ = Fin 0"
| "num_div a (Fin b) = inf_of (num_sgn a * (if b < 0 then -1 else 1))"
| "num_div _ _ = NaN"

text \<open>\<open>a < b\<close> and \<open>a <= b\<close> of the language: false when an operand is NaN.\<close>

fun num_lt :: "num \<Rightarrow> num \<Rightarrow> bool" where
  "num_lt NaN _ = False"
| "num_lt _ NaN = False"
| "num_lt (Fin a) (Fin b) = (a < b)"
| "num_lt NInf NInf = False"
| "num_lt NInf _ = True"
| "num_lt PInf _ = False"
| "num_lt _ NInf = False"
| "num_lt _ PInf = True"

definition num_le :: "num \<Rightarrow> num \<Rightarrow> bool" where
  "num_le a b \<longleftrightarrow> a \<noteq> NaN \<and> b \<noteq> NaN \<and> \<not> num_lt b a"

definition is_finite :: "num \<Rightarrow> bool" where
  "is_finite a \<longleftrightarrow> (case a of Fin _ \<Rightarrow> True | _ \<Rightarrow> False)"

text \<open>\<open>Math.max(a, b)\<close> and \<open>Math.min(a, b)\<close>\<close>

definition num_max :: "num \<Rightarrow> num \<Rightarrow> num" where
  "num_max a b = (if a = NaN \<or> b = NaN then NaN else if num_lt a b then b else a)"

definition num_min :: "num \<Rightarrow> num \<Rightarrow> num" where
  "num_min a b = (if a = NaN \<or> b = NaN then NaN else if num_lt b a then b else a)"

text \<open>\<open>Number(n)\<close> of a bigint.\<close>

definition num_of_big :: "int \<Rightarrow> num" where
  "num_of_big n = rnd (of_int n)"

section \<open>Facts about rounding\<close>

fun num_rank :: "num \<Rightarrow> int" where
  "num_rank NInf = 0"
| "num_rank (Fin _) = 1"
| "num_rank PInf = 2"
| "num_rank NaN = 3"

instantiation num :: linorder
begin

definition less_eq_num :: "num \<Rightarrow> num \<Rightarrow> bool" where
  "less_eq_num a b \<longleftrightarrow> num_rank a < num_rank b
    \<or> num_rank a = num_rank b \<and> (case (a, b) of (Fin x, Fin y) \<Rightarrow> x \<le> y | _ \<Rightarrow> True)"

definition less_num :: "num \<Rightarrow> num \<Rightarrow> bool" where
  "less_num a b \<longleftrightarrow> num_rank a < num_rank b
    \<or> num_rank a = num_rank b \<and> (case (a, b) of (Fin x, Fin y) \<Rightarrow> x < y | _ \<Rightarrow> False)"

instance
proof
  fix a b c :: num
  show "a < b \<longleftrightarrow> a \<le> b \<and> \<not> b \<le> a"
    by (cases a; cases b) (auto simp: less_eq_num_def less_num_def)
  show "a \<le> a" by (cases a) (auto simp: less_eq_num_def)
  show "a \<le> b \<Longrightarrow> b \<le> c \<Longrightarrow> a \<le> c"
    by (cases a; cases b; cases c) (auto simp: less_eq_num_def)
  show "a \<le> b \<Longrightarrow> b \<le> a \<Longrightarrow> a = b"
    by (cases a; cases b) (auto simp: less_eq_num_def)
  show "a \<le> b \<or> b \<le> a"
    by (cases a; cases b) (auto simp: less_eq_num_def)
qed

end

lemma num_order_simps [simp]:
  "Fin a \<le> Fin b \<longleftrightarrow> a \<le> b" "Fin a < Fin b \<longleftrightarrow> a < b"
  "NInf \<le> x" "Fin a \<le> PInf" "\<not> PInf \<le> Fin a" "\<not> Fin a \<le> NInf" "\<not> PInf \<le> NInf"
  "Fin a < PInf" "NInf < Fin a" "NInf < PInf" "\<not> PInf < Fin a" "\<not> Fin a < NInf"
  "x \<le> NaN" "\<not> NaN < x"
  by (cases x; simp add: less_eq_num_def less_num_def)+

text \<open>Away from NaN, the order of the type is the comparison of the language.\<close>

lemma num_lt_less: "a \<noteq> NaN \<Longrightarrow> b \<noteq> NaN \<Longrightarrow> num_lt a b \<longleftrightarrow> a < b"
  by (cases a; cases b) (auto simp: less_num_def)

lemma num_le_less_eq: "a \<noteq> NaN \<Longrightarrow> b \<noteq> NaN \<Longrightarrow> num_le a b \<longleftrightarrow> a \<le> b"
  by (simp add: num_le_def num_lt_less not_less)

lemma rnd_0 [simp]: "rnd 0 = Fin 0"
  by (simp add: rnd_def)

lemma rnd_not_NaN [simp]: "rnd x \<noteq> NaN"
  by (auto simp: rnd_def Let_def)

lemma rnd_sign:
  "0 \<le> x \<Longrightarrow> Fin 0 \<le> rnd x"
  "x \<le> 0 \<Longrightarrow> rnd x \<le> Fin 0"
  using mag_nonneg [of "\<bar>x\<bar>"] by (auto simp: rnd_def Let_def)

lemma rnd_mono_pos: "0 < x \<Longrightarrow> x \<le> y \<Longrightarrow> rnd x \<le> rnd y"
  using mag_mono [of x y] by (auto simp: rnd_def Let_def)

lemma rnd_neg: "rnd (- x) = num_neg (rnd x)"
  by (auto simp: rnd_def Let_def)

lemma num_neg_mono: "a \<noteq> NaN \<Longrightarrow> b \<noteq> NaN \<Longrightarrow> num_neg a \<le> num_neg b \<longleftrightarrow> b \<le> a"
  by (cases a; cases b) (auto simp: less_eq_num_def)

lemma rnd_mono: "x \<le> y \<Longrightarrow> rnd x \<le> rnd y"
proof -
  assume xy: "x \<le> y"
  consider "0 < x" | "x \<le> 0" "0 \<le> y" | "y < 0" by linarith
  then show ?thesis
  proof cases
    case 1
    then show ?thesis using xy by (rule rnd_mono_pos)
  next
    case 2
    then have "rnd x \<le> Fin 0" "Fin 0 \<le> rnd y" by (auto intro: rnd_sign)
    then show ?thesis by (rule order.trans)
  next
    case 3
    with xy have "rnd (- y) \<le> rnd (- x)" by (intro rnd_mono_pos) auto
    then show ?thesis by (simp add: rnd_neg num_neg_mono)
  qed
qed

lemma rnd_of_int: "\<bar>n\<bar> \<le> 2 ^ 53 \<Longrightarrow> rnd (of_int n) = Fin (of_int n)"
proof -
  assume n: "\<bar>n\<bar> \<le> 2 ^ 53"
  have pos: "rnd (of_int k) = Fin (of_int k)" if "0 < k" "k \<le> 2 ^ 53" for k
  proof -
    from that(2) have "k < 2 ^ 1024" by (rule order.strict_trans1) simp
    then have "(of_int k :: rat) < of_int (2 ^ 1024)" by (simp only: of_int_less_iff)
    with that show ?thesis by (simp add: rnd_def mag_int Let_def del: power_Suc)
  qed
  consider "n = 0" | "0 < n" | "0 < - n" by linarith
  then show ?thesis
  proof cases
    case 1
    then show ?thesis by simp
  next
    case 2
    with n show ?thesis by (simp add: pos)
  next
    case 3
    with n pos [of "- n"] have "rnd (- of_int n) = Fin (- of_int n)" by simp
    then show ?thesis by (simp add: rnd_neg) (cases "rnd (of_int n)"; simp)
  qed
qed

lemma rnd_1 [simp]: "rnd 1 = Fin 1"
  using rnd_of_int [of 1] by simp

lemma rnd_ge_1: "1 \<le> x \<Longrightarrow> Fin 1 \<le> rnd x"
  using rnd_mono [of 1 x] by simp

lemma rnd_numeral: "numeral k \<le> (2 ^ 53 :: int) \<Longrightarrow> rnd (numeral k) = Fin (numeral k)"
  using rnd_of_int [of "numeral k"] by simp

section \<open>Integer-valued doubles and the subtraction comparator\<close>

definition int_valued :: "num \<Rightarrow> bool" where
  "int_valued a \<longleftrightarrow> (case a of NaN \<Rightarrow> False | Fin x \<Rightarrow> x \<in> \<int> | _ \<Rightarrow> True)"

lemma num_of_big_not_NaN [simp]: "num_of_big n \<noteq> NaN"
  by (simp add: num_of_big_def)

lemma mag_of_int_Ints:
  assumes n: "0 < n"
  shows "mag (of_int n) \<in> \<int>"
proof (cases "n \<le> 2 ^ 53")
  case True
  with n show ?thesis by (simp add: mag_int)
next
  case False
  then have "(of_int (2 ^ 53) :: rat) \<le> of_int n" by (simp only: of_int_le_iff)
  then have "(2::rat) powi 53 \<le> of_int n" by simp
  moreover have "(of_int n :: rat) < 2 powi (ilog2 (of_int n) + 1)"
    using n by (intro ilog2_bounds) simp
  ultimately have lt: "(2::rat) powi 53 < 2 powi (ilog2 (of_int n) + 1)" by (rule order.strict_trans1)
  have "53 \<le> ilog2 (of_int n)"
  proof (rule ccontr)
    assume "\<not> 53 \<le> ilog2 (of_int n)"
    then have "(2::rat) powi (ilog2 (of_int n) + 1) \<le> 2 powi 53" by (intro power_int_increasing) auto
    with lt show False by simp
  qed
  then have "ulp (of_int n) = of_int (2 ^ nat (ulp_exp (of_int n)))"
    unfolding ulp_def by (intro powi_int) (simp add: ulp_exp_def)
  then have "ulp (of_int n) \<in> \<int>" by (simp only: Ints_of_int)
  then show ?thesis unfolding mag_def by (rule Ints_mult [OF Ints_of_int])
qed

lemma num_of_big_int_valued: "int_valued (num_of_big n)"
proof -
  consider "n = 0" | "0 < n" | "n < 0" by linarith
  then show ?thesis
  proof cases
    case 1
    then show ?thesis by (simp add: num_of_big_def int_valued_def)
  next
    case 2
    with mag_of_int_Ints [of n] show ?thesis
      by (simp add: num_of_big_def int_valued_def rnd_def Let_def)
  next
    case 3
    with mag_of_int_Ints [of "- n"] show ?thesis
      by (simp add: num_of_big_def int_valued_def rnd_def Let_def)
  qed
qed

lemma int_valued_inf [simp]: "int_valued PInf" "int_valued NInf" "\<not> int_valued NaN"
  by (simp_all add: int_valued_def)

lemma sub_comparator:
  assumes "int_valued a" "int_valued b"
  shows "num_lt (Fin 0) (num_sub a b) \<longleftrightarrow> b < a"
proof (cases "(a, b)")
  case (Pair a' b')
  show ?thesis
  proof (cases a)
    case a: (Fin x)
    show ?thesis
    proof (cases b)
      case b: (Fin y)
      from assms a b have "x - y \<in> \<int>" by (simp add: int_valued_def Ints_diff)
      then obtain k where k: "x - y = of_int k" by (auto elim: Ints_cases)
      show ?thesis
      proof (cases "0 < k")
        case True
        then have "1 \<le> x - y" using k by simp
        then have "Fin 1 \<le> rnd (x - y)" by (rule rnd_ge_1)
        then have "Fin 0 < rnd (x - y)" by (rule order.strict_trans2 [rotated]) simp
        moreover from True k have "y < x" by (metis diff_gt_0_iff_gt of_int_0_less_iff)
        ultimately show ?thesis using a b by (simp add: num_sub_def num_lt_less)
      next
        case False
        then have "x - y \<le> 0" using k by simp
        moreover from this have "rnd (x - y) \<le> Fin 0" by (rule rnd_sign)
        ultimately show ?thesis using a b by (simp add: num_sub_def num_lt_less)
      qed
    qed (use a assms in \<open>auto simp: num_sub_def\<close>)
  next
    case PInf
    then show ?thesis using assms by (cases b) (auto simp: num_sub_def less_num_def)
  next
    case NInf
    then show ?thesis using assms by (cases b) (auto simp: num_sub_def less_num_def)
  qed (use assms in auto)
qed

lemma num_of_big_mono: "n \<le> m \<Longrightarrow> num_of_big n \<le> num_of_big m"
  by (simp add: num_of_big_def rnd_mono)

lemma num_of_big_small: "\<bar>n\<bar> \<le> 2 ^ 53 \<Longrightarrow> num_of_big n = Fin (of_int n)"
  by (simp add: num_of_big_def rnd_of_int)

text \<open>No overflow for the amounts of the program (an \<open>i128\<close> is below \<open>2 ^ 127\<close>).\<close>

lemma rnd_finite:
  assumes "\<bar>x\<bar> \<le> 2 powi 1000"
  obtains r where "rnd x = Fin r"
proof (cases "x = 0")
  case False
  then have pos: "0 < \<bar>x\<bar>" by simp
  have "ilog2 \<bar>x\<bar> < 1001"
  proof (rule ccontr)
    assume "\<not> ilog2 \<bar>x\<bar> < 1001"
    then have "(2::rat) powi 1001 \<le> 2 powi ilog2 \<bar>x\<bar>" by (intro power_int_increasing) auto
    also have "\<dots> \<le> \<bar>x\<bar>" by (rule ilog2_bounds [OF pos])
    finally have "(2::rat) powi 1001 \<le> 2 powi 1000" using assms by simp
    moreover have "(2::rat) powi 1000 < 2 powi 1001" by (intro power_int_strict_increasing) auto
    ultimately show False by simp
  qed
  then have "mag \<bar>x\<bar> \<le> 2 powi 1001" by (intro mag_below_pow [OF pos]) auto
  also have "(2::rat) powi 1001 < 2 powi 1024" by (intro power_int_strict_increasing) auto
  finally have "\<not> 2 powi 1024 \<le> mag \<bar>x\<bar>" by simp
  with that show ?thesis by (cases "x < 0") (simp_all add: rnd_def False Let_def)
qed (use that in simp)

section \<open>Monotone operations\<close>

text \<open>\<open>Math.round\<close>: half up.\<close>

definition num_round :: "num \<Rightarrow> num" where
  "num_round x = (case x of Fin v \<Rightarrow> rnd (of_int \<lfloor>v + 1 / 2\<rfloor>) | _ \<Rightarrow> x)"

lemma rnd_le_PInf [simp]: "rnd x \<le> PInf"
  using rnd_not_NaN [of x] by (cases "rnd x") simp_all

lemma num_mul_mono:
  assumes "0 < c" "a \<le> b" "a \<noteq> NaN" "b \<noteq> NaN"
  shows "num_mul a (Fin c) \<le> num_mul b (Fin c) \<and> num_mul a (Fin c) \<noteq> NaN \<and> num_mul b (Fin c) \<noteq> NaN"
  using assms by (cases a; cases b) (auto simp: inf_of_def intro!: rnd_mono mult_right_mono)

lemma num_div_mono:
  assumes "0 < c" "a \<le> b" "a \<noteq> NaN" "b \<noteq> NaN"
  shows "num_div a (Fin c) \<le> num_div b (Fin c) \<and> num_div a (Fin c) \<noteq> NaN \<and> num_div b (Fin c) \<noteq> NaN"
  using assms by (cases a; cases b) (auto simp: inf_of_def intro!: rnd_mono divide_right_mono)

lemma num_round_mono:
  assumes "a \<le> b" "a \<noteq> NaN" "b \<noteq> NaN"
  shows "num_round a \<le> num_round b \<and> num_round a \<noteq> NaN \<and> num_round b \<noteq> NaN"
  using assms by (cases a; cases b) (auto simp: num_round_def floor_mono intro!: rnd_mono)

lemma num_of_big_127:
  assumes "0 < n" "n < 2 ^ 127"
  obtains x where "num_of_big n = Fin x" "1 \<le> x" "x \<le> 2 ^ 127"
proof -
  have big: "num_of_big (2 ^ 127) = Fin (2 ^ 127)" by code_simp
  have "num_of_big 1 \<le> num_of_big n" "num_of_big n \<le> num_of_big (2 ^ 127)"
    using assms by (simp_all add: num_of_big_mono)
  with that show thesis unfolding big by (cases "num_of_big n") (auto simp: num_of_big_small)
qed

end
