(* ===== verification/JsText.thy ===== *)
theory JsText
  imports JsNumber
begin

text \<open>
  JavaScript's text conversions and untyped values, as far as the server uses them: decimal
  strings of bigints, padding, \<open>split\<close>, \<open>trim\<close>, \<open>toUpperCase\<close>,
  \<open>BigInt(s)\<close>, \<open>Number(s)\<close>, \<open>parseFloat(s)\<close>, and the values a JSON
  body or a query string can hold with \<open>Number(v)\<close> and \<open>BigInt(v)\<close> of them.
  Strings are ASCII. The lemmas: printing a bigint and reading it back is the identity, and so is
  splitting a decimal string at its point.
\<close>

section \<open>Printing\<close>

text \<open>\<open>String(n)\<close>\<close>

definition digit_of :: "nat \<Rightarrow> char" where
  "digit_of d = char_of (48 + d)"

fun nat_string :: "nat \<Rightarrow> string" where
  "nat_string n = (if n < 10 then [digit_of n] else nat_string (n div 10) @ [digit_of (n mod 10)])"

declare nat_string.simps [simp del]

definition big_string :: "int \<Rightarrow> string" where
  "big_string n = (if n < 0 then CHR ''-'' # nat_string (nat (- n)) else nat_string (nat n))"

definition pad_start :: "nat \<Rightarrow> string \<Rightarrow> string" where
  "pad_start k s = replicate (k - length s) (CHR ''0'') @ s"

definition pad_end :: "nat \<Rightarrow> string \<Rightarrow> string" where
  "pad_end k s = s @ replicate (k - length s) (CHR ''0'')"

section \<open>Reading\<close>

definition is_digit :: "char \<Rightarrow> bool" where
  "is_digit c \<longleftrightarrow> 48 \<le> (of_char c :: nat) \<and> (of_char c :: nat) \<le> 57"

definition digit_val :: "char \<Rightarrow> nat" where
  "digit_val c = of_char c - 48"

definition digits_val :: "string \<Rightarrow> nat" where
  "digits_val s = foldl (\<lambda>n c. 10 * n + digit_val c) 0 s"

definition is_space :: "char \<Rightarrow> bool" where
  "is_space c \<longleftrightarrow> c = CHR '' '' \<or> (9 \<le> (of_char c :: nat) \<and> (of_char c :: nat) \<le> 13)"

definition trim :: "string \<Rightarrow> string" where
  "trim s = rev (dropWhile is_space (rev (dropWhile is_space s)))"

fun split_on :: "char \<Rightarrow> string \<Rightarrow> string list" where
  "split_on c [] = [[]]"
| "split_on c (x # xs) =
    (if x = c then [] # split_on c xs
     else case split_on c xs of [] \<Rightarrow> [[x]] | w # ws \<Rightarrow> (x # w) # ws)"

definition upper_char :: "char \<Rightarrow> char" where
  "upper_char c = (if 97 \<le> (of_char c :: nat) \<and> (of_char c :: nat) \<le> 122 then char_of (of_char c - 32 :: nat) else c)"

definition to_upper :: "string \<Rightarrow> string" where
  "to_upper = map upper_char"

text \<open>Digits of a base up to 16, for the \<open>0x\<close>, \<open>0o\<close> and \<open>0b\<close>
  literals that \<open>BigInt\<close> and \<open>Number\<close> also read.\<close>

definition base_digit :: "char \<Rightarrow> nat option" where
  "base_digit c =
    (let n = of_char (upper_char c) :: nat
     in if 48 \<le> n \<and> n \<le> 57 then Some (n - 48) else if 65 \<le> n \<and> n \<le> 70 then Some (n - 55) else None)"

fun base_val :: "nat \<Rightarrow> nat \<Rightarrow> string \<Rightarrow> nat option" where
  "base_val b acc [] = Some acc"
| "base_val b acc (c # cs) =
    (case base_digit c of Some d \<Rightarrow> if d < b then base_val b (b * acc + d) cs else None | None \<Rightarrow> None)"

definition prefixed :: "string \<Rightarrow> nat option" where
  "prefixed s =
    (case s of
       z # x # c # cs \<Rightarrow>
         if z \<noteq> CHR ''0'' then None
         else if upper_char x = CHR ''X'' then base_val 16 0 (c # cs)
         else if upper_char x = CHR ''O'' then base_val 8 0 (c # cs)
         else if upper_char x = CHR ''B'' then base_val 2 0 (c # cs)
         else None
     | _ \<Rightarrow> None)"

definition signed :: "(string \<Rightarrow> 'a) \<Rightarrow> ('a \<Rightarrow> 'a) \<Rightarrow> string \<Rightarrow> 'a" where
  "signed f neg s =
    (case s of
       c # cs \<Rightarrow> if c = CHR ''-'' then neg (f cs) else if c = CHR ''+'' then f cs else f s
     | [] \<Rightarrow> f s)"

definition dec_int :: "string \<Rightarrow> int option" where
  "dec_int s = (if s \<noteq> [] \<and> list_all is_digit s then Some (int (digits_val s)) else None)"

text \<open>\<open>BigInt(s)\<close>; the empty string is \<open>0n\<close>.\<close>

definition big_of_string :: "string \<Rightarrow> int js" where
  "big_of_string s =
    (let t = trim s
     in if t = [] then Inr 0
        else case prefixed t of
               Some n \<Rightarrow> Inr (int n)
             | None \<Rightarrow> (case signed dec_int (map_option uminus) t of Some n \<Rightarrow> Inr n | None \<Rightarrow> Inl (Thrown ''SyntaxError'')))"

text \<open>An unsigned decimal literal: digits, an optional fraction, an optional exponent.
  \<open>whole\<close> asks for the literal to be the whole text (\<open>Number\<close>), otherwise the longest
  prefix is read (\<open>parseFloat\<close>).\<close>

definition exponent :: "bool \<Rightarrow> string \<Rightarrow> int option" where
  "exponent whole s =
    (case s of
       [] \<Rightarrow> Some 0
     | c # cs \<Rightarrow>
         if upper_char c = CHR ''E''
         then let ds = (\<lambda>u. let d = takeWhile is_digit u in if d = [] \<or> whole \<and> d \<noteq> u then None else Some (int (digits_val d)))
              in (case signed ds (map_option uminus) cs of Some e \<Rightarrow> Some e | None \<Rightarrow> if whole then None else Some 0)
         else if whole then None else Some 0)"

definition dec_literal :: "bool \<Rightarrow> string \<Rightarrow> rat option" where
  "dec_literal whole s =
    (let a = takeWhile is_digit s; r = dropWhile is_digit s;
         point = (case r of c # _ \<Rightarrow> c = CHR ''.'' | [] \<Rightarrow> False);
         b = (if point then takeWhile is_digit (tl r) else []);
         rest = (if point then dropWhile is_digit (tl r) else r)
     in if a = [] \<and> b = [] then None
        else map_option (\<lambda>e. of_nat (digits_val (a @ b)) * 10 powi (e - int (length b))) (exponent whole rest))"

definition infinity_text :: string where
  "infinity_text = ''Infinity''"

definition dec_num :: "bool \<Rightarrow> string \<Rightarrow> num" where
  "dec_num whole s =
    (if (if whole then s = infinity_text else take 8 s = infinity_text) then PInf
     else case dec_literal whole s of Some q \<Rightarrow> rnd q | None \<Rightarrow> NaN)"

text \<open>\<open>Number(s)\<close>\<close>

definition num_of_string :: "string \<Rightarrow> num" where
  "num_of_string s =
    (let t = trim s
     in if t = [] then Fin 0
        else case prefixed t of Some n \<Rightarrow> rnd (of_nat n) | None \<Rightarrow> signed (dec_num True) num_neg t)"

definition parse_float :: "string \<Rightarrow> num" where
  "parse_float s = signed (dec_num False) num_neg (dropWhile is_space s)"

section \<open>Untyped values\<close>

datatype jv = JUndef | JNull | JBool bool | JNum num | JStr string | JArr "jv list" | JObj

text \<open>\<open>Number(v)\<close>. An array converts through its text, which is that of its only element;
  two elements give a comma and so NaN. A number survives the way through its text.\<close>

fun num_of_jv :: "jv \<Rightarrow> num" where
  "num_of_jv JUndef = NaN"
| "num_of_jv JNull = Fin 0"
| "num_of_jv (JBool b) = (if b then Fin 1 else Fin 0)"
| "num_of_jv (JNum n) = n"
| "num_of_jv (JStr s) = num_of_string s"
| "num_of_jv (JArr []) = Fin 0"
| "num_of_jv (JArr [v]) = (case v of JUndef \<Rightarrow> Fin 0 | JNull \<Rightarrow> Fin 0 | JBool _ \<Rightarrow> NaN | _ \<Rightarrow> num_of_jv v)"
| "num_of_jv (JArr (v # w # vs)) = NaN"
| "num_of_jv JObj = NaN"

text \<open>\<open>Number.isInteger(n)\<close>, and \<open>BigInt(n)\<close> of a number.\<close>

definition num_int :: "num \<Rightarrow> int option" where
  "num_int n = (case n of Fin q \<Rightarrow> if q = of_int \<lfloor>q\<rfloor> then Some \<lfloor>q\<rfloor> else None | _ \<Rightarrow> None)"

definition big_of_num :: "num \<Rightarrow> int js" where
  "big_of_num n = (case num_int n of Some k \<Rightarrow> Inr k | None \<Rightarrow> Inl RangeError)"

text \<open>\<open>Math.floor\<close>, \<open>Math.ceil\<close>: exact on the format.\<close>

definition num_floor :: "num \<Rightarrow> num" where
  "num_floor n = (case n of Fin q \<Rightarrow> Fin (of_int \<lfloor>q\<rfloor>) | _ \<Rightarrow> n)"

definition num_ceil :: "num \<Rightarrow> num" where
  "num_ceil n = (case n of Fin q \<Rightarrow> Fin (of_int \<lceil>q\<rceil>) | _ \<Rightarrow> n)"

section \<open>Round trips\<close>

lemma is_digit_digit_of: "d < 10 \<Longrightarrow> is_digit (digit_of d)"
  by (simp add: is_digit_def digit_of_def of_char_of)

lemma digit_val_digit_of: "d < 10 \<Longrightarrow> digit_val (digit_of d) = d"
  by (simp add: digit_val_def digit_of_def of_char_of)

lemma digits_val_snoc: "digits_val (s @ [c]) = 10 * digits_val s + digit_val c"
  by (simp add: digits_val_def)

lemma nat_string_digits: "list_all is_digit (nat_string n)"
  by (induction n rule: nat_string.induct) (subst nat_string.simps, simp add: is_digit_digit_of)

lemma nat_string_val: "digits_val (nat_string n) = n"
proof (induction n rule: nat_string.induct)
  case (1 n)
  then show ?case
    by (subst nat_string.simps) (auto simp: digits_val_snoc digit_val_digit_of digits_val_def [of "[_]"])
qed

lemma nat_string_ne: "nat_string n \<noteq> []"
  by (subst nat_string.simps) simp

lemma nat_string_length: "n < 10 ^ k \<Longrightarrow> 0 < k \<Longrightarrow> length (nat_string n) \<le> k"
proof (induction n arbitrary: k rule: nat_string.induct)
  case (1 n)
  show ?case
  proof (cases "n < 10")
    case True
    with 1(3) show ?thesis by (subst nat_string.simps) simp
  next
    case False
    then have k: "1 < k" using 1(2,3) by (cases "k = 1") auto
    with 1(2) have "n div 10 < 10 ^ (k - 1)" by (cases k) (auto simp: less_mult_imp_div_less)
    from 1(1) [OF False this] k have "length (nat_string (n div 10)) \<le> k - 1" by simp
    with k False show ?thesis by (subst nat_string.simps) simp
  qed
qed

lemma digits_val_append: "digits_val (s @ t) = digits_val s * 10 ^ length t + digits_val t"
proof (induction t rule: rev_induct)
  case (snoc c t)
  then show ?case unfolding append_assoc [symmetric] by (simp only: digits_val_snoc) simp
qed (simp add: digits_val_def)

lemma digits_val_zeros: "digits_val (replicate k (CHR ''0'') @ s) = digits_val s"
proof -
  have "digits_val (replicate k (CHR ''0'')) = 0"
  proof (induction k)
    case (Suc k)
    have "replicate (Suc k) (CHR ''0'') = replicate k (CHR ''0'') @ [CHR ''0'']" by (simp add: replicate_append_same)
    with Suc show ?case by (simp only: digits_val_snoc) (simp add: digit_val_def)
  qed (simp add: digits_val_def)
  then show ?thesis by (simp add: digits_val_append)
qed

lemma digit_not_space: "is_digit c \<Longrightarrow> \<not> is_space c"
  by (auto simp: is_digit_def is_space_def)

lemma trim_id: "s = [] \<or> \<not> is_space (hd s) \<and> \<not> is_space (last s) \<Longrightarrow> trim s = s"
proof (cases s)
  case (Cons a list)
  assume h: "s = [] \<or> \<not> is_space (hd s) \<and> \<not> is_space (last s)"
  then have "dropWhile is_space s = s" using Cons by simp
  moreover have "dropWhile is_space (rev s) = rev s"
    using h Cons by (cases s rule: rev_cases) (auto simp: dropWhile_eq_self_iff hd_append hd_rev split: if_splits)
  ultimately show ?thesis by (simp add: trim_def)
qed (simp add: trim_def)

lemma digits_no_prefix: "list_all is_digit s \<Longrightarrow> prefixed s = None"
  by (auto simp: prefixed_def is_digit_def upper_char_def split: list.splits)

lemma digits_unsigned: "list_all is_digit s \<Longrightarrow> signed f g s = f s"
  by (cases s) (auto simp: signed_def is_digit_def)

lemma big_of_digits:
  assumes "s \<noteq> []" "list_all is_digit s"
  shows "big_of_string s = Inr (int (digits_val s))"
proof -
  from assms have "trim s = s"
    by (intro trim_id) (simp add: list_all_iff digit_not_space)
  with assms show ?thesis by (simp add: big_of_string_def digits_no_prefix digits_unsigned dec_int_def)
qed

theorem big_string_round_trip: "big_of_string (big_string n) = Inr n"
proof (cases "n < 0")
  case True
  let ?ds = "nat_string (nat (- n))"
  have d: "list_all is_digit ?ds" "?ds \<noteq> []" by (simp_all add: nat_string_digits nat_string_ne)
  then have "is_digit (last ?ds)" by (simp add: list_all_iff)
  with d have "trim (CHR ''-'' # ?ds) = CHR ''-'' # ?ds"
    by (intro trim_id) (simp add: digit_not_space, simp add: is_space_def)
  moreover have "prefixed (CHR ''-'' # ?ds) = None" by (simp add: prefixed_def split: list.split)
  ultimately show ?thesis using True d
    by (simp add: big_string_def big_of_string_def signed_def dec_int_def nat_string_val)
next
  case False
  then show ?thesis using big_of_digits [of "nat_string (nat n)"]
    by (simp add: big_string_def nat_string_ne nat_string_digits nat_string_val)
qed

lemma split_on_absent: "c \<notin> set s \<Longrightarrow> split_on c s = [s]"
  by (induction s) auto

lemma split_on_once: "c \<notin> set s \<Longrightarrow> split_on c (s @ c # t) = s # split_on c t"
  by (induction s) auto

lemma digits_no_point: "list_all is_digit s \<Longrightarrow> CHR ''.'' \<notin> set s"
  by (auto simp: list_all_iff is_digit_def)

end
