(* ===== verification/QuoteCurve.thy ===== *)
theory QuoteCurve
  imports Prelude Complex_Main
begin

text \<open>
  The depth-point quote cache, \<open>backend/src/services/quote-curve-cache.ts\<close>.

  State: the sampled points per curve key, each list ascending in the input amount, and the
  set of samplings in flight. Asynchronous code is split where it awaits: \<open>quote_start\<close>
  is \<open>quote\<close> up to the await of the sampler, \<open>flight_done\<close> is the part after
  it. The text key \<open>key|amountIn\<close> of a flight is the pair it encodes (the amount is
  the text after the last bar).

  Lemmas: the chord and the flank never exceed the sampled curve when that curve is the
  rounding down of a concave function; every operation keeps the point lists ascending and
  the number of keys bounded; one sampling per (key, amount) at a time.
\<close>

section \<open>Reading an amount off sampled points\<close>

record curve_point =
  cp_in :: int
  cp_out :: int
  cp_ts :: int

definition within_ratio :: "int \<Rightarrow> int \<Rightarrow> bool" where
  "within_ratio a b \<longleftrightarrow> a \<le> tdiv (b * 16) 10 \<and> b \<le> tdiv (a * 16) 10"

definition below_first :: "curve_point \<Rightarrow> int \<Rightarrow> int option" where
  "below_first p a =
    (if \<not> within_ratio a (cp_in p) then None
     else if cp_out p = 0 then Some 0
     else let scaled = tdiv (a * cp_out p) (cp_in p);
              unit_rate = tdiv (cp_out p + cp_in p - 1) (cp_in p)
          in Some (if scaled > unit_rate then scaled - unit_rate else 0))"

definition chord :: "curve_point \<Rightarrow> curve_point \<Rightarrow> int \<Rightarrow> int option" where
  "chord lo hi a =
    (if \<not> within_ratio (cp_in lo) (cp_in hi) then None
     else if cp_out lo = 0 \<or> cp_out hi = 0 then None
     else let span = cp_in hi - cp_in lo; rise = cp_out hi - cp_out lo
          in if rise < 0 then None
             else Some (cp_out lo + tdiv ((a - cp_in lo) * rise) span))"

fun read_chord :: "curve_point list \<Rightarrow> int \<Rightarrow> int option" where
  "read_chord (lo # hi # ps) a =
    (if a > cp_in lo \<and> a < cp_in hi then chord lo hi a else read_chord (hi # ps) a)"
| "read_chord _ a = None"

definition read_off :: "curve_point list \<Rightarrow> int \<Rightarrow> int option" where
  "read_off ps a =
    (if ps = [] \<or> a \<le> 0 then None
     else case find (\<lambda>p. cp_in p = a) ps of
            Some p \<Rightarrow> Some (cp_out p)
          | None \<Rightarrow>
              (if a < cp_in (hd ps) then below_first (hd ps) a
               else if a > cp_in (last ps) then None
               else read_chord ps a))"

section \<open>The cache\<close>

type_synonym flight = "string \<times> int"

record curve_cache =
  qc_points :: "(string, curve_point list) jmap"
  qc_flights :: "(flight, unit) jmap"

definition qc_init :: curve_cache where
  "qc_init = \<lparr>qc_points = jm_empty, qc_flights = jm_empty\<rparr>"

text \<open>\<open>TTL_MS\<close> and \<open>MAX_KEYS\<close> with the environment unset.\<close>

definition default_ttl_ms :: int where
  "default_ttl_ms = 5000"

definition max_keys :: nat where
  "max_keys = 500"

definition fresh_points :: "int \<Rightarrow> int \<Rightarrow> string \<Rightarrow> curve_cache \<Rightarrow> curve_point list \<times> curve_cache" where
  "fresh_points ttl now key c =
    (case jm_get (qc_points c) key of
       None \<Rightarrow> ([], c)
     | Some pts \<Rightarrow>
         let fresh = filter (\<lambda>p. cp_ts p \<ge> now - ttl) pts
         in (fresh,
             if length fresh \<noteq> length pts
             then (if fresh = [] then c\<lparr>qc_points := jm_delete key (qc_points c)\<rparr>
                   else c\<lparr>qc_points := jm_set key fresh (qc_points c)\<rparr>)
             else c))"

text \<open>
  \<open>evictIfNeeded\<close>: the first loop drops curves whose points are all stale, the second the
  oldest keys; both test the size after every visited key. Deleting the key just visited
  does not disturb the iteration, so each loop runs over the entries it started with.
\<close>

fun evict_stale ::
  "nat \<Rightarrow> int \<Rightarrow> (string \<times> curve_point list) list \<Rightarrow> (string, curve_point list) jmap
    \<Rightarrow> bool \<times> (string, curve_point list) jmap" where
  "evict_stale cap cutoff [] m = (False, m)"
| "evict_stale cap cutoff ((k, v) # es) m =
    (let m' = (if \<forall>p\<in>set v. cp_ts p < cutoff then jm_delete k m else m)
     in if length m' \<le> cap then (True, m') else evict_stale cap cutoff es m')"

fun evict_oldest ::
  "nat \<Rightarrow> string list \<Rightarrow> (string, curve_point list) jmap \<Rightarrow> (string, curve_point list) jmap" where
  "evict_oldest cap [] m = m"
| "evict_oldest cap (k # ks) m =
    (let m' = jm_delete k m in if length m' \<le> cap then m' else evict_oldest cap ks m')"

definition evict_if_needed ::
  "nat \<Rightarrow> int \<Rightarrow> int \<Rightarrow> (string, curve_point list) jmap \<Rightarrow> (string, curve_point list) jmap" where
  "evict_if_needed cap ttl now m =
    (if length m \<le> cap then m
     else case evict_stale cap (now - ttl) m m of
            (True, m') \<Rightarrow> m'
          | (False, m') \<Rightarrow> evict_oldest cap (map fst m') m')"

definition insert_point :: "curve_point \<Rightarrow> curve_point list \<Rightarrow> curve_point list" where
  "insert_point p pts =
    js_sort (\<lambda>a b. cp_in b < cp_in a) (filter (\<lambda>q. cp_in q \<noteq> cp_in p) pts @ [p])"

definition cache_insert :: "int \<Rightarrow> int \<Rightarrow> string \<Rightarrow> curve_point \<Rightarrow> curve_cache \<Rightarrow> curve_cache" where
  "cache_insert ttl now key p c =
    (let pts = (case jm_get (qc_points c) key of None \<Rightarrow> [] | Some l \<Rightarrow> l)
     in c\<lparr>qc_points := evict_if_needed max_keys ttl now
            (jm_set key (insert_point p pts) (qc_points c))\<rparr>)"

datatype quote_reply =
    Answer int  \<comment> \<open>resolved without waiting\<close>
  | Join        \<comment> \<open>awaits the promise already in flight\<close>
  | Sample      \<comment> \<open>calls the sampler\<close>

definition quote_start :: "int \<Rightarrow> int \<Rightarrow> string \<Rightarrow> int \<Rightarrow> curve_cache \<Rightarrow> quote_reply \<times> curve_cache" where
  "quote_start ttl now key a c =
    (if a \<le> 0 then (Answer 0, c)
     else case fresh_points ttl now key c of
       (fresh, c') \<Rightarrow>
         (case read_off fresh a of
            Some v \<Rightarrow> (Answer v, c')
          | None \<Rightarrow>
              (if jm_get (qc_flights c') (key, a) \<noteq> None then (Join, c')
               else (Sample, c'\<lparr>qc_flights := jm_set (key, a) () (qc_flights c')\<rparr>))))"

text \<open>The sampler settled: \<open>None\<close> is a rejection, which answers \<open>0n\<close> and is not cached.\<close>

definition flight_done ::
  "int \<Rightarrow> int \<Rightarrow> string \<Rightarrow> int \<Rightarrow> int option \<Rightarrow> curve_cache \<Rightarrow> int \<times> curve_cache" where
  "flight_done ttl now key a res c =
    (let c' = (case res of
                 None \<Rightarrow> c
               | Some out \<Rightarrow> cache_insert ttl now key \<lparr>cp_in = a, cp_out = out, cp_ts = now\<rparr> c)
     in ((case res of None \<Rightarrow> 0 | Some out \<Rightarrow> out),
         c'\<lparr>qc_flights := jm_delete (key, a) (qc_flights c')\<rparr>))"

definition cache_stats :: "curve_cache \<Rightarrow> nat \<times> nat \<times> nat" where
  "cache_stats c =
    (length (qc_points c), sum_list (map (\<lambda>e. length (snd e)) (qc_points c)), length (qc_flights c))"

section \<open>Conservative reads\<close>

text \<open>
  What makes an interpolated quote safe: the venue's output is the rounding down of a
  concave function that is not negative at zero. The locale states it, its lemmas are the
  two ways of reading between samples.
\<close>

locale concave_curve =
  fixes g :: "rat \<Rightarrow> rat"
  assumes at_zero: "0 \<le> g 0"
    and concave: "0 \<le> x \<Longrightarrow> x < y \<Longrightarrow> y < z \<Longrightarrow> (g z - g x) * (y - x) \<le> (g y - g x) * (z - x)"
begin

lemma chord_below:
  assumes "0 \<le> l" "l < a" "a < h"
    and "of_int lo \<le> g (of_int l)" "of_int hi \<le> g (of_int h)"
  shows "lo + (a - l) * (hi - lo) div (h - l) \<le> \<lfloor>g (of_int a)\<rfloor>"
proof -
  let ?L = "of_int l :: rat" and ?A = "of_int a :: rat" and ?H = "of_int h :: rat"
  have pos: "0 < ?H - ?L" using assms by simp
  have "of_int lo * (?H - ?A) + of_int hi * (?A - ?L)
      \<le> g ?L * (?H - ?A) + g ?H * (?A - ?L)"
    using assms by (intro add_mono mult_right_mono) auto
  also have "\<dots> = (g ?H - g ?L) * (?A - ?L) + g ?L * (?H - ?L)" by (simp add: algebra_simps)
  also have "\<dots> \<le> (g ?A - g ?L) * (?H - ?L) + g ?L * (?H - ?L)"
    using concave [of ?L ?A ?H] assms by (intro add_mono) auto
  also have "\<dots> = g ?A * (?H - ?L)" by (simp add: algebra_simps)
  finally have "of_int lo * (?H - ?L) + (?A - ?L) * (of_int hi - of_int lo) \<le> g ?A * (?H - ?L)"
    by (simp add: algebra_simps)
  then have "of_int lo + (?A - ?L) * (of_int hi - of_int lo) / (?H - ?L) \<le> g ?A"
    using pos by (simp add: field_simps)
  moreover have "of_int ((a - l) * (hi - lo) div (h - l))
      \<le> (?A - ?L) * (of_int hi - of_int lo) / (?H - ?L)"
  proof -
    have "of_int ((a - l) * (hi - lo) div (h - l)) \<le> (of_int ((a - l) * (hi - lo)) / of_int (h - l) :: rat)"
      unfolding floor_divide_of_int_eq [where ?'a = rat, symmetric] by (rule of_int_floor_le)
    then show ?thesis by simp
  qed
  ultimately have "of_int (lo + (a - l) * (hi - lo) div (h - l)) \<le> g ?A" by simp
  then show ?thesis by (simp add: le_floor_iff)
qed

lemma flank_below:
  assumes "0 < a" "a < f" and "of_int out \<le> g (of_int f)"
  shows "a * out div f \<le> \<lfloor>g (of_int a)\<rfloor>"
  using chord_below [of 0 a f 0 out] at_zero assms by simp

end

definition ascending :: "curve_point list \<Rightarrow> bool" where
  "ascending ps \<longleftrightarrow> sorted_wrt (\<lambda>p q. cp_in p < cp_in q) ps"

text \<open>The points are positive amounts with the outputs the curve \<open>f\<close> gives them.\<close>

definition samples_of :: "(int \<Rightarrow> int) \<Rightarrow> curve_point list \<Rightarrow> bool" where
  "samples_of f ps \<longleftrightarrow> (\<forall>p\<in>set ps. 0 < cp_in p \<and> 0 \<le> cp_out p \<and> cp_out p = f (cp_in p))"

lemma samples_ofD: "samples_of f ps \<Longrightarrow> p \<in> set ps \<Longrightarrow> 0 < cp_in p \<and> 0 \<le> cp_out p \<and> f (cp_in p) = cp_out p"
  by (auto simp: samples_of_def)

lemma read_chord_SomeD:
  "read_chord ps a = Some v \<Longrightarrow>
    \<exists>lo\<in>set ps. \<exists>hi\<in>set ps. cp_in lo < a \<and> a < cp_in hi \<and> chord lo hi a = Some v"
  by (induction ps a rule: read_chord.induct) (auto split: if_splits)

lemma chord_SomeD:
  assumes "chord lo hi a = Some v" "cp_in lo < a" "a < cp_in hi"
  shows "0 \<le> cp_out hi - cp_out lo"
    and "v = cp_out lo + (a - cp_in lo) * (cp_out hi - cp_out lo) div (cp_in hi - cp_in lo)"
    and "within_ratio (cp_in lo) (cp_in hi)"
  using assms by (auto simp: chord_def Let_def tdiv_nonneg split: if_splits)

lemma chord_between:
  assumes "chord lo hi a = Some v" "cp_in lo < a" "a < cp_in hi"
  shows "cp_out lo \<le> v" "v \<le> cp_out hi"
proof -
  let ?r = "cp_out hi - cp_out lo" and ?s = "cp_in hi - cp_in lo"
  note c = chord_SomeD [OF assms]
  from c(1) assms have "0 \<le> (a - cp_in lo) * ?r div ?s" by (simp add: pos_imp_zdiv_nonneg_iff)
  then show "cp_out lo \<le> v" by (simp add: c(2))
  from c(1) assms have "(a - cp_in lo) * ?r \<le> ?s * ?r" by (intro mult_right_mono) auto
  then have "(a - cp_in lo) * ?r div ?s \<le> ?s * ?r div ?s" using assms by (intro zdiv_mono1) auto
  with assms show "v \<le> cp_out hi" by (simp add: c(2))
qed

lemma below_first_SomeD:
  assumes "below_first p a = Some v" "0 < a" "a < cp_in p" "0 \<le> cp_out p"
  shows "0 \<le> v" "v \<le> a * cp_out p div cp_in p"
  using assms
  by (auto simp: below_first_def Let_def tdiv_nonneg pos_imp_zdiv_nonneg_iff split: if_splits)

text \<open>The three ways \<open>read_off\<close> answers.\<close>

lemma read_off_cases [consumes 1, case_names exact below bracketed]:
  assumes "read_off ps a = Some v"
  obtains p where "0 < a" "p \<in> set ps" "cp_in p = a" "v = cp_out p"
  | "0 < a" "ps \<noteq> []" "a < cp_in (hd ps)" "below_first (hd ps) a = Some v"
  | lo hi where "0 < a" "lo \<in> set ps" "hi \<in> set ps" "cp_in lo < a" "a < cp_in hi"
      "chord lo hi a = Some v"
proof (cases "find (\<lambda>p. cp_in p = a) ps")
  case (Some p)
  then have "p \<in> set ps" "cp_in p = a" by (auto simp: find_Some_iff)
  moreover from Some assms have "v = cp_out p" "0 < a"
    by (auto simp: read_off_def split: if_splits)
  ultimately show ?thesis using that(1) by blast
next
  case None
  with assms consider "0 < a" "ps \<noteq> []" "a < cp_in (hd ps)" "below_first (hd ps) a = Some v"
    | "0 < a" "read_chord ps a = Some v"
    by (auto simp: read_off_def split: if_splits)
  then show ?thesis
  proof cases
    case 1
    then show ?thesis by (rule that(2))
  next
    case 2
    from read_chord_SomeD [OF 2(2)] 2(1) show ?thesis using that(3) by blast
  qed
qed

lemma read_off_nonneg:
  assumes "read_off ps a = Some v" and "\<forall>p\<in>set ps. 0 < cp_in p \<and> 0 \<le> cp_out p"
  shows "0 \<le> v"
  using assms(1)
proof (cases rule: read_off_cases)
  case (exact p)
  with assms(2) show ?thesis by auto
next
  case below
  with assms(2) show ?thesis by (intro below_first_SomeD(1) [OF below(4)]) auto
next
  case (bracketed lo hi)
  then have "cp_out lo \<le> v" by (intro chord_between(1) [OF bracketed(6)])
  with assms(2) bracketed(2) show ?thesis by force
qed

lemma conservative_read:
  assumes curve: "concave_curve g"
    and samples: "samples_of (\<lambda>n. \<lfloor>g (of_int n)\<rfloor>) ps"
    and read: "read_off ps a = Some v"
  shows "0 \<le> v \<and> v \<le> \<lfloor>g (of_int a)\<rfloor>"
proof
  show "0 \<le> v"
    using read by (rule read_off_nonneg) (use samples in \<open>auto simp: samples_of_def\<close>)
  have below_g: "of_int (cp_out p) \<le> g (of_int (cp_in p))" if "p \<in> set ps" for p
    using samples_ofD [OF samples that] by (simp add: le_floor_iff [symmetric])
  show "v \<le> \<lfloor>g (of_int a)\<rfloor>"
    using read
  proof (cases rule: read_off_cases)
    case (exact p)
    then show ?thesis using samples_ofD [OF samples] by fastforce
  next
    case below
    then have hd: "hd ps \<in> set ps" by simp
    with below samples_ofD [OF samples] have "v \<le> a * cp_out (hd ps) div cp_in (hd ps)"
      by (intro below_first_SomeD(2)) auto
    also have "\<dots> \<le> \<lfloor>g (of_int a)\<rfloor>"
      using concave_curve.flank_below [OF curve] below below_g [OF hd] by blast
    finally show ?thesis .
  next
    case (bracketed lo hi)
    note c = chord_SomeD [OF bracketed(6,4,5)]
    from samples_ofD [OF samples bracketed(2)] have "0 \<le> cp_in lo" by simp
    with concave_curve.chord_below [OF curve] bracketed below_g
    show ?thesis unfolding c(2) by blast
  qed
qed

section \<open>The invariant of the cache\<close>

definition points_ok :: "(string, curve_point list) jmap \<Rightarrow> bool" where
  "points_ok m \<longleftrightarrow> jm_ok m \<and> (\<forall>(k, ps)\<in>set m. ps \<noteq> [] \<and> ascending ps \<and> (\<forall>p\<in>set ps. 0 < cp_in p))"

definition cache_ok :: "curve_cache \<Rightarrow> bool" where
  "cache_ok c \<longleftrightarrow> points_ok (qc_points c) \<and> jm_ok (qc_flights c) \<and> length (qc_points c) \<le> max_keys"

lemma ascending_filter: "ascending ps \<Longrightarrow> ascending (filter P ps)"
  by (simp add: ascending_def sorted_wrt_filter)

lemma ascending_distinct: "ascending ps \<Longrightarrow> distinct (map cp_in ps)"
  by (induction ps) (auto simp: ascending_def)

lemma ascending_iff: "ascending ps \<longleftrightarrow> sorted (map cp_in ps) \<and> distinct (map cp_in ps)"
  by (induction ps) (auto simp: ascending_def order_less_le)

lemma insert_point_set: "set (insert_point p ps) = insert p {q \<in> set ps. cp_in q \<noteq> cp_in p}"
  by (auto simp: insert_point_def)

lemma distinct_map_js_sort: "distinct (map f (js_sort gt xs)) \<longleftrightarrow> distinct (map f xs)"
  by (simp add: distinct_map)

lemma insert_point_ascending:
  assumes "ascending ps"
  shows "ascending (insert_point p ps)"
proof -
  from ascending_distinct [OF ascending_filter [OF assms]]
  have "distinct (map cp_in (filter (\<lambda>q. cp_in q \<noteq> cp_in p) ps @ [p]))" by auto
  then show ?thesis
    by (simp only: ascending_iff insert_point_def distinct_map_js_sort js_sort_sorted)
qed

lemma points_ok_empty: "points_ok jm_empty"
  by (simp add: points_ok_def jm_empty_def jm_ok_def)

lemma points_okD: "points_ok m \<Longrightarrow> jm_get m k = Some ps \<Longrightarrow>
    ps \<noteq> [] \<and> ascending ps \<and> (\<forall>p\<in>set ps. 0 < cp_in p)"
  by (auto simp: points_ok_def jm_get_def dest!: map_of_SomeD)

lemma points_ok_set:
  "points_ok m \<Longrightarrow> ps \<noteq> [] \<Longrightarrow> ascending ps \<Longrightarrow> \<forall>p\<in>set ps. 0 < cp_in p \<Longrightarrow> points_ok (jm_set k ps m)"
  by (fastforce simp: points_ok_def jm.ok_put dest: jm_set_mem)

lemma points_ok_delete: "points_ok m \<Longrightarrow> points_ok (jm_delete k m)"
  by (auto simp: points_ok_def jm.ok_del jm_delete_set)

lemma length_jm_delete_le: "length (jm_delete k m) \<le> length m"
  by (simp add: jm_delete_def)

lemma evict_stale_ok: "points_ok m \<Longrightarrow> evict_stale cap cutoff es m = (b, m') \<Longrightarrow> points_ok m'"
  by (induction cap cutoff es m rule: evict_stale.induct)
    (auto simp: Let_def points_ok_delete split: if_splits)

lemma evict_stale_length: "evict_stale cap cutoff es m = (True, m') \<Longrightarrow> length m' \<le> cap"
  by (induction cap cutoff es m rule: evict_stale.induct) (auto simp: Let_def split: if_splits)

lemma evict_stale_above:
  "es \<noteq> [] \<Longrightarrow> evict_stale cap cutoff es m = (False, m') \<Longrightarrow> cap < length m'"
proof (induction cap cutoff es m rule: evict_stale.induct)
  case (2 cap cutoff k v es m)
  then show ?case by (cases es) (auto simp: Let_def split: if_splits)
qed simp

lemma evict_oldest_ok: "points_ok m \<Longrightarrow> points_ok (evict_oldest cap ks m)"
  by (induction cap ks m rule: evict_oldest.induct) (auto simp: Let_def points_ok_delete)

lemma evict_oldest_length:
  "fst ` set m \<subseteq> set ks \<Longrightarrow> length (evict_oldest cap ks m) \<le> cap"
proof (induction cap ks m rule: evict_oldest.induct)
  case (2 cap k ks m)
  from "2.prems" have "fst ` set (jm_delete k m) \<subseteq> set ks" by (auto simp: jm_delete_set)
  with "2.IH" show ?case by (auto simp: Let_def)
qed simp

lemma evict_if_needed_ok: "points_ok m \<Longrightarrow> points_ok (evict_if_needed cap ttl now m)"
  by (auto simp: evict_if_needed_def evict_stale_ok evict_oldest_ok split: prod.splits bool.splits)

lemma evict_if_needed_length: "length (evict_if_needed cap ttl now m) \<le> cap"
  using evict_stale_length evict_oldest_length
  by (fastforce simp: evict_if_needed_def split: prod.splits bool.splits)

lemma cache_insert_ok:
  assumes "cache_ok c" "0 < cp_in p"
  shows "cache_ok (cache_insert ttl now key p c)"
proof -
  define ps where "ps = (case jm_get (qc_points c) key of None \<Rightarrow> [] | Some l \<Rightarrow> l)"
  from assms(1) have ps: "ascending ps" "\<forall>p\<in>set ps. 0 < cp_in p"
    by (cases "jm_get (qc_points c) key"; auto simp: ps_def cache_ok_def ascending_def
        dest: points_okD [unfolded ascending_def])+
  have "points_ok (jm_set key (insert_point p ps) (qc_points c))"
  proof (rule points_ok_set)
    show "points_ok (qc_points c)" using assms by (simp add: cache_ok_def)
    show "insert_point p ps \<noteq> []" using insert_point_set [of p ps] by force
    show "ascending (insert_point p ps)" using ps(1) by (rule insert_point_ascending)
    show "\<forall>q\<in>set (insert_point p ps). 0 < cp_in q" using ps assms(2) by (auto simp: insert_point_set)
  qed
  with assms show ?thesis
    by (simp add: cache_ok_def cache_insert_def Let_def ps_def [symmetric] evict_if_needed_ok
        evict_if_needed_length)
qed

lemma cache_insert_flights [frame_simps]: "qc_flights (cache_insert ttl now key p c) = qc_flights c"
  by (simp add: cache_insert_def Let_def)

lemma fresh_points_flights [frame_simps]:
  "fresh_points ttl now key c = (ps, c') \<Longrightarrow> qc_flights c' = qc_flights c"
  by (auto simp: fresh_points_def Let_def split: option.splits if_splits)

lemma fresh_points_value:
  "fresh_points ttl now key c = (ps, c') \<Longrightarrow>
    ps = filter (\<lambda>p. now - ttl \<le> cp_ts p) (case jm_get (qc_points c) key of None \<Rightarrow> [] | Some l \<Rightarrow> l)"
  by (auto simp: fresh_points_def Let_def split: option.splits)

lemma fresh_points_ok:
  assumes "cache_ok c" "fresh_points ttl now key c = (ps, c')"
  shows "cache_ok c'"
proof (cases "jm_get (qc_points c) key")
  case None
  with assms show ?thesis by (simp add: fresh_points_def)
next
  case (Some l)
  define f where "f = filter (\<lambda>p. cp_ts p \<ge> now - ttl) l"
  from assms(1) Some have l: "ascending l" "\<forall>p\<in>set l. 0 < cp_in p"
    by (auto simp: cache_ok_def dest: points_okD)
  then have f: "ascending f" "\<forall>p\<in>set f. 0 < cp_in p"
    by (auto simp: f_def ascending_filter)
  have c': "c' = (if length f \<noteq> length l then (if f = [] then c\<lparr>qc_points := jm_delete key (qc_points c)\<rparr>
            else c\<lparr>qc_points := jm_set key f (qc_points c)\<rparr>) else c)"
    using assms(2) Some by (auto simp: fresh_points_def f_def Let_def)
  have ok: "points_ok (qc_points c)" "jm_ok (qc_flights c)" "length (qc_points c) \<le> max_keys"
    using assms(1) by (auto simp: cache_ok_def)
  have "length (jm_set key f (qc_points c)) = length (qc_points c)"
    using Some by (simp add: jm_set_length jm_get_def)
  with ok f length_jm_delete_le [of key "qc_points c"] show ?thesis
    by (auto simp: c' cache_ok_def points_ok_set points_ok_delete)
qed

lemma quote_start_ok: "cache_ok c \<Longrightarrow> quote_start ttl now key a c = (r, c') \<Longrightarrow> cache_ok c'"
proof -
  assume c: "cache_ok c" and q: "quote_start ttl now key a c = (r, c')"
  obtain ps d where f: "fresh_points ttl now key c = (ps, d)" by force
  with c have "cache_ok d" by (rule fresh_points_ok)
  with c q f show "cache_ok c'"
    by (auto simp: quote_start_def cache_ok_def jm.ok_put split: if_splits option.splits)
qed

lemma flight_done_ok:
  assumes "cache_ok c" "0 < a"
  shows "cache_ok (snd (flight_done ttl now key a res c))"
proof (cases res)
  case None
  with assms show ?thesis by (simp add: flight_done_def cache_ok_def jm.ok_del)
next
  case (Some out)
  from assms have "cache_ok (cache_insert ttl now key \<lparr>cp_in = a, cp_out = out, cp_ts = now\<rparr> c)"
    by (intro cache_insert_ok) auto
  with Some show ?thesis by (simp add: flight_done_def Let_def cache_ok_def jm.ok_del)
qed

lemma qc_init_ok: "cache_ok qc_init"
  by (simp add: cache_ok_def qc_init_def points_ok_empty jm.ok_empty) (simp add: jm_empty_def)

section \<open>Runs of the cache\<close>

text \<open>
  Calls and settling samplers interleave freely. A label records what happened: a call with
  its reply, or a sampler that settled. A sampler settles only while its flight is open.
\<close>

datatype qc_label =
    Called string int quote_reply
  | Settled string int "int option"

inductive qc_step :: "int \<Rightarrow> curve_cache \<Rightarrow> qc_label \<Rightarrow> curve_cache \<Rightarrow> bool" where
  call: "quote_start ttl now key a c = (r, c') \<Longrightarrow> qc_step ttl c (Called key a r) c'"
| settle: "jm_get (qc_flights c) (key, a) = Some () \<Longrightarrow> flight_done ttl now key a res c = (out, c') \<Longrightarrow>
    qc_step ttl c (Settled key a res) c'"

inductive qc_reach :: "int \<Rightarrow> qc_label list \<Rightarrow> curve_cache \<Rightarrow> bool" where
  init: "qc_reach ttl [] qc_init"
| step: "qc_reach ttl tr c \<Longrightarrow> qc_step ttl c l c' \<Longrightarrow> qc_reach ttl (l # tr) c'"

inductive_cases qc_step_calledE: "qc_step ttl c (Called key a r) c'"
inductive_cases qc_step_settledE: "qc_step ttl c (Settled key a res) c'"
inductive_cases qc_reach_NilE: "qc_reach ttl [] c"
inductive_cases qc_reach_ConsE: "qc_reach ttl (l # tr) c"

lemma quote_start_flights:
  assumes "quote_start ttl now key a c = (r, c')"
  shows "r = Sample \<Longrightarrow> 0 < a \<and> jm_get (qc_flights c) (key, a) = None
      \<and> qc_flights c' = jm_set (key, a) () (qc_flights c)"
    and "r \<noteq> Sample \<Longrightarrow> qc_flights c' = qc_flights c"
proof -
  obtain ps d where f: "fresh_points ttl now key c = (ps, d)" by force
  then have d: "qc_flights d = qc_flights c" by (simp add: frame_simps)
  show "r = Sample \<Longrightarrow> 0 < a \<and> jm_get (qc_flights c) (key, a) = None
      \<and> qc_flights c' = jm_set (key, a) () (qc_flights c)"
    and "r \<noteq> Sample \<Longrightarrow> qc_flights c' = qc_flights c"
    using assms f d by (auto simp: quote_start_def split: if_splits option.splits)
qed

lemma flight_done_flights:
  "flight_done ttl now key a res c = (out, c') \<Longrightarrow> qc_flights c' = jm_delete (key, a) (qc_flights c)"
  by (auto simp: flight_done_def Let_def cache_insert_flights split: option.splits)

definition flights_positive :: "curve_cache \<Rightarrow> bool" where
  "flights_positive c \<longleftrightarrow> (\<forall>key a. jm_get (qc_flights c) (key, a) \<noteq> None \<longrightarrow> 0 < a)"

lemma qc_step_inv:
  assumes "qc_step ttl c l c'" "cache_ok c" "flights_positive c"
  shows "cache_ok c' \<and> flights_positive c'"
  using assms
proof (induction rule: qc_step.induct)
  case (call ttl now key a c r c')
  then have "cache_ok c'" by (blast intro: quote_start_ok)
  moreover from call quote_start_flights [OF call(1)] have "flights_positive c'"
    by (cases "r = Sample") (auto simp: flights_positive_def jm.get_put)
  ultimately show ?case by simp
next
  case (settle c key a ttl now res out c')
  then have "0 < a" by (auto simp: flights_positive_def)
  with settle flight_done_ok [of c a ttl now key res] have "cache_ok c'" by simp
  moreover from settle flight_done_flights [OF settle(2)] have "flights_positive c'"
    by (auto simp: flights_positive_def jm.get_del)
  ultimately show ?case by simp
qed

lemma reach_ok: "qc_reach ttl tr c \<Longrightarrow> cache_ok c \<and> flights_positive c"
proof (induction rule: qc_reach.induct)
  case (init ttl)
  have "flights_positive qc_init" by (simp add: flights_positive_def qc_init_def jm.get_empty)
  with qc_init_ok show ?case by blast
next
  case (step ttl tr c l c')
  then show ?case using qc_step_inv by blast
qed

text \<open>
  In every reachable state of the cache each curve's points are non-empty, strictly
  ascending in the input amount and positive, curve keys are distinct and at most
  \<open>MAX_KEYS\<close>, and only positive amounts are being sampled.
\<close>

theorem qc_reach_invariant:
  assumes "qc_reach ttl tr c"
  shows "distinct (map fst (qc_points c)) \<and> length (qc_points c) \<le> max_keys
    \<and> (\<forall>(key, ps)\<in>set (qc_points c). ps \<noteq> []
        \<and> sorted_wrt (\<lambda>p q. cp_in p < cp_in q) ps \<and> (\<forall>p\<in>set ps. 0 < cp_in p))
    \<and> (\<forall>key a. jm_get (qc_flights c) (key, a) \<noteq> None \<longrightarrow> 0 < a)"
  using reach_ok [OF assms]
  by (auto simp: cache_ok_def points_ok_def flights_positive_def ascending_def jm_ok_def)

definition sampled :: "string \<Rightarrow> int \<Rightarrow> qc_label list \<Rightarrow> nat" where
  "sampled key a tr = count_list tr (Called key a Sample)"

definition settled :: "string \<Rightarrow> int \<Rightarrow> qc_label list \<Rightarrow> nat" where
  "settled key a tr = length (filter (\<lambda>l. \<exists>res. l = Settled key a res) tr)"

text \<open>
  Single flight: however calls interleave, for each (key, amount) the samplings started
  are those that settled plus one exactly while a flight is open, so two samplings of the
  same amount are never outstanding together.
\<close>

theorem single_flight:
  assumes "qc_reach ttl tr c"
  shows "sampled key a tr = settled key a tr + of_bool (jm_get (qc_flights c) (key, a) \<noteq> None)"
  using assms
proof (induction rule: qc_reach.induct)
  case (init ttl)
  show ?case by (simp add: sampled_def settled_def qc_init_def jm.get_empty)
next
  case (step ttl tr c l c')
  from step.hyps(2) show ?case
  proof cases
    case (call now key' a' r)
    note f = quote_start_flights [OF call(2)]
    show ?thesis
    proof (cases "r = Sample")
      case True
      with f(1) step.IH call(1) show ?thesis
        by (auto simp: sampled_def settled_def jm.get_put)
    next
      case False
      with f(2) step.IH call(1) show ?thesis
        by (auto simp: sampled_def settled_def)
    qed
  next
    case (settle key' a' now res out)
    with flight_done_flights [OF settle(3)] step.IH show ?thesis
      by (auto simp: sampled_def settled_def jm.get_del)
  qed
qed

section \<open>Memoisation\<close>

lemma jm_set_absent: "map_of m k = None \<Longrightarrow> jm_set k v m = m @ [(k, v)]"
  by (induction k v m rule: jm_set.induct) (auto split: if_splits)

lemma evict_stale_filter: "evict_stale cap cutoff es m = (b, m') \<Longrightarrow> \<exists>P. m' = filter P m"
proof (induction cap cutoff es m rule: evict_stale.induct)
  case (1 cap cutoff m)
  then have "m' = filter (\<lambda>_. True) m" by simp
  then show ?case by blast
next
  case (2 cap cutoff k v es m)
  define n where "n = (if \<forall>p\<in>set v. cp_ts p < cutoff then jm_delete k m else m)"
  have "n = filter (\<lambda>e. (\<forall>p\<in>set v. cp_ts p < cutoff) \<longrightarrow> fst e \<noteq> k) m"
  proof (cases "\<forall>p\<in>set v. cp_ts p < cutoff")
    case False
    then have "(\<lambda>e. (\<forall>p\<in>set v. cp_ts p < cutoff) \<longrightarrow> fst e \<noteq> k) = (\<lambda>e. True)" by auto
    then show ?thesis using False unfolding n_def by (simp only: if_False filter_True) simp
  qed (simp add: n_def jm_delete_def)
  then obtain P where P: "n = filter P m" by blast
  have "m' = n \<or> (\<exists>Q. m' = filter Q n)"
    using "2.IH" [OF n_def] "2.prems" by (auto simp: Let_def n_def [symmetric] split: if_splits)
  then show ?case unfolding P by auto
qed

lemma evict_stale_keeps:
  assumes "evict_stale cap cutoff es m = (b, m')"
    and "map_of m k = Some ps" "\<not> (\<forall>p\<in>set ps. cp_ts p < cutoff)"
    and "\<forall>v. (k, v) \<in> set es \<longrightarrow> v = ps"
  shows "map_of m' k = Some ps"
  using assms
proof (induction cap cutoff es m rule: evict_stale.induct)
  case (2 cap cutoff k' v es m)
  define n where "n = (if \<forall>p\<in>set v. cp_ts p < cutoff then jm_delete k' m else m)"
  have "map_of n k = Some ps" using "2.prems"(2-4) by (auto simp: n_def jm_delete_map_of)
  then show ?case using "2.IH" [OF n_def] "2.prems"
    by (auto simp: Let_def n_def [symmetric] split: if_splits)
qed simp

lemma evict_keeps_newest:
  assumes ok: "jm_ok m" and len: "length m \<le> cap" and cap: "0 < cap"
    and fresh: "\<exists>p\<in>set ps. now - ttl \<le> cp_ts p"
  shows "map_of (evict_if_needed cap ttl now (jm_set k ps m)) k = Some ps"
proof (cases "length (jm_set k ps m) \<le> cap")
  case True
  then show ?thesis by (simp add: evict_if_needed_def jm_set_map_of)
next
  case False
  with len have absent: "map_of m k = None" and full: "length m = cap"
    by (auto simp: jm_set_length split: if_splits)
  let ?m = "jm_set k ps m"
  have app: "?m = m @ [(k, ps)]" using absent by (rule jm_set_absent)
  obtain b m' where ev: "evict_stale cap (now - ttl) ?m ?m = (b, m')" by force
  have "\<forall>v. (k, v) \<in> set ?m \<longrightarrow> v = ps"
    using absent by (auto simp: app map_of_eq_None_iff image_iff)
  with evict_stale_keeps [OF ev, of k ps] fresh
  have keep: "map_of m' k = Some ps" by (auto simp: jm_set_map_of not_less)
  obtain P where P: "m' = filter P ?m" using evict_stale_filter [OF ev] by blast
  show ?thesis
  proof (cases b)
    case True
    with ev keep False show ?thesis by (simp add: evict_if_needed_def)
  next
    case nb: False
    have mem: "(k, ps) \<in> set m'" using keep by (rule map_of_SomeD)
    then have "P (k, ps)" by (simp add: P)
    then have m': "m' = filter P m @ [(k, ps)]" by (simp add: P app)
    show ?thesis
    proof (cases "filter P m")
      case Nil
      have "cap < length m'" using ev nb app by (intro evict_stale_above [of ?m]) auto
      with cap Nil m' show ?thesis by simp
    next
      case (Cons e es)
      then have "e \<in> set m" by (metis filter_is_subset list.set_intros(1) subsetD)
      with absent have ne: "fst e \<noteq> k" by (auto simp: map_of_eq_None_iff)
      have "length (filter P m) \<le> cap" using full by (metis length_filter_le)
      moreover have "length (jm_delete (fst e) (m')) \<le> length (filter P m)"
        using Cons m' by (simp add: jm_delete_def le_SucI)
      ultimately have "length (jm_delete (fst e) m') \<le> cap" by simp
      then show ?thesis using ev nb False ne keep Cons m'
        by (simp add: evict_if_needed_def Let_def jm_delete_map_of)
    qed
  qed
qed

lemma cache_insert_get:
  assumes "cache_ok c" "0 \<le> ttl"
  shows "jm_get (qc_points (cache_insert ttl (cp_ts p) key p c)) key =
    Some (insert_point p (case jm_get (qc_points c) key of None \<Rightarrow> [] | Some l \<Rightarrow> l))"
proof -
  have "p \<in> set (insert_point p ps)" for ps by (simp add: insert_point_set)
  then have "\<exists>q\<in>set (insert_point p ps). cp_ts p - ttl \<le> cp_ts q" for ps
    using assms(2) by force
  moreover have "0 < max_keys" by (simp add: max_keys_def)
  ultimately show ?thesis using assms
    unfolding cache_insert_def Let_def jm_get_def
    by (simp add: cache_ok_def points_ok_def evict_keeps_newest)
qed

lemma find_unique:
  "distinct (map f xs) \<Longrightarrow> x \<in> set xs \<Longrightarrow> find (\<lambda>y. f y = f x) xs = Some x"
  by (induction xs) (auto simp: image_iff)

lemma read_off_exact:
  assumes "ascending ps" "p \<in> set ps" "0 < cp_in p"
  shows "read_off ps (cp_in p) = Some (cp_out p)"
proof -
  have "find (\<lambda>q. cp_in q = cp_in p) ps = Some p"
    using ascending_distinct [OF assms(1)] assms(2) by (rule find_unique)
  with assms show ?thesis by (auto simp: read_off_def)
qed

text \<open>
  Memoisation: in a reachable cache, once a sampler answers for an amount, asking for the same
  amount of the same curve within the TTL is answered at once with that very output, whatever
  eviction did; a failed sampling leaves every stored point as it was.
\<close>

theorem memo_round_trip:
  assumes reach: "qc_reach ttl tr c" and flight: "jm_get (qc_flights c) (key, a) = Some ()"
    and "0 \<le> ttl" "t' \<le> t + ttl"
  shows "fst (quote_start ttl t' key a (snd (flight_done ttl t key a (Some out) c))) = Answer out
    \<and> qc_points (snd (flight_done ttl t key a None c)) = qc_points c"
proof -
  let ?p = "\<lparr>cp_in = a, cp_out = out, cp_ts = t\<rparr>"
  let ?d = "snd (flight_done ttl t key a (Some out) c)"
  from reach_ok [OF reach] flight have ok: "cache_ok c" and a: "0 < a"
    by (auto simp: flights_positive_def)
  define ps where "ps = insert_point ?p (case jm_get (qc_points c) key of None \<Rightarrow> [] | Some l \<Rightarrow> l)"
  define f where "f = filter (\<lambda>p. t' - ttl \<le> cp_ts p) ps"
  have get: "jm_get (qc_points ?d) key = Some ps"
    using cache_insert_get [OF ok assms(3), of ?p key] by (simp add: flight_done_def Let_def ps_def)
  have "cache_ok ?d" using ok a by (rule flight_done_ok)
  then have "ascending ps" using get by (auto simp: cache_ok_def dest: points_okD)
  then have asc: "ascending f" by (simp add: f_def ascending_filter)
  have mem: "?p \<in> set f" using assms(4) by (simp add: f_def ps_def insert_point_set)
  obtain d' where "fresh_points ttl t' key ?d = (f, d')"
    using get by (auto simp: fresh_points_def Let_def f_def)
  moreover have "read_off f a = Some out" using read_off_exact [OF asc mem] a by simp
  ultimately have "fst (quote_start ttl t' key a ?d) = Answer out"
    using a by (simp add: quote_start_def)
  then show ?thesis by (simp add: flight_done_def)
qed

section \<open>No over-quoting, end to end\<close>

text \<open>Every point stored for a curve comes from one of its successful samplings.\<close>

definition from_settled :: "qc_label list \<Rightarrow> curve_cache \<Rightarrow> bool" where
  "from_settled tr c \<longleftrightarrow> (\<forall>key ps p. jm_get (qc_points c) key = Some ps \<longrightarrow> p \<in> set ps \<longrightarrow>
    Settled key (cp_in p) (Some (cp_out p)) \<in> set tr)"

lemma fresh_points_sub:
  assumes "fresh_points ttl now key c = (ps, d)" "jm_get (qc_points d) k = Some qs"
  shows "\<exists>ls. jm_get (qc_points c) k = Some ls \<and> set qs \<subseteq> set ls"
  using assms
  by (cases "jm_get (qc_points c) key")
    (auto simp: fresh_points_def Let_def jm.get_del jm.get_put split: if_splits)

lemma from_settled_fresh:
  "from_settled tr c \<Longrightarrow> fresh_points ttl now key c = (ps, d) \<Longrightarrow> from_settled tr d"
  by (fastforce simp: from_settled_def dest: fresh_points_sub)

lemma quote_start_points:
  assumes "quote_start ttl now key a c = (r, c')"
  shows "a \<le> 0 \<and> c' = c \<and> r = Answer 0 \<or>
    (\<exists>ps d. fresh_points ttl now key c = (ps, d) \<and> qc_points c' = qc_points d
      \<and> (\<forall>v. r = Answer v \<longrightarrow> read_off ps a = Some v))"
proof -
  obtain ps d where "fresh_points ttl now key c = (ps, d)" by force
  with assms show ?thesis by (auto simp: quote_start_def split: if_splits option.splits)
qed

lemma jm_get_sub: "jm_ok m \<Longrightarrow> jm_get (filter P m) k = Some v \<Longrightarrow> jm_get m k = Some v"
  by (metis filter_is_subset jm_get_def jm_ok_def map_of_SomeD map_of_is_SomeI subsetD)

lemma evict_oldest_filter: "\<exists>P. evict_oldest cap ks m = filter P m"
proof (induction cap ks m rule: evict_oldest.induct)
  case (1 cap m)
  have "evict_oldest cap [] m = filter (\<lambda>_. True) m" by simp
  then show ?case by blast
next
  case (2 cap k ks m)
  then show ?case by (auto simp: Let_def jm_delete_def)
qed

lemma evict_if_needed_filter: "\<exists>P. evict_if_needed cap ttl now m = filter P m"
proof -
  have all: "\<exists>P. m = filter P m" by (rule exI [of _ "\<lambda>_. True"]) simp
  obtain b m' where ev: "evict_stale cap (now - ttl) m m = (b, m')" by force
  then obtain P where P: "m' = filter P m" using evict_stale_filter by blast
  obtain Q where "evict_oldest cap (map fst m') m' = filter Q m'" using evict_oldest_filter by blast
  then have "evict_oldest cap (map fst m') m' = filter (\<lambda>x. P x \<and> Q x) m" by (simp add: P)
  with P all ev show ?thesis unfolding evict_if_needed_def by (cases b) auto
qed

lemma from_settled_insert:
  assumes ok: "cache_ok c" and fs: "from_settled tr c"
    and mem: "Settled key (cp_in p) (Some (cp_out p)) \<in> set tr"
  shows "from_settled tr (cache_insert ttl now key p c)"
  unfolding from_settled_def
proof (intro allI impI)
  fix k qs q
  assume get: "jm_get (qc_points (cache_insert ttl now key p c)) k = Some qs" and q: "q \<in> set qs"
  define ps where "ps = (case jm_get (qc_points c) key of None \<Rightarrow> [] | Some l \<Rightarrow> l)"
  define m where "m = jm_set key (insert_point p ps) (qc_points c)"
  have "qc_points (cache_insert ttl now key p c) = evict_if_needed max_keys ttl now m"
    by (simp add: cache_insert_def Let_def ps_def m_def)
  with evict_if_needed_filter obtain P
    where "qc_points (cache_insert ttl now key p c) = filter P m" by metis
  with get have "jm_get (filter P m) k = Some qs" by simp
  moreover have "jm_ok m"
    using ok by (simp add: m_def cache_ok_def points_ok_def jm.ok_put)
  ultimately have "jm_get m k = Some qs" by (rule jm_get_sub [rotated])
  then have "k = key \<and> qs = insert_point p ps \<or> jm_get (qc_points c) k = Some qs"
    by (simp add: m_def jm.get_put split: if_splits)
  then consider "k = key" "qs = insert_point p ps" | "jm_get (qc_points c) k = Some qs" by blast
  then show "Settled k (cp_in q) (Some (cp_out q)) \<in> set tr"
  proof cases
    case 1
    with q have "q = p \<or> q \<in> set ps" by (auto simp: insert_point_set)
    with fs mem 1 show ?thesis by (auto simp: from_settled_def ps_def split: option.splits)
  next
    case 2
    with fs q show ?thesis by (auto simp: from_settled_def)
  qed
qed

lemma from_settled_mono: "from_settled tr c \<Longrightarrow> from_settled (l # tr) c"
  by (auto simp: from_settled_def)

lemma from_settled_points: "qc_points c' = qc_points c \<Longrightarrow> from_settled tr c' = from_settled tr c"
  by (simp add: from_settled_def)

lemma reach_from_settled: "qc_reach ttl tr c \<Longrightarrow> from_settled tr c"
proof (induction rule: qc_reach.induct)
  case (init ttl)
  show ?case by (simp add: from_settled_def qc_init_def jm.get_empty)
next
  case (step ttl tr c l c')
  from step.hyps(2) show ?case
  proof cases
    case (call now key a r)
    from quote_start_points [OF call(2)] have "from_settled tr c'"
    proof (elim disjE exE conjE)
      fix ps d
      assume "fresh_points ttl now key c = (ps, d)" "qc_points c' = qc_points d"
      then show ?thesis using from_settled_fresh [OF step.IH] from_settled_points by metis
    qed (use step.IH in simp)
    then show ?thesis by (rule from_settled_mono)
  next
    case (settle key a now res out)
    show ?thesis
    proof (cases res)
      case None
      with settle(3) have "qc_points c' = qc_points c" by (auto simp: flight_done_def)
      then have "from_settled tr c'" using step.IH from_settled_points by metis
      then show ?thesis by (rule from_settled_mono)
    next
      case (Some w)
      let ?p = "\<lparr>cp_in = a, cp_out = w, cp_ts = now\<rparr>"
      have "from_settled (l # tr) (cache_insert ttl now key ?p c)"
        using settle(1) Some reach_ok [OF step.hyps(1)]
        by (intro from_settled_insert from_settled_mono step.IH) auto
      moreover have "qc_points c' = qc_points (cache_insert ttl now key ?p c)"
        using settle(3) Some by (auto simp: flight_done_def Let_def)
      ultimately show ?thesis using from_settled_points by metis
    qed
  qed
qed

text \<open>A call whose reply is an answer reads it off points the curve's samplings gave.\<close>

lemma answer_read_off:
  assumes "qc_reach ttl tr c" "qc_step ttl c (Called key a (Answer v)) c'" "0 < a"
  obtains ps where "read_off ps a = Some v"
    and "\<forall>p\<in>set ps. 0 < cp_in p \<and> Settled key (cp_in p) (Some (cp_out p)) \<in> set tr"
proof -
  from assms(2) obtain now where "quote_start ttl now key a c = (Answer v, c')"
    by (auto elim: qc_step_calledE)
  with assms(3) obtain ps d where ps: "fresh_points ttl now key c = (ps, d)" "read_off ps a = Some v"
    by (fastforce dest: quote_start_points)
  have "0 < cp_in p \<and> Settled key (cp_in p) (Some (cp_out p)) \<in> set tr" if "p \<in> set ps" for p
  proof -
    from that fresh_points_value [OF ps(1)] obtain l
      where "jm_get (qc_points c) key = Some l" "p \<in> set l" by (auto split: option.splits)
    then show ?thesis using reach_ok [OF assms(1)] reach_from_settled [OF assms(1)]
      by (auto simp: cache_ok_def from_settled_def dest: points_okD)
  qed
  with ps(2) show thesis using that by blast
qed

text \<open>
  C13. End to end: if every successful sampling of a curve answers with the rounding down of one
  concave function of the amount, then in every interleaving of calls and samplings no reply
  the cache gives on its own exceeds what a sampling of that amount would answer.
\<close>

theorem cache_never_overquotes:
  assumes "qc_reach ttl (Called key a (Answer v) # tr) c" and "0 < a"
    and curve: "concave_curve g"
    and sampler: "\<forall>b w. Settled key b (Some w) \<in> set tr \<longrightarrow> w = \<lfloor>g (of_int b)\<rfloor> \<and> 0 \<le> w"
  shows "0 \<le> v \<and> v \<le> \<lfloor>g (of_int a)\<rfloor>"
proof -
  from assms(1) obtain d where "qc_reach ttl tr d" "qc_step ttl d (Called key a (Answer v)) c"
    by (auto elim: qc_reach_ConsE)
  then obtain ps where read: "read_off ps a = Some v"
    and ps: "\<forall>p\<in>set ps. 0 < cp_in p \<and> Settled key (cp_in p) (Some (cp_out p)) \<in> set tr"
    using assms(2) by (rule answer_read_off)
  from ps sampler have "samples_of (\<lambda>n. \<lfloor>g (of_int n)\<rfloor>) ps" by (fastforce simp: samples_of_def)
  with curve read show ?thesis by (intro conservative_read)
qed

section \<open>Witnesses\<close>

text \<open>A linear pool at rate 3/2: the amounts 100 and 110 are sampled, then 105 is read off.\<close>

lemma linear_curve: "0 \<le> r \<Longrightarrow> concave_curve (\<lambda>x. r * x)"
  by unfold_locales (simp_all add: algebra_simps)

definition ex_c1 :: curve_cache where
  "ex_c1 = snd (quote_start 5000 0 ''p'' 100 qc_init)"

definition ex_c2 :: curve_cache where
  "ex_c2 = snd (flight_done 5000 0 ''p'' 100 (Some 150) ex_c1)"

definition ex_c3 :: curve_cache where
  "ex_c3 = snd (quote_start 5000 1 ''p'' 110 ex_c2)"

definition ex_c4 :: curve_cache where
  "ex_c4 = snd (flight_done 5000 1 ''p'' 110 (Some 165) ex_c3)"

definition ex_c5 :: curve_cache where
  "ex_c5 = snd (quote_start 5000 2 ''p'' 105 ex_c4)"

lemma ex_run:
  "quote_start 5000 0 ''p'' 100 qc_init = (Sample, ex_c1)"
  "flight_done 5000 0 ''p'' 100 (Some 150) ex_c1 = (150, ex_c2)"
  "quote_start 5000 1 ''p'' 110 ex_c2 = (Sample, ex_c3)"
  "flight_done 5000 1 ''p'' 110 (Some 165) ex_c3 = (165, ex_c4)"
  "quote_start 5000 2 ''p'' 105 ex_c4 = (Answer 157, ex_c5)"
  "jm_get (qc_flights ex_c1) (''p'', 100) = Some ()"
  "jm_get (qc_flights ex_c3) (''p'', 110) = Some ()"
  by code_simp+

definition ex_trace :: "qc_label list" where
  "ex_trace = [Settled ''p'' 110 (Some 165), Called ''p'' 110 Sample,
     Settled ''p'' 100 (Some 150), Called ''p'' 100 Sample]"

lemma ex_reach1: "qc_reach 5000 [Called ''p'' 100 Sample] ex_c1"
  by (rule qc_reach.step [OF qc_reach.init qc_step.call [OF ex_run(1)]])

lemma ex_reach4: "qc_reach 5000 ex_trace ex_c4"
  unfolding ex_trace_def
  by (rule qc_reach.step [OF qc_reach.step [OF qc_reach.step [OF ex_reach1
          qc_step.settle [OF ex_run(6,2)]] qc_step.call [OF ex_run(3)]] qc_step.settle [OF ex_run(7,4)]])

lemma ex_reach5: "qc_reach 5000 (Called ''p'' 105 (Answer 157) # ex_trace) ex_c5"
  by (rule qc_reach.step [OF ex_reach4 qc_step.call [OF ex_run(5)]])

theorem qc_reach_invariant_witness:
  "length (qc_points ex_c4) \<le> max_keys \<and> length (qc_points ex_c4) = 1"
proof -
  have "length (qc_points ex_c4) = 1" by code_simp
  then show ?thesis using qc_reach_invariant [OF ex_reach4] by simp
qed

theorem single_flight_witness:
  "sampled ''p'' 100 [Called ''p'' 100 Sample] = settled ''p'' 100 [Called ''p'' 100 Sample] + 1"
  using single_flight [OF ex_reach1, of "''p''" 100] by (simp add: ex_run(6))

theorem memo_round_trip_witness:
  "fst (quote_start 5000 5000 ''p'' 100 (snd (flight_done 5000 0 ''p'' 100 (Some 150) ex_c1))) = Answer 150"
  using memo_round_trip [OF ex_reach1 ex_run(6), of 5000 0 150] by simp

theorem cache_never_overquotes_witness:
  "(0::int) \<le> 157 \<and> (157::int) \<le> \<lfloor>(3 / 2) * (105::rat)\<rfloor>"
proof -
  have "\<forall>b w. Settled ''p'' b (Some w) \<in> set ex_trace \<longrightarrow>
      w = \<lfloor>(3 / 2) * (of_int b :: rat)\<rfloor> \<and> 0 \<le> w"
    by (auto simp: ex_trace_def)
  then show ?thesis
    using cache_never_overquotes [OF ex_reach5 _ linear_curve [of "3 / 2"]] by simp
qed

end
