(* ===== verification/BookFill.thy ===== *)
theory BookFill
  imports Prelude "HOL-Library.Sublist"
begin

text \<open>
  Planning fills against resting SwapBook orders, \<open>planBookFills\<close>,
  \<open>grossForNet\<close> and \<open>muldivCeil\<close> of \<open>backend/src/server.ts\<close>.

  A maker's floor is net of the protocol fee, so the taker sends a gross payment. The locale
  \<open>fee_schedule\<close> of the prelude is interpreted here for the SwapBook rate. The orders of the pair are an argument (the server
  reads them from the chain).
\<close>

section \<open>The SwapBook fee\<close>

definition swapbook_fee_per_100k :: int where
  "swapbook_fee_per_100k = 5"

definition fee_denominator :: int where
  "fee_denominator = 100000"

interpretation swapbook: fee_schedule swapbook_fee_per_100k fee_denominator
  by unfold_locales (simp_all add: swapbook_fee_per_100k_def fee_denominator_def)

lemmas fee_consts = swapbook_fee_per_100k_def fee_denominator_def

function gross_loop :: "int \<Rightarrow> int \<Rightarrow> int" where
  "gross_loop net g =
    (if g - tdiv (g * swapbook_fee_per_100k + fee_denominator - 1) fee_denominator < net
     then gross_loop net (g + 1) else g)"
  by pat_completeness auto
termination
proof (relation "measure (\<lambda>(net, g). nat (2 * \<bar>net\<bar> + 2 - g))", goal_cases)
  case (2 net g)
  show ?case
  proof (cases "0 \<le> g")
    case True
    from 2 True have "g - (g * 5 + 99999) div 100000 < net"
      by (simp add: fee_consts tdiv_nonneg)
    with True have "g < 2 * \<bar>net\<bar> + 2" by linarith
    then show ?thesis by simp
  qed simp
qed simp

declare gross_loop.simps [simp del]

definition gross_for_net :: "int \<Rightarrow> int" where
  "gross_for_net net =
    (if net \<le> 0 then 0
     else gross_loop net
       (tdiv (net * fee_denominator + (fee_denominator - swapbook_fee_per_100k) - 1)
         (fee_denominator - swapbook_fee_per_100k)))"

text \<open>What the maker nets of a gross payment.\<close>

definition net_after_fee :: "int \<Rightarrow> int" where
  "net_after_fee g = g - cdiv (g * swapbook_fee_per_100k) fee_denominator"

lemma net_after_fee_ge: "net \<le> net_after_fee g \<longleftrightarrow>
    cdiv (net * fee_denominator) (fee_denominator - swapbook_fee_per_100k) \<le> g"
  unfolding net_after_fee_def by (rule swapbook.net_ge_iff)

lemma gross_loop_done: "net \<le> net_after_fee g \<Longrightarrow> 0 \<le> g \<Longrightarrow> gross_loop net g = g"
  by (subst gross_loop.simps) (simp add: net_after_fee_def cdiv_def tdiv_nonneg fee_consts)

text \<open>The starting value already satisfies the loop's condition, so the loop never runs.\<close>

lemma gross_for_net_eq:
  "gross_for_net net = (if net \<le> 0 then 0
    else cdiv (net * fee_denominator) (fee_denominator - swapbook_fee_per_100k))"
proof (cases "net \<le> 0")
  case False
  let ?g = "cdiv (net * fee_denominator) (fee_denominator - swapbook_fee_per_100k)"
  have "tdiv (net * fee_denominator + (fee_denominator - swapbook_fee_per_100k) - 1)
      (fee_denominator - swapbook_fee_per_100k) = ?g"
    using False by (simp add: cdiv_def tdiv_nonneg fee_consts)
  moreover have "0 \<le> ?g" using False by (intro cdiv_nonneg) (simp_all add: fee_consts)
  moreover have "net \<le> net_after_fee ?g" by (simp add: net_after_fee_ge)
  ultimately show ?thesis using False by (simp add: gross_for_net_def gross_loop_done)
qed (simp add: gross_for_net_def)

lemma gross_for_net_nonneg: "0 \<le> gross_for_net net"
  by (simp add: gross_for_net_eq cdiv_nonneg fee_consts)

lemma gross_for_net_covers: "0 \<le> net \<Longrightarrow> net \<le> net_after_fee (gross_for_net net)"
  by (cases "net = 0") (simp_all add: gross_for_net_eq net_after_fee_ge, simp add: net_after_fee_def fee_consts)

lemma gross_for_net_le_iff: "0 \<le> g \<Longrightarrow> gross_for_net net \<le> g \<longleftrightarrow> net \<le> net_after_fee g"
proof -
  assume g: "0 \<le> g"
  have "0 \<le> net_after_fee g" using swapbook.fee_bounds(2) [OF g] by (simp add: net_after_fee_def)
  show ?thesis
  proof (cases "net \<le> 0")
    case True
    with \<open>0 \<le> net_after_fee g\<close> have "net \<le> net_after_fee g" by linarith
    with True g show ?thesis by (simp add: gross_for_net_eq)
  qed (simp add: gross_for_net_eq net_after_fee_ge)
qed

lemma gross_for_net_mono: "n \<le> m \<Longrightarrow> gross_for_net n \<le> gross_for_net m"
  using gross_for_net_le_iff [OF gross_for_net_nonneg [of m], of n] gross_for_net_covers [of m]
  by (cases "0 \<le> m") (auto simp: gross_for_net_eq)

text \<open>
  \<open>grossForNet\<close> is the smallest payment that leaves the maker at least the net
  amount after the rounded-up fee: it covers the amount, and any smaller one does not.
\<close>

theorem gross_for_net_least:
  assumes "0 < net"
  shows "net \<le> net_after_fee (gross_for_net net) \<and> (\<forall>g. g < gross_for_net net \<longrightarrow> net_after_fee g < net)"
  using assms gross_for_net_covers [of net]
  by (auto simp: gross_for_net_eq net_after_fee_ge not_le [symmetric])

theorem gross_for_net_least_witness:
  "gross_for_net 100 = 101 \<and> 100 \<le> net_after_fee 101 \<and> net_after_fee 100 < 100"
proof -
  have e: "gross_for_net 100 = 101" by code_simp
  then show ?thesis using gross_for_net_least [of 100] by simp
qed

section \<open>Orders and fills\<close>

record chain_order =
  co_id :: int
  co_maker :: string
  co_status :: string
  co_amount_in :: int
  co_remaining :: int
  co_min_out :: int
  co_expiry :: int
  co_price_mode :: string
  co_excluded :: "string list"

record book_fill =
  bf_order_id :: int
  bf_fill_in :: int
  bf_payment :: int
  bf_full :: bool

record book_plan =
  bp_fills :: "book_fill list"
  bp_to_sit :: int
  bp_bought :: int
  bp_paid :: int

definition is_open :: "chain_order \<Rightarrow> bool" where
  "is_open o' \<longleftrightarrow> co_status o' = ''Open'' \<or> co_status o' = ''PartialFill''"

text \<open>The gross payment for \<open>x\<close> units of an order.\<close>

definition fill_cost :: "chain_order \<Rightarrow> int \<Rightarrow> int js" where
  "fill_cost o' x = js_bind (muldiv_ceil (co_min_out o') x (co_amount_in o')) (\<lambda>n. Inr (gross_for_net n))"

text \<open>The inner \<open>while (fillable > 0n)\<close>: the first amount, counting down, that the
  budget pays for.\<close>

function partial_loop :: "chain_order \<Rightarrow> int \<Rightarrow> int \<Rightarrow> (int \<times> int) option js" where
  "partial_loop o' budget fillable =
    (if fillable \<le> 0 then Inr None
     else case fill_cost o' fillable of
            Inl e \<Rightarrow> Inl e
          | Inr cost \<Rightarrow> (if cost \<le> budget then Inr (Some (fillable, cost))
                        else partial_loop o' budget (fillable - 1)))"
  by pat_completeness auto
termination
  by (relation "measure (\<lambda>(o', budget, fillable). nat fillable)") auto

declare partial_loop.simps [simp del]

definition partial_step :: "chain_order \<Rightarrow> int \<Rightarrow> (int \<times> int) option js" where
  "partial_step o' budget =
    (let net_budget = tdiv (budget * (fee_denominator - swapbook_fee_per_100k)) fee_denominator
     in js_bind (big_div (net_budget * co_amount_in o') (co_min_out o')) (\<lambda>fillable.
          partial_loop o' budget (if fillable > co_remaining o' then co_remaining o' else fillable)))"

fun book_loop :: "chain_order list \<Rightarrow> int \<Rightarrow> (book_fill list \<times> int) js" where
  "book_loop [] budget = Inr ([], budget)"
| "book_loop (o' # os) budget =
    (if budget \<le> 0 then Inr ([], budget)
     else if co_remaining o' \<le> 0 then book_loop os budget
     else js_bind (fill_cost o' (co_remaining o')) (\<lambda>full_cost.
       if budget \<ge> full_cost
       then js_bind (book_loop os (budget - full_cost)) (\<lambda>(fs, b).
              Inr (\<lparr>bf_order_id = co_id o', bf_fill_in = co_remaining o',
                    bf_payment = full_cost, bf_full = True\<rparr> # fs, b))
       else js_bind (partial_step o' budget) (\<lambda>r.
              case r of
                None \<Rightarrow> book_loop os budget
              | Some (x, cost) \<Rightarrow>
                  js_bind (book_loop os (budget - cost)) (\<lambda>(fs, b).
                    Inr (\<lparr>bf_order_id = co_id o', bf_fill_in = x,
                          bf_payment = cost, bf_full = False\<rparr> # fs, b)))))"

definition book_candidate :: "string \<Rightarrow> chain_order \<Rightarrow> bool" where
  "book_candidate taker o' \<longleftrightarrow> is_open o' \<and> co_price_mode o' = ''Fixed'' \<and> co_amount_in o' > 0
    \<and> co_maker o' \<noteq> taker \<and> taker \<notin> set (co_excluded o')"

text \<open>Organic makers first, the protocol's own wallets (\<open>sdf\<close>) after them.\<close>

definition reverse_orders :: "string list \<Rightarrow> string \<Rightarrow> chain_order list \<Rightarrow> chain_order list" where
  "reverse_orders sdf taker orders =
    (let cands = filter (book_candidate taker) orders
     in filter (\<lambda>o'. co_maker o' \<notin> set sdf) cands @ filter (\<lambda>o'. co_maker o' \<in> set sdf) cands)"

definition plan_book_fills ::
  "string list \<Rightarrow> chain_order list \<Rightarrow> string \<Rightarrow> int \<Rightarrow> book_plan js" where
  "plan_book_fills sdf orders taker amount_in =
    js_bind (book_loop (reverse_orders sdf taker orders) amount_in) (\<lambda>(fills, budget).
      Inr \<lparr>bp_fills = fills, bp_to_sit = budget,
           bp_bought = (\<Sum>f\<leftarrow>fills. bf_fill_in f), bp_paid = (\<Sum>f\<leftarrow>fills. bf_payment f)\<rparr>)"

section \<open>Costs\<close>

text \<open>Orders as the chain keeps them: a positive size and a floor that is not negative.\<close>

definition order_ok :: "chain_order \<Rightarrow> bool" where
  "order_ok o' \<longleftrightarrow> 0 < co_amount_in o' \<and> 0 \<le> co_min_out o'"

definition floor_of :: "chain_order \<Rightarrow> int \<Rightarrow> int" where
  "floor_of o' x = cdiv (co_min_out o' * x) (co_amount_in o')"

lemma fill_cost_eq: "order_ok o' \<Longrightarrow> 0 \<le> x \<Longrightarrow> fill_cost o' x = Inr (gross_for_net (floor_of o' x))"
  by (simp add: fill_cost_def order_ok_def muldiv_ceil_eq floor_of_def)

lemma floor_of_nonneg: "order_ok o' \<Longrightarrow> 0 \<le> x \<Longrightarrow> 0 \<le> floor_of o' x"
  by (simp add: floor_of_def order_ok_def cdiv_nonneg)

text \<open>Below the full cost the floor is positive, so the division by it is defined.\<close>

lemma min_out_pos:
  assumes "order_ok o'" "0 < budget" "budget < gross_for_net (floor_of o' x)"
  shows "0 < co_min_out o'"
proof (rule ccontr)
  assume "\<not> 0 < co_min_out o'"
  with assms(1) have "co_min_out o' = 0" by (simp add: order_ok_def)
  with assms(1) have "floor_of o' x = 0" by (simp add: floor_of_def order_ok_def)
  with assms(2,3) show False by (simp add: gross_for_net_eq)
qed

definition net_budget :: "int \<Rightarrow> int" where
  "net_budget b = b * (fee_denominator - swapbook_fee_per_100k) div fee_denominator"

lemma net_budget_nonneg: "0 \<le> b \<Longrightarrow> 0 \<le> net_budget b"
  by (simp add: net_budget_def fee_consts pos_imp_zdiv_nonneg_iff)

lemma net_budget_tdiv:
  "0 \<le> b \<Longrightarrow> tdiv (b * (fee_denominator - swapbook_fee_per_100k)) fee_denominator = net_budget b"
  unfolding net_budget_def by (rule tdiv_nonneg) (simp_all add: fee_consts)

text \<open>Affordability of a fill is a linear condition on its size.\<close>

lemma affordable_iff:
  assumes "order_ok o'" "0 < co_min_out o'" "0 \<le> b"
  shows "gross_for_net (floor_of o' x) \<le> b \<longleftrightarrow> x \<le> net_budget b * co_amount_in o' div co_min_out o'"
proof -
  have nb: "net_budget b = net_after_fee b"
  proof (rule order.antisym)
    show "net_budget b \<le> net_after_fee b"
      unfolding net_after_fee_ge net_budget_def by (rule swapbook.gross_of_net_part) simp
    show "net_after_fee b \<le> net_budget b"
    proof (rule ccontr)
      assume "\<not> net_after_fee b \<le> net_budget b"
      then have "b < cdiv (net_after_fee b * fee_denominator) (fee_denominator - swapbook_fee_per_100k)"
        unfolding net_budget_def not_le by (rule swapbook.gross_above_net_part)
      with net_after_fee_ge [of "net_after_fee b" b] show False by simp
    qed
  qed
  have "gross_for_net (floor_of o' x) \<le> b \<longleftrightarrow> floor_of o' x \<le> net_budget b"
    using assms(3) by (simp add: gross_for_net_le_iff nb)
  also have "\<dots> \<longleftrightarrow> co_min_out o' * x \<le> net_budget b * co_amount_in o'"
    unfolding floor_of_def using assms(1) by (intro cdiv_le_iff) (simp add: order_ok_def)
  also have "\<dots> \<longleftrightarrow> x \<le> net_budget b * co_amount_in o' div co_min_out o'"
    using assms(2) by (simp add: le_div_iff mult.commute)
  finally show ?thesis .
qed

text \<open>The largest size the budget pays for; the loop takes it at its first test.\<close>

definition best_partial :: "chain_order \<Rightarrow> int \<Rightarrow> int" where
  "best_partial o' b = min (co_remaining o') (net_budget b * co_amount_in o' div co_min_out o')"

lemma partial_step_eq:
  assumes "order_ok o'" "0 < co_min_out o'" "0 \<le> b"
  shows "partial_step o' b =
    Inr (if best_partial o' b \<le> 0 then None
         else Some (best_partial o' b, gross_for_net (floor_of o' (best_partial o' b))))"
proof -
  let ?x = "best_partial o' b"
  have x: "(if net_budget b * co_amount_in o' div co_min_out o' > co_remaining o' then co_remaining o'
      else net_budget b * co_amount_in o' div co_min_out o') = ?x"
    by (auto simp: best_partial_def)
  have "0 \<le> net_budget b * co_amount_in o'"
    using assms by (simp add: net_budget_nonneg order_ok_def)
  then have "partial_step o' b = partial_loop o' b ?x"
    using assms x [symmetric]
    by (simp only: partial_step_def Let_def net_budget_tdiv big_div_pos js_bind_simps tdiv_nonneg)
  moreover have "partial_loop o' b ?x = Inr (Some (?x, gross_for_net (floor_of o' ?x)))" if "0 < ?x"
  proof -
    have "?x \<le> net_budget b * co_amount_in o' div co_min_out o'" by (simp add: best_partial_def)
    then have "gross_for_net (floor_of o' ?x) \<le> b" using assms by (simp add: affordable_iff)
    with that assms(1) show ?thesis by (subst partial_loop.simps) (simp add: fill_cost_eq)
  qed
  moreover have "partial_loop o' b ?x = Inr None" if "?x \<le> 0"
    using that by (subst partial_loop.simps) simp
  ultimately show ?thesis by simp
qed

section \<open>The plan\<close>

text \<open>One fill against its order, as the property below needs it.\<close>

definition fill_ok :: "chain_order \<Rightarrow> book_fill \<Rightarrow> bool" where
  "fill_ok o' f \<longleftrightarrow> bf_order_id f = co_id o' \<and> 0 < bf_fill_in f \<and> bf_fill_in f \<le> co_remaining o'
    \<and> (bf_full f \<longrightarrow> bf_fill_in f = co_remaining o')
    \<and> co_min_out o' * bf_fill_in f \<le> net_after_fee (bf_payment f) * co_amount_in o'"

lemma floor_of_cost: "order_ok o' \<Longrightarrow> 0 \<le> x \<Longrightarrow>
    co_min_out o' * x \<le> net_after_fee (gross_for_net (floor_of o' x)) * co_amount_in o'"
proof -
  assume o: "order_ok o'" and x: "0 \<le> x"
  have "co_min_out o' * x \<le> floor_of o' x * co_amount_in o'"
    unfolding floor_of_def using o by (intro cdiv_ge) (simp add: order_ok_def)
  also have "\<dots> \<le> net_after_fee (gross_for_net (floor_of o' x)) * co_amount_in o'"
    using o x by (intro mult_right_mono gross_for_net_covers floor_of_nonneg) (auto simp: order_ok_def)
  finally show ?thesis .
qed

text \<open>
  The loop as a case split on one order: skipped, filled in full, filled in part, or not
  affordable at all. Every proof about the loop goes through this rule.
\<close>

lemma book_loop_step:
  assumes o: "order_ok o'" and b: "0 < budget"
  shows "book_loop (o' # os) budget =
    (if co_remaining o' \<le> 0 then book_loop os budget
     else let cost = gross_for_net (floor_of o' (co_remaining o')) in
       if cost \<le> budget
       then js_bind (book_loop os (budget - cost)) (\<lambda>(fs, b).
              Inr (\<lparr>bf_order_id = co_id o', bf_fill_in = co_remaining o',
                    bf_payment = cost, bf_full = True\<rparr> # fs, b))
       else let x = best_partial o' budget; c = gross_for_net (floor_of o' x) in
         if x \<le> 0 then book_loop os budget
         else js_bind (book_loop os (budget - c)) (\<lambda>(fs, b).
              Inr (\<lparr>bf_order_id = co_id o', bf_fill_in = x, bf_payment = c, bf_full = False\<rparr> # fs, b)))"
proof (cases "co_remaining o' \<le> 0")
  case False
  let ?c = "gross_for_net (floor_of o' (co_remaining o'))"
  show ?thesis
  proof (cases "?c \<le> budget")
    case True
    with False o b show ?thesis by (simp add: fill_cost_eq Let_def)
  next
    case exp: False
    with o b have "0 < co_min_out o'" by (intro min_out_pos [of o' budget "co_remaining o'"]) auto
    with o b have "partial_step o' budget = Inr (if best_partial o' budget \<le> 0 then None
         else Some (best_partial o' budget, gross_for_net (floor_of o' (best_partial o' budget))))"
      by (intro partial_step_eq) auto
    with False exp o b show ?thesis by (simp add: fill_cost_eq Let_def)
  qed
qed (use b in simp)

text \<open>The cost of what the loop takes is within the budget.\<close>

lemma best_partial_affordable:
  assumes "order_ok o'" "0 < budget" "budget < gross_for_net (floor_of o' x)"
  shows "gross_for_net (floor_of o' (best_partial o' budget)) \<le> budget"
  using assms min_out_pos [OF assms]
  by (subst affordable_iff) (auto simp: best_partial_def)

definition plan_ok :: "chain_order list \<Rightarrow> int \<Rightarrow> book_fill list \<Rightarrow> int \<Rightarrow> bool" where
  "plan_ok os budget fs b \<longleftrightarrow> 0 \<le> b \<and> (\<Sum>f\<leftarrow>fs. bf_payment f) + b = budget
    \<and> (\<exists>os'. subseq os' os \<and> list_all2 fill_ok os' fs)"

lemma plan_ok_skip: "plan_ok os budget fs b \<Longrightarrow> plan_ok (o' # os) budget fs b"
  by (auto simp: plan_ok_def intro: list_emb_Cons)

lemma plan_ok_fill:
  assumes "plan_ok os (budget - bf_payment f) fs b" "fill_ok o' f"
  shows "plan_ok (o' # os) budget (f # fs) b"
proof -
  from assms(1) obtain os' where "subseq os' os" "list_all2 fill_ok os' fs" by (auto simp: plan_ok_def)
  with assms(2) have "subseq (o' # os') (o' # os) \<and> list_all2 fill_ok (o' # os') (f # fs)" by simp
  with assms(1) show ?thesis unfolding plan_ok_def by (intro conjI exI [of _ "o' # os'"]) auto
qed

lemma book_loop_ok:
  assumes "\<forall>o'\<in>set os. order_ok o'" "0 \<le> budget"
  shows "\<exists>fs b. book_loop os budget = Inr (fs, b) \<and> plan_ok os budget fs b"
  using assms
proof (induction os arbitrary: budget)
  case Nil
  then show ?case by (simp add: plan_ok_def)
next
  case (Cons o' os)
  have IH: "0 \<le> d \<Longrightarrow> \<exists>fs b. book_loop os d = Inr (fs, b) \<and> plan_ok os d fs b" for d
    using Cons by simp
  have o: "order_ok o'" using Cons by simp
  show ?case
  proof (cases "budget = 0")
    case True
    have "subseq [] (o' # os)" by simp
    with True show ?thesis by (fastforce simp: plan_ok_def)
  next
    case False
    with Cons have b: "0 < budget" by simp
    let ?cost = "\<lambda>x. gross_for_net (floor_of o' x)" and ?x = "best_partial o' budget"
    note step = book_loop_step [OF o b, of os]
    have skip: "\<exists>fs b. book_loop os budget = Inr (fs, b) \<and> plan_ok (o' # os) budget fs b"
      using IH [of budget] b plan_ok_skip by fastforce
    have take: "\<exists>fs b. book_loop os (budget - bf_payment f) = Inr (fs, b) \<and>
        plan_ok (o' # os) budget (f # fs) b" if "fill_ok o' f" "bf_payment f \<le> budget" for f
      using IH [of "budget - bf_payment f"] that plan_ok_fill by fastforce
    consider "co_remaining o' \<le> 0" | "0 < co_remaining o'" "?cost (co_remaining o') \<le> budget"
      | "0 < co_remaining o'" "budget < ?cost (co_remaining o')" "?x \<le> 0"
      | "0 < co_remaining o'" "budget < ?cost (co_remaining o')" "0 < ?x" by linarith
    then show ?thesis
    proof cases
      case 1
      then show ?thesis using skip step by simp
    next
      case 2
      let ?f = "\<lparr>bf_order_id = co_id o', bf_fill_in = co_remaining o',
                 bf_payment = ?cost (co_remaining o'), bf_full = True\<rparr>"
      have "fill_ok o' ?f" using 2 floor_of_cost [OF o, of "co_remaining o'"] by (simp add: fill_ok_def)
      with take [of ?f] 2 step show ?thesis by (auto simp: Let_def)
    next
      case 3
      then show ?thesis using skip step by (simp add: Let_def)
    next
      case 4
      let ?f = "\<lparr>bf_order_id = co_id o', bf_fill_in = ?x, bf_payment = ?cost ?x, bf_full = False\<rparr>"
      have "fill_ok o' ?f" using 4 floor_of_cost [OF o, of ?x]
        by (simp add: fill_ok_def best_partial_def)
      moreover have "?cost ?x \<le> budget" using best_partial_affordable [OF o b 4(2)] .
      ultimately show ?thesis using take [of ?f] 4 step by (auto simp: Let_def)
    qed
  qed
qed

lemma reverse_orders_candidates: "o' \<in> set (reverse_orders sdf taker orders) \<Longrightarrow>
    o' \<in> set orders \<and> book_candidate taker o'"
  by (auto simp: reverse_orders_def Let_def)

text \<open>
  C8. Planning against any resting orders with non-negative floors never throws and conserves the
  taker's budget exactly: payments plus the amount left to sit are the amount in, nothing goes
  negative. The fills go, in the order organic makers then protocol wallets, to open fixed-price
  orders of other makers that do not exclude the taker; each takes a positive part of what
  the order still holds, and what the maker nets of the payment after the fee is at least the
  maker's pro-rata floor.
\<close>

theorem plan_conserves:
  assumes "\<forall>o'\<in>set orders. 0 \<le> co_min_out o'" "0 \<le> amount_in"
  shows "\<exists>p. plan_book_fills sdf orders taker amount_in = Inr p
    \<and> bp_paid p + bp_to_sit p = amount_in \<and> 0 \<le> bp_to_sit p
    \<and> bp_paid p = (\<Sum>f\<leftarrow>bp_fills p. bf_payment f) \<and> bp_bought p = (\<Sum>f\<leftarrow>bp_fills p. bf_fill_in f)
    \<and> (\<exists>os. subseq os (reverse_orders sdf taker orders) \<and> (\<forall>o'\<in>set os. book_candidate taker o')
        \<and> list_all2 (\<lambda>o' f. bf_order_id f = co_id o' \<and> 0 < bf_fill_in f \<and> bf_fill_in f \<le> co_remaining o'
            \<and> (bf_full f \<longrightarrow> bf_fill_in f = co_remaining o')
            \<and> co_min_out o' * bf_fill_in f \<le> net_after_fee (bf_payment f) * co_amount_in o') os (bp_fills p))"
proof -
  have "\<forall>o'\<in>set (reverse_orders sdf taker orders). order_ok o'"
    using assms(1) by (auto simp: order_ok_def book_candidate_def dest: reverse_orders_candidates)
  from book_loop_ok [OF this assms(2)] obtain fs b os
    where l: "book_loop (reverse_orders sdf taker orders) amount_in = Inr (fs, b)"
      and b: "0 \<le> b" "(\<Sum>f\<leftarrow>fs. bf_payment f) + b = amount_in"
      and os: "subseq os (reverse_orders sdf taker orders)" "list_all2 fill_ok os fs"
    unfolding plan_ok_def by blast
  have "\<forall>o'\<in>set os. book_candidate taker o'"
    using os(1) by (auto elim!: list_emb_set dest: reverse_orders_candidates)
  with os have "\<exists>os. subseq os (reverse_orders sdf taker orders) \<and> (\<forall>o'\<in>set os. book_candidate taker o')
      \<and> list_all2 fill_ok os fs" by blast
  with l b show ?thesis by (simp add: plan_book_fills_def fill_ok_def [abs_def])
qed

text \<open>
  A partial fill is optimal and found at the first try: when the budget does not cover the
  order, the fill the code takes is affordable, and no larger size up to what the order holds is.
\<close>

theorem partial_fill_maximal:
  assumes "0 < co_amount_in o'" "0 \<le> co_min_out o'" "0 < budget"
    and dear: "fill_cost o' (co_remaining o') = Inr full" "budget < full" "0 \<le> co_remaining o'"
    and step: "partial_step o' budget = Inr r"
  shows "(case r of
      None \<Rightarrow> \<forall>y c. 0 < y \<longrightarrow> y \<le> co_remaining o' \<longrightarrow> fill_cost o' y = Inr c \<longrightarrow> budget < c
    | Some (x, cost) \<Rightarrow> 0 < x \<and> x \<le> co_remaining o' \<and> fill_cost o' x = Inr cost \<and> cost \<le> budget
        \<and> (\<forall>y c. x < y \<longrightarrow> y \<le> co_remaining o' \<longrightarrow> fill_cost o' y = Inr c \<longrightarrow> budget < c))"
proof -
  have o: "order_ok o'" using assms by (simp add: order_ok_def)
  have full: "budget < gross_for_net (floor_of o' (co_remaining o'))"
    using dear o by (simp add: fill_cost_eq)
  then have m: "0 < co_min_out o'" using o assms(3) by (intro min_out_pos [of o' budget]) auto
  let ?x = "best_partial o' budget"
  have r: "r = (if ?x \<le> 0 then None else Some (?x, gross_for_net (floor_of o' ?x)))"
    using step partial_step_eq [OF o m, of budget] assms(3) by simp
  have dearer: "budget < c" if "?x < y" "y \<le> co_remaining o'" "fill_cost o' y = Inr c" "0 < y" for y c
  proof -
    from that have "\<not> y \<le> net_budget budget * co_amount_in o' div co_min_out o'"
      by (auto simp: best_partial_def min_def split: if_splits)
    with affordable_iff [OF o m, of budget y] assms(3) have "budget < gross_for_net (floor_of o' y)" by simp
    with that o show ?thesis by (simp add: fill_cost_eq)
  qed
  have "gross_for_net (floor_of o' ?x) \<le> budget" using best_partial_affordable [OF o assms(3) full] .
  moreover have "?x \<le> co_remaining o'" by (simp add: best_partial_def)
  ultimately show ?thesis
  proof (cases "?x \<le> 0")
    case True
    have "budget < c" if "0 < y" "y \<le> co_remaining o'" "fill_cost o' y = Inr c" for y c
      using that True by (intro dearer [of y]) auto
    with r True show ?thesis by simp
  next
    case False
    have "budget < c" if "?x < y" "y \<le> co_remaining o'" "fill_cost o' y = Inr c" for y c
      using that False by (intro dearer [of y]) auto
    with r False o \<open>?x \<le> co_remaining o'\<close> \<open>gross_for_net (floor_of o' ?x) \<le> budget\<close>
    show ?thesis by (simp add: fill_cost_eq)
  qed
qed

section \<open>Witnesses\<close>

definition ex_order :: chain_order where
  "ex_order = \<lparr>co_id = 7, co_maker = ''M'', co_status = ''Open'', co_amount_in = 1000, co_remaining = 600,
     co_min_out = 3000, co_expiry = 9, co_price_mode = ''Fixed'', co_excluded = []\<rparr>"

definition ex_own :: chain_order where
  "ex_own = ex_order\<lparr>co_id := 8, co_maker := ''T''\<rparr>"

theorem plan_conserves_witness:
  "\<exists>p. plan_book_fills [] [ex_own, ex_order] ''T'' 1000 = Inr p \<and> bp_paid p + bp_to_sit p = 1000
    \<and> bp_bought p = 333"
proof -
  have "\<forall>o'\<in>set [ex_own, ex_order]. 0 \<le> co_min_out o'" by (simp add: ex_own_def ex_order_def)
  from plan_conserves [OF this, of 1000 "[]" "''T''"]
  obtain p where p: "plan_book_fills [] [ex_own, ex_order] ''T'' 1000 = Inr p"
    "bp_paid p + bp_to_sit p = 1000" by auto
  have "map_sum id bp_bought (plan_book_fills [] [ex_own, ex_order] ''T'' 1000) = Inr 333"
    by code_simp
  with p show ?thesis by auto
qed

theorem partial_fill_maximal_witness:
  "partial_step ex_order 1000 = Inr (Some (333, 1000)) \<and> fill_cost ex_order 334 = Inr 1003
    \<and> (1000::int) < 1003"
proof -
  have e: "partial_step ex_order 1000 = Inr (Some (333, 1000))"
    "fill_cost ex_order (co_remaining ex_order) = Inr 1801" "fill_cost ex_order 334 = Inr 1003"
    "co_remaining ex_order = 600" "0 < co_amount_in ex_order" "0 \<le> co_min_out ex_order"
    by code_simp+
  from partial_fill_maximal [OF e(5,6) _ e(2) _ _ e(1)] e show ?thesis by simp
qed

end
