(* ===== verification/Engine.thy ===== *)
theory Engine
  imports Prelude JsNumber
begin

text \<open>
  The smart order routing engine, \<open>backend/src/router/engine.ts\<close>, over the venue
  interface of \<open>backend/src/venues/adapter.ts\<close>.

  A venue is a record whose function fields are the adapter's methods; a rejected promise is
  an \<open>Inl\<close>. \<open>compute_route\<close> follows the method step by step: filter the venues,
  build the depth ladder, quote it, turn quotes into tranches, allocate greedily in the
  order of the marginal cost, repair the conservation of the input amount, charge the fee,
  build the instructions. Amounts are bigints (\<open>int\<close>), the informational figures are
  doubles (\<open>num\<close>).
\<close>

section \<open>The venue interface\<close>

record depth_quote =
  dq_in :: int
  dq_out :: int
  dq_marginal :: num

record swap_instruction =
  si_contract :: string
  si_venue :: int
  si_in :: int
  si_min_out :: int

record venue =
  v_name :: string
  v_id :: int
  v_executable :: bool
  v_depth :: "string \<Rightarrow> string \<Rightarrow> int list \<Rightarrow> depth_quote list js"
  v_build :: "string \<Rightarrow> string \<Rightarrow> int \<Rightarrow> int \<Rightarrow> swap_instruction js"

section \<open>The depth ladder\<close>

definition depth_levels :: "int list" where
  "depth_levels = [100 * 10 ^ 7, 1000 * 10 ^ 7, 5000 * 10 ^ 7, 10000 * 10 ^ 7, 25000 * 10 ^ 7,
     50000 * 10 ^ 7, 100000 * 10 ^ 7, 500000 * 10 ^ 7]"

record decimals =
  dec_in :: int
  dec_out :: int

definition depth_ladder :: "int \<Rightarrow> int \<Rightarrow> int list" where
  "depth_ladder decs_in amount_in =
    (let scale = (if decs_in > 7 then 10 ^ nat (decs_in - 7) else 1);
         ls = filter (\<lambda>d. d \<le> amount_in * 2) (map (\<lambda>d. d * scale) depth_levels)
     in if amount_in \<in> set ls then ls else js_sort (\<lambda>a b. b < a) (ls @ [amount_in]))"

section \<open>Tranches\<close>

record tranche =
  tr_venue :: int
  tr_name :: string
  tr_from :: int
  tr_to :: int
  tr_amount :: int
  tr_marginal :: num
  tr_out :: int

text \<open>\<open>spotOut\<close> and \<open>spotIn\<close>: output and level of the first successful
  quote; a level that does not exist compares like 0.\<close>

fun first_good :: "depth_quote list \<Rightarrow> int list \<Rightarrow> int \<times> int" where
  "first_good [] ls = (0, 0)"
| "first_good (q # qs) ls =
    (if dq_out q > 0 then (dq_out q, (case ls of [] \<Rightarrow> 0 | l # _ \<Rightarrow> l)) else first_good qs (tl ls))"

text \<open>
  The loop over the quotes. \<open>good\<close> is the level and output of the last successful quote
  (\<open>lastGood\<close>), \<open>prev\<close> the previous level. A quote beyond the levels mixes
  \<open>undefined\<close> into bigint arithmetic, a TypeError.
\<close>

fun tranche_loop ::
  "int \<Rightarrow> string \<Rightarrow> int \<times> int \<Rightarrow> (int \<times> int) option \<Rightarrow> int option
    \<Rightarrow> depth_quote list \<Rightarrow> int list \<Rightarrow> tranche list js" where
  "tranche_loop vid nm spot good prev [] ls = Inr []"
| "tranche_loop vid nm spot good prev (q # qs) [] = Inl TypeError"
| "tranche_loop vid nm spot good prev (q # qs) (to # ls) =
    (if dq_out q \<le> 0
     then let from = (case prev of None \<Rightarrow> 0 | Some p \<Rightarrow> p)
          in js_bind (tranche_loop vid nm spot good (Some to) qs ls) (\<lambda>ts.
               Inr (\<lparr>tr_venue = vid, tr_name = nm, tr_from = from, tr_to = to, tr_amount = to - from,
                     tr_marginal = PInf, tr_out = 0\<rparr> # ts))
     else let from = (case good of None \<Rightarrow> 0 | Some (l, _) \<Rightarrow> l);
              amount = to - from;
              prev_out = (case good of None \<Rightarrow> 0 | Some (_, w) \<Rightarrow> w);
              raw = dq_out q - prev_out;
              marginal_out =
                (if fst spot > 0 \<and> snd spot > 0
                 then let cap = tdiv (amount * fst spot) (snd spot) in if raw > cap then cap else raw
                 else raw);
              marginal_bps = (if amount > 0 then num_of_big (tdiv ((amount - marginal_out) * 10000) amount)
                              else PInf)
          in js_bind (tranche_loop vid nm spot (Some (to, dq_out q)) (Some to) qs ls) (\<lambda>ts.
               Inr (\<lparr>tr_venue = vid, tr_name = nm, tr_from = from, tr_to = to, tr_amount = amount,
                     tr_marginal = marginal_bps, tr_out = marginal_out\<rparr> # ts)))"

definition build_tranches :: "venue \<Rightarrow> depth_quote list \<Rightarrow> int list \<Rightarrow> tranche list js" where
  "build_tranches v quotes levels =
    tranche_loop (v_id v) (v_name v) (first_good quotes levels) None None quotes levels"

section \<open>Greedy allocation\<close>

record alloc =
  al_in :: int
  al_out :: int
  al_name :: string

record greedy =
  gr_allocs :: "(int, alloc) jmap"
  gr_consumed :: "(int, int) jmap"
  gr_remaining :: int

definition consumed_of :: "greedy \<Rightarrow> int \<Rightarrow> int" where
  "consumed_of st v = (case jm_get (gr_consumed st) v of None \<Rightarrow> 0 | Some c \<Rightarrow> c)"

definition greedy_step :: "tranche \<Rightarrow> greedy \<Rightarrow> greedy" where
  "greedy_step t st =
    (if tr_marginal t = PInf then st
     else let consumed = consumed_of st (tr_venue t)
     in if consumed \<ge> tr_to t then st
     else let available = tr_to t - (if consumed > tr_from t then consumed else tr_from t);
              fill = (if gr_remaining st < available then gr_remaining st else available)
     in if fill \<le> 0 then st
     else let expected = (if tr_amount t > 0 then tdiv (tr_out t * fill) (tr_amount t) else 0);
              a = (case jm_get (gr_allocs st) (tr_venue t) of
                     Some e \<Rightarrow> e\<lparr>al_in := al_in e + fill, al_out := al_out e + expected\<rparr>
                   | None \<Rightarrow> \<lparr>al_in = fill, al_out = expected, al_name = tr_name t\<rparr>)
     in st\<lparr>gr_allocs := jm_set (tr_venue t) a (gr_allocs st),
           gr_consumed := jm_set (tr_venue t) (consumed + fill) (gr_consumed st),
           gr_remaining := gr_remaining st - fill\<rparr>)"

fun greedy_loop :: "tranche list \<Rightarrow> greedy \<Rightarrow> greedy" where
  "greedy_loop [] st = st"
| "greedy_loop (t # ts) st = (if gr_remaining st \<le> 0 then st else greedy_loop ts (greedy_step t st))"

definition sort_tranches :: "tranche list \<Rightarrow> tranche list" where
  "sort_tranches = js_sort (\<lambda>a b. num_lt (Fin 0) (num_sub (tr_marginal a) (tr_marginal b)))"

text \<open>
  The head of the entries sorted by \<open>b.amountIn > a.amountIn ? 1 : -1\<close>. The comparator
  never answers 0, so the standard leaves the order of equal amounts to the engine; V8's
  insertion puts the later entry first, which is what is modelled.
\<close>

definition largest_alloc :: "(int, alloc) jmap \<Rightarrow> int \<times> alloc" where
  "largest_alloc m = foldl (\<lambda>best e. if al_in (snd e) \<ge> al_in (snd best) then e else best) (hd m) (tl m)"

definition spread_remaining :: "greedy \<Rightarrow> (int, alloc) jmap" where
  "spread_remaining st =
    (if gr_remaining st > 0 \<and> gr_allocs st \<noteq> []
     then let (k, a) = largest_alloc (gr_allocs st)
          in jm_set k (a\<lparr>al_in := al_in a + gr_remaining st\<rparr>) (gr_allocs st)
     else gr_allocs st)"

definition drop_empty :: "(int, alloc) jmap \<Rightarrow> (int, alloc) jmap" where
  "drop_empty = filter (\<lambda>e. \<not> al_out (snd e) \<le> 0)"

record route_segment =
  sg_name :: string
  sg_venue :: int
  sg_in :: int
  sg_out :: int
  sg_bps :: num

text \<open>An input amount in the decimals of the output token.\<close>

definition scale_in :: "decimals \<Rightarrow> int \<Rightarrow> int" where
  "scale_in d a = (if dec_out d \<ge> dec_in d then a * 10 ^ nat (dec_out d - dec_in d)
                   else tdiv a (10 ^ nat (dec_in d - dec_out d)))"

definition cost_bps :: "int \<Rightarrow> int \<Rightarrow> num" where
  "cost_bps scaled out = (if scaled > 0 then num_of_big (tdiv ((scaled - out) * 10000) scaled) else Fin 0)"

definition greedy_allocate :: "tranche list \<Rightarrow> int \<Rightarrow> decimals \<Rightarrow> route_segment list" where
  "greedy_allocate tranches amount d =
    (let st = greedy_loop (sort_tranches tranches)
                \<lparr>gr_allocs = jm_empty, gr_consumed = jm_empty, gr_remaining = amount\<rparr>
     in map (\<lambda>(v, a). \<lparr>sg_name = al_name a, sg_venue = v, sg_in = al_in a, sg_out = al_out a,
                      sg_bps = cost_bps (scale_in d (al_in a)) (al_out a)\<rparr>)
          (drop_empty (spread_remaining st)))"

section \<open>Computing a route\<close>

text \<open>\<open>segments.reduce((a, b) => b.amountIn > a.amountIn ? b : a)\<close> as an index.\<close>

definition largest_index :: "route_segment list \<Rightarrow> nat" where
  "largest_index segs =
    foldl (\<lambda>best i. if sg_in (segs ! i) > sg_in (segs ! best) then i else best) 0 [1..<length segs]"

definition conserve :: "int \<Rightarrow> route_segment list \<Rightarrow> route_segment list" where
  "conserve amount_in segs =
    (if segs = [] then segs
     else let allocated = (\<Sum>s\<leftarrow>segs. sg_in s) in
       if allocated \<noteq> amount_in
       then let i = largest_index segs; s = segs ! i
            in segs[i := s\<lparr>sg_in := sg_in s + (amount_in - allocated)\<rparr>]
       else segs)"

definition fee_den :: int where
  "fee_den = 100000"

definition protocol_fee :: "int \<Rightarrow> int \<Rightarrow> int" where
  "protocol_fee fee_num out = (if out > 0 then tdiv (out * fee_num + fee_den - 1) fee_den else 0)"

record route =
  rt_in :: int
  rt_total_out :: int
  rt_blended_bps :: num
  rt_impact_bps :: num
  rt_fee :: int
  rt_book_out :: int
  rt_net_out :: int
  rt_segments :: "route_segment list"
  rt_instructions :: "swap_instruction list"

record profile =
  pf_venue :: venue
  pf_quotes :: "depth_quote list"
  pf_tranches :: "tranche list"

text \<open>The best small-size rate over the venues, and the impact of executing below it.\<close>

fun spot_rate :: "profile list \<Rightarrow> num \<Rightarrow> num" where
  "spot_rate [] best = best"
| "spot_rate (p # ps) best =
    (case pf_quotes p of
       [] \<Rightarrow> spot_rate ps best
     | q # _ \<Rightarrow>
         (if dq_out q > 0 \<and> dq_in q > 0
          then let r = num_div (num_of_big (dq_out q)) (num_of_big (dq_in q))
               in spot_rate ps (if num_lt best r then r else best)
          else spot_rate ps best))"

definition price_impact :: "num \<Rightarrow> int \<Rightarrow> int \<Rightarrow> num" where
  "price_impact spot amount_in total_out =
    (let exec = (if amount_in > 0 then num_div (num_of_big total_out) (num_of_big amount_in) else Fin 0)
     in if num_lt (Fin 0) spot \<and> num_lt (Fin 0) exec
        then num_max (Fin 0) (num_mul (num_sub (Fin 1) (num_div exec spot)) (Fin 10000))
        else Fin 0)"

definition leg_min_out :: "int \<Rightarrow> int \<Rightarrow> int" where
  "leg_min_out slippage out = tdiv (out * (10000 - slippage)) 10000"

definition select_venues :: "bool \<Rightarrow> bool \<Rightarrow> venue list \<Rightarrow> venue list" where
  "select_venues executable_only include_classic vs =
    (if executable_only then filter (\<lambda>v. v_executable v \<or> include_classic \<and> v_id v = 3) vs else vs)"

definition make_profile :: "string \<Rightarrow> string \<Rightarrow> int list \<Rightarrow> venue \<Rightarrow> profile js" where
  "make_profile tin tout ladder v =
    js_bind (v_depth v tin tout ladder) (\<lambda>qs.
      js_bind (build_tranches v qs ladder) (\<lambda>ts.
        Inr \<lparr>pf_venue = v, pf_quotes = qs, pf_tranches = ts\<rparr>))"

definition make_instruction :: "venue list \<Rightarrow> string \<Rightarrow> string \<Rightarrow> int \<Rightarrow> route_segment \<Rightarrow> swap_instruction js" where
  "make_instruction vs tin tout slippage s =
    (case find (\<lambda>v. v_id v = sg_venue s) vs of
       None \<Rightarrow> Inl TypeError
     | Some v \<Rightarrow> v_build v tin tout (sg_in s) (leg_min_out slippage (sg_out s)))"

definition compute_route ::
  "int \<Rightarrow> venue list \<Rightarrow> string \<Rightarrow> string \<Rightarrow> int \<Rightarrow> int \<Rightarrow> bool \<Rightarrow> bool \<Rightarrow> decimals \<Rightarrow> route js" where
  "compute_route fee_num available tin tout amount_in slippage executable_only include_classic d =
    (let venues = select_venues executable_only include_classic available
     in if venues = [] then Inl (Thrown ''No venues available'')
     else let ladder = depth_ladder (dec_in d) amount_in
     in js_bind (js_all (make_profile tin tout ladder) venues) (\<lambda>profiles.
       let segments = conserve amount_in (greedy_allocate (concat (map pf_tranches profiles)) amount_in d);
           total = (\<Sum>s\<leftarrow>segments. sg_out s);
           fee = protocol_fee fee_num total;
           net = total - fee
       in js_bind (js_all (make_instruction venues tin tout slippage) segments) (\<lambda>instructions.
         Inr \<lparr>rt_in = amount_in, rt_total_out = total,
              rt_blended_bps = cost_bps (scale_in d amount_in) net,
              rt_impact_bps = price_impact (spot_rate profiles (Fin 0)) amount_in total,
              rt_fee = fee,
              rt_book_out = (\<Sum>s\<leftarrow>filter (\<lambda>s. sg_name s = ''SwapBook'') segments. sg_out s),
              rt_net_out = net, rt_segments = segments, rt_instructions = instructions\<rparr>)))"

section \<open>What the allocation keeps\<close>

definition alloc_sum :: "(int, alloc) jmap \<Rightarrow> int" where
  "alloc_sum m = (\<Sum>e\<leftarrow>m. al_in (snd e))"

definition gr_ok :: "int \<Rightarrow> greedy \<Rightarrow> bool" where
  "gr_ok amount st \<longleftrightarrow>
    jm_ok (gr_allocs st) \<and> alloc_sum (gr_allocs st) + gr_remaining st = amount \<and>
    (\<forall>v. consumed_of st v = (case jm_get (gr_allocs st) v of None \<Rightarrow> 0 | Some a \<Rightarrow> al_in a)) \<and>
    (\<forall>(v, a)\<in>set (gr_allocs st). 0 < al_in a)"

lemma alloc_sum_set:
  "jm_ok m \<Longrightarrow> alloc_sum (jm_set v a m) =
    alloc_sum m + al_in a - (case jm_get m v of None \<Rightarrow> 0 | Some e \<Rightarrow> al_in e)"
  unfolding alloc_sum_def jm_get_def jm_ok_def
  by (induction v a m rule: jm_set.induct) (auto split: option.splits dest: map_of_SomeD)

text \<open>What one step does, when it fills at all.\<close>

lemma greedy_step_cases:
  obtains (skip) "greedy_step t st = st"
      "tr_marginal t = PInf \<or> tr_to t \<le> consumed_of st (tr_venue t) \<or>
        min (gr_remaining st) (tr_to t - max (consumed_of st (tr_venue t)) (tr_from t)) \<le> 0"
  | (fill) fill a where
      "tr_marginal t \<noteq> PInf" "0 < fill" "fill \<le> gr_remaining st"
      "consumed_of st (tr_venue t) + fill \<le> tr_to t"
      "fill \<le> tr_to t - tr_from t"
      "al_in a = (case jm_get (gr_allocs st) (tr_venue t) of None \<Rightarrow> 0 | Some e \<Rightarrow> al_in e) + fill"
      "al_out a = (case jm_get (gr_allocs st) (tr_venue t) of None \<Rightarrow> 0 | Some e \<Rightarrow> al_out e)
         + (if tr_amount t > 0 then tdiv (tr_out t * fill) (tr_amount t) else 0)"
      "al_name a = (case jm_get (gr_allocs st) (tr_venue t) of None \<Rightarrow> tr_name t | Some e \<Rightarrow> al_name e)"
      "gr_allocs (greedy_step t st) = jm_set (tr_venue t) a (gr_allocs st)"
      "gr_consumed (greedy_step t st) = jm_set (tr_venue t) (consumed_of st (tr_venue t) + fill) (gr_consumed st)"
      "gr_remaining (greedy_step t st) = gr_remaining st - fill"
      "fill = min (gr_remaining st) (tr_to t - max (consumed_of st (tr_venue t)) (tr_from t))"
proof -
  define c where "c = consumed_of st (tr_venue t)"
  define available where "available = tr_to t - (if c > tr_from t then c else tr_from t)"
  define fill where "fill = (if gr_remaining st < available then gr_remaining st else available)"
  define out where "out = (if tr_amount t > 0 then tdiv (tr_out t * fill) (tr_amount t) else 0)"
  define a where "a = (case jm_get (gr_allocs st) (tr_venue t) of
                     Some e \<Rightarrow> e\<lparr>al_in := al_in e + fill, al_out := al_out e + out\<rparr>
                   | None \<Rightarrow> \<lparr>al_in = fill, al_out = out, al_name = tr_name t\<rparr>)"
  show thesis
  proof (cases "tr_marginal t = PInf \<or> c \<ge> tr_to t \<or> fill \<le> 0")
    case True
    then have "greedy_step t st = st"
      by (auto simp: greedy_step_def Let_def c_def available_def fill_def)
    moreover have "fill = min (gr_remaining st) (tr_to t - max c (tr_from t))"
      by (simp add: fill_def available_def min_def max_def)
    ultimately show thesis using True c_def by (intro skip) auto
  next
    case False
    then have step: "greedy_step t st = st\<lparr>gr_allocs := jm_set (tr_venue t) a (gr_allocs st),
           gr_consumed := jm_set (tr_venue t) (c + fill) (gr_consumed st),
           gr_remaining := gr_remaining st - fill\<rparr>"
      unfolding greedy_step_def Let_def c_def [symmetric] available_def [symmetric]
        fill_def [symmetric] out_def [symmetric] a_def [symmetric] by simp
    show thesis
    proof (rule fill [of fill a])
      show "al_in a = (case jm_get (gr_allocs st) (tr_venue t) of None \<Rightarrow> 0 | Some e \<Rightarrow> al_in e) + fill"
        by (simp add: a_def split: option.split)
      show "al_out a = (case jm_get (gr_allocs st) (tr_venue t) of None \<Rightarrow> 0 | Some e \<Rightarrow> al_out e)
         + (if tr_amount t > 0 then tdiv (tr_out t * fill) (tr_amount t) else 0)"
        by (simp add: a_def out_def split: option.split)
      show "al_name a = (case jm_get (gr_allocs st) (tr_venue t) of None \<Rightarrow> tr_name t | Some e \<Rightarrow> al_name e)"
        by (simp add: a_def split: option.split)
      show "fill = min (gr_remaining st) (tr_to t - max (consumed_of st (tr_venue t)) (tr_from t))"
        by (simp add: fill_def available_def c_def min_def max_def)
    qed (use False in \<open>auto simp: step c_def [symmetric] fill_def available_def split: if_splits\<close>)
  qed
qed

lemma gr_ok_step:
  assumes "gr_ok amount st"
  shows "gr_ok amount (greedy_step t st)"
proof (cases rule: greedy_step_cases [of t st])
  case skip
  with assms show ?thesis by simp
next
  case (fill f a)
  from assms have ok: "jm_ok (gr_allocs st)"
    and total: "alloc_sum (gr_allocs st) + gr_remaining st = amount"
    and cons: "consumed_of st v = (case jm_get (gr_allocs st) v of None \<Rightarrow> 0 | Some a \<Rightarrow> al_in a)"
    and pos: "(v, e) \<in> set (gr_allocs st) \<Longrightarrow> 0 < al_in e" for v e
    by (auto simp: gr_ok_def)
  have apos: "0 < al_in a"
    using fill(2,6) pos jm_get_mem [of "gr_allocs st" "tr_venue t"] by (fastforce split: option.splits)
  show ?thesis
    unfolding gr_ok_def
  proof (intro conjI allI ballI)
    show "jm_ok (gr_allocs (greedy_step t st))" by (simp add: fill(9) ok jm.ok_put)
    show "alloc_sum (gr_allocs (greedy_step t st)) + gr_remaining (greedy_step t st) = amount"
      using total by (simp add: fill(9,11) alloc_sum_set [OF ok] fill(6))
    show "consumed_of (greedy_step t st) v =
        (case jm_get (gr_allocs (greedy_step t st)) v of None \<Rightarrow> 0 | Some a \<Rightarrow> al_in a)" for v
      using cons [of v] by (auto simp: consumed_of_def fill jm.get_put cons split: option.splits)
    show "case e of (v, a) \<Rightarrow> 0 < al_in a" if "e \<in> set (gr_allocs (greedy_step t st))" for e
    proof -
      obtain w b where e: "e = (w, b)" by (cases e)
      with that have "(w, b) = (tr_venue t, a) \<or> (w, b) \<in> set (gr_allocs st)"
        unfolding fill(9) by (auto dest: jm_set_mem)
      with e apos pos show ?thesis by auto
    qed
  qed
qed

text \<open>An invariant of the steps taken while something remains holds of the loop.\<close>

lemma greedy_loop_inv:
  assumes "\<And>t st. t \<in> set ts \<Longrightarrow> P st \<Longrightarrow> 0 < gr_remaining st \<Longrightarrow> P (greedy_step t st)" and "P st"
  shows "P (greedy_loop ts st)"
  using assms by (induction ts arbitrary: st) (auto simp: not_le)

lemma gr_ok_loop: "gr_ok amount st \<Longrightarrow> gr_ok amount (greedy_loop ts st)"
  by (rule greedy_loop_inv) (auto intro: gr_ok_step)

text \<open>Input and output of a venue so far.\<close>

definition in_of :: "(int, alloc) jmap \<Rightarrow> int \<Rightarrow> int" where
  "in_of m v = (case jm_get m v of None \<Rightarrow> 0 | Some a \<Rightarrow> al_in a)"

definition out_of :: "(int, alloc) jmap \<Rightarrow> int \<Rightarrow> int" where
  "out_of m v = (case jm_get m v of None \<Rightarrow> 0 | Some a \<Rightarrow> al_out a)"

definition usable :: "tranche \<Rightarrow> bool" where
  "usable t \<longleftrightarrow> tr_marginal t \<noteq> PInf"

definition tranche_ok :: "tranche \<Rightarrow> bool" where
  "tranche_ok t \<longleftrightarrow> tr_amount t = tr_to t - tr_from t \<and> (usable t \<longrightarrow> 0 < tr_amount t)"

text \<open>The output credited for a fill is at most its share of the tranche.\<close>

definition share :: "tranche \<Rightarrow> int \<Rightarrow> int" where
  "share t fill = tdiv (tr_out t * fill) (tr_amount t)"

lemma share_le: "0 < tr_amount t \<Longrightarrow> 0 \<le> fill \<Longrightarrow> fill \<le> tr_amount t \<Longrightarrow> share t fill \<le> max 0 (tr_out t)"
proof (cases "0 \<le> tr_out t")
  case True
  assume a: "0 < tr_amount t" "0 \<le> fill" "fill \<le> tr_amount t"
  then have "tr_out t * fill \<le> tr_out t * tr_amount t" using True by (intro mult_left_mono)
  then have "tdiv (tr_out t * fill) (tr_amount t) \<le> tdiv (tr_out t * tr_amount t) (tr_amount t)"
    using a by (intro tdiv_mono)
  with True a show ?thesis by (simp add: share_def tdiv_nonneg)
next
  case False
  assume a: "0 < tr_amount t" "0 \<le> fill" "fill \<le> tr_amount t"
  then have "tr_out t * fill \<le> 0" using False by (intro mult_nonpos_nonneg) auto
  then show ?thesis using tdiv_sign(2) [of "tr_amount t" "tr_out t * fill"] a by (simp add: share_def)
qed

lemma share_rate:
  assumes "0 < tr_amount t" "0 < fill" "tr_out t * si \<le> tr_amount t * so" "0 \<le> si" "0 \<le> so"
  shows "share t fill * si \<le> fill * so"
proof (cases "0 \<le> tr_out t")
  case True
  have "share t fill * tr_amount t \<le> tr_out t * fill"
    using True assms unfolding share_def by (intro tdiv_mult_le) auto
  then have "share t fill * tr_amount t * si \<le> tr_out t * fill * si"
    using assms(4) by (rule mult_right_mono)
  also have "\<dots> = tr_out t * si * fill" by simp
  also have "\<dots> \<le> tr_amount t * so * fill" using assms(2,3) by (intro mult_right_mono) auto
  finally have "tr_amount t * (share t fill * si) \<le> tr_amount t * (fill * so)" by (simp add: mult_ac)
  then show ?thesis using assms(1) by simp
next
  case False
  then have "tr_out t * fill \<le> 0" using assms by (intro mult_nonpos_nonneg) auto
  then have "share t fill \<le> 0" using tdiv_sign(2) assms(1) by (simp add: share_def)
  then have "share t fill * si \<le> 0" using assms(4) by (rule mult_nonpos_nonneg)
  also have "0 \<le> fill * so" using assms by simp
  finally show ?thesis .
qed

text \<open>One step, venue by venue.\<close>

lemma greedy_step_venue:
  assumes "tranche_ok t"
  obtains (skip) "greedy_step t st = st"
      "\<not> usable t \<or> tr_to t \<le> consumed_of st (tr_venue t) \<or>
        min (gr_remaining st) (tr_to t - max (consumed_of st (tr_venue t)) (tr_from t)) \<le> 0"
  | (fill) f where "usable t" "0 < f" "f \<le> gr_remaining st" "f \<le> tr_amount t"
      "consumed_of st (tr_venue t) + f \<le> tr_to t"
      "\<And>v. in_of (gr_allocs (greedy_step t st)) v = in_of (gr_allocs st) v + (if v = tr_venue t then f else 0)"
      "\<And>v. out_of (gr_allocs (greedy_step t st)) v
         = out_of (gr_allocs st) v + (if v = tr_venue t then share t f else 0)"
      "\<And>v. consumed_of (greedy_step t st) v = consumed_of st v + (if v = tr_venue t then f else 0)"
      "gr_remaining (greedy_step t st) = gr_remaining st - f"
      "fst ` set (gr_allocs (greedy_step t st)) = insert (tr_venue t) (fst ` set (gr_allocs st))"
      "f = min (gr_remaining st) (tr_to t - max (consumed_of st (tr_venue t)) (tr_from t))"
proof (cases rule: greedy_step_cases [of t st])
  case skip
  with that(1) show thesis by (simp add: usable_def)
next
  case (fill f a)
  have u: "usable t" using fill(1) by (simp add: usable_def)
  with assms have amt: "0 < tr_amount t" "tr_amount t = tr_to t - tr_from t" by (auto simp: tranche_ok_def)
  show thesis
  proof (rule that(2) [of f])
    show "in_of (gr_allocs (greedy_step t st)) v = in_of (gr_allocs st) v + (if v = tr_venue t then f else 0)" for v
      by (simp add: in_of_def fill(9) jm.get_put fill(6))
    show "out_of (gr_allocs (greedy_step t st)) v
         = out_of (gr_allocs st) v + (if v = tr_venue t then share t f else 0)" for v
      using amt by (simp add: out_of_def fill(9) jm.get_put fill(7) share_def)
    show "consumed_of (greedy_step t st) v = consumed_of st v + (if v = tr_venue t then f else 0)" for v
      by (auto simp: consumed_of_def fill(10) jm.get_put)
    show "fst ` set (gr_allocs (greedy_step t st)) = insert (tr_venue t) (fst ` set (gr_allocs st))"
      by (simp add: fill(9) jm_set_keys)
    show "f \<le> tr_amount t" using fill(5) amt by simp
  qed (fact fill u)+
qed

lemma greedy_loop_venues:
  "\<forall>t\<in>set ts. tranche_ok t \<Longrightarrow>
    fst ` set (gr_allocs (greedy_loop ts st)) \<subseteq> fst ` set (gr_allocs st) \<union> tr_venue ` set (filter usable ts)"
proof (induction ts arbitrary: st)
  case (Cons t ts)
  then have IH: "fst ` set (gr_allocs (greedy_loop ts (greedy_step t st)))
      \<subseteq> fst ` set (gr_allocs (greedy_step t st)) \<union> tr_venue ` set (filter usable ts)" by simp
  from Cons.prems have "tranche_ok t" by simp
  then show ?case
    by (cases rule: greedy_step_venue [of t st]) (use IH in auto)
qed simp

text \<open>Every unit of a venue's output comes from one of its usable tranches.\<close>

lemma greedy_loop_out_le:
  "\<forall>t\<in>set ts. tranche_ok t \<Longrightarrow>
    out_of (gr_allocs (greedy_loop ts st)) v \<le>
    out_of (gr_allocs st) v + (\<Sum>t\<leftarrow>filter (\<lambda>t. usable t \<and> tr_venue t = v) ts. max 0 (tr_out t))"
proof (induction ts arbitrary: st)
  case (Cons t ts)
  let ?S = "\<Sum>t\<leftarrow>filter (\<lambda>t. usable t \<and> tr_venue t = v) ts. max 0 (tr_out t)"
  have S: "0 \<le> ?S" by (intro sum_list_nonneg) auto
  from Cons have IH: "out_of (gr_allocs (greedy_loop ts (greedy_step t st))) v
      \<le> out_of (gr_allocs (greedy_step t st)) v + ?S" by simp
  from Cons.prems have "tranche_ok t" by simp
  then show ?case
  proof (cases rule: greedy_step_venue [of t st])
    case skip
    with IH S show ?thesis by auto
  next
    case (fill f)
    then have "share t f \<le> max 0 (tr_out t)" by (intro share_le) auto
    with IH S fill show ?thesis by (auto split: if_splits)
  qed
qed simp

lemma greedy_loop_rate:
  assumes "\<forall>t\<in>set ts. tranche_ok t \<and> (usable t \<and> tr_venue t = v \<longrightarrow> tr_out t * si \<le> tr_amount t * so)"
    and "0 \<le> si" "0 \<le> so"
    and "out_of (gr_allocs st) v * si \<le> in_of (gr_allocs st) v * so"
  shows "out_of (gr_allocs (greedy_loop ts st)) v * si \<le> in_of (gr_allocs (greedy_loop ts st)) v * so"
proof (rule greedy_loop_inv [of ts "\<lambda>st::greedy. out_of (gr_allocs st) v * si \<le> in_of (gr_allocs st) v * so"])
  fix t and st :: greedy
  assume t: "t \<in> set ts" and I: "out_of (gr_allocs st) v * si \<le> in_of (gr_allocs st) v * so"
  from assms(1) t have ok: "tranche_ok t" by blast
  then show "out_of (gr_allocs (greedy_step t st)) v * si \<le> in_of (gr_allocs (greedy_step t st)) v * so"
  proof (cases rule: greedy_step_venue [of t st])
    case skip
    with I show ?thesis by simp
  next
    case (fill f)
    show ?thesis
    proof (cases "v = tr_venue t")
      case True
      with assms t fill have "share t f * si \<le> f * so" by (intro share_rate) auto
      with I True show ?thesis by (simp add: fill algebra_simps)
    qed (use I fill in auto)
  qed
qed (fact assms(4))

text \<open>No venue is filled beyond its deepest usable level.\<close>

lemma greedy_loop_depth:
  assumes "\<forall>t\<in>set ts. tranche_ok t \<and> (usable t \<and> tr_venue t = v \<longrightarrow> tr_to t \<le> deep)"
    and "consumed_of st v \<le> deep"
  shows "consumed_of (greedy_loop ts st) v \<le> deep"
proof (rule greedy_loop_inv [of ts "\<lambda>st. consumed_of st v \<le> deep"])
  fix t st
  assume t: "t \<in> set ts" and I: "consumed_of st v \<le> deep"
  from assms(1) t have "tranche_ok t" by blast
  then show "consumed_of (greedy_step t st) v \<le> deep"
    by (cases rule: greedy_step_venue [of t st]) (use I assms t in force)+
qed (fact assms(2))

section \<open>From the allocation to the segments\<close>

lemma fold_pick_mem: "foldl (\<lambda>b e. if gt b e then e else b) x es \<in> insert x (set es)"
proof (induction es arbitrary: x)
  case (Cons e es)
  from Cons [of "if gt x e then e else x"] show ?case by (auto split: if_splits)
qed simp

lemma largest_alloc_mem: "m \<noteq> [] \<Longrightarrow> largest_alloc m \<in> set m"
  using fold_pick_mem [of "\<lambda>b e. al_in (snd e) \<ge> al_in (snd b)" "hd m" "tl m"]
  by (cases m) (auto simp: largest_alloc_def)

lemma spread_remaining_ok:
  assumes "gr_ok amount st" "0 \<le> gr_remaining st"
  defines "m \<equiv> spread_remaining st"
  shows "jm_ok m" "fst ` set m = fst ` set (gr_allocs st)" "m \<noteq> [] \<Longrightarrow> alloc_sum m = amount"
    and "in_of (gr_allocs st) v \<le> in_of m v" and "out_of m v = out_of (gr_allocs st) v"
    and "\<forall>(v, a)\<in>set m. 0 < al_in a"
proof -
  have ok: "jm_ok (gr_allocs st)" and sum: "alloc_sum (gr_allocs st) + gr_remaining st = amount"
    and pos: "\<forall>(v, a)\<in>set (gr_allocs st). 0 < al_in a"
    using assms(1) by (auto simp: gr_ok_def)
  have "jm_ok m \<and> fst ` set m = fst ` set (gr_allocs st) \<and> (m \<noteq> [] \<longrightarrow> alloc_sum m = amount) \<and>
    in_of (gr_allocs st) v \<le> in_of m v \<and> out_of m v = out_of (gr_allocs st) v \<and> (\<forall>(v, a)\<in>set m. 0 < al_in a)"
  proof (cases "gr_remaining st > 0 \<and> gr_allocs st \<noteq> []")
    case True
    obtain k a where ka: "largest_alloc (gr_allocs st) = (k, a)" by (cases "largest_alloc (gr_allocs st)")
    with largest_alloc_mem True have mem: "(k, a) \<in> set (gr_allocs st)" by metis
    with ok have get: "jm_get (gr_allocs st) k = Some a" by (simp add: jm_get_iff)
    have m: "m = jm_set k (a\<lparr>al_in := al_in a + gr_remaining st\<rparr>) (gr_allocs st)"
      using True ka by (simp add: m_def spread_remaining_def)
    show ?thesis
      using True ok sum pos get mem
      by (auto simp: m jm.ok_put jm_set_keys alloc_sum_set in_of_def out_of_def jm.get_put
          image_iff dest!: jm_set_mem) (force+)?
  next
    case False
    with ok sum pos assms(2) show ?thesis by (auto simp: m_def spread_remaining_def)
  qed
  then show "jm_ok m" "fst ` set m = fst ` set (gr_allocs st)" "m \<noteq> [] \<Longrightarrow> alloc_sum m = amount"
    "in_of (gr_allocs st) v \<le> in_of m v" "out_of m v = out_of (gr_allocs st) v"
    "\<forall>(v, a)\<in>set m. 0 < al_in a" by simp_all
qed

lemma gr_remaining_nonneg: "0 \<le> gr_remaining st \<Longrightarrow> 0 \<le> gr_remaining (greedy_loop ts st)"
proof (rule greedy_loop_inv [of ts "\<lambda>st. 0 \<le> gr_remaining st"])
  fix t and st :: greedy
  assume "0 \<le> gr_remaining st"
  then show "0 \<le> gr_remaining (greedy_step t st)"
    by (cases rule: greedy_step_cases [of t st]) auto
qed

definition greedy_init :: "int \<Rightarrow> greedy" where
  "greedy_init amount = \<lparr>gr_allocs = jm_empty, gr_consumed = jm_empty, gr_remaining = amount\<rparr>"

lemma greedy_init_simps [simp]:
  "gr_allocs (greedy_init amount) = []" "gr_remaining (greedy_init amount) = amount"
  "consumed_of (greedy_init amount) v = 0"
  by (simp_all add: greedy_init_def jm_empty_def consumed_of_def jm_get_def)

lemma in_out_of_Nil [simp]: "in_of [] v = 0" "out_of [] v = 0"
  by (simp_all add: in_of_def out_of_def jm_get_def)

lemma gr_ok_init: "gr_ok amount (greedy_init amount)"
  by (simp add: gr_ok_def jm_ok_def alloc_sum_def jm_get_def)

text \<open>The allocation as a map, before it becomes segments.\<close>

definition final_allocs :: "tranche list \<Rightarrow> int \<Rightarrow> (int, alloc) jmap" where
  "final_allocs ts amount =
    drop_empty (spread_remaining (greedy_loop (sort_tranches ts) (greedy_init amount)))"

definition segment_of :: "decimals \<Rightarrow> int \<times> alloc \<Rightarrow> route_segment" where
  "segment_of d = (\<lambda>(v, a). \<lparr>sg_name = al_name a, sg_venue = v, sg_in = al_in a, sg_out = al_out a,
                      sg_bps = cost_bps (scale_in d (al_in a)) (al_out a)\<rparr>)"

lemma segment_of_simps [simp]:
  "sg_venue (segment_of d e) = fst e" "sg_in (segment_of d e) = al_in (snd e)"
  "sg_out (segment_of d e) = al_out (snd e)" "sg_name (segment_of d e) = al_name (snd e)"
  by (simp_all add: segment_of_def split: prod.splits)

lemma greedy_allocate_eq: "greedy_allocate ts amount d = map (segment_of d) (final_allocs ts amount)"
  by (simp add: greedy_allocate_def final_allocs_def greedy_init_def segment_of_def Let_def)

lemma sort_tranches_set [simp]: "set (sort_tranches ts) = set ts"
  by (simp add: sort_tranches_def)

lemma js_insert_filter_sum:
  "(\<Sum>y\<leftarrow>filter P (js_insert gt x xs). f y) = (\<Sum>y\<leftarrow>filter P (x # xs). f y)" for f :: "'a \<Rightarrow> int"
  by (induction xs) auto

lemma sort_tranches_filter_sum:
  "(\<Sum>t\<leftarrow>filter P (sort_tranches ts). f t) = (\<Sum>t\<leftarrow>filter P ts. f t)" for f :: "tranche \<Rightarrow> int"
proof -
  have "(\<Sum>t\<leftarrow>filter P (js_sort gt ts). f t) = (\<Sum>t\<leftarrow>filter P ts. f t)" for gt
    by (induction ts) (auto simp: js_insert_filter_sum)
  then show ?thesis by (simp add: sort_tranches_def)
qed

text \<open>The allocation before the overflow and the removal of empty venues.\<close>

definition greedy_result :: "tranche list \<Rightarrow> int \<Rightarrow> greedy" where
  "greedy_result ts amount = greedy_loop (sort_tranches ts) (greedy_init amount)"

lemma greedy_result_ok:
  "gr_ok amount (greedy_result ts amount)"
  "0 \<le> amount \<Longrightarrow> 0 \<le> gr_remaining (greedy_result ts amount)"
  by (simp_all add: greedy_result_def gr_ok_loop gr_ok_init gr_remaining_nonneg)

lemma greedy_nothing: "amount \<le> 0 \<Longrightarrow> greedy_result ts amount = greedy_init amount"
  by (cases "sort_tranches ts") (simp_all add: greedy_result_def)

lemma final_allocs_nothing: "amount \<le> 0 \<Longrightarrow> final_allocs ts amount = []"
  using greedy_nothing [of amount ts]
  by (simp add: final_allocs_def greedy_result_def spread_remaining_def drop_empty_def)

lemma alloc_sum_filter_le:
  "\<forall>(v, a)\<in>set m. 0 < al_in a \<Longrightarrow> alloc_sum (filter P m) \<le> alloc_sum m"
  by (induction m) (auto simp: alloc_sum_def)

lemma final_allocs_ok:
  "jm_ok (final_allocs ts amount)"
  "final_allocs ts amount \<noteq> [] \<Longrightarrow> alloc_sum (final_allocs ts amount) \<le> amount"
  "\<forall>(v, a)\<in>set (final_allocs ts amount). 0 < al_in a \<and> 0 < al_out a"
  "fst ` set (final_allocs ts amount) \<subseteq> fst ` set (gr_allocs (greedy_result ts amount))"
  "(v, a) \<in> set (final_allocs ts amount) \<Longrightarrow>
    in_of (gr_allocs (greedy_result ts amount)) v \<le> al_in a \<and>
    al_out a = out_of (gr_allocs (greedy_result ts amount)) v"
proof -
  let ?r = "greedy_result ts amount"
  let ?m = "spread_remaining ?r"
  have fin: "final_allocs ts amount = filter (\<lambda>e. \<not> al_out (snd e) \<le> 0) ?m"
    by (simp add: final_allocs_def greedy_result_def drop_empty_def)
  have *: "jm_ok (final_allocs ts amount) \<and>
      (final_allocs ts amount \<noteq> [] \<longrightarrow> alloc_sum (final_allocs ts amount) \<le> amount) \<and>
      (\<forall>(v, a)\<in>set (final_allocs ts amount). 0 < al_in a \<and> 0 < al_out a) \<and>
      fst ` set (final_allocs ts amount) \<subseteq> fst ` set (gr_allocs ?r) \<and>
      ((v, a) \<in> set (final_allocs ts amount) \<longrightarrow>
        in_of (gr_allocs ?r) v \<le> al_in a \<and> al_out a = out_of (gr_allocs ?r) v)"
  proof (cases "amount \<le> 0")
    case True
    then show ?thesis by (simp add: final_allocs_nothing jm_ok_def)
  next
    case False
    note sp = spread_remaining_ok [OF greedy_result_ok(1) greedy_result_ok(2), of amount ts]
    have ok: "jm_ok ?m" and keys: "fst ` set ?m = fst ` set (gr_allocs ?r)"
      and sum: "?m \<noteq> [] \<Longrightarrow> alloc_sum ?m = amount"
      and io: "in_of (gr_allocs ?r) v \<le> in_of ?m v" "out_of ?m v = out_of (gr_allocs ?r) v"
      and pos: "\<forall>(v, a)\<in>set ?m. 0 < al_in a"
      using sp False by auto
    have get: "(v, a) \<in> set ?m \<Longrightarrow> al_in a = in_of ?m v \<and> al_out a = out_of ?m v"
      using ok by (simp add: in_of_def out_of_def jm_get_iff [symmetric])
    have "final_allocs ts amount \<noteq> [] \<longrightarrow> ?m \<noteq> []" by (auto simp: fin)
    with sum alloc_sum_filter_le [OF pos] have "final_allocs ts amount \<noteq> [] \<longrightarrow> alloc_sum (final_allocs ts amount) \<le> amount"
      by (auto simp: fin)
    moreover have "jm_ok (final_allocs ts amount)"
      using ok by (simp add: fin jm_ok_def distinct_map_filter)
    ultimately show ?thesis using keys io pos get by (auto simp: fin)
  qed
  then show "jm_ok (final_allocs ts amount)"
    "final_allocs ts amount \<noteq> [] \<Longrightarrow> alloc_sum (final_allocs ts amount) \<le> amount"
    "\<forall>(v, a)\<in>set (final_allocs ts amount). 0 < al_in a \<and> 0 < al_out a"
    "fst ` set (final_allocs ts amount) \<subseteq> fst ` set (gr_allocs ?r)"
    "(v, a) \<in> set (final_allocs ts amount) \<Longrightarrow>
    in_of (gr_allocs ?r) v \<le> al_in a \<and> al_out a = out_of (gr_allocs ?r) v"
    by simp_all
qed

section \<open>Repairing conservation\<close>

lemma largest_index_less: "segs \<noteq> [] \<Longrightarrow> largest_index segs < length segs"
proof -
  assume "segs \<noteq> []"
  moreover have "largest_index segs \<in> insert 0 (set [1..<length segs])"
    unfolding largest_index_def
    using fold_pick_mem [of "\<lambda>best i. sg_in (segs ! i) > sg_in (segs ! best)" 0 "[1..<length segs]"] .
  ultimately show ?thesis by auto
qed

lemma sum_list_update: "i < length xs \<Longrightarrow> (\<Sum>x\<leftarrow>xs[i := y]. f x) = (\<Sum>x\<leftarrow>xs. f x) - f (xs ! i) + f y"
  for f :: "'a \<Rightarrow> int"
  by (induction xs arbitrary: i) (auto split: nat.splits)

lemma conserve_sum: "segs \<noteq> [] \<Longrightarrow> (\<Sum>s\<leftarrow>conserve amount segs. sg_in s) = amount"
  using largest_index_less [of segs]
  by (simp add: conserve_def Let_def sum_list_update)

lemma conserve_length [simp]: "length (conserve amount segs) = length segs"
  by (simp add: conserve_def Let_def)

lemma conserve_nth:
  assumes "i < length segs" "(\<Sum>s\<leftarrow>segs. sg_in s) \<le> amount"
  shows "sg_in (segs ! i) \<le> sg_in (conserve amount segs ! i)"
    and "conserve amount segs ! i = (segs ! i)\<lparr>sg_in := sg_in (conserve amount segs ! i)\<rparr>"
  using assms largest_index_less [of segs]
  by (auto simp: conserve_def Let_def nth_list_update)

lemma conserve_map:
  assumes "(\<Sum>s\<leftarrow>segs. sg_in s) \<le> amount" "\<And>s x. f (s\<lparr>sg_in := x\<rparr>) = f s"
  shows "map f (conserve amount segs) = map f segs"
proof (rule nth_equalityI)
  fix i
  assume "i < length (map f (conserve amount segs))"
  then have i: "i < length segs" by simp
  from conserve_nth(2) [OF i assms(1)] have "f (conserve amount segs ! i) = f (segs ! i)"
    by (metis assms(2))
  with i show "map f (conserve amount segs) ! i = map f segs ! i" by simp
qed simp

text \<open>A repaired segment is an allocated one that takes in at least as much.\<close>

lemma conserve_from:
  assumes "s \<in> set (conserve amount segs)" "(\<Sum>s\<leftarrow>segs. sg_in s) \<le> amount"
  obtains s' where "s' \<in> set segs" "sg_in s' \<le> sg_in s" "s = s'\<lparr>sg_in := sg_in s\<rparr>"
proof -
  from assms(1) obtain i where i: "i < length segs" "s = conserve amount segs ! i"
    by (auto simp: in_set_conv_nth)
  with conserve_nth [OF i(1) assms(2)] that [of "segs ! i"] show thesis by simp
qed

section \<open>What the tranches are\<close>

text \<open>The tranche of a failed level, and of a successful one above \<open>good\<close>.\<close>

definition failed_tranche :: "int \<Rightarrow> string \<Rightarrow> int option \<Rightarrow> int \<Rightarrow> tranche" where
  "failed_tranche vid nm prev to =
    \<lparr>tr_venue = vid, tr_name = nm, tr_from = (case prev of None \<Rightarrow> 0 | Some p \<Rightarrow> p), tr_to = to,
     tr_amount = to - (case prev of None \<Rightarrow> 0 | Some p \<Rightarrow> p), tr_marginal = PInf, tr_out = 0\<rparr>"

definition base_level :: "(int \<times> int) option \<Rightarrow> int" where
  "base_level good = (case good of None \<Rightarrow> 0 | Some (l, _) \<Rightarrow> l)"

definition base_out :: "(int \<times> int) option \<Rightarrow> int" where
  "base_out good = (case good of None \<Rightarrow> 0 | Some (_, w) \<Rightarrow> w)"

definition capped_out :: "int \<times> int \<Rightarrow> int \<Rightarrow> int \<Rightarrow> int" where
  "capped_out spot amount raw =
    (if fst spot > 0 \<and> snd spot > 0 then min raw (tdiv (amount * fst spot) (snd spot)) else raw)"

definition bps_of :: "int \<Rightarrow> int \<Rightarrow> int" where
  "bps_of amount w = tdiv ((amount - w) * 10000) amount"

definition good_tranche :: "int \<Rightarrow> string \<Rightarrow> int \<times> int \<Rightarrow> (int \<times> int) option \<Rightarrow> depth_quote \<Rightarrow> int \<Rightarrow> tranche" where
  "good_tranche vid nm spot good q to =
    (let amount = to - base_level good; w = capped_out spot amount (dq_out q - base_out good)
     in \<lparr>tr_venue = vid, tr_name = nm, tr_from = base_level good, tr_to = to, tr_amount = amount,
         tr_marginal = (if amount > 0 then num_of_big (bps_of amount w) else PInf), tr_out = w\<rparr>)"

lemma base_simps [simp]:
  "base_level None = 0" "base_level (Some (l, w)) = l" "base_out None = 0" "base_out (Some (l, w)) = w"
  by (simp_all add: base_level_def base_out_def)

lemma tranche_loop_cons:
  "tranche_loop vid nm spot good prev (q # qs) (to # ls) =
    (if dq_out q \<le> 0
     then js_bind (tranche_loop vid nm spot good (Some to) qs ls) (\<lambda>ts. Inr (failed_tranche vid nm prev to # ts))
     else js_bind (tranche_loop vid nm spot (Some (to, dq_out q)) (Some to) qs ls)
            (\<lambda>ts. Inr (good_tranche vid nm spot good q to # ts)))"
  by (simp add: failed_tranche_def good_tranche_def capped_out_def base_level_def base_out_def bps_of_def
      Let_def min_def not_le cong: if_cong)

text \<open>The three shapes of a finished loop.\<close>

lemma tranche_loop_cases:
  assumes "tranche_loop vid nm spot good prev qs ls = Inr ts"
  obtains (finish) "qs = []" "ts = []"
  | (failed) q qs' to ls' ts' where "qs = q # qs'" "ls = to # ls'" "dq_out q \<le> 0"
      "ts = failed_tranche vid nm prev to # ts'"
      "tranche_loop vid nm spot good (Some to) qs' ls' = Inr ts'"
  | (good) q qs' to ls' ts' where "qs = q # qs'" "ls = to # ls'" "0 < dq_out q"
      "ts = good_tranche vid nm spot good q to # ts'"
      "tranche_loop vid nm spot (Some (to, dq_out q)) (Some to) qs' ls' = Inr ts'"
proof (cases qs)
  case Nil
  with assms show thesis by (intro finish) auto
next
  case (Cons q qs')
  with assms obtain to ls' where ls: "ls = to # ls'" by (cases ls) auto
  show thesis
  proof (cases "dq_out q \<le> 0")
    case True
    with assms Cons ls show thesis
      by (auto simp: tranche_loop_cons js_bind_Inr_iff simp del: tranche_loop.simps intro: failed)
  next
    case False
    with assms Cons ls show thesis
      by (auto simp: tranche_loop_cons js_bind_Inr_iff simp del: tranche_loop.simps intro: good)
  qed
qed

definition tranche_of :: "int \<Rightarrow> string \<Rightarrow> int \<times> int \<Rightarrow> tranche \<Rightarrow> bool" where
  "tranche_of vid nm spot t \<longleftrightarrow>
    tr_venue t = vid \<and> tr_name t = nm \<and> tranche_ok t \<and> int_valued (tr_marginal t) \<and>
    (usable t \<and> 0 < fst spot \<and> 0 < snd spot \<longrightarrow> tr_out t * snd spot \<le> tr_amount t * fst spot)"

lemma failed_tranche_of: "tranche_of vid nm spot (failed_tranche vid nm prev to)"
  by (simp add: tranche_of_def failed_tranche_def tranche_ok_def usable_def)

lemma good_tranche_of: "tranche_of vid nm spot (good_tranche vid nm spot good q to)"
proof -
  have "capped_out spot a w * snd spot \<le> a * fst spot" if "0 < fst spot" "0 < snd spot" "0 < a" for a w
  proof -
    from that have "capped_out spot a w \<le> tdiv (a * fst spot) (snd spot)" by (simp add: capped_out_def)
    with that show ?thesis by (subst tdiv_le_iff [symmetric]) auto
  qed
  then show ?thesis
    by (auto simp: tranche_of_def good_tranche_def tranche_ok_def usable_def Let_def num_of_big_int_valued)
qed

lemma tranche_loop_of:
  "tranche_loop vid nm spot good prev qs ls = Inr ts \<Longrightarrow> \<forall>t\<in>set ts. tranche_of vid nm spot t"
proof (induction qs arbitrary: good prev ls ts)
  case (Cons q qs)
  from Cons.prems show ?case
    by (cases rule: tranche_loop_cases) (auto simp: failed_tranche_of good_tranche_of dest: Cons.IH)
qed simp

lemma build_tranches_of:
  "build_tranches v qs ls = Inr ts \<Longrightarrow> t \<in> set ts \<Longrightarrow> tranche_of (v_id v) (v_name v) (first_good qs ls) t"
  by (auto simp: build_tranches_def dest: tranche_loop_of)

text \<open>The deepest successful quote, and a curve that never pays less for more.\<close>

definition good_outs :: "depth_quote list \<Rightarrow> int list" where
  "good_outs qs = filter (\<lambda>x. 0 < x) (map dq_out qs)"

definition deepest_out :: "depth_quote list \<Rightarrow> int" where
  "deepest_out qs = (if good_outs qs = [] then 0 else last (good_outs qs))"

lemma good_outs_simps [simp]:
  "good_outs [] = []"
  "good_outs (q # qs) = (if 0 < dq_out q then dq_out q # good_outs qs else good_outs qs)"
  by (simp_all add: good_outs_def)

lemma tranche_loop_telescopes:
  assumes "tranche_loop vid nm spot good prev qs ls = Inr ts" and "sorted (base_out good # good_outs qs)"
  shows "(\<Sum>t\<leftarrow>filter usable ts. max 0 (tr_out t)) \<le> last (base_out good # good_outs qs) - base_out good"
  using assms
proof (induction qs arbitrary: good prev ls ts)
  case (Cons q qs)
  from Cons.prems(1) show ?case
  proof (cases rule: tranche_loop_cases)
    case (failed q' qs' to ls' ts')
    with Cons.prems(2) Cons.IH [of good "Some to" ls' ts'] show ?thesis
      by (auto simp: failed_tranche_def usable_def)
  next
    case (good q' qs' to ls' ts')
    let ?t = "good_tranche vid nm spot good q to"
    from good Cons.prems(2) have "(\<Sum>t\<leftarrow>filter usable ts'. max 0 (tr_out t)) \<le> last (dq_out q # good_outs qs) - dq_out q"
      using Cons.IH [of "Some (to, dq_out q)" "Some to" ls' ts'] by simp
    moreover have "tr_out ?t \<le> dq_out q - base_out good"
      by (simp add: good_tranche_def Let_def capped_out_def)
    moreover have "base_out good \<le> dq_out q" using good Cons.prems(2) by simp
    ultimately show ?thesis using good by auto
  qed simp
qed simp

lemma build_tranches_out:
  assumes "build_tranches v qs ls = Inr ts" "sorted (good_outs qs)"
  shows "(\<Sum>t\<leftarrow>filter usable ts. max 0 (tr_out t)) \<le> deepest_out qs"
proof -
  have "\<forall>x\<in>set (good_outs qs). 0 \<le> x" by (auto simp: good_outs_def)
  with assms(2) have "sorted (0 # good_outs qs)" by simp
  with assms(1) tranche_loop_telescopes [of "v_id v" "v_name v" "first_good qs ls" None None qs ls ts]
  show ?thesis by (auto simp: build_tranches_def deepest_out_def split: if_splits)
qed

section \<open>The ladder\<close>

lemma depth_ladder_mem: "x \<in> set (depth_ladder decs amount) \<longleftrightarrow>
    x = amount \<or> x \<le> amount * 2 \<and> x \<in> (\<lambda>d. d * (if decs > 7 then 10 ^ nat (decs - 7) else 1)) ` set depth_levels"
  by (auto simp: depth_ladder_def Let_def)

lemma depth_ladder_pos: "0 < amount \<Longrightarrow> x \<in> set (depth_ladder decs amount) \<Longrightarrow> 0 < x"
  by (auto simp: depth_ladder_mem depth_levels_def)

lemma depth_ladder_le: "0 < amount \<Longrightarrow> x \<in> set (depth_ladder decs amount) \<Longrightarrow> x \<le> 2 * amount"
  by (auto simp: depth_ladder_mem)

lemma first_good_bounds:
  assumes "\<forall>l\<in>set ls. 0 < l"
  shows "0 \<le> fst (first_good qs ls)" "0 \<le> snd (first_good qs ls)"
proof -
  have "0 \<le> fst (first_good qs ls) \<and> 0 \<le> snd (first_good qs ls)"
    using assms
  proof (induction qs ls rule: first_good.induct)
    case (2 q qs ls)
    then have "\<forall>l\<in>set (tl ls). 0 < l" by (cases ls) auto
    with 2 show ?case by (auto split: list.splits)
  qed auto
  then show "0 \<le> fst (first_good qs ls)" "0 \<le> snd (first_good qs ls)" by auto
qed

text \<open>A usable tranche means that some level succeeded, so a spot rate exists.\<close>

lemma first_good_spot:
  assumes "\<forall>l\<in>set ls. 0 < l" "length qs \<le> length ls" "\<exists>q\<in>set qs. 0 < dq_out q"
  shows "0 < fst (first_good qs ls) \<and> 0 < snd (first_good qs ls)"
  using assms
proof (induction qs ls rule: first_good.induct)
  case (2 q qs ls)
  then show ?case by (cases ls) (auto split: if_splits)
qed auto

lemma tranche_loop_len: "tranche_loop vid nm spot good prev qs ls = Inr ts \<Longrightarrow> length qs \<le> length ls"
proof (induction qs arbitrary: good prev ls ts)
  case (Cons q qs)
  from Cons.prems show ?case by (cases rule: tranche_loop_cases) (auto dest: Cons.IH)
qed simp

lemma tranche_loop_usable:
  "tranche_loop vid nm spot good prev qs ls = Inr ts \<Longrightarrow> t \<in> set ts \<Longrightarrow> usable t \<Longrightarrow> \<exists>q\<in>set qs. 0 < dq_out q"
proof (induction qs arbitrary: good prev ls ts)
  case (Cons q qs)
  from Cons.prems(1) show ?case
  proof (cases rule: tranche_loop_cases)
    case (failed q' qs' to ls' ts')
    with Cons.prems show ?thesis using Cons.IH by (auto simp: failed_tranche_def usable_def)
  qed (use Cons.prems in auto)
qed simp

lemma tranche_loop_total:
  "length qs \<le> length ls \<Longrightarrow> \<exists>ts. tranche_loop vid nm spot good prev qs ls = Inr ts"
proof (induction qs arbitrary: good prev ls)
  case (Cons q qs)
  then obtain to ls' where ls: "ls = to # ls'" by (cases ls) auto
  with Cons.prems have "length qs \<le> length ls'" by simp
  from Cons.IH [OF this, of good "Some to"] Cons.IH [OF this, of "Some (to, dq_out q)" "Some to"]
  show ?case by (auto simp: ls tranche_loop_cons simp del: tranche_loop.simps)
qed simp

lemma build_tranches_rate:
  assumes "build_tranches v qs ls = Inr ts" "t \<in> set ts" "usable t" "\<forall>l\<in>set ls. 0 < l"
  shows "tr_out t * snd (first_good qs ls) \<le> tr_amount t * fst (first_good qs ls)"
proof -
  from assms have "0 < fst (first_good qs ls) \<and> 0 < snd (first_good qs ls)"
    by (intro first_good_spot) (auto simp: build_tranches_def dest: tranche_loop_len tranche_loop_usable)
  with build_tranches_of [OF assms(1,2)] assms(3) show ?thesis by (simp add: tranche_of_def)
qed

section \<open>Routes\<close>

lemma select_venues_sub: "v \<in> set (select_venues eo ic vs) \<Longrightarrow> v \<in> set vs"
  by (auto simp: select_venues_def split: if_splits)

lemma make_profile_Inr:
  "make_profile tin tout ladder v = Inr p \<longleftrightarrow>
    (\<exists>qs ts. v_depth v tin tout ladder = Inr qs \<and> build_tranches v qs ladder = Inr ts \<and>
      p = \<lparr>pf_venue = v, pf_quotes = qs, pf_tranches = ts\<rparr>)"
  by (auto simp: make_profile_def js_bind_Inr_iff)

text \<open>A returned route, taken apart.\<close>

lemma compute_route_elim:
  assumes "compute_route fee_num available tin tout amount slip eo ic d = Inr r"
  obtains profiles ts where
    "js_all (make_profile tin tout (depth_ladder (dec_in d) amount)) (select_venues eo ic available) = Inr profiles"
    "ts = concat (map pf_tranches profiles)"
    "rt_segments r = conserve amount (greedy_allocate ts amount d)"
    "js_all (make_instruction (select_venues eo ic available) tin tout slip) (rt_segments r) = Inr (rt_instructions r)"
    "rt_total_out r = (\<Sum>s\<leftarrow>rt_segments r. sg_out s)"
    "rt_fee r = protocol_fee fee_num (rt_total_out r)" "rt_net_out r = rt_total_out r - rt_fee r"
    "rt_in r = amount"
    "rt_impact_bps r = price_impact (spot_rate profiles (Fin 0)) amount (rt_total_out r)"
  using assms by (auto simp: compute_route_def Let_def js_bind_Inr_iff split: if_splits)

text \<open>The tranches of all venues.\<close>

lemma profile_tranche:
  assumes "js_all (make_profile tin tout ladder) vs = Inr profiles" "t \<in> set (concat (map pf_tranches profiles))"
  obtains v qs ts where "v \<in> set vs" "v_depth v tin tout ladder = Inr qs"
    "build_tranches v qs ladder = Inr ts" "t \<in> set ts"
proof -
  from assms(2) obtain p where p: "p \<in> set profiles" "t \<in> set (pf_tranches p)" by auto
  from js_all_mem [OF assms(1) p(1)] obtain v where "v \<in> set vs" "make_profile tin tout ladder v = Inr p" by blast
  with p that show thesis by (auto simp: make_profile_Inr)
qed

lemma profile_tranches_ok:
  "js_all (make_profile tin tout ladder) vs = Inr profiles \<Longrightarrow>
    t \<in> set (concat (map pf_tranches profiles)) \<Longrightarrow> tranche_ok t \<and> int_valued (tr_marginal t) \<and> (\<exists>v\<in>set vs. tr_venue t = v_id v)"
  by (erule (1) profile_tranche) (auto dest!: build_tranches_of simp: tranche_of_def)

lemma final_allocs_venue:
  assumes "\<forall>t\<in>set ts. tranche_ok t" "e \<in> set (final_allocs ts amount)"
  shows "fst e \<in> tr_venue ` set (filter usable ts)"
proof -
  from assms(2) final_allocs_ok(4) [of ts amount]
  have "fst e \<in> fst ` set (gr_allocs (greedy_result ts amount))" by blast
  with greedy_loop_venues [of "sort_tranches ts" "greedy_init amount"] assms(1) show ?thesis
    by (auto simp: greedy_result_def)
qed

lemma greedy_allocate_in_sum: "(\<Sum>s\<leftarrow>greedy_allocate ts amount d. sg_in s) = alloc_sum (final_allocs ts amount)"
  by (simp add: greedy_allocate_eq alloc_sum_def comp_def)

lemma route_segment_from:
  assumes "compute_route fee_num available tin tout amount slip eo ic d = Inr r" "s \<in> set (rt_segments r)"
  obtains profiles ts a where
    "js_all (make_profile tin tout (depth_ladder (dec_in d) amount)) (select_venues eo ic available) = Inr profiles"
    "ts = concat (map pf_tranches profiles)" "\<forall>t\<in>set ts. tranche_ok t"
    "(sg_venue s, a) \<in> set (final_allocs ts amount)" "sg_out s = al_out a" "al_in a \<le> sg_in s" "0 < amount"
proof (rule compute_route_elim [OF assms(1)])
  fix profiles and ts :: "tranche list"
  assume P: "js_all (make_profile tin tout (depth_ladder (dec_in d) amount)) (select_venues eo ic available) = Inr profiles"
    and ts: "ts = concat (map pf_tranches profiles)"
    and segs: "rt_segments r = conserve amount (greedy_allocate ts amount d)"
  have ne: "greedy_allocate ts amount d \<noteq> []" using assms(2) segs by (auto simp: conserve_def)
  then have ne': "final_allocs ts amount \<noteq> []" by (simp add: greedy_allocate_eq)
  have le: "(\<Sum>s\<leftarrow>greedy_allocate ts amount d. sg_in s) \<le> amount"
    unfolding greedy_allocate_in_sum using ne' by (rule final_allocs_ok(2))
  from assms(2) segs obtain s' where s': "s' \<in> set (greedy_allocate ts amount d)" "sg_in s' \<le> sg_in s"
      "s = s'\<lparr>sg_in := sg_in s\<rparr>"
    using conserve_from [OF _ le] by metis
  from s'(1) obtain e where e: "e \<in> set (final_allocs ts amount)" "s' = segment_of d e"
    by (auto simp: greedy_allocate_eq)
  obtain v a where va: "e = (v, a)" by (cases e)
  have "sg_venue s = sg_venue s'" "sg_out s = sg_out s'" by (subst s'(3), simp)+
  then have "sg_venue s = v" "sg_out s = al_out a" by (simp_all add: e(2) va)
  moreover have "0 < amount" using ne' final_allocs_nothing [of amount ts] by force
  ultimately show thesis
    using P ts profile_tranches_ok [OF P] e va s'(2) by (intro that [of profiles ts a]) auto
qed

lemma segment_venue:
  assumes "compute_route fee_num available tin tout amount slip eo ic d = Inr r" "s \<in> set (rt_segments r)"
  shows "\<exists>v\<in>set (select_venues eo ic available). v_id v = sg_venue s"
  using route_segment_from [OF assms]
proof cases
  case (1 profiles ts a)
  have "sg_venue s \<in> tr_venue ` set (filter usable ts)"
    using final_allocs_venue [OF 1(3,4)] by simp
  then obtain t where "t \<in> set ts" "tr_venue t = sg_venue s" by auto
  then show ?thesis using profile_tranches_ok [OF 1(1), of t] by (auto simp: 1(2))
qed

lemma route_segments_ok:
  assumes "compute_route fee_num available tin tout amount slip eo ic d = Inr r"
  shows "distinct (map sg_venue (rt_segments r))"
    and "rt_segments r \<noteq> [] \<Longrightarrow> (\<Sum>s\<leftarrow>rt_segments r. sg_in s) = amount"
    and "s \<in> set (rt_segments r) \<Longrightarrow> 0 < sg_in s \<and> 0 < sg_out s"
proof -
  show "s \<in> set (rt_segments r) \<Longrightarrow> 0 < sg_in s \<and> 0 < sg_out s"
    using assms final_allocs_ok(3) by (elim route_segment_from) fastforce+
  show "rt_segments r \<noteq> [] \<Longrightarrow> (\<Sum>s\<leftarrow>rt_segments r. sg_in s) = amount"
    using assms by (elim compute_route_elim) (metis conserve_def conserve_sum)
  show "distinct (map sg_venue (rt_segments r))"
    using assms
  proof (rule compute_route_elim)
    fix profiles ts assume segs: "rt_segments r = conserve amount (greedy_allocate ts amount d)"
    show ?thesis
    proof (cases "greedy_allocate ts amount d = []")
      case True
      then show ?thesis by (simp add: segs conserve_def)
    next
      case False
      then have "final_allocs ts amount \<noteq> []" by (simp add: greedy_allocate_eq)
      with final_allocs_ok(2) [of ts amount]
      have "map sg_venue (rt_segments r) = map sg_venue (greedy_allocate ts amount d)"
        unfolding segs by (intro conserve_map) (auto simp: greedy_allocate_in_sum)
      also have "\<dots> = map fst (final_allocs ts amount)"
        by (simp add: greedy_allocate_eq comp_def)
      finally show ?thesis using final_allocs_ok(1) by (simp add: jm_ok_def)
    qed
  qed
qed

lemma filter_other_venue:
  "make_profile tin tout ladder w = Inr p \<Longrightarrow> k \<noteq> v_id w \<Longrightarrow> filter (\<lambda>t. tr_venue t = k) (pf_tranches p) = []"
  by (auto simp: make_profile_Inr filter_empty_conv tranche_of_def dest!: build_tranches_of)

lemma filter_own_venue:
  "make_profile tin tout ladder w = Inr p \<Longrightarrow> filter (\<lambda>t. tr_venue t = v_id w) (pf_tranches p) = pf_tranches p"
  by (auto simp: make_profile_Inr filter_id_conv tranche_of_def dest!: build_tranches_of)

text \<open>With distinct venue ids, the tranches of one venue are the ones built from its own quotes.\<close>

lemma venue_tranches:
  assumes "js_all (make_profile tin tout ladder) vs = Inr profiles" "distinct (map v_id vs)" "v \<in> set vs"
  obtains qs tv where "v_depth v tin tout ladder = Inr qs" "build_tranches v qs ladder = Inr tv"
    "filter (\<lambda>t. tr_venue t = v_id v) (concat (map pf_tranches profiles)) = tv"
proof -
  have none: "filter (\<lambda>t. tr_venue t = k) (concat (map pf_tranches ps)) = []"
    if "js_all (make_profile tin tout ladder) ws = Inr ps" "k \<notin> v_id ` set ws" for ws ps k
    using that
    by (induction ws arbitrary: ps) (auto simp: js_bind_Inr_iff filter_other_venue)
  have "\<exists>p. make_profile tin tout ladder v = Inr p \<and>
      filter (\<lambda>t. tr_venue t = v_id v) (concat (map pf_tranches profiles)) = pf_tranches p"
    using assms
  proof (induction vs arbitrary: profiles)
    case (Cons w ws)
    then obtain p ps where p: "make_profile tin tout ladder w = Inr p" "profiles = p # ps"
        "js_all (make_profile tin tout ladder) ws = Inr ps"
      by (auto simp: js_bind_Inr_iff)
    show ?case
    proof (cases "v = w")
      case True
      with Cons.prems none [OF p(3)] filter_own_venue [OF p(1)] p show ?thesis by auto
    next
      case False
      with Cons.prems have "v \<in> set ws" "distinct (map v_id ws)" "v_id v \<noteq> v_id w" by (auto simp: image_iff)
      with Cons.IH [OF p(3)] filter_other_venue [OF p(1)] show ?thesis by (simp add: p(2))
    qed
  qed simp
  with that show thesis by (auto simp: make_profile_Inr)
qed

lemma route_segment_quoted:
  assumes "compute_route fee_num available tin tout amount slip eo ic d = Inr r"
    and "distinct (map v_id available)" "s \<in> set (rt_segments r)"
  obtains v qs where "v \<in> set (select_venues eo ic available)" "v_id v = sg_venue s"
    "v_depth v tin tout (depth_ladder (dec_in d) amount) = Inr qs"
    "sg_out s * snd (first_good qs (depth_ladder (dec_in d) amount))
       \<le> sg_in s * fst (first_good qs (depth_ladder (dec_in d) amount))"
    "0 < fst (first_good qs (depth_ladder (dec_in d) amount))"
    "0 < snd (first_good qs (depth_ladder (dec_in d) amount))"
    "sorted (good_outs qs) \<Longrightarrow> sg_out s \<le> deepest_out qs"
proof -
  let ?vs = "select_venues eo ic available" and ?ladder = "depth_ladder (dec_in d) amount"
  from route_segment_from [OF assms(1,3)] obtain profiles ts a where
    P: "js_all (make_profile tin tout ?ladder) ?vs = Inr profiles" "ts = concat (map pf_tranches profiles)"
      "\<forall>t\<in>set ts. tranche_ok t"
    and a: "(sg_venue s, a) \<in> set (final_allocs ts amount)" "sg_out s = al_out a" "al_in a \<le> sg_in s"
    and pos: "0 < amount" by metis
  from segment_venue [OF assms(1,3)] obtain v where v: "v \<in> set ?vs" "v_id v = sg_venue s" by blast
  have "distinct (map v_id ?vs)" using assms(2) by (simp add: select_venues_def distinct_map_filter)
  from venue_tranches [OF P(1) this v(1)] obtain qs tv where
    qs: "v_depth v tin tout ?ladder = Inr qs" and tv: "build_tranches v qs ?ladder = Inr tv"
    and flt: "filter (\<lambda>t. tr_venue t = v_id v) ts = tv" by (metis P(2))
  have lpos: "\<forall>l\<in>set ?ladder. 0 < l" using depth_ladder_pos pos by blast
  let ?so = "fst (first_good qs ?ladder)" and ?si = "snd (first_good qs ?ladder)"
  have nn: "0 \<le> ?so" "0 \<le> ?si" using first_good_bounds [OF lpos] by auto
  let ?g = "gr_allocs (greedy_result ts amount)"
  have tr: "tr_out t * ?si \<le> tr_amount t * ?so" if "t \<in> set ts" "usable t" "tr_venue t = v_id v" for t
    using that flt build_tranches_rate [OF tv _ _ lpos] by auto
  have "out_of ?g (v_id v) * ?si \<le> in_of ?g (v_id v) * ?so"
    unfolding greedy_result_def using P(3) tr nn by (intro greedy_loop_rate) auto
  moreover have io: "in_of ?g (v_id v) \<le> al_in a" "al_out a = out_of ?g (v_id v)"
    using final_allocs_ok(5) [OF a(1)] v(2) by auto
  moreover have "in_of ?g (v_id v) * ?so \<le> sg_in s * ?so"
    using io a(3) nn(1) by (intro mult_right_mono) auto
  ultimately have rate: "sg_out s * ?si \<le> sg_in s * ?so" using a(2) by simp
  have "sg_venue s \<in> tr_venue ` set (filter usable ts)"
    using final_allocs_venue [OF P(3) a(1)] by simp
  then obtain t where t: "t \<in> set tv" "usable t" using flt v(2) by auto
  with tv have "0 < ?so \<and> 0 < ?si"
    by (intro first_good_spot [OF lpos]) (auto simp: build_tranches_def dest: tranche_loop_len tranche_loop_usable)
  moreover have "sg_out s \<le> deepest_out qs" if "sorted (good_outs qs)"
  proof -
    have "filter (\<lambda>t. usable t \<and> tr_venue t = v_id v) ts = filter usable tv"
      by (simp add: flt [symmetric] conj_commute)
    then have "out_of ?g (v_id v) \<le> (\<Sum>t\<leftarrow>filter usable tv. max 0 (tr_out t))"
      using greedy_loop_out_le [of "sort_tranches ts" "greedy_init amount" "v_id v"] P(3)
      by (simp add: greedy_result_def sort_tranches_filter_sum)
    with build_tranches_out [OF tv that] io a(2) show ?thesis by simp
  qed
  ultimately show thesis using that [OF v qs rate] by blast
qed

section \<open>Every route comes back\<close>

lemma js_all_total: "(\<And>x. x \<in> set xs \<Longrightarrow> \<exists>y. f x = Inr y) \<Longrightarrow> \<exists>ys. js_all f xs = Inr ys"
  by (induction xs) fastforce+

lemma make_instruction_total:
  assumes "\<exists>v\<in>set vs. v_id v = sg_venue s"
    and "\<And>v a m. v \<in> set vs \<Longrightarrow> \<exists>i. v_build v tin tout a m = Inr i"
  shows "\<exists>i. make_instruction vs tin tout slip s = Inr i"
proof -
  from assms(1) obtain v where "find (\<lambda>v. v_id v = sg_venue s) vs = Some v"
    by (cases "find (\<lambda>v. v_id v = sg_venue s) vs") (auto simp: find_None_iff)
  moreover from this have "v \<in> set vs" by (auto simp: find_Some_iff)
  ultimately show ?thesis using assms(2) by (simp add: make_instruction_def)
qed

text \<open>The segments a computation allocates, before the instructions are built.\<close>

lemma allocated_venue:
  assumes "js_all (make_profile tin tout ladder) vs = Inr profiles"
    and "s \<in> set (conserve amount (greedy_allocate (concat (map pf_tranches profiles)) amount d))"
  shows "\<exists>v\<in>set vs. v_id v = sg_venue s"
proof -
  let ?ts = "concat (map pf_tranches profiles)"
  from assms(2) have ne: "final_allocs ?ts amount \<noteq> []" by (auto simp: conserve_def greedy_allocate_eq)
  have "(\<Sum>s\<leftarrow>greedy_allocate ?ts amount d. sg_in s) \<le> amount"
    unfolding greedy_allocate_in_sum using ne by (rule final_allocs_ok(2))
  from conserve_from [OF assms(2) this] obtain s' where s': "s' \<in> set (greedy_allocate ?ts amount d)"
    "s = s'\<lparr>sg_in := sg_in s\<rparr>" by metis
  have "sg_venue s = sg_venue s'" by (subst s'(2), simp)
  moreover from s'(1) obtain e where "e \<in> set (final_allocs ?ts amount)" "s' = segment_of d e"
    by (auto simp: greedy_allocate_eq)
  ultimately have "sg_venue s \<in> tr_venue ` set (filter usable ?ts)"
    using final_allocs_venue [of ?ts e amount] profile_tranches_ok [OF assms(1)] by simp
  then obtain t where "t \<in> set ?ts" "tr_venue t = sg_venue s" by (auto simp del: set_concat)
  with profile_tranches_ok [OF assms(1), of t] show ?thesis by auto
qed

lemma compute_route_total:
  assumes "select_venues eo ic available \<noteq> []"
    and "\<And>v. v \<in> set available \<Longrightarrow> \<exists>qs. v_depth v tin tout (depth_ladder (dec_in d) amount) = Inr qs \<and>
          length qs \<le> length (depth_ladder (dec_in d) amount)"
    and "\<And>v a m. v \<in> set available \<Longrightarrow> \<exists>i. v_build v tin tout a m = Inr i"
  shows "\<exists>r. compute_route fee_num available tin tout amount slip eo ic d = Inr r"
proof -
  let ?vs = "select_venues eo ic available" and ?ladder = "depth_ladder (dec_in d) amount"
  have "\<exists>p. make_profile tin tout ?ladder v = Inr p" if v: "v \<in> set ?vs" for v
  proof -
    from assms(2) [OF select_venues_sub [OF v]] obtain qs
      where "v_depth v tin tout ?ladder = Inr qs" "length qs \<le> length ?ladder" by blast
    with tranche_loop_total show ?thesis by (fastforce simp: make_profile_Inr build_tranches_def)
  qed
  then obtain profiles where P: "js_all (make_profile tin tout ?ladder) ?vs = Inr profiles"
    using js_all_total [of ?vs] by metis
  let ?segs = "conserve amount (greedy_allocate (concat (map pf_tranches profiles)) amount d)"
  have "\<exists>i. make_instruction ?vs tin tout slip s = Inr i" if "s \<in> set ?segs" for s
    using allocated_venue [OF P that] assms(3) select_venues_sub by (intro make_instruction_total) blast+
  then obtain ins where "js_all (make_instruction ?vs tin tout slip) ?segs = Inr ins"
    using js_all_total [of ?segs] by metis
  with assms(1) P show ?thesis by (simp add: compute_route_def Let_def)
qed

section \<open>The greedy split is the cheapest one\<close>

lemma js_insert_cong: "(\<And>y. y \<in> set ys \<Longrightarrow> gt x y = gt' x y) \<Longrightarrow> js_insert gt x ys = js_insert gt' x ys"
  by (induction ys) auto

lemma js_sort_cong: "(\<And>x y. x \<in> set xs \<Longrightarrow> y \<in> set xs \<Longrightarrow> gt x y = gt' x y) \<Longrightarrow> js_sort gt xs = js_sort gt' xs"
proof (induction xs)
  case (Cons x xs)
  then have "js_sort gt xs = js_sort gt' xs" by simp
  moreover have "js_insert gt x (js_sort gt' xs) = js_insert gt' x (js_sort gt' xs)"
    using Cons.prems by (intro js_insert_cong) simp
  ultimately show ?case by simp
qed simp

lemma sort_tranches_key:
  assumes "\<forall>t\<in>set ts. int_valued (tr_marginal t)"
  shows "sort_tranches ts = sort_key tr_marginal ts"
  unfolding sort_tranches_def js_sort_key [symmetric]
  using assms by (intro js_sort_cong sub_comparator) auto

lemma sum_list_sort_key: "(\<Sum>x\<leftarrow>sort_key k xs. f x) = (\<Sum>x\<leftarrow>xs. f x)" for f :: "'a \<Rightarrow> 'b::comm_monoid_add"
proof -
  have ins: "(\<Sum>x\<leftarrow>insort_key k y ys. f x) = f y + (\<Sum>x\<leftarrow>ys. f x)" for y ys
    by (induction ys) (simp_all add: ac_simps)
  show ?thesis by (induction xs) (simp_all add: ins)
qed

lemma greedy_loop_usable: "greedy_loop ts st = greedy_loop (filter usable ts) st"
proof (induction ts arbitrary: st)
  case (Cons t ts)
  show ?case
  proof (cases "usable t")
    case False
    then have "greedy_step t st = st" by (simp add: greedy_step_def usable_def)
    with False Cons [of st] show ?thesis by (cases "filter usable ts") auto
  qed (simp add: Cons)
qed simp

text \<open>The tranches of one venue follow one another.\<close>

fun chained :: "int \<Rightarrow> tranche list \<Rightarrow> bool" where
  "chained l [] \<longleftrightarrow> True"
| "chained l (t # ts) \<longleftrightarrow> tr_from t = l \<and> tr_amount t = tr_to t - l \<and> l < tr_to t \<and> chained (tr_to t) ts"

definition of_venue :: "int \<Rightarrow> tranche list \<Rightarrow> tranche list" where
  "of_venue v = filter (\<lambda>t. tr_venue t = v)"

lemma of_venue_simps [simp]:
  "of_venue v [] = []"
  "of_venue v (t # ts) = (if tr_venue t = v then t # of_venue v ts else of_venue v ts)"
  by (simp_all add: of_venue_def)

lemma chained_from: "chained l ts \<Longrightarrow> t \<in> set ts \<Longrightarrow> l \<le> tr_from t \<and> 0 < tr_amount t"
proof (induction l ts rule: chained.induct)
  case (2 l u ts)
  then show ?case by (cases "t = u") auto
qed simp

lemma chained_distinct: "chained l ts \<Longrightarrow> distinct ts"
proof (induction l ts rule: chained.induct)
  case (2 l t ts)
  then have "t \<notin> set ts" using chained_from [of "tr_to t" ts t] by auto
  with 2 show ?case by simp
qed simp

lemma distinct_of_venues: "(\<And>v. distinct (of_venue v ts)) \<Longrightarrow> distinct ts"
proof (induction ts)
  case (Cons t ts)
  have "distinct (of_venue v ts)" for v using Cons.prems [of v] by (auto split: if_splits)
  moreover have "t \<notin> set ts" using Cons.prems [of "tr_venue t"] by (auto simp: of_venue_def)
  ultimately show ?case using Cons.IH by simp
qed simp

text \<open>The reference: fill the tranches in order, each as far as the rest allows.\<close>

fun fill_in_order :: "int \<Rightarrow> tranche list \<Rightarrow> tranche \<Rightarrow> int" where
  "fill_in_order r [] = (\<lambda>_. 0)"
| "fill_in_order r (t # ts) = (fill_in_order (r - min r (tr_amount t)) ts)(t := min r (tr_amount t))"

lemma fill_in_order_0: "\<forall>t\<in>set ts. 0 < tr_amount t \<Longrightarrow> fill_in_order 0 ts = (\<lambda>_. 0)"
  by (induction ts) auto

lemma fill_in_order_bounds:
  "\<forall>t\<in>set ts. 0 < tr_amount t \<Longrightarrow> 0 \<le> r \<Longrightarrow> t \<in> set ts \<Longrightarrow> 0 \<le> fill_in_order r ts t \<and> fill_in_order r ts t \<le> tr_amount t"
proof (induction ts arbitrary: r)
  case (Cons u ts)
  from Cons.prems have "0 \<le> r - min r (tr_amount u)" by simp
  with Cons show ?case by (cases "t = u") auto
qed simp

lemma fill_in_order_sum:
  "distinct ts \<Longrightarrow> \<forall>t\<in>set ts. 0 < tr_amount t \<Longrightarrow> 0 \<le> r \<Longrightarrow>
    (\<Sum>t\<leftarrow>ts. fill_in_order r ts t) = min r (\<Sum>t\<leftarrow>ts. tr_amount t)"
proof (induction ts arbitrary: r)
  case (Cons u ts)
  let ?f = "fill_in_order (r - min r (tr_amount u)) ts"
  have "map (fill_in_order r (u # ts)) ts = map ?f ts" using Cons.prems(1) by auto
  then have "(\<Sum>t\<leftarrow>ts. fill_in_order r (u # ts) t) = (\<Sum>t\<leftarrow>ts. ?f t)" by (rule arg_cong)
  moreover have "(\<Sum>t\<leftarrow>ts. ?f t) = min (r - min r (tr_amount u)) (\<Sum>t\<leftarrow>ts. tr_amount t)"
    using Cons by simp
  moreover have "0 \<le> (\<Sum>t\<leftarrow>ts. tr_amount t)" using Cons.prems(2) by (intro sum_list_nonneg) force
  moreover have "fill_in_order r (u # ts) u = min r (tr_amount u)" by simp
  moreover have "0 < tr_amount u" using Cons.prems(2) by simp
  ultimately show ?case by (auto simp: min_def simp del: fill_in_order.simps)
qed simp

lemma share_0 [simp]: "share t 0 = 0"
  by (simp add: share_def)

text \<open>On a chain, one step of the code fills the tranche as the reference does.\<close>

lemma greedy_step_chained:
  assumes "usable t" "tr_from t = consumed_of st (tr_venue t)" "tr_amount t = tr_to t - tr_from t"
    and "tr_from t < tr_to t" "0 < gr_remaining st"
  defines "f \<equiv> min (gr_remaining st) (tr_amount t)"
  shows "consumed_of (greedy_step t st) v = consumed_of st v + (if v = tr_venue t then f else 0)"
    and "out_of (gr_allocs (greedy_step t st)) v = out_of (gr_allocs st) v + (if v = tr_venue t then share t f else 0)"
    and "gr_remaining (greedy_step t st) = gr_remaining st - f"
proof -
  have ok: "tranche_ok t" and f: "f = min (gr_remaining st) (tr_to t - max (consumed_of st (tr_venue t)) (tr_from t))"
    using assms by (auto simp: tranche_ok_def)
  have "(consumed_of (greedy_step t st) v = consumed_of st v + (if v = tr_venue t then f else 0)) \<and>
    (out_of (gr_allocs (greedy_step t st)) v = out_of (gr_allocs st) v + (if v = tr_venue t then share t f else 0)) \<and>
    gr_remaining (greedy_step t st) = gr_remaining st - f"
    using ok
  proof (cases rule: greedy_step_venue [of t st])
    case skip
    with assms f show ?thesis by (auto simp: usable_def)
  next
    case (fill g)
    with f show ?thesis by simp
  qed
  then show "consumed_of (greedy_step t st) v = consumed_of st v + (if v = tr_venue t then f else 0)"
    "out_of (gr_allocs (greedy_step t st)) v = out_of (gr_allocs st) v + (if v = tr_venue t then share t f else 0)"
    "gr_remaining (greedy_step t st) = gr_remaining st - f" by auto
qed

lemma sum_fill_other:
  fixes h :: "tranche \<Rightarrow> int \<Rightarrow> int"
  assumes "t \<notin> set us"
  shows "(\<Sum>u\<leftarrow>us. h u ((g(t := x)) u)) = (\<Sum>u\<leftarrow>us. h u (g u))"
proof -
  have "map (\<lambda>u. h u ((g(t := x)) u)) us = map (\<lambda>u. h u (g u)) us"
    using assms by auto
  then show ?thesis by (rule arg_cong)
qed

lemma of_venue_subset: "t \<notin> set ts \<Longrightarrow> t \<notin> set (of_venue v ts)"
  by (simp add: of_venue_def)

lemma greedy_refines:
  assumes "\<forall>t\<in>set ts. usable t \<and> 0 < tr_amount t" "distinct ts" "0 \<le> gr_remaining st"
    and "gr_remaining st = 0 \<or> (\<forall>v. chained (consumed_of st v) (of_venue v ts))"
  defines "g \<equiv> fill_in_order (gr_remaining st) ts"
  shows "consumed_of (greedy_loop ts st) v = consumed_of st v + (\<Sum>t\<leftarrow>of_venue v ts. g t)
    \<and> out_of (gr_allocs (greedy_loop ts st)) v = out_of (gr_allocs st) v + (\<Sum>t\<leftarrow>of_venue v ts. share t (g t))
    \<and> gr_remaining (greedy_loop ts st) = gr_remaining st - (\<Sum>t\<leftarrow>ts. g t)"
  using assms(1-4) unfolding g_def
proof (induction ts arbitrary: st)
  case (Cons t ts)
  show ?case
  proof (cases "gr_remaining st = 0")
    case True
    have "fill_in_order 0 (t # ts) = (\<lambda>_. 0)" using Cons.prems(1) by (intro fill_in_order_0) auto
    then show ?thesis unfolding True by (auto simp: True sum_list_0)
  next
    case False
    let ?st = "greedy_step t st" and ?f = "min (gr_remaining st) (tr_amount t)"
    from False Cons.prems have ch: "chained (consumed_of st v) (of_venue v (t # ts))" for v by blast
    from ch [of "tr_venue t"] have t: "tr_from t = consumed_of st (tr_venue t)" "tr_amount t = tr_to t - tr_from t"
      "tr_from t < tr_to t" "chained (tr_to t) (of_venue (tr_venue t) ts)" by auto
    from False Cons.prems(1,3) have "usable t" "0 < gr_remaining st" by auto
    note step = greedy_step_chained [OF this(1) t(1-3) this(2)]
    have "gr_remaining ?st = 0 \<or> (\<forall>v. chained (consumed_of ?st v) (of_venue v ts))"
    proof (cases "gr_remaining st \<le> tr_amount t")
      case False
      have "chained (consumed_of ?st v) (of_venue v ts)" for v
        using False t ch [of v] by (cases "v = tr_venue t") (auto simp: step(1))
      then show ?thesis by blast
    qed (simp add: step(3))
    moreover have "0 \<le> gr_remaining ?st" by (simp add: step(3))
    ultimately have IH: "consumed_of (greedy_loop ts ?st) v = consumed_of ?st v
          + (\<Sum>u\<leftarrow>of_venue v ts. fill_in_order (gr_remaining ?st) ts u)
      \<and> out_of (gr_allocs (greedy_loop ts ?st)) v = out_of (gr_allocs ?st) v
          + (\<Sum>u\<leftarrow>of_venue v ts. share u (fill_in_order (gr_remaining ?st) ts u))
      \<and> gr_remaining (greedy_loop ts ?st) = gr_remaining ?st - (\<Sum>u\<leftarrow>ts. fill_in_order (gr_remaining ?st) ts u)"
      using Cons.prems(1,2) by (intro Cons.IH) auto
    have "t \<notin> set ts" using Cons.prems(2) by simp
    note other = sum_fill_other [OF of_venue_subset [OF this], of "\<lambda>u x. x"]
      sum_fill_other [OF of_venue_subset [OF this], of share] sum_fill_other [OF this, of "\<lambda>u x. x"]
    show ?thesis
      using IH \<open>0 < gr_remaining st\<close> by (simp add: step other del: fun_upd_apply) simp
  qed
qed (simp add: sum_list_0)

text \<open>No other split of the same amount over the tranches costs less.\<close>

lemma fill_threshold:
  fixes c :: "tranche \<Rightarrow> rat"
  assumes "sorted (map c ts)" "distinct ts" "\<forall>t\<in>set ts. 0 < tr_amount t" "0 \<le> r"
  shows "\<exists>k. \<forall>t\<in>set ts. (c t < k \<longrightarrow> fill_in_order r ts t = tr_amount t) \<and> (k < c t \<longrightarrow> fill_in_order r ts t = 0)"
  using assms
proof (induction ts arbitrary: r)
  case (Cons t ts)
  show ?case
  proof (cases "r < tr_amount t")
    case True
    have "fill_in_order 0 ts = (\<lambda>_. 0)" using Cons.prems(3) by (intro fill_in_order_0) auto
    with True Cons.prems(1) show ?thesis by (intro exI [of _ "c t"]) auto
  next
    case False
    then have "0 \<le> r - min r (tr_amount t)" by simp
    with Cons obtain k where k: "\<forall>u\<in>set ts.
        (c u < k \<longrightarrow> fill_in_order (r - min r (tr_amount t)) ts u = tr_amount u) \<and>
        (k < c u \<longrightarrow> fill_in_order (r - min r (tr_amount t)) ts u = 0)" by fastforce
    have srt: "\<forall>u\<in>set ts. c t \<le> c u" using Cons.prems(1) by simp
    have "\<forall>u\<in>set (t # ts). (c u < max k (c t) \<longrightarrow> fill_in_order r (t # ts) u = tr_amount u) \<and>
        (max k (c t) < c u \<longrightarrow> fill_in_order r (t # ts) u = 0)"
    proof (intro ballI)
      fix u
      assume u: "u \<in> set (t # ts)"
      show "(c u < max k (c t) \<longrightarrow> fill_in_order r (t # ts) u = tr_amount u) \<and>
        (max k (c t) < c u \<longrightarrow> fill_in_order r (t # ts) u = 0)"
        using False u k srt by (cases "u = t") (force simp: less_max_iff_disj)+
    qed
    then show ?thesis by blast
  qed
qed simp

lemma fill_cheapest:
  fixes c :: "tranche \<Rightarrow> rat"
  assumes "sorted (map c ts)" "distinct ts" "\<forall>t\<in>set ts. 0 < tr_amount t" "0 \<le> r"
    and y: "\<forall>t\<in>set ts. 0 \<le> y t \<and> y t \<le> tr_amount t" "(\<Sum>t\<leftarrow>ts. y t) = (\<Sum>t\<leftarrow>ts. fill_in_order r ts t)"
  shows "(\<Sum>t\<leftarrow>ts. c t * of_int (fill_in_order r ts t)) \<le> (\<Sum>t\<leftarrow>ts. c t * of_int (y t))"
proof -
  let ?f = "fill_in_order r ts"
  from fill_threshold [OF assms(1-4)] obtain k where
    k: "\<forall>t\<in>set ts. (c t < k \<longrightarrow> ?f t = tr_amount t) \<and> (k < c t \<longrightarrow> ?f t = 0)" by blast
  have "k * of_int (y t - ?f t) \<le> c t * of_int (y t - ?f t)" if t: "t \<in> set ts" for t
  proof (cases "c t" k rule: linorder_cases)
    case less
    with k y t have "of_int (y t - ?f t) \<le> (0 :: rat)" by simp
    with less show ?thesis by (intro mult_right_mono_neg) auto
  next
    case greater
    with k y t have "(0 :: rat) \<le> of_int (y t - ?f t)" by simp
    with greater show ?thesis by (intro mult_right_mono) auto
  qed simp
  then have "(\<Sum>t\<leftarrow>ts. k * of_int (y t - ?f t)) \<le> (\<Sum>t\<leftarrow>ts. c t * of_int (y t - ?f t))"
    by (rule sum_list_mono)
  moreover have "(\<Sum>t\<leftarrow>us. k * of_int (y t - g t)) = k * of_int ((\<Sum>t\<leftarrow>us. y t) - (\<Sum>t\<leftarrow>us. g t))"
    for us and g :: "tranche \<Rightarrow> int"
    by (induction us) (simp_all add: algebra_simps)
  moreover have "(\<Sum>t\<leftarrow>ts. c t * of_int (y t - ?f t)) =
      (\<Sum>t\<leftarrow>ts. c t * of_int (y t)) - (\<Sum>t\<leftarrow>ts. c t * of_int (?f t))"
    by (simp add: sum_list_subtractf [symmetric] algebra_simps)
  ultimately show ?thesis using y(2) by simp
qed

text \<open>A ladder every venue of which has consecutive usable tranches of nondecreasing, finite cost.\<close>

definition cost_of :: "tranche \<Rightarrow> rat" where
  "cost_of t = (case tr_marginal t of Fin x \<Rightarrow> x | _ \<Rightarrow> 0)"

definition layered :: "tranche list \<Rightarrow> bool" where
  "layered ts \<longleftrightarrow> (\<forall>t\<in>set ts. int_valued (tr_marginal t) \<and> tr_marginal t \<noteq> NInf) \<and>
    (\<forall>v\<in>tr_venue ` set ts. chained 0 (of_venue v (filter usable ts)) \<and>
      sorted (map cost_of (of_venue v (filter usable ts))))"

lemma usable_Fin:
  assumes "int_valued (tr_marginal t)" "tr_marginal t \<noteq> NInf" "usable t"
  obtains x where "tr_marginal t = Fin x" "cost_of t = x"
  using assms by (cases "tr_marginal t") (auto simp: usable_def cost_of_def)

lemma sort_key_same_order:
  fixes f :: "'a \<Rightarrow> 'b::linorder" and g :: "'a \<Rightarrow> 'c::linorder"
  assumes "\<And>x y. x \<in> set xs \<Longrightarrow> y \<in> set xs \<Longrightarrow> f x \<le> f y \<longleftrightarrow> g x \<le> g y"
  shows "sort_key f xs = sort_key g xs"
proof -
  have "insort_key f x ys = insort_key g x ys" if "\<And>y. y \<in> set ys \<Longrightarrow> f x \<le> f y \<longleftrightarrow> g x \<le> g y" for x ys
    using that by (induction ys) auto
  then have ins: "set ys \<subseteq> set xs \<Longrightarrow> x \<in> set xs \<Longrightarrow> insort_key f x ys = insort_key g x ys" for x ys
    using assms by blast
  have "set zs \<subseteq> set xs \<Longrightarrow> sort_key f zs = sort_key g zs" for zs
  proof (induction zs)
    case (Cons z zs)
    then show ?case using ins [of "sort_key g zs" z] by simp
  qed simp
  then show ?thesis by blast
qed

lemma layered_of_venue:
  assumes "layered ts"
  shows "chained 0 (of_venue v (filter usable ts))" "sorted (map cost_of (of_venue v (filter usable ts)))"
proof -
  show "chained 0 (of_venue v (filter usable ts))" "sorted (map cost_of (of_venue v (filter usable ts)))"
  proof (atomize (full), cases "v \<in> tr_venue ` set ts")
    case False
    then have "of_venue v (filter usable ts) = []" by (auto simp: of_venue_def filter_empty_conv)
    then show "chained 0 (of_venue v (filter usable ts)) \<and> sorted (map cost_of (of_venue v (filter usable ts)))"
      by simp
  qed (use assms in \<open>auto simp: layered_def\<close>)
qed

lemma layered_sorted:
  assumes "layered ts"
  defines "us \<equiv> filter usable (sort_tranches ts)"
  shows "us = sort_key cost_of (filter usable ts)" and "of_venue v us = of_venue v (filter usable ts)"
proof -
  have iv: "\<forall>t\<in>set ts. int_valued (tr_marginal t)" using assms by (simp add: layered_def)
  have "us = sort_key tr_marginal (filter usable ts)"
    by (simp add: us_def sort_tranches_key [OF iv] filter_sort)
  also have "\<dots> = sort_key cost_of (filter usable ts)"
  proof (rule sort_key_same_order)
    fix x y
    assume "x \<in> set (filter usable ts)" "y \<in> set (filter usable ts)"
    then have "int_valued (tr_marginal x)" "tr_marginal x \<noteq> NInf" "usable x"
      "int_valued (tr_marginal y)" "tr_marginal y \<noteq> NInf" "usable y"
      using assms(1) by (auto simp: layered_def)
    then show "tr_marginal x \<le> tr_marginal y \<longleftrightarrow> cost_of x \<le> cost_of y"
      by (metis num_order_simps(1) usable_Fin)
  qed
  finally show us: "us = sort_key cost_of (filter usable ts)" .
  show "of_venue v us = of_venue v (filter usable ts)"
    unfolding us of_venue_def filter_sort
    using layered_of_venue(2) [OF assms(1), of v] by (simp add: of_venue_def sorted_sort_id sort_key_id_if_sorted)
qed


lemma layered_pos: "layered ts \<Longrightarrow> t \<in> set (filter usable ts) \<Longrightarrow> 0 < tr_amount t"
  using layered_of_venue(1) [of ts "tr_venue t"] chained_from
  by (fastforce simp: of_venue_def)


lemma leg_min_out_bounds:
  assumes "0 < out" "0 \<le> slip" "slip \<le> 10000"
  shows "0 \<le> leg_min_out slip out" "leg_min_out slip out \<le> out"
    "out * (10000 - slip) < (leg_min_out slip out + 1) * 10000"
proof -
  have nn: "0 \<le> out * (10000 - slip)" using assms by simp
  then show "0 \<le> leg_min_out slip out" by (simp add: leg_min_out_def tdiv_sign)
  have "out * (10000 - slip) \<le> out * 10000" using assms by (intro mult_left_mono) auto
  then have "tdiv (out * (10000 - slip)) 10000 \<le> tdiv (out * 10000) 10000" by (intro tdiv_mono) auto
  then show "leg_min_out slip out \<le> out" using assms by (simp add: leg_min_out_def tdiv_nonneg)
  show "out * (10000 - slip) < (leg_min_out slip out + 1) * 10000"
    using nn by (subst tdiv_less_iff [symmetric]) (auto simp: leg_min_out_def)
qed

lemma protocol_fee_eq:
  "0 \<le> fee_num \<Longrightarrow> 0 \<le> out \<Longrightarrow> protocol_fee fee_num out = cdiv (out * fee_num) fee_den"
  by (auto simp: protocol_fee_def cdiv_def fee_den_def tdiv_nonneg add_increasing)

text \<open>
  C2. A returned route with a segment spends the input amount exactly: the segments'
  inputs sum to the amount, each segment takes and pays a positive amount, and each goes to a
  different venue, one of those the route was allowed to use.
\<close>

theorem route_conserves_input:
  assumes "compute_route fee_num available tin tout amount slip eo ic d = Inr r" "rt_segments r \<noteq> []"
  shows "(\<Sum>s\<leftarrow>rt_segments r. sg_in s) = amount \<and> rt_in r = amount \<and>
    distinct (map sg_venue (rt_segments r)) \<and>
    (\<forall>s\<in>set (rt_segments r). 0 < sg_in s \<and> 0 < sg_out s \<and>
      (\<exists>v\<in>set available. v_id v = sg_venue s \<and> (eo \<longrightarrow> v_executable v \<or> ic \<and> v_id v = 3)))"
proof -
  have "rt_in r = amount" using assms(1) by (elim compute_route_elim)
  moreover have "\<exists>v\<in>set available. v_id v = sg_venue s \<and> (eo \<longrightarrow> v_executable v \<or> ic \<and> v_id v = 3)"
    if "s \<in> set (rt_segments r)" for s
    using segment_venue [OF assms(1) that] by (auto simp: select_venues_def split: if_splits)
  ultimately show ?thesis using route_segments_ok [OF assms(1)] assms(2) by blast
qed

text \<open>
  C4. No segment promises more than its venue quoted: its rate is at most the rate of the
  venue's first successful probe (no phantom better-than-spot output), and for a curve that never
  pays less for more its output is at most the output of the deepest successful probe.
\<close>

theorem route_within_quotes:
  assumes "compute_route fee_num available tin tout amount slip eo ic d = Inr r"
    and "distinct (map v_id available)" "s \<in> set (rt_segments r)"
  shows "\<exists>v qs. v \<in> set available \<and> v_id v = sg_venue s \<and>
    v_depth v tin tout (depth_ladder (dec_in d) amount) = Inr qs \<and>
    (case first_good qs (depth_ladder (dec_in d) amount) of (spot_out, spot_in) \<Rightarrow>
      0 < spot_out \<and> 0 < spot_in \<and> sg_out s * spot_in \<le> sg_in s * spot_out) \<and>
    (sorted (good_outs qs) \<longrightarrow> sg_out s \<le> deepest_out qs)"
  using assms by (rule route_segment_quoted) (use select_venues_sub in \<open>force simp: case_prod_beta\<close>)

text \<open>
  The instructions mirror the segments: the i-th one is what the i-th segment's venue builds
  for the segment's input with a minimum of its output less the slippage. That minimum is at
  least 0, at most the promised output, and within one unit of the exact share.
\<close>

theorem route_instructions_mirror:
  assumes "compute_route fee_num available tin tout amount slip eo ic d = Inr r" "0 \<le> slip" "slip \<le> 10000"
  shows "list_all2 (\<lambda>s i. \<exists>v\<in>set available. v_id v = sg_venue s \<and>
      v_build v tin tout (sg_in s) (leg_min_out slip (sg_out s)) = Inr i \<and>
      0 \<le> leg_min_out slip (sg_out s) \<and> leg_min_out slip (sg_out s) \<le> sg_out s \<and>
      sg_out s * (10000 - slip) < (leg_min_out slip (sg_out s) + 1) * 10000)
    (rt_segments r) (rt_instructions r)"
proof (rule compute_route_elim [OF assms(1)])
  assume "js_all (make_instruction (select_venues eo ic available) tin tout slip) (rt_segments r) = Inr (rt_instructions r)"
  then have "list_all2 (\<lambda>s i. make_instruction (select_venues eo ic available) tin tout slip s = Inr i)
      (rt_segments r) (rt_instructions r)" by (rule js_all_Inr)
  then show ?thesis
  proof (rule list.rel_mono_strong)
    fix s i
    assume s: "s \<in> set (rt_segments r)"
      and i: "make_instruction (select_venues eo ic available) tin tout slip s = Inr i"
    then obtain v where v: "v \<in> set available" "v_id v = sg_venue s"
      "v_build v tin tout (sg_in s) (leg_min_out slip (sg_out s)) = Inr i"
      using select_venues_sub
      by (auto simp: make_instruction_def find_Some_iff split: option.splits) (metis nth_mem)
    have "0 < sg_out s" using route_segments_ok(3) [OF assms(1) s] by blast
    with leg_min_out_bounds [OF this assms(2,3)] v
    show "\<exists>v\<in>set available. v_id v = sg_venue s \<and>
      v_build v tin tout (sg_in s) (leg_min_out slip (sg_out s)) = Inr i \<and>
      0 \<le> leg_min_out slip (sg_out s) \<and> leg_min_out slip (sg_out s) \<le> sg_out s \<and>
      sg_out s * (10000 - slip) < (leg_min_out slip (sg_out s) + 1) * 10000" by blast
  qed
qed

text \<open>
  Routing always answers: when some venue is allowed and every venue keeps its interface (at
  most one quote per level, an instruction for every leg), \<open>computeRoute\<close> returns a
  route; with no allowed venue it throws its own error and nothing else.
\<close>

theorem route_always_answers:
  assumes "\<And>v. v \<in> set available \<Longrightarrow> \<exists>qs. v_depth v tin tout (depth_ladder (dec_in d) amount) = Inr qs \<and>
          length qs \<le> length (depth_ladder (dec_in d) amount)"
    and "\<And>v a m. v \<in> set available \<Longrightarrow> \<exists>i. v_build v tin tout a m = Inr i"
  shows "if select_venues eo ic available = []
    then compute_route fee_num available tin tout amount slip eo ic d = Inl (Thrown ''No venues available'')
    else \<exists>r. compute_route fee_num available tin tout amount slip eo ic d = Inr r"
  using compute_route_total [of eo ic available, OF _ assms] by (auto simp: compute_route_def Let_def)

text \<open>
  The protocol fee of a route is the least one covering its share of the total output
  (rounded up against the user, never by a whole unit), and it leaves a net output between 0 and
  the total; a zero fee leaves the total.
\<close>

theorem route_fee_exact:
  assumes "compute_route fee_num available tin tout amount slip eo ic d = Inr r" "0 \<le> fee_num" "fee_num < fee_den"
  shows "rt_total_out r = (\<Sum>s\<leftarrow>rt_segments r. sg_out s) \<and> rt_net_out r = rt_total_out r - rt_fee r \<and>
    0 \<le> rt_fee r \<and> 0 \<le> rt_net_out r \<and> rt_net_out r \<le> rt_total_out r \<and>
    (\<forall>f. rt_fee r \<le> f \<longleftrightarrow> rt_total_out r * fee_num \<le> f * fee_den) \<and> (fee_num = 0 \<longrightarrow> rt_fee r = 0)"
proof -
  have fs: "fee_schedule fee_num fee_den" using assms(2,3) by unfold_locales
  have out: "rt_total_out r = (\<Sum>s\<leftarrow>rt_segments r. sg_out s)"
    and fee: "rt_fee r = protocol_fee fee_num (rt_total_out r)"
    and net: "rt_net_out r = rt_total_out r - rt_fee r"
    using assms(1) by (auto elim: compute_route_elim)
  have nn: "0 \<le> rt_total_out r"
    unfolding out using route_segments_ok(3) [OF assms(1)] by (intro sum_list_nonneg) force
  then have "rt_fee r = cdiv (rt_total_out r * fee_num) fee_den" using assms(2) by (simp add: fee protocol_fee_eq)
  then show ?thesis
    using out net nn fee_schedule.fee_bounds [OF fs nn]
    by (auto simp: cdiv_le_iff fee_den_def)
qed

text \<open>
  The price impact shown with a route is a number between 0 and 10000 basis points.
\<close>

theorem price_impact_range:
  assumes "spot \<noteq> NaN" "0 < amount" "amount < 2 ^ 127" "0 \<le> out" "out < 2 ^ 127"
  shows "Fin 0 \<le> price_impact spot amount out \<and> price_impact spot amount out \<le> Fin 10000"
proof -
  have big: "num_of_big (2 ^ 127) = Fin (2 ^ 127)" by code_simp
  have fin: "\<exists>x. num_of_big n = Fin x \<and> 0 \<le> x \<and> x \<le> 2 ^ 127 \<and> (1 \<le> n \<longrightarrow> 1 \<le> x)" if "0 \<le> n" "n < 2 ^ 127" for n
  proof -
    have "num_of_big 0 \<le> num_of_big n" "num_of_big n \<le> num_of_big (2 ^ 127)"
      using that by (simp_all add: num_of_big_mono)
    moreover have "1 \<le> n \<longrightarrow> num_of_big 1 \<le> num_of_big n" by (simp add: num_of_big_mono)
    ultimately show ?thesis unfolding big
      by (cases "num_of_big n") (auto simp: num_of_big_small)
  qed
  from fin [of amount] fin [of out] assms obtain a w where
    a: "num_of_big amount = Fin a" "1 \<le> a" and w: "num_of_big out = Fin w" "0 \<le> w" "w \<le> 2 ^ 127" by auto
  have "w / a \<le> w" using a(2) w(2) using mult_left_mono [of 1 a w] by (simp add: divide_le_eq)
  also have "w \<le> 2 powi 1000" using w(3) by (rule order_trans) (simp add: power_int_def)
  finally have "\<bar>w / a\<bar> \<le> 2 powi 1000" using a(2) w(2) by simp
  then obtain e where e: "rnd (w / a) = Fin e" by (rule rnd_finite)
  have "Fin 0 \<le> rnd (w / a)" using a(2) w(2) by (intro rnd_sign) auto
  with e have "0 \<le> e" by simp
  have exec: "num_div (num_of_big out) (num_of_big amount) = Fin e" using a w e by simp
  show ?thesis
  proof (cases "num_lt (Fin 0) spot \<and> 0 < e")
    case True
    then have spot: "spot = PInf \<or> (\<exists>x. spot = Fin x \<and> 0 < x)" using assms(1) by (cases spot) auto
    have "Fin 0 \<le> num_div (Fin e) spot \<and> num_div (Fin e) spot \<noteq> NaN"
      using spot \<open>0 \<le> e\<close> by (auto intro!: rnd_sign(1))
    then have "num_sub (Fin 1) (num_div (Fin e) spot) \<le> Fin 1 \<and> num_sub (Fin 1) (num_div (Fin e) spot) \<noteq> NaN"
      by (cases "num_div (Fin e) spot") (auto simp: num_sub_def rnd_mono [of _ 1, simplified])
    moreover have "rnd (x * 10000) \<le> Fin 10000" if "x \<le> 1" for x
      using rnd_mono [of "x * 10000" 10000] that by (simp add: rnd_numeral)
    ultimately have "num_mul (num_sub (Fin 1) (num_div (Fin e) spot)) (Fin 10000) \<le> Fin 10000 \<and>
        num_mul (num_sub (Fin 1) (num_div (Fin e) spot)) (Fin 10000) \<noteq> NaN"
      by (cases "num_sub (Fin 1) (num_div (Fin e) spot)")
        (auto simp: inf_of_def)
    then show ?thesis using True assms(2) exec
      by (auto simp: price_impact_def num_max_def num_lt_less not_less Let_def)
  next
    case False
    then show ?thesis using assms(2) exec by (auto simp: price_impact_def Let_def)
  qed
qed

section \<open>The properties at concrete inputs\<close>

text \<open>Two constant-product pools.\<close>

definition pool_depth :: "int \<Rightarrow> string \<Rightarrow> string \<Rightarrow> int list \<Rightarrow> depth_quote list js" where
  "pool_depth reserve tin tout ls =
    Inr (map (\<lambda>l. \<lparr>dq_in = l, dq_out = l * reserve div (reserve + l), dq_marginal = Fin 0\<rparr>) ls)"

definition pool_venue :: "int \<Rightarrow> int \<Rightarrow> venue" where
  "pool_venue vid reserve = \<lparr>v_name = ''Pool'', v_id = vid, v_executable = True, v_depth = pool_depth reserve,
     v_build = (\<lambda>tin tout a m. Inr \<lparr>si_contract = ''C'', si_venue = vid, si_in = a, si_min_out = m\<rparr>)\<rparr>"

definition two_pools :: "venue list" where
  "two_pools = [pool_venue 1 (10 ^ 11), pool_venue 3 (2 * 10 ^ 11)]"

definition seven :: decimals where
  "seven = \<lparr>dec_in = 7, dec_out = 7\<rparr>"

definition pool_route :: "route js" where
  "pool_route = compute_route 0 two_pools ''USDC'' ''EURC'' 3000000000 50 True False seven"

lemma num_order_numeral [simp]: "Fin (numeral k) \<le> Fin (numeral l) \<longleftrightarrow> numeral k \<le> (numeral l :: rat)"
  by simp

lemma tdiv_numeral [simp]: "tdiv (numeral a) (numeral b) = numeral a div numeral b"
  by (simp add: tdiv_nonneg)

lemma pool_levels: "depth_ladder 7 3000000000 = [1000000000, 3000000000]"
  by code_simp

lemmas pool_defs = two_pools_def pool_venue_def pool_depth_def seven_def

text \<open>The ladder the two pools give for an amount of 300 units.\<close>

definition pool_tranches :: "tranche list" where
  "pool_tranches =
     [\<lparr>tr_venue = 1, tr_name = ''Pool'', tr_from = 0, tr_to = 1000000000, tr_amount = 1000000000,
         tr_marginal = Fin 99, tr_out = 990099009\<rparr>,
      \<lparr>tr_venue = 1, tr_name = ''Pool'', tr_from = 1000000000, tr_to = 3000000000, tr_amount = 2000000000,
         tr_marginal = Fin 387, tr_out = 1922522350\<rparr>,
      \<lparr>tr_venue = 3, tr_name = ''Pool'', tr_from = 0, tr_to = 1000000000, tr_amount = 1000000000,
         tr_marginal = Fin 49, tr_out = 995024875\<rparr>,
      \<lparr>tr_venue = 3, tr_name = ''Pool'', tr_from = 1000000000, tr_to = 3000000000, tr_amount = 2000000000,
         tr_marginal = Fin 196, tr_out = 1960640149\<rparr>]"

lemma pool_final_allocs:
  "final_allocs pool_tranches 3000000000 =
    [(3, \<lparr>al_in = 2000000000, al_out = 1975344949, al_name = ''Pool''\<rparr>),
     (1, \<lparr>al_in = 1000000000, al_out = 990099009, al_name = ''Pool''\<rparr>)]"
proof -
  have "\<forall>t\<in>set pool_tranches. int_valued (tr_marginal t)"
    by (simp add: pool_tranches_def int_valued_def)
  then have "final_allocs pool_tranches 3000000000 =
      drop_empty (spread_remaining (greedy_loop (sort_key tr_marginal pool_tranches) (greedy_init 3000000000)))"
    by (simp add: final_allocs_def sort_tranches_key)
  also have "sort_key tr_marginal pool_tranches = [pool_tranches ! 2, pool_tranches ! 0, pool_tranches ! 3, pool_tranches ! 1]"
    by (simp add: pool_tranches_def)
  finally show ?thesis
    by (simp add: pool_tranches_def greedy_step_def consumed_of_def jm_get_def greedy_init_def jm_empty_def
        spread_remaining_def drop_empty_def)
qed

lemmas pool_eval = select_venues_def pool_levels make_profile_def pool_defs build_tranches_def
  tranche_loop_cons good_tranche_def base_level_def base_out_def capped_out_def bps_of_def num_of_big_small

lemma pool_profiles:
  "\<exists>profiles. js_all (make_profile tin tout (depth_ladder 7 3000000000)) two_pools = Inr profiles \<and>
    concat (map pf_tranches profiles) = pool_tranches"
  by (simp add: pool_eval pool_tranches_def del: tranche_loop.simps(2,3) cong: let_weak_cong if_weak_cong)

lemma pool_route_value:
  "\<exists>r. compute_route fee_num two_pools tin tout 3000000000 50 True ic seven = Inr r \<and>
    map (\<lambda>s. (sg_venue s, sg_in s, sg_out s)) (rt_segments r) =
      [(3, 2000000000, 1975344949), (1, 1000000000, 990099009)] \<and> rt_segments r \<noteq> []"
proof -
  obtain profiles where P: "js_all (make_profile tin tout (depth_ladder 7 3000000000)) two_pools = Inr profiles"
    "concat (map pf_tranches profiles) = pool_tranches"
    using pool_profiles by metis
  let ?segs = "conserve 3000000000 (greedy_allocate pool_tranches 3000000000 seven)"
  have segs: "map (\<lambda>s. (sg_venue s, sg_in s, sg_out s)) ?segs =
      [(3, 2000000000, 1975344949), (1, 1000000000, 990099009)]"
    by (simp add: greedy_allocate_eq pool_final_allocs conserve_def)
  have "select_venues True ic two_pools = two_pools" "two_pools \<noteq> []"
    by (simp_all add: select_venues_def two_pools_def pool_venue_def)
  moreover have "\<exists>ins. js_all (make_instruction two_pools tin tout 50) ?segs = Inr ins"
    by (simp add: greedy_allocate_eq pool_final_allocs conserve_def make_instruction_def two_pools_def pool_venue_def)
  ultimately show ?thesis
    using P segs by (auto simp: compute_route_def Let_def seven_def)
qed

text \<open>The witnesses of the properties above.\<close>

lemma pool_ids: "distinct (map v_id two_pools)"
  by (simp add: two_pools_def pool_venue_def)

theorem route_conserves_input_witness:
  "\<exists>r. compute_route 0 two_pools ''USDC'' ''EURC'' 3000000000 50 True False seven = Inr r \<and>
    (\<Sum>s\<leftarrow>rt_segments r. sg_in s) = 3000000000"
proof -
  from pool_route_value [of 0 "''USDC''" "''EURC''" False] obtain r where
    r: "compute_route 0 two_pools ''USDC'' ''EURC'' 3000000000 50 True False seven = Inr r"
      "rt_segments r \<noteq> []" by blast
  from route_conserves_input [OF r] r(1) show ?thesis by blast
qed

theorem route_within_quotes_witness:
  "\<exists>r s v. compute_route 0 two_pools ''USDC'' ''EURC'' 3000000000 50 True False seven = Inr r \<and>
    s \<in> set (rt_segments r) \<and> v \<in> set two_pools \<and> v_id v = sg_venue s"
proof -
  from pool_route_value [of 0 "''USDC''" "''EURC''" False] obtain r where
    r: "compute_route 0 two_pools ''USDC'' ''EURC'' 3000000000 50 True False seven = Inr r"
      "rt_segments r \<noteq> []" by blast
  then obtain s where "s \<in> set (rt_segments r)" by (cases "rt_segments r") auto
  from route_within_quotes [OF r(1) pool_ids this] r(1) this show ?thesis by blast
qed

theorem route_instructions_mirror_witness:
  "\<exists>r. compute_route 0 two_pools ''USDC'' ''EURC'' 3000000000 50 True False seven = Inr r \<and>
    length (rt_instructions r) = length (rt_segments r)"
proof -
  from pool_route_value [of 0 "''USDC''" "''EURC''" False] obtain r where
    r: "compute_route 0 two_pools ''USDC'' ''EURC'' 3000000000 50 True False seven = Inr r" by blast
  from route_instructions_mirror [OF r] have "length (rt_segments r) = length (rt_instructions r)"
    by (auto dest: list_all2_lengthD)
  with r show ?thesis by metis
qed

theorem route_always_answers_witness:
  "\<exists>r. compute_route 0 two_pools ''USDC'' ''EURC'' 3000000000 50 True False seven = Inr r"
proof -
  have q: "\<exists>qs. v_depth v ''USDC'' ''EURC'' (depth_ladder (dec_in seven) 3000000000) = Inr qs \<and>
      length qs \<le> length (depth_ladder (dec_in seven) 3000000000)" if "v \<in> set two_pools" for v
    using that by (auto simp: pool_defs)
  have b: "\<exists>i. v_build v ''USDC'' ''EURC'' a m = Inr i" if "v \<in> set two_pools" for v a m
    using that by (auto simp: pool_defs)
  have "select_venues True False two_pools \<noteq> []"
    by (simp add: select_venues_def two_pools_def pool_venue_def)
  with route_always_answers [of two_pools "''USDC''" "''EURC''" seven 3000000000 True False 0 50, OF q b]
  show ?thesis by simp
qed

theorem route_fee_exact_witness:
  "\<exists>r. compute_route 5 two_pools ''USDC'' ''EURC'' 3000000000 50 True False seven = Inr r \<and>
    rt_total_out r * 5 \<le> rt_fee r * 100000 \<and> 0 \<le> rt_net_out r"
proof -
  from pool_route_value [of 5 "''USDC''" "''EURC''" False] obtain r where
    r: "compute_route 5 two_pools ''USDC'' ''EURC'' 3000000000 50 True False seven = Inr r" by blast
  from route_fee_exact [OF r] r show ?thesis by (auto simp: fee_den_def)
qed

theorem price_impact_range_witness:
  "price_impact (Fin 1) 3000000000 2965443958 \<le> Fin 10000"
  using price_impact_range [of "Fin 1" 3000000000 2965443958] by simp


end
