(* ===== verification/Pathfinder.thy ===== *)
theory Pathfinder
  imports Engine
begin

text \<open>
  The multi-hop pathfinder, \<open>backend/src/router/pathfinder.ts\<close>: the liquidity graph over
  the discovered pools, the depth-first search, the ranking without simulations, the hop-by-hop
  quote and the best-route call with its memo. The bounds are the ones the code takes when the
  environment does not set them. \<open>Math.log\<close>, which the language leaves to the engine, is
  the argument \<open>mlog\<close>; the clock readings are arguments.
\<close>

section \<open>Bounds\<close>

definition max_hops :: nat where "max_hops = 5"
definition branch_cap :: nat where "branch_cap = 6"
definition candidate_cap :: nat where "candidate_cap = 40"
definition verify_top :: nat where "verify_top = 4"
definition search_budget_ms :: int where "search_budget_ms = 8000"
definition result_ttl_ms :: int where "result_ttl_ms = 15000"

section \<open>The liquidity graph\<close>

datatype edge_venue = Aqua | Sushi | Curve

record edge =
  ed_a :: string
  ed_b :: string
  ed_venue :: edge_venue
  ed_pool :: string
  ed_liq :: num

text \<open>The pools the discovery service lists.\<close>

record aqua_pool =
  ap_address :: string
  ap_tokens :: "string list"
  ap_volume :: num

record sushi_pair =
  sp_a :: string
  sp_b :: string
  sp_pool :: string
  sp_liquidity :: num

record curve_pool =
  cp_address :: string
  cp_coins :: "string list"
  cp_balances :: "int list"
  cp_decimals :: "nat list"

record pools =
  pl_aqua :: "aqua_pool list"
  pl_sushi :: "sushi_pair list"
  pl_curve :: "curve_pool list"

text \<open>\<open>x || 0\<close>\<close>

definition num_or0 :: "num \<Rightarrow> num" where
  "num_or0 x = (if x = NaN then Fin 0 else x)"

text \<open>\<open>for i, for j = i + 1\<close>: the pairs of indexes.\<close>

definition index_pairs :: "nat \<Rightarrow> (nat \<times> nat) list" where
  "index_pairs n = concat (map (\<lambda>i. map (\<lambda>j. (i, j)) [i + 1..<n]) [0..<n])"

definition aqua_edges :: "aqua_pool \<Rightarrow> edge list" where
  "aqua_edges p = map (\<lambda>(i, j). \<lparr>ed_a = ap_tokens p ! i, ed_b = ap_tokens p ! j, ed_venue = Aqua,
      ed_pool = ap_address p, ed_liq = num_or0 (ap_volume p)\<rparr>) (index_pairs (length (ap_tokens p)))"

definition sushi_edge :: "sushi_pair \<Rightarrow> edge" where
  "sushi_edge p = \<lparr>ed_a = sp_a p, ed_b = sp_b p, ed_venue = Sushi, ed_pool = sp_pool p, ed_liq = sp_liquidity p\<rparr>"

definition nth_or :: "'a list \<Rightarrow> nat \<Rightarrow> 'a \<Rightarrow> 'a" where
  "nth_or xs k d = (if k < length xs then xs ! k else d)"

definition whole_units :: "curve_pool \<Rightarrow> nat \<Rightarrow> num" where
  "whole_units p k = num_of_big (tdiv (nth_or (cp_balances p) k 0) (10 ^ nth_or (cp_decimals p) k 7))"

definition curve_edges :: "curve_pool \<Rightarrow> edge list" where
  "curve_edges p = map (\<lambda>(i, j). \<lparr>ed_a = cp_coins p ! i, ed_b = cp_coins p ! j, ed_venue = Curve,
      ed_pool = cp_address p, ed_liq = num_min (whole_units p i) (whole_units p j)\<rparr>)
    (index_pairs (length (cp_coins p)))"

definition edges :: "pools \<Rightarrow> edge list" where
  "edges ps = concat (map (\<lambda>p. if length (ap_tokens p) < 2 then [] else aqua_edges p) (pl_aqua ps))
    @ map sushi_edge (pl_sushi ps) @ concat (map curve_edges (pl_curve ps))"

definition adj_push :: "string \<Rightarrow> edge \<Rightarrow> (string, edge list) jmap \<Rightarrow> (string, edge list) jmap" where
  "adj_push t e adj = jm_set t ((case jm_get adj t of None \<Rightarrow> [] | Some es \<Rightarrow> es) @ [e]) adj"

definition prune_edges :: "edge list \<Rightarrow> edge list" where
  "prune_edges es =
    take branch_cap (js_sort (\<lambda>x y. num_lt (Fin 0) (num_sub (num_or0 (ed_liq y)) (num_or0 (ed_liq x))))
        (filter (\<lambda>e. ed_venue e = Aqua) es))
    @ filter (\<lambda>e. ed_venue e = Sushi) es @ filter (\<lambda>e. ed_venue e = Curve) es"

definition adjacency :: "edge list \<Rightarrow> (string, edge list) jmap" where
  "adjacency es =
    map (\<lambda>(t, l). (t, prune_edges l)) (foldl (\<lambda>adj e. adj_push (ed_b e) e (adj_push (ed_a e) e adj)) jm_empty es)"

definition adj_of :: "(string, edge list) jmap \<Rightarrow> string \<Rightarrow> edge list" where
  "adj_of adj t = (case jm_get adj t of None \<Rightarrow> [] | Some es \<Rightarrow> es)"

definition other_end :: "string \<Rightarrow> edge \<Rightarrow> string" where
  "other_end t e = (if ed_a e = t then ed_b e else ed_a e)"

section \<open>The search\<close>

text \<open>
  The loop of \<open>walk\<close> over the edges of a node; \<open>rec\<close> is the recursive call. A full result
  list ends the loop only right after a push.
\<close>

fun walk_loop :: "(string \<Rightarrow> string list \<Rightarrow> string list list \<Rightarrow> string list list)
    \<Rightarrow> string \<Rightarrow> string \<Rightarrow> string list \<Rightarrow> edge list \<Rightarrow> string list list \<Rightarrow> string list list" where
  "walk_loop rec tout node path [] rs = rs"
| "walk_loop rec tout node path (e # es) rs =
    (let nxt = other_end node e in
     if nxt \<in> set path then walk_loop rec tout node path es rs
     else if nxt = tout
     then (let rs' = rs @ [path @ [nxt]]
           in if length rs' \<ge> candidate_cap then rs' else walk_loop rec tout node path es rs')
     else walk_loop rec tout node path es (rec nxt (path @ [nxt]) rs))"

text \<open>\<open>h\<close> is \<open>MAX_HOPS - (path.length - 1)\<close>, the hops left.\<close>

primrec walk :: "(string, edge list) jmap \<Rightarrow> string \<Rightarrow> nat \<Rightarrow> string \<Rightarrow> string list
    \<Rightarrow> string list list \<Rightarrow> string list list" where
  "walk adj tout 0 = (\<lambda>node path rs. rs)"
| "walk adj tout (Suc h) = (\<lambda>node path rs.
    if length rs \<ge> candidate_cap then rs
    else walk_loop (walk adj tout h) tout node path (adj_of adj node) rs)"

definition candidate_paths :: "pools \<Rightarrow> string \<Rightarrow> string \<Rightarrow> string list list" where
  "candidate_paths ps tin tout =
    filter (\<lambda>p. length p > 2) (walk (adjacency (edges ps)) tout max_hops tin [tin] [])"

section \<open>The ranking\<close>

definition edge_score :: "(string, edge list) jmap \<Rightarrow> string \<Rightarrow> string \<Rightarrow> num" where
  "edge_score adj a b =
    foldl (\<lambda>best e. if other_end a e = b then num_max best (num_or0 (ed_liq e)) else best) (Fin 0) (adj_of adj a)"

fun path_liq :: "(num \<Rightarrow> num) \<Rightarrow> (string, edge list) jmap \<Rightarrow> string list \<Rightarrow> num \<Rightarrow> num" where
  "path_liq mlog adj (a # b # p) liq =
    (let s = edge_score adj a b
     in if num_le s (Fin 0) then NInf else path_liq mlog adj (b # p) (num_add liq (mlog (num_add s (Fin 1)))))"
| "path_liq mlog adj _ liq = liq"

definition path_after :: "(string list \<times> num) \<Rightarrow> (string list \<times> num) \<Rightarrow> bool" where
  "path_after x y \<longleftrightarrow> length (fst y) < length (fst x) \<or>
    length (fst x) = length (fst y) \<and> num_lt (Fin 0) (num_sub (snd y) (snd x))"

definition rank_paths :: "(num \<Rightarrow> num) \<Rightarrow> pools \<Rightarrow> string list list \<Rightarrow> string list list" where
  "rank_paths mlog ps paths =
    (let adj = adjacency (edges ps);
         scored = map (\<lambda>p. (p, path_liq mlog adj p (Fin 0))) paths
     in map fst (take verify_top (js_sort path_after (filter (\<lambda>s. num_lt NInf (snd s)) scored))))"

section \<open>Quoting a path\<close>

record hop_quote =
  hq_in :: string
  hq_out :: string
  hq_amount :: int
  hq_min_out :: int
  hq_route :: route

record path_result =
  pr_path :: "string list"
  pr_hops :: "hop_quote list"
  pr_net :: int

text \<open>\<open>engine.computeRoute\<close> as the pathfinder calls it.\<close>

definition hop_route :: "int \<Rightarrow> venue list \<Rightarrow> (string \<Rightarrow> int) \<Rightarrow> int \<Rightarrow> string \<Rightarrow> string \<Rightarrow> int \<Rightarrow> route js" where
  "hop_route fee_num venues decs slip tin tout amount =
    compute_route fee_num venues tin tout amount slip True False \<lparr>dec_in = decs tin, dec_out = decs tout\<rparr>"

text \<open>The hops of a path, \<open>None\<close> when one of them has no route.\<close>

fun quote_hops :: "(string \<Rightarrow> string \<Rightarrow> int \<Rightarrow> route js) \<Rightarrow> int \<Rightarrow> string list \<Rightarrow> int \<Rightarrow> hop_quote list option" where
  "quote_hops hop slip (a # b # p) amount =
    (case hop a b amount of
       Inl _ \<Rightarrow> None
     | Inr r \<Rightarrow>
         (if rt_segments r = [] \<or> rt_net_out r \<le> 0 then None
          else let min_out = tdiv (rt_net_out r * (10000 - slip)) 10000
          in if min_out \<le> 0 then None
             else (case quote_hops hop slip (b # p) min_out of
                     None \<Rightarrow> None
                   | Some hs \<Rightarrow> Some (\<lparr>hq_in = a, hq_out = b, hq_amount = amount, hq_min_out = min_out,
                                    hq_route = r\<rparr> # hs))))"
| "quote_hops hop slip _ amount = Some []"

text \<open>A path without hops has no last hop to read: a TypeError.\<close>

definition quote_path :: "(string \<Rightarrow> string \<Rightarrow> int \<Rightarrow> route js) \<Rightarrow> int \<Rightarrow> string list \<Rightarrow> int \<Rightarrow> path_result option js" where
  "quote_path hop slip path amount =
    (case quote_hops hop slip path amount of
       None \<Rightarrow> Inr None
     | Some [] \<Rightarrow> Inl TypeError
     | Some (h # hs) \<Rightarrow>
         Inr (Some \<lparr>pr_path = path, pr_hops = h # hs, pr_net = rt_net_out (hq_route (last (h # hs)))\<rparr>))"

section \<open>The best route\<close>

record best_route =
  br_direct :: route
  br_multi :: "path_result option"

type_synonym route_key = "string \<times> string \<times> int \<times> int"

type_synonym result_cache = "(route_key, int \<times> best_route) jmap"

definition cached_best :: "result_cache \<Rightarrow> route_key \<Rightarrow> int \<Rightarrow> best_route option" where
  "cached_best cache key now =
    (case jm_get cache key of
       None \<Rightarrow> None
     | Some (ts, val) \<Rightarrow> if now - ts < result_ttl_ms then Some val else None)"

definition best_of :: "path_result option list \<Rightarrow> path_result option" where
  "best_of qs = foldl (\<lambda>multi q. case q of
      None \<Rightarrow> multi
    | Some r \<Rightarrow> (case multi of None \<Rightarrow> Some r | Some b \<Rightarrow> if pr_net r > pr_net b then Some r else multi)) None qs"

text \<open>The verification of the finalists: the i-th one reads the clock at \<open>clock i\<close>.\<close>

definition verify_paths :: "(string \<Rightarrow> string \<Rightarrow> int \<Rightarrow> route js) \<Rightarrow> int \<Rightarrow> int \<Rightarrow> (nat \<Rightarrow> int) \<Rightarrow> int
    \<Rightarrow> string list list \<Rightarrow> path_result option list" where
  "verify_paths hop slip amount clock deadline ranked =
    map (\<lambda>(i, p). if i = 0 \<or> clock i < deadline then js_catch (quote_path hop slip p amount) None else None)
      (zip [0..<length ranked] ranked)"

definition multi_route :: "(num \<Rightarrow> num) \<Rightarrow> pools \<Rightarrow> (string \<Rightarrow> string \<Rightarrow> int \<Rightarrow> route js)
    \<Rightarrow> string \<Rightarrow> string \<Rightarrow> int \<Rightarrow> int \<Rightarrow> (nat \<Rightarrow> int) \<Rightarrow> int \<Rightarrow> path_result option" where
  "multi_route mlog ps hop tin tout amount slip clock deadline =
    (let candidates = candidate_paths ps tin tout
     in if candidates = [] then None
        else best_of (verify_paths hop slip amount clock deadline (rank_paths mlog ps candidates)))"

definition store_best :: "result_cache \<Rightarrow> route_key \<Rightarrow> best_route \<Rightarrow> int \<Rightarrow> int \<Rightarrow> result_cache" where
  "store_best cache key val ts now =
    (let c = jm_set key (ts, val) cache
     in if length c > 500 then filter (\<lambda>e. \<not> now - fst (snd e) \<ge> result_ttl_ms) c else c)"

text \<open>
  \<open>bestRoute\<close>: \<open>t_hit\<close> is the clock at the memo, \<open>t_start\<close> when the deadline is
  set, \<open>t_store\<close> and \<open>t_sweep\<close> at the end. \<open>cache'\<close> is the memo when the search is over
  (other calls may have stored into it in the meantime).
\<close>

definition best_route_call :: "(num \<Rightarrow> num) \<Rightarrow> pools \<Rightarrow> (string \<Rightarrow> string \<Rightarrow> int \<Rightarrow> route js)
    \<Rightarrow> string \<Rightarrow> string \<Rightarrow> int \<Rightarrow> int \<Rightarrow> int \<Rightarrow> int \<Rightarrow> (nat \<Rightarrow> int) \<Rightarrow> int \<Rightarrow> int
    \<Rightarrow> result_cache \<Rightarrow> result_cache \<Rightarrow> (best_route \<times> result_cache) js" where
  "best_route_call mlog ps hop tin tout amount slip t_hit t_start clock t_store t_sweep cache cache' =
    (let key = (tin, tout, amount, slip)
     in case cached_best cache key t_hit of
          Some val \<Rightarrow> Inr (val, cache')
        | None \<Rightarrow>
            js_bind (hop tin tout amount) (\<lambda>direct.
              let val = \<lparr>br_direct = direct,
                         br_multi = multi_route mlog ps hop tin tout amount slip clock (t_start + search_budget_ms)\<rparr>
              in Inr (val, store_best cache' key val t_store t_sweep)))"

section \<open>The search is sound, bounded and complete\<close>

text \<open>\<open>q\<close> continues a path at \<open>node\<close>: consecutive tokens joined by an edge of the
  graph, only the last one the target.\<close>

fun continues :: "(string, edge list) jmap \<Rightarrow> string \<Rightarrow> string \<Rightarrow> string list \<Rightarrow> bool" where
  "continues adj tout node [] \<longleftrightarrow> False"
| "continues adj tout node (t # q) \<longleftrightarrow> (\<exists>e\<in>set (adj_of adj node). other_end node e = t) \<and>
    (if q = [] then t = tout else t \<noteq> tout \<and> continues adj tout t q)"

lemma continues_tout: "continues adj tout node q \<Longrightarrow> q \<noteq> [] \<and> last q = tout \<and> tout \<notin> set (butlast q)"
  by (induction adj tout node q rule: continues.induct) (auto split: if_splits)

text \<open>What the walk finds from \<open>path\<close> with \<open>h\<close> hops left.\<close>

definition found :: "(string, edge list) jmap \<Rightarrow> string \<Rightarrow> nat \<Rightarrow> string \<Rightarrow> string list \<Rightarrow> string list set" where
  "found adj tout h node path =
    {path @ q | q. continues adj tout node q \<and> length q \<le> h \<and> distinct (path @ q)}"

text \<open>The same through one of the edges \<open>es\<close>.\<close>

definition found_by :: "(string, edge list) jmap \<Rightarrow> string \<Rightarrow> nat \<Rightarrow> string \<Rightarrow> string list \<Rightarrow> edge list \<Rightarrow> string list set" where
  "found_by adj tout h node path es =
    {path @ t # q | t q. (\<exists>e\<in>set es. other_end node e = t) \<and>
      (if q = [] then t = tout else t \<noteq> tout \<and> continues adj tout t q) \<and> length q \<le> h \<and> distinct (path @ t # q)}"

lemma found_Suc: "found adj tout (Suc h) node path = found_by adj tout h node path (adj_of adj node)"
proof (intro set_eqI iffI)
  fix p
  assume "p \<in> found adj tout (Suc h) node path"
  then obtain q where q: "p = path @ q" "continues adj tout node q" "length q \<le> Suc h" "distinct (path @ q)"
    by (auto simp: found_def)
  then obtain t q' where t: "q = t # q'" by (cases q) auto
  show "p \<in> found_by adj tout h node path (adj_of adj node)"
    using q unfolding t found_by_def by (intro CollectI exI [of _ t] exI [of _ q']) simp
next
  fix p
  assume "p \<in> found_by adj tout h node path (adj_of adj node)"
  then obtain t q where q: "p = path @ t # q" "\<exists>e\<in>set (adj_of adj node). other_end node e = t"
      "if q = [] then t = tout else t \<noteq> tout \<and> continues adj tout t q" "length q \<le> h" "distinct (path @ t # q)"
    unfolding found_by_def by blast
  then have "continues adj tout node (t # q)" by simp
  with q show "p \<in> found adj tout (Suc h) node path"
    unfolding found_def by (intro CollectI exI [of _ "t # q"]) simp
qed

lemma found_0 [simp]: "found adj tout 0 node path = {}"
  by (auto simp: found_def)

lemma found_by_simps:
  "found_by adj tout h node path [] = {}"
  "other_end node e \<in> set path \<Longrightarrow> found_by adj tout h node path (e # es) = found_by adj tout h node path es"
  "tout \<notin> set path \<Longrightarrow> distinct path \<Longrightarrow> other_end node e = tout \<Longrightarrow>
    found_by adj tout h node path (e # es) = insert (path @ [tout]) (found_by adj tout h node path es)"
  "other_end node e \<notin> set path \<Longrightarrow> other_end node e \<noteq> tout \<Longrightarrow>
    found_by adj tout h node path (e # es) =
      found adj tout h (other_end node e) (path @ [other_end node e]) \<union> found_by adj tout h node path es"
proof -
  show "found_by adj tout h node path [] = {}" by (auto simp: found_by_def)
  show "other_end node e \<in> set path \<Longrightarrow> found_by adj tout h node path (e # es) = found_by adj tout h node path es"
    by (auto simp: found_by_def)
  show "tout \<notin> set path \<Longrightarrow> distinct path \<Longrightarrow> other_end node e = tout \<Longrightarrow>
    found_by adj tout h node path (e # es) = insert (path @ [tout]) (found_by adj tout h node path es)"
    by (auto simp: found_by_def split: if_splits)
  show "other_end node e \<notin> set path \<Longrightarrow> other_end node e \<noteq> tout \<Longrightarrow>
    found_by adj tout h node path (e # es) =
      found adj tout h (other_end node e) (path @ [other_end node e]) \<union> found_by adj tout h node path es"
    unfolding found_by_def found_def by (auto split: if_splits dest: continues_tout)
qed


text \<open>What one call of the search, or of its loop, does to the results.\<close>

definition search_ok :: "string list set \<Rightarrow> nat \<Rightarrow> string list list \<Rightarrow> string list list \<Rightarrow> bool" where
  "search_ok F b rs rs' \<longleftrightarrow> set rs \<subseteq> set rs' \<and> set rs' \<subseteq> set rs \<union> F \<and> length rs \<le> length rs' \<and>
    (length rs' < candidate_cap \<longrightarrow> F \<subseteq> set rs') \<and> length rs' \<le> b"

lemma search_ok_refl: "length rs \<le> b \<Longrightarrow> F \<subseteq> set rs \<or> candidate_cap \<le> length rs \<Longrightarrow> search_ok F b rs rs"
  by (auto simp: search_ok_def)

lemma search_ok_trans:
  assumes "search_ok F b rs rs'" "search_ok G c rs' rs''"
  shows "search_ok (F \<union> G) c rs rs''"
proof -
  note d = assms [unfolded search_ok_def]
  from d have "set rs \<subseteq> set rs''" "set rs'' \<subseteq> set rs \<union> (F \<union> G)" by blast+
  moreover from d have "length rs \<le> length rs''" "length rs'' \<le> c" by linarith+
  moreover have "F \<union> G \<subseteq> set rs''" if "length rs'' < candidate_cap"
  proof -
    from d that have "length rs' < candidate_cap" by linarith
    with d that show ?thesis by blast
  qed
  ultimately show ?thesis by (simp add: search_ok_def)
qed

lemma walk_loop_ok:
  assumes rec: "\<And>n p rs. distinct p \<Longrightarrow> tout \<notin> set p \<Longrightarrow> length rs < candidate_cap + h \<Longrightarrow>
      search_ok (found adj tout h n p) (candidate_cap + h - 1) rs (rec n p rs)"
    and "distinct path" "tout \<notin> set path" "length rs < candidate_cap + h"
  shows "search_ok (found_by adj tout h node path es) (candidate_cap + h) rs (walk_loop rec tout node path es rs)"
  using assms(4)
proof (induction es arbitrary: rs)
  case (Cons e es)
  let ?n = "other_end node e"
  consider (seen) "?n \<in> set path" | (hit) "?n \<notin> set path" "?n = tout" | (deep) "?n \<notin> set path" "?n \<noteq> tout"
    by blast
  then show ?case
  proof cases
    case seen
    with Cons show ?thesis by (simp add: found_by_simps(2))
  next
    case hit
    let ?rs = "rs @ [path @ [tout]]"
    have F: "found_by adj tout h node path (e # es) = {path @ [tout]} \<union> found_by adj tout h node path es"
      using found_by_simps(3) [OF assms(3,2) hit(2)] by simp
    show ?thesis
    proof (cases "length ?rs \<ge> candidate_cap")
      case True
      then show ?thesis using hit Cons.prems by (simp add: Let_def F) (auto simp: search_ok_def)
    next
      case False
      then have "search_ok (found_by adj tout h node path es) (candidate_cap + h) ?rs (walk_loop rec tout node path es ?rs)"
        by (intro Cons.IH) simp
      moreover have "search_ok {path @ [tout]} (candidate_cap + h) rs ?rs"
        using False by (auto simp: search_ok_def)
      ultimately have "search_ok (found_by adj tout h node path (e # es)) (candidate_cap + h) rs
          (walk_loop rec tout node path es ?rs)"
        unfolding F by (rule search_ok_trans [rotated])
      with hit False show ?thesis by (simp add: Let_def)
    qed
  next
    case deep
    let ?rs = "rec ?n (path @ [?n]) rs"
    have r: "search_ok (found adj tout h ?n (path @ [?n])) (candidate_cap + h - 1) rs ?rs"
      using deep assms(2,3) Cons.prems by (intro rec) auto
    then have "length ?rs < candidate_cap + h" by (auto simp: search_ok_def candidate_cap_def)
    with Cons.IH search_ok_trans [OF r] deep show ?thesis
      by (simp add: found_by_simps(4) Let_def)
  qed
qed (simp add: found_by_simps(1) search_ok_refl)

lemma walk_ok:
  "distinct path \<Longrightarrow> tout \<notin> set path \<Longrightarrow> length rs < candidate_cap + h \<Longrightarrow>
    search_ok (found adj tout h node path) (candidate_cap + h - 1) rs (walk adj tout h node path rs)"
proof (induction h arbitrary: node path rs)
  case 0
  then show ?case by (auto intro!: search_ok_refl)
next
  case (Suc h)
  show ?case
  proof (cases "length rs \<ge> candidate_cap")
    case True
    then show ?thesis using Suc.prems by (auto intro!: search_ok_refl)
  next
    case False
    then have "search_ok (found_by adj tout h node path (adj_of adj node)) (candidate_cap + h) rs
        (walk_loop (walk adj tout h) tout node path (adj_of adj node) rs)"
      using Suc by (intro walk_loop_ok) auto
    with False show ?thesis by (simp add: found_Suc)
  qed
qed

text \<open>The edges of a node in the pruned graph are discovered edges at that node.\<close>

definition incident :: "edge list \<Rightarrow> (string, edge list) jmap \<Rightarrow> bool" where
  "incident es adj \<longleftrightarrow> (\<forall>t. \<forall>e\<in>set (adj_of adj t). e \<in> set es \<and> (ed_a e = t \<or> ed_b e = t))"

lemma adj_of_push: "adj_of (adj_push t e adj) u = (if u = t then adj_of adj u @ [e] else adj_of adj u)"
  by (simp add: adj_of_def adj_push_def jm.get_put split: option.split)

lemma incident_push:
  "incident es adj \<Longrightarrow> e \<in> set es \<Longrightarrow> t = ed_a e \<or> t = ed_b e \<Longrightarrow> incident es (adj_push t e adj)"
  by (auto simp: incident_def adj_of_push)

lemma incident_fold:
  "incident es adj \<Longrightarrow> set fs \<subseteq> set es \<Longrightarrow>
    incident es (foldl (\<lambda>adj e. adj_push (ed_b e) e (adj_push (ed_a e) e adj)) adj fs)"
  by (induction fs arbitrary: adj) (simp_all add: incident_push)

lemma adj_of_map: "adj_of (map (\<lambda>(t, l). (t, prune_edges l)) adj) t = prune_edges (adj_of adj t)"
proof -
  have "map_of (map (\<lambda>(t, l). (t, prune_edges l)) adj) t = map_option prune_edges (map_of adj t)"
    by (induction adj) auto
  then show ?thesis
    by (cases "map_of adj t") (simp_all add: adj_of_def jm_get_def prune_edges_def)
qed

lemma prune_edges_set: "set (prune_edges es) \<subseteq> set es"
  by (auto simp: prune_edges_def dest!: in_set_takeD)

lemma adjacency_incident: "incident es (adjacency es)"
proof -
  have "incident es jm_empty" by (simp add: incident_def adj_of_def jm.get_empty)
  then have "incident es (foldl (\<lambda>adj e. adj_push (ed_b e) e (adj_push (ed_a e) e adj)) jm_empty es)"
    by (rule incident_fold) simp
  then show ?thesis
    unfolding incident_def adjacency_def adj_of_map using prune_edges_set by blast
qed

lemma adjacency_edge:
  assumes "e \<in> set (adj_of (adjacency es) n)"
  shows "e \<in> set es \<and> {ed_a e, ed_b e} = {n, other_end n e}"
  using assms adjacency_incident [of es] by (auto simp: incident_def other_end_def)

text \<open>Two tokens some discovered pool trades against each other.\<close>

definition pooled :: "pools \<Rightarrow> string \<Rightarrow> string \<Rightarrow> bool" where
  "pooled ps x y \<longleftrightarrow> (\<exists>e\<in>set (edges ps). {ed_a e, ed_b e} = {x, y})"

lemma continues_pooled:
  "continues (adjacency (edges ps)) tout n q \<Longrightarrow> successively (pooled ps) (n # q)"
proof (induction q arbitrary: n)
  case (Cons t q)
  then have "pooled ps n t" by (auto simp: pooled_def dest: adjacency_edge)
  with Cons show ?case by (cases q) auto
qed simp

text \<open>
  C16. Every candidate is a tradeable chain: it starts at the input token and ends at the output
  token, revisits no token, has between 2 and MAX_HOPS hops, and some discovered pool trades each
  consecutive pair. The search never returns more than CANDIDATE_CAP + MAX_HOPS - 1 of them.
\<close>

theorem candidate_paths_sound:
  assumes "p \<in> set (candidate_paths ps tin tout)" "tin \<noteq> tout"
  shows "hd p = tin \<and> last p = tout \<and> distinct p \<and> 3 \<le> length p \<and> length p \<le> max_hops + 1 \<and>
    successively (pooled ps) p \<and> length (candidate_paths ps tin tout) \<le> candidate_cap + max_hops - 1"
proof -
  let ?adj = "adjacency (edges ps)" and ?rs = "walk (adjacency (edges ps)) tout max_hops tin [tin] []"
  have ok: "search_ok (found ?adj tout max_hops tin [tin]) (candidate_cap + max_hops - 1) [] ?rs"
    using assms(2) by (intro walk_ok) (auto simp: candidate_cap_def)
  with assms(1) have "p \<in> found ?adj tout max_hops tin [tin]" and len: "2 < length p"
    by (auto simp: candidate_paths_def search_ok_def)
  then obtain q where q: "p = [tin] @ q" "continues ?adj tout tin q" "length q \<le> max_hops" "distinct ([tin] @ q)"
    by (auto simp: found_def)
  have "length (candidate_paths ps tin tout) \<le> length ?rs"
    unfolding candidate_paths_def by (rule length_filter_le)
  with ok have "length (candidate_paths ps tin tout) \<le> candidate_cap + max_hops - 1"
    by (simp add: search_ok_def)
  with q len continues_tout [OF q(2)] continues_pooled [OF q(2)] show ?thesis by simp
qed

text \<open>
  The search is complete below its cap: when it stopped with fewer than CANDIDATE_CAP results,
  every chain over the pruned graph from the input to the output token with 2 to MAX_HOPS hops
  and no repeated token is a candidate.
\<close>

theorem candidate_paths_complete:
  assumes "length (walk (adjacency (edges ps)) tout max_hops tin [tin] []) < candidate_cap" "tin \<noteq> tout"
    and "distinct p" "2 < length p" "length p \<le> max_hops + 1" "hd p = tin" "last p = tout"
    and "successively (\<lambda>x y. \<exists>e\<in>set (adj_of (adjacency (edges ps)) x). other_end x e = y) p"
  shows "p \<in> set (candidate_paths ps tin tout)"
proof -
  let ?adj = "adjacency (edges ps)"
  have cont: "continues ?adj tout x q"
    if "successively (\<lambda>x y. \<exists>e\<in>set (adj_of ?adj x). other_end x e = y) (x # q)" "distinct (x # q)"
      "q \<noteq> []" "last q = tout" for x q
    using that
  proof (induction q arbitrary: x)
    case (Cons t q)
    show ?case
    proof (cases "q = []")
      case False
      then have "continues ?adj tout t q" using Cons.prems by (intro Cons.IH) (auto simp: successively_Cons)
      with False Cons.prems show ?thesis by (auto simp: successively_Cons)
    qed (use Cons.prems in auto)
  qed simp
  from assms(4,6) obtain q where p: "p = tin # q" "q \<noteq> []" by (cases p) fastforce+
  with assms have "continues ?adj tout tin q" by (intro cont) auto
  with p assms(3,5) have "p \<in> found ?adj tout max_hops tin [tin]"
    by (auto simp: found_def)
  moreover have "search_ok (found ?adj tout max_hops tin [tin]) (candidate_cap + max_hops - 1) []
      (walk ?adj tout max_hops tin [tin] [])"
    using assms(2) by (intro walk_ok) (auto simp: candidate_cap_def)
  ultimately have "p \<in> set (walk ?adj tout max_hops tin [tin] [])"
    using assms(1) unfolding search_ok_def by blast
  with assms(4) show ?thesis by (simp add: candidate_paths_def)
qed

section \<open>The ranking\<close>

lemma js_insert_by:
  fixes k :: "'a \<Rightarrow> 'b::linorder"
  assumes "\<And>a b. gt a b \<Longrightarrow> k b \<le> k a" "\<And>a b. \<not> gt a b \<Longrightarrow> k a \<le> k b" "sorted (map k ys)"
  shows "sorted (map k (js_insert gt x ys))"
  using assms(3)
proof (induction ys)
  case (Cons y ys)
  then show ?case using assms(1) [of x y] assms(2) [of x y] by (auto simp: order_trans)
qed simp

lemma js_sort_by:
  fixes k :: "'a \<Rightarrow> 'b::linorder"
  assumes "\<And>a b. gt a b \<Longrightarrow> k b \<le> k a" "\<And>a b. \<not> gt a b \<Longrightarrow> k a \<le> k b"
  shows "sorted (map k (js_sort gt xs))"
  by (induction xs) (simp_all add: js_insert_by [of gt k, OF assms])

text \<open>A path the ranking scores above minus infinity.\<close>

definition viable :: "(num \<Rightarrow> num) \<Rightarrow> pools \<Rightarrow> string list \<Rightarrow> bool" where
  "viable mlog ps p \<longleftrightarrow> num_lt NInf (path_liq mlog (adjacency (edges ps)) p (Fin 0))"

text \<open>
  The finalists are viable candidates, at most VERIFY_TOP of them, shortest first; a viable
  candidate is left out only when VERIFY_TOP finalists have at most as many hops.
\<close>

theorem rank_paths_shortest:
  "sorted (map length (rank_paths mlog ps paths)) \<and> length (rank_paths mlog ps paths) \<le> verify_top \<and>
    set (rank_paths mlog ps paths) \<subseteq> {p \<in> set paths. viable mlog ps p} \<and>
    (\<forall>p\<in>{p \<in> set paths. viable mlog ps p} - set (rank_paths mlog ps paths).
      length (rank_paths mlog ps paths) = verify_top \<and> (\<forall>q\<in>set (rank_paths mlog ps paths). length q \<le> length p))"
proof -
  let ?adj = "adjacency (edges ps)"
  let ?scored = "filter (\<lambda>s. num_lt NInf (snd s)) (map (\<lambda>p. (p, path_liq mlog ?adj p (Fin 0))) paths)"
  let ?s = "js_sort path_after ?scored"
  have srt: "sorted (map (length \<circ> fst) ?s)"
    by (rule js_sort_by) (auto simp: path_after_def)
  have r: "rank_paths mlog ps paths = map fst (take verify_top ?s)"
    by (simp add: rank_paths_def Let_def)
  have mem: "fst ` set ?s = {p \<in> set paths. viable mlog ps p}"
    by (auto simp: viable_def image_iff)
  have "length (rank_paths mlog ps paths) = verify_top \<and> (\<forall>q\<in>set (rank_paths mlog ps paths). length q \<le> length p)"
    if "p \<in> {p \<in> set paths. viable mlog ps p} - set (rank_paths mlog ps paths)" for p
  proof -
    from that mem have "p \<in> fst ` set ?s" "p \<notin> fst ` set (take verify_top ?s)" by (auto simp: r)
    moreover have "set ?s = set (take verify_top ?s) \<union> set (drop verify_top ?s)"
      by (metis append_take_drop_id set_append)
    ultimately obtain x where x: "x \<in> set (drop verify_top ?s)" "p = fst x" by auto
    then have "verify_top < length ?s" by (metis drop_all empty_iff leI list.set(1))
    moreover have "length q \<le> length p" if "q \<in> set (rank_paths mlog ps paths)" for q
    proof -
      from that obtain y where y: "y \<in> set (take verify_top ?s)" "q = fst y" by (auto simp: r)
      have "sorted (map (length \<circ> fst) (take verify_top ?s @ drop verify_top ?s))" using srt by simp
      then show ?thesis using x y unfolding map_append sorted_append by auto
    qed
    ultimately show ?thesis by (simp add: r)
  qed
  moreover have "sorted (map length (rank_paths mlog ps paths))"
    using sorted_wrt_take [OF srt, of verify_top] by (simp add: r take_map)
  moreover have "set (rank_paths mlog ps paths) \<subseteq> {p \<in> set paths. viable mlog ps p}"
  proof
    fix p
    assume "p \<in> set (rank_paths mlog ps paths)"
    then have "p \<in> fst ` set (take verify_top ?s)" by (simp only: r set_map)
    also have "\<dots> \<subseteq> fst ` set ?s" by (rule image_mono [OF set_take_subset])
    finally have "p \<in> fst ` set ?s" .
    then show "p \<in> {p \<in> set paths. viable mlog ps p}" unfolding mem .
  qed
  ultimately show ?thesis by (auto simp: r)
qed

section \<open>Chained quotes\<close>

text \<open>What the pathfinder relies on from the engine: a route with segments spends exactly what it
  was asked to, and its net output is at most the sum of the segments' outputs.\<close>

locale hop_router =
  fixes hop :: "string \<Rightarrow> string \<Rightarrow> int \<Rightarrow> route js"
  assumes spends: "hop a b x = Inr r \<Longrightarrow> rt_segments r \<noteq> [] \<Longrightarrow> (\<Sum>s\<leftarrow>rt_segments r. sg_in s) = x"
    and pays: "hop a b x = Inr r \<Longrightarrow> rt_net_out r \<le> (\<Sum>s\<leftarrow>rt_segments r. sg_out s)"
begin

text \<open>A hop of a quoted path, its input and the minimum it hands on.\<close>

definition hop_ok :: "int \<Rightarrow> hop_quote \<Rightarrow> bool" where
  "hop_ok slip h \<longleftrightarrow> hop (hq_in h) (hq_out h) (hq_amount h) = Inr (hq_route h) \<and>
    (\<Sum>s\<leftarrow>rt_segments (hq_route h). sg_in s) = hq_amount h \<and>
    rt_net_out (hq_route h) \<le> (\<Sum>s\<leftarrow>rt_segments (hq_route h). sg_out s) \<and>
    0 < hq_min_out h \<and> hq_min_out h * 10000 \<le> rt_net_out (hq_route h) * (10000 - slip)"

lemma quote_hops_ok:
  assumes "quote_hops hop slip path amount = Some hs" "slip \<le> 10000"
  shows "length hs = length path - 1 \<and> (\<forall>h\<in>set hs. hop_ok slip h) \<and>
    (hs \<noteq> [] \<longrightarrow> hq_amount (hd hs) = amount \<and> map hq_in hs @ [hq_out (last hs)] = path) \<and>
    successively (\<lambda>h h'. hq_out h = hq_in h' \<and> hq_amount h' = hq_min_out h) hs"
  using assms(1)
proof (induction path arbitrary: amount hs)
  case (Cons a p)
  show ?case
  proof (cases p)
    case (Cons b p')
    with Cons.prems obtain r hs' where r: "hop a b amount = Inr r" "rt_segments r \<noteq> []" "0 < rt_net_out r"
        "0 < tdiv (rt_net_out r * (10000 - slip)) 10000"
        "quote_hops hop slip p (tdiv (rt_net_out r * (10000 - slip)) 10000) = Some hs'"
      and hs: "hs = \<lparr>hq_in = a, hq_out = b, hq_amount = amount,
        hq_min_out = tdiv (rt_net_out r * (10000 - slip)) 10000, hq_route = r\<rparr> # hs'"
      by (auto simp: Let_def split: sum.splits if_splits option.splits)
    have "0 \<le> rt_net_out r * (10000 - slip)" using r(3) assms(2) by simp
    then have "tdiv (rt_net_out r * (10000 - slip)) 10000 * 10000 \<le> rt_net_out r * (10000 - slip)"
      by (rule tdiv_mult_le) simp
    then have "hop_ok slip (hd hs)"
      using r spends [OF r(1,2)] pays [OF r(1)] by (simp add: hop_ok_def hs)
    with Cons.IH [OF r(5)] hs Cons show ?thesis
      by (cases hs') auto
  qed (use Cons.prems in simp)
qed simp

lemma quote_path_ok:
  assumes "quote_path hop slip path amount = Inr (Some pr)" "slip \<le> 10000"
  shows "pr_path pr = path \<and> pr_hops pr \<noteq> [] \<and> (\<forall>h\<in>set (pr_hops pr). hop_ok slip h) \<and>
    hq_amount (hd (pr_hops pr)) = amount \<and> map hq_in (pr_hops pr) @ [hq_out (last (pr_hops pr))] = path \<and>
    successively (\<lambda>h h'. hq_out h = hq_in h' \<and> hq_amount h' = hq_min_out h) (pr_hops pr) \<and>
    pr_net pr = rt_net_out (hq_route (last (pr_hops pr)))"
proof -
  from assms(1) obtain hs where hs: "quote_hops hop slip path amount = Some hs" "hs \<noteq> []"
    "pr = \<lparr>pr_path = path, pr_hops = hs, pr_net = rt_net_out (hq_route (last hs))\<rparr>"
    by (auto simp: quote_path_def split: option.splits list.splits)
  from quote_hops_ok [OF hs(1) assms(2)] hs show ?thesis by simp
qed

end

lemma hop_router_engine:
  assumes "0 \<le> fee_num" "fee_num < fee_den"
  shows "hop_router (hop_route fee_num venues decs slip)"
proof
  fix a b x r
  assume r: "hop_route fee_num venues decs slip a b x = Inr r"
  show "rt_segments r \<noteq> [] \<Longrightarrow> (\<Sum>s\<leftarrow>rt_segments r. sg_in s) = x"
    using r unfolding hop_route_def by (rule route_segments_ok(2))
  show "rt_net_out r \<le> (\<Sum>s\<leftarrow>rt_segments r. sg_out s)"
  proof -
    have "rt_net_out r = rt_total_out r - rt_fee r" "rt_total_out r = (\<Sum>s\<leftarrow>rt_segments r. sg_out s)"
      "rt_fee r = protocol_fee fee_num (rt_total_out r)"
      using r unfolding hop_route_def by (auto elim: compute_route_elim)
    moreover have "0 \<le> protocol_fee fee_num (rt_total_out r)"
      using assms(1) by (simp add: protocol_fee_def fee_den_def tdiv_sign)
    ultimately show ?thesis by linarith
  qed
qed

text \<open>The engine at the default fee.\<close>

definition router_fee :: int where
  "router_fee = 0"

interpretation engine: hop_router "hop_route router_fee venues decs slip" for venues decs slip
  by (rule hop_router_engine) (simp_all add: router_fee_def fee_den_def)

text \<open>
  C12. A quoted path is exactly executable: its hops follow the path from the first token to the
  last, the first spends the given amount, each later hop spends what the previous one is
  guaranteed to deliver (its minimum output), every hop's route splits exactly its input, and
  every minimum is positive and at most the route's net output less the slippage, which in turn is at
  most what its segments promise. The path's net output is that of the last hop.
\<close>

theorem quote_path_executable:
  assumes "quote_path (hop_route router_fee venues decs slip) slip path amount = Inr (Some pr)" "slip \<le> 10000"
  shows "hq_amount (hd (pr_hops pr)) = amount \<and>
    map hq_in (pr_hops pr) @ [hq_out (last (pr_hops pr))] = path \<and>
    successively (\<lambda>h h'. hq_out h = hq_in h' \<and> hq_amount h' = hq_min_out h) (pr_hops pr) \<and>
    pr_net pr = rt_net_out (hq_route (last (pr_hops pr))) \<and>
    (\<forall>h\<in>set (pr_hops pr). hop_route router_fee venues decs slip (hq_in h) (hq_out h) (hq_amount h) = Inr (hq_route h) \<and>
      (\<Sum>s\<leftarrow>rt_segments (hq_route h). sg_in s) = hq_amount h \<and> 0 < hq_min_out h \<and>
      hq_min_out h * 10000 \<le> rt_net_out (hq_route h) * (10000 - slip) \<and>
      rt_net_out (hq_route h) \<le> (\<Sum>s\<leftarrow>rt_segments (hq_route h). sg_out s))"
  using engine.quote_path_ok [OF assms] by (simp add: engine.hop_ok_def)

section \<open>The best of the finalists\<close>

lemma best_of_step:
  defines "step \<equiv> (\<lambda>multi q. case q of
      None \<Rightarrow> multi
    | Some r \<Rightarrow> (case multi of None \<Rightarrow> Some r | Some b \<Rightarrow> if pr_net r > pr_net b then Some r else multi))"
  shows "(foldl step m qs = None \<longleftrightarrow> m = None \<and> (\<forall>q\<in>set qs. q = None)) \<and>
    (\<forall>b. foldl step m qs = Some b \<longrightarrow> (m = Some b \<or> Some b \<in> set qs) \<and>
      (\<forall>q\<in>set qs. \<forall>r. q = Some r \<longrightarrow> pr_net r \<le> pr_net b) \<and> (\<forall>r. m = Some r \<longrightarrow> pr_net r \<le> pr_net b))"
proof (induction qs arbitrary: m)
  case (Cons q qs)
  have s: "step m q = None \<longleftrightarrow> m = None \<and> q = None"
    "step m q = Some b \<Longrightarrow> (m = Some b \<or> q = Some b) \<and> (\<forall>r. q = Some r \<longrightarrow> pr_net r \<le> pr_net b) \<and>
      (\<forall>r. m = Some r \<longrightarrow> pr_net r \<le> pr_net b)" for b
    by (auto simp: step_def split: option.splits if_splits)
  show ?case
  proof (cases "step m q")
    case None
    with s(1) Cons [of "step m q"] show ?thesis by simp
  next
    case (Some c)
    with s(1) s(2) [OF Some] Cons [of "step m q"] show ?thesis by (auto intro: order_trans)
  qed
qed simp

lemma best_of_None: "best_of qs = None \<longleftrightarrow> (\<forall>q\<in>set qs. q = None)"
  unfolding best_of_def using best_of_step [of None qs] by simp

lemma best_of_Some:
  "best_of qs = Some b \<Longrightarrow> Some b \<in> set qs \<and> (\<forall>r. Some r \<in> set qs \<longrightarrow> pr_net r \<le> pr_net b)"
  unfolding best_of_def using best_of_step [of None qs] by blast

text \<open>
  The best-ranked path is always verified, whatever the clock says, so a slow RPC narrows the
  search without blinding it: when that path has a quote, the call finds a multi-hop result at least as
  good; and a result is always a successful quote of one of the finalists, unbeaten among those verified.
\<close>

theorem best_path_verified:
  fixes mlog ps tin tout
  defines "ranked \<equiv> rank_paths mlog ps (candidate_paths ps tin tout)"
  assumes "ranked = p # rest" "quote_path hop slip p amount = Inr (Some q)"
  shows "\<exists>b. multi_route mlog ps hop tin tout amount slip clock deadline = Some b \<and> pr_net q \<le> pr_net b \<and>
    (\<exists>p'\<in>set ranked. quote_path hop slip p' amount = Inr (Some b)) \<and>
    (\<forall>i r. i < length ranked \<and> clock i < deadline \<and> quote_path hop slip (ranked ! i) amount = Inr (Some r) \<longrightarrow>
      pr_net r \<le> pr_net b)"
proof -
  let ?v = "verify_paths hop slip amount clock deadline ranked"
  have nth: "?v ! i = (if i = 0 \<or> clock i < deadline then js_catch (quote_path hop slip (ranked ! i) amount) None else None)"
    if "i < length ranked" for i
    using that by (simp add: verify_paths_def)
  have len: "length ?v = length ranked" by (simp add: verify_paths_def)
  have "candidate_paths ps tin tout \<noteq> []"
    using assms(2) by (auto simp: ranked_def rank_paths_def)
  then have m: "multi_route mlog ps hop tin tout amount slip clock deadline = best_of ?v"
    by (simp add: multi_route_def ranked_def)
  have "0 < length ?v" "?v ! 0 = Some q" using nth [of 0] assms(2,3) len by simp_all
  then have first: "Some q \<in> set ?v" by (metis nth_mem)
  then obtain b where b: "best_of ?v = Some b"
    using best_of_None [of ?v] by (cases "best_of ?v") blast+
  note best = best_of_Some [OF b]
  from best have "Some b \<in> set ?v" by blast
  then obtain i where i: "i < length ranked" "?v ! i = Some b"
    unfolding in_set_conv_nth len by blast
  then have c: "js_catch (quote_path hop slip (ranked ! i) amount) None = Some b"
    using nth [OF i(1)] by (cases "i = 0 \<or> clock i < deadline") simp_all
  then have "quote_path hop slip (ranked ! i) amount = Inr (Some b)"
    by (cases "quote_path hop slip (ranked ! i) amount") simp_all
  with i(1) have "\<exists>p'\<in>set ranked. quote_path hop slip p' amount = Inr (Some b)" by (meson nth_mem)
  moreover have "pr_net r \<le> pr_net b"
    if "i < length ranked" "clock i < deadline" "quote_path hop slip (ranked ! i) amount = Inr (Some r)" for i r
  proof -
    have "?v ! i = Some r" using nth [OF that(1)] that(2,3) by simp
    then have "Some r \<in> set ?v" using that(1) len by (metis nth_mem)
    with best show ?thesis by blast
  qed
  moreover have "pr_net q \<le> pr_net b" using best first by blast
  ultimately have all: "pr_net q \<le> pr_net b" "\<exists>p'\<in>set ranked. quote_path hop slip p' amount = Inr (Some b)"
    "\<forall>i r. i < length ranked \<and> clock i < deadline \<and> quote_path hop slip (ranked ! i) amount = Inr (Some r) \<longrightarrow>
      pr_net r \<le> pr_net b" by blast+
  show ?thesis
    by (intro exI [of _ b] conjI all) (simp add: m b)
qed

section \<open>The properties at concrete inputs\<close>

text \<open>Two pools that chain A to C through B.\<close>

definition demo_pools :: pools where
  "demo_pools = \<lparr>pl_aqua = [\<lparr>ap_address = ''P1'', ap_tokens = [''A'', ''B''], ap_volume = Fin 100\<rparr>,
      \<lparr>ap_address = ''P2'', ap_tokens = [''B'', ''C''], ap_volume = Fin 100\<rparr>], pl_sushi = [], pl_curve = []\<rparr>"

lemma demo_edges: "edges demo_pools =
    [\<lparr>ed_a = ''A'', ed_b = ''B'', ed_venue = Aqua, ed_pool = ''P1'', ed_liq = Fin 100\<rparr>,
     \<lparr>ed_a = ''B'', ed_b = ''C'', ed_venue = Aqua, ed_pool = ''P2'', ed_liq = Fin 100\<rparr>]"
  by code_simp

lemma demo_walk: "walk (adjacency (edges demo_pools)) ''C'' max_hops ''A'' [''A''] [] = [[''A'', ''B'', ''C'']]"
  by code_simp

lemma demo_candidates: "candidate_paths demo_pools ''A'' ''C'' = [[''A'', ''B'', ''C'']]"
  by (simp add: candidate_paths_def demo_walk)

theorem candidate_paths_sound_witness:
  "[''A'', ''B'', ''C''] \<in> set (candidate_paths demo_pools ''A'' ''C'') \<and>
    successively (pooled demo_pools) [''A'', ''B'', ''C'']"
  using candidate_paths_sound [of "[''A'', ''B'', ''C'']" demo_pools "''A''" "''C''"]
  by (simp add: demo_candidates)

lemma demo_adj:
  "adj_of (adjacency (edges demo_pools)) ''A'' =
    [\<lparr>ed_a = ''A'', ed_b = ''B'', ed_venue = Aqua, ed_pool = ''P1'', ed_liq = Fin 100\<rparr>]"
  "adj_of (adjacency (edges demo_pools)) ''B'' =
    [\<lparr>ed_a = ''A'', ed_b = ''B'', ed_venue = Aqua, ed_pool = ''P1'', ed_liq = Fin 100\<rparr>,
     \<lparr>ed_a = ''B'', ed_b = ''C'', ed_venue = Aqua, ed_pool = ''P2'', ed_liq = Fin 100\<rparr>]"
  by code_simp+

theorem candidate_paths_complete_witness:
  "[''A'', ''B'', ''C''] \<in> set (candidate_paths demo_pools ''A'' ''C'')"
  by (rule candidate_paths_complete, unfold demo_walk)
    (simp_all add: demo_adj candidate_cap_def max_hops_def other_end_def)

text \<open>Three constant-product pools on the path.\<close>

lemma demo_hop:
  "\<exists>r. hop_route router_fee two_pools (\<lambda>_. 7) 50 tin tout 3000000000 = Inr r \<and>
    rt_segments r \<noteq> [] \<and> rt_net_out r = 2965443958"
proof -
  from pool_route_value [of router_fee tin tout False] obtain r where
    r: "compute_route router_fee two_pools tin tout 3000000000 50 True False seven = Inr r"
    "map (\<lambda>s. (sg_venue s, sg_in s, sg_out s)) (rt_segments r) =
      [(3, 2000000000, 1975344949), (1, 1000000000, 990099009)]" "rt_segments r \<noteq> []" by (elim exE conjE)
  from r(1) have "rt_net_out r = rt_total_out r - protocol_fee 0 (rt_total_out r)"
    "rt_total_out r = (\<Sum>s\<leftarrow>rt_segments r. sg_out s)"
    by (auto simp: router_fee_def elim: compute_route_elim)
  moreover have "map sg_out (rt_segments r) = [1975344949, 990099009]"
    using arg_cong [OF r(2), of "map (\<lambda>x. snd (snd x))"] by (simp add: comp_def)
  ultimately have "rt_net_out r = 2965443958"
    by (simp add: protocol_fee_def fee_den_def)
  with r show ?thesis by (auto simp: hop_route_def seven_def)
qed

theorem quote_path_executable_witness:
  "\<exists>pr. quote_path (hop_route router_fee two_pools (\<lambda>_. 7) 50) 50 [''A'', ''B''] 3000000000 = Inr (Some pr) \<and>
    hq_amount (hd (pr_hops pr)) = 3000000000"
proof -
  from demo_hop [of "''A''" "''B''"] obtain r where r:
    "hop_route router_fee two_pools (\<lambda>_. 7) 50 ''A'' ''B'' 3000000000 = Inr r"
    "rt_segments r \<noteq> []" "rt_net_out r = 2965443958" by blast
  then obtain pr where "quote_path (hop_route router_fee two_pools (\<lambda>_. 7) 50) 50 [''A'', ''B''] 3000000000 = Inr (Some pr)"
    by (simp add: quote_path_def)
  with quote_path_executable [OF this] show ?thesis by simp
qed

text \<open>A router that answers a fixed route.\<close>

definition fixed_route :: route where
  "fixed_route = \<lparr>rt_in = 100, rt_total_out = 99, rt_blended_bps = Fin 0, rt_impact_bps = Fin 0, rt_fee = 0,
     rt_book_out = 0, rt_net_out = 99,
     rt_segments = [\<lparr>sg_name = ''V'', sg_venue = 1, sg_in = 100, sg_out = 99, sg_bps = Fin 0\<rparr>],
     rt_instructions = []\<rparr>"

lemma demo_rank:
  "rank_paths (\<lambda>_. Fin 1) demo_pools (candidate_paths demo_pools ''A'' ''C'') = [[''A'', ''B'', ''C'']]"
  by (simp add: demo_candidates rank_paths_def verify_top_def edge_score_def demo_adj other_end_def num_or0_def
      num_max_def num_le_def rnd_numeral Let_def)

theorem rank_paths_shortest_witness:
  "rank_paths (\<lambda>_. Fin 1) demo_pools (candidate_paths demo_pools ''A'' ''C'') = [[''A'', ''B'', ''C'']] \<and>
    viable (\<lambda>_. Fin 1) demo_pools [''A'', ''B'', ''C'']"
  using rank_paths_shortest [of "\<lambda>_. Fin 1" demo_pools "candidate_paths demo_pools ''A'' ''C''"]
  by (simp add: demo_rank)

theorem best_path_verified_witness:
  "\<exists>b. multi_route (\<lambda>_. Fin 1) demo_pools (\<lambda>_ _ _. Inr fixed_route) ''A'' ''C'' 100 0 (\<lambda>_. 9) 5 = Some b \<and> 99 \<le> pr_net b"
proof -
  note r = demo_rank
  obtain q where q: "quote_path (\<lambda>_ _ _. Inr fixed_route) 0 [''A'', ''B'', ''C''] 100 = Inr (Some q)" "pr_net q = 99"
    by (simp add: quote_path_def fixed_route_def)
  from best_path_verified [OF r q(1)] q(2) show ?thesis by metis
qed

end
