(* ===== verification/Impact.thy ===== *)
theory Impact
  imports Prelude JsNumber
begin

text \<open>
  The price-impact guard, \<open>backend/src/router/impact.ts\<close>. An impact is a double or
  absent (\<open>None\<close> for \<open>null\<close> and \<open>undefined\<close>). The message of
  \<open>impactViolation\<close> is represented by the two percentages it prints.
\<close>

definition price_impact_warn_bps :: rat where
  "price_impact_warn_bps = 300"

definition price_impact_max_bps :: rat where
  "price_impact_max_bps = 1500"

record impact_flags =
  if_bps :: num
  if_warning :: bool
  if_blocked :: bool
  if_max :: num

definition normalize_impact :: "num option \<Rightarrow> num" where
  "normalize_impact bps =
    (case bps of None \<Rightarrow> Fin 0 | Some b \<Rightarrow> if is_finite b \<and> num_lt (Fin 0) b then b else Fin 0)"

definition sum_hop_impact :: "num option list \<Rightarrow> num" where
  "sum_hop_impact hops = foldl (\<lambda>s h. num_add s (normalize_impact h)) (Fin 0) hops"

definition impact_flags :: "num option \<Rightarrow> impact_flags" where
  "impact_flags bps =
    (let impact = normalize_impact bps
     in \<lparr>if_bps = impact, if_warning = num_lt (Fin price_impact_warn_bps) impact,
         if_blocked = num_lt (Fin price_impact_max_bps) impact, if_max = Fin price_impact_max_bps\<rparr>)"

definition impact_violation :: "num option \<Rightarrow> (num \<times> num) option" where
  "impact_violation bps =
    (let impact = normalize_impact bps
     in if num_le impact (Fin price_impact_max_bps) then None
        else Some (num_div impact (Fin 100), num_div (Fin price_impact_max_bps) (Fin 100)))"

section \<open>What the guard guarantees\<close>

lemma normalize_impact_cases:
  obtains x where "normalize_impact bps = Fin x" "0 \<le> x"
proof -
  have "\<exists>x. normalize_impact bps = Fin x \<and> 0 \<le> x"
  proof (cases bps)
    case (Some b)
    then show ?thesis by (cases b) (auto simp: normalize_impact_def is_finite_def)
  qed (simp add: normalize_impact_def)
  with that show thesis by blast
qed

lemma sum_hop_impact_nonneg: "Fin 0 \<le> sum_hop_impact hops \<and> sum_hop_impact hops \<noteq> NaN"
proof -
  have step: "Fin 0 \<le> num_add s (normalize_impact h) \<and> num_add s (normalize_impact h) \<noteq> NaN"
    if "Fin 0 \<le> s" "s \<noteq> NaN" for s h
    using that by (cases h rule: normalize_impact_cases; cases s) (auto intro!: rnd_sign(1))
  have "Fin 0 \<le> s \<and> s \<noteq> NaN \<Longrightarrow> Fin 0 \<le> foldl (\<lambda>s h. num_add s (normalize_impact h)) s hs \<and>
      foldl (\<lambda>s h. num_add s (normalize_impact h)) s hs \<noteq> NaN" for s hs
    by (induction hs arbitrary: s) (simp_all add: step)
  then show ?thesis by (simp add: sum_hop_impact_def)
qed

text \<open>
  The guard is consistent whatever figure it is handed (NaN, an infinity, a negative number,
  nothing at all): the normalised impact is finite and not negative, a build is refused exactly
  when the quote carried the blocked flag, and a blocked quote also carries the warning.
\<close>

theorem impact_guard_consistent:
  "(\<exists>x. if_bps (impact_flags bps) = Fin x \<and> 0 \<le> x) \<and>
    (impact_violation bps \<noteq> None \<longleftrightarrow> if_blocked (impact_flags bps)) \<and>
    (if if_blocked (impact_flags bps) then if_warning (impact_flags bps) else True)"
proof (cases bps rule: normalize_impact_cases)
  case (1 x)
  then show ?thesis
    by (auto simp: impact_flags_def impact_violation_def num_le_def Let_def price_impact_warn_bps_def
        price_impact_max_bps_def)
qed

end
