(* ===== verification/QuoteXdr.thy ===== *)
theory QuoteXdr
  imports Prelude JsNumber
begin

text \<open>
  Encoding and decoding of RFQ quotes, \<open>backend/src/rfq/quote-xdr.ts\<close>, with the scalar
  encoders of \<open>backend/src/stellar/client.ts\<close> it uses.

  The SDK's XDR values are a datatype with the arms the source names. What the SDK computes is an
  argument: \<open>to_native\<close> is \<open>scValToNative\<close>, \<open>from_xdr\<close> parses an authorization
  entry, and the encoder of a scalar is the identity on values in range. Addresses are strings in
  strkey form.
\<close>

section \<open>Quotes as XDR\<close>

record quote_fields =
  qf_maker :: string
  qf_taker :: string
  qf_token_in :: string
  qf_token_out :: string
  qf_amount_in :: int
  qf_amount_out :: int
  qf_expiry :: int
  qf_nonce :: int
  qf_nav_dev :: int

datatype scval =
    ScvMap "(scval \<times> scval) list"
  | ScvVec "scval list"
  | ScvSymbol string
  | ScvI128 int
  | ScvU32 int
  | ScvU64 int
  | ScvAddress string
  | ScvOther string

text \<open>What \<open>scValToNative\<close> answers: a struct is an object keyed by field name.\<close>

datatype native =
    NatObject "(string \<times> native) list"
  | NatBig int
  | NatNumber num
  | NatString string
  | NatOther

definition quote_to_scval :: "quote_fields \<Rightarrow> scval" where
  "quote_to_scval q = ScvMap
    [(ScvSymbol ''amount_in'', ScvI128 (qf_amount_in q)),
     (ScvSymbol ''amount_out'', ScvI128 (qf_amount_out q)),
     (ScvSymbol ''expiry_ledger'', ScvU32 (qf_expiry q)),
     (ScvSymbol ''maker'', ScvAddress (qf_maker q)),
     (ScvSymbol ''max_nav_dev_bps'', ScvU32 (qf_nav_dev q)),
     (ScvSymbol ''nonce'', ScvU64 (qf_nonce q)),
     (ScvSymbol ''taker'', ScvAddress (qf_taker q)),
     (ScvSymbol ''token_in'', ScvAddress (qf_token_in q)),
     (ScvSymbol ''token_out'', ScvAddress (qf_token_out q))]"

text \<open>\<open>/^[GC][A-Z2-7]{55}$/\<close>\<close>

definition base32_char :: "char \<Rightarrow> bool" where
  "base32_char c \<longleftrightarrow> c \<in> set ''ABCDEFGHIJKLMNOPQRSTUVWXYZ234567''"

definition is_address :: "string \<Rightarrow> bool" where
  "is_address s \<longleftrightarrow> length s = 56 \<and> (hd s = CHR ''G'' \<or> hd s = CHR ''C'') \<and> list_all base32_char (tl s)"

definition addr_field :: "(string \<times> native) list \<Rightarrow> string \<Rightarrow> string js" where
  "addr_field n k =
    (case map_of n k of
       Some (NatString s) \<Rightarrow> if is_address s then Inr s else Inl (Thrown (''quote.'' @ k @ '' is not an address''))
     | _ \<Rightarrow> Inl (Thrown (''quote.'' @ k @ '' is not an address'')))"

text \<open>\<open>BigInt(x)\<close> of a number throws when it is not an integer.\<close>

definition big_field :: "(string \<times> native) list \<Rightarrow> string \<Rightarrow> int js" where
  "big_field n k =
    (case map_of n k of
       Some (NatBig x) \<Rightarrow> Inr x
     | Some (NatNumber (Fin x)) \<Rightarrow> if of_int \<lfloor>x\<rfloor> = x then Inr \<lfloor>x\<rfloor> else Inl RangeError
     | Some (NatNumber _) \<Rightarrow> Inl RangeError
     | _ \<Rightarrow> Inl (Thrown (''quote.'' @ k @ '' missing'')))"

text \<open>\<open>Number(n[k])\<close> is an argument where the language's conversion of strings and objects
  would decide it.\<close>

definition to_number :: "(native \<Rightarrow> num) \<Rightarrow> native option \<Rightarrow> num" where
  "to_number conv x =
    (case x of None \<Rightarrow> NaN | Some (NatNumber v) \<Rightarrow> v | Some (NatBig i) \<Rightarrow> num_of_big i | Some y \<Rightarrow> conv y)"

definition u32_field :: "(native \<Rightarrow> num) \<Rightarrow> (string \<times> native) list \<Rightarrow> string \<Rightarrow> int js" where
  "u32_field conv n k =
    (case to_number conv (map_of n k) of
       Fin x \<Rightarrow> if of_int \<lfloor>x\<rfloor> = x \<and> 0 \<le> x \<and> x \<le> 4294967295 then Inr \<lfloor>x\<rfloor>
                else Inl (Thrown (''quote.'' @ k @ '' is not u32''))
     | _ \<Rightarrow> Inl (Thrown (''quote.'' @ k @ '' is not u32'')))"

definition quote_from_scval :: "(scval \<Rightarrow> native) \<Rightarrow> (native \<Rightarrow> num) \<Rightarrow> scval \<Rightarrow> quote_fields js" where
  "quote_from_scval to_native conv v =
    (case to_native v of
       NatObject n \<Rightarrow>
         js_bind (addr_field n ''maker'') (\<lambda>mk.
         js_bind (addr_field n ''taker'') (\<lambda>tk.
         js_bind (addr_field n ''token_in'') (\<lambda>ti.
         js_bind (addr_field n ''token_out'') (\<lambda>to.
         js_bind (big_field n ''amount_in'') (\<lambda>ai.
         js_bind (big_field n ''amount_out'') (\<lambda>ao.
         js_bind (u32_field conv n ''expiry_ledger'') (\<lambda>ex.
         js_bind (big_field n ''nonce'') (\<lambda>nc.
         js_bind (u32_field conv n ''max_nav_dev_bps'') (\<lambda>nd.
           Inr \<lparr>qf_maker = mk, qf_taker = tk, qf_token_in = ti, qf_token_out = to, qf_amount_in = ai,
                qf_amount_out = ao, qf_expiry = ex, qf_nonce = nc, qf_nav_dev = nd\<rparr>)))))))))
     | _ \<Rightarrow> Inl (Thrown ''quote arg is not a struct''))"

section \<open>Authorization entries\<close>

record address_cred =
  ac_address :: string
  ac_nonce :: int
  ac_expiration :: int
  ac_signed :: bool

datatype credentials =
    SourceAccount
  | CredAddress address_cred
  | CredAddressV2 address_cred
  | CredOther

datatype root_function =
    ContractFn string string "scval list"
  | OtherFn

record auth_entry =
  ae_credentials :: credentials
  ae_root :: root_function
  ae_subs :: nat

record decoded_entry =
  de_entry :: auth_entry
  de_signer :: string
  de_credential_nonce :: int
  de_expiration :: int
  de_signed :: bool
  de_contract :: string
  de_function :: string
  de_quote :: quote_fields
  de_subs :: nat

definition address_credentials :: "auth_entry \<Rightarrow> address_cred option" where
  "address_credentials e =
    (case ae_credentials e of CredAddress c \<Rightarrow> Some c | CredAddressV2 c \<Rightarrow> Some c | _ \<Rightarrow> None)"

definition is_source_account_entry :: "auth_entry \<Rightarrow> bool" where
  "is_source_account_entry e \<longleftrightarrow> ae_credentials e = SourceAccount"

definition entry_address :: "auth_entry \<Rightarrow> string option" where
  "entry_address e = map_option ac_address (address_credentials e)"

definition decode_quote_entry :: "(string \<Rightarrow> auth_entry option) \<Rightarrow> (scval \<Rightarrow> native) \<Rightarrow> (native \<Rightarrow> num)
    \<Rightarrow> string \<Rightarrow> string \<Rightarrow> decoded_entry js" where
  "decode_quote_entry from_xdr to_native conv entry_xdr rfq_contract =
    (if length entry_xdr = 0 \<or> length entry_xdr > 20000
     then Inl (Thrown ''authEntryXdr must be a base64 SorobanAuthorizationEntry'')
     else case from_xdr entry_xdr of
       None \<Rightarrow> Inl (Thrown ''authEntryXdr is not a valid SorobanAuthorizationEntry'')
     | Some e \<Rightarrow>
       (case address_credentials e of
          None \<Rightarrow> Inl (Thrown ''auth entry must carry address credentials (not source-account)'')
        | Some ac \<Rightarrow>
          (case ae_root e of
             OtherFn \<Rightarrow> Inl (Thrown ''auth entry root must be a contract function invocation'')
           | ContractFn contract fname args \<Rightarrow>
             (if contract \<noteq> rfq_contract
              then Inl (Thrown ''auth entry targets a contract other than the RFQ settlement contract'')
              else if fname \<noteq> ''settle_quote''
              then Inl (Thrown (''auth entry authorizes '' @ fname @ '', expected settle_quote''))
              else (case args of
                 [arg] \<Rightarrow>
                   js_bind (quote_from_scval to_native conv arg) (\<lambda>q.
                     if qf_maker q \<noteq> ac_address ac
                     then Inl (Thrown ''auth entry signer does not match quote.maker'')
                     else Inr \<lparr>de_entry = e, de_signer = ac_address ac, de_credential_nonce = ac_nonce ac,
                        de_expiration = ac_expiration ac, de_signed = ac_signed ac, de_contract = contract,
                        de_function = fname, de_quote = q, de_subs = ae_subs e\<rparr>)
               | _ \<Rightarrow> Inl (Thrown ''settle_quote takes exactly one argument''))))))"

section \<open>Deviation from the fair value\<close>

definition vs_fair_bps :: "int \<Rightarrow> int \<Rightarrow> num option" where
  "vs_fair_bps fair out =
    (if fair \<le> 0 then None
     else let diff = num_of_big (fair - out)
          in Some (num_div (num_round (num_mul (num_mul (num_div diff (num_of_big fair)) (Fin 10000)) (Fin 10))) (Fin 10)))"

section \<open>Round trip\<close>

text \<open>A quote whose fields fit the on-chain types.\<close>

definition quote_ok :: "quote_fields \<Rightarrow> bool" where
  "quote_ok q \<longleftrightarrow> is_address (qf_maker q) \<and> is_address (qf_taker q) \<and> is_address (qf_token_in q) \<and>
    is_address (qf_token_out q) \<and> 0 \<le> qf_expiry q \<and> qf_expiry q \<le> 4294967295 \<and>
    0 \<le> qf_nav_dev q \<and> qf_nav_dev q \<le> 4294967295"

text \<open>The documented behaviour of \<open>scValToNative\<close>: a map of symbol keys becomes an
  object, an \<open>i128\<close> or \<open>u64\<close> a bigint, a \<open>u32\<close> a number, an address its string.\<close>

definition sdk_native :: "(scval \<Rightarrow> native) \<Rightarrow> bool" where
  "sdk_native f \<longleftrightarrow> (\<forall>es. f (ScvMap (map (\<lambda>(k, v). (ScvSymbol k, v)) es)) = NatObject (map (\<lambda>(k, v). (k, f v)) es)) \<and>
    (\<forall>x. f (ScvI128 x) = NatBig x) \<and> (\<forall>x. f (ScvU64 x) = NatBig x) \<and>
    (\<forall>x. f (ScvU32 x) = NatNumber (Fin (of_int x))) \<and> (\<forall>s. f (ScvAddress s) = NatString s)"

text \<open>A concrete reader of that kind.\<close>

fun native_of :: "scval \<Rightarrow> native" where
  "native_of (ScvMap es) = NatObject (map (\<lambda>(k, v). (case k of ScvSymbol s \<Rightarrow> s | _ \<Rightarrow> [], native_of v)) es)"
| "native_of (ScvI128 x) = NatBig x"
| "native_of (ScvU64 x) = NatBig x"
| "native_of (ScvU32 x) = NatNumber (Fin (of_int x))"
| "native_of (ScvAddress s) = NatString s"
| "native_of (ScvSymbol s) = NatString s"
| "native_of (ScvVec vs) = NatOther"
| "native_of (ScvOther s) = NatOther"

lemma sdk_native_of: "sdk_native native_of"
  by (auto simp: sdk_native_def)

lemma decode_fields:
  assumes "sdk_native f" "quote_ok q"
  shows "quote_from_scval f conv (quote_to_scval q) = Inr q"
proof -
  let ?es = "[(''amount_in'', ScvI128 (qf_amount_in q)), (''amount_out'', ScvI128 (qf_amount_out q)),
     (''expiry_ledger'', ScvU32 (qf_expiry q)), (''maker'', ScvAddress (qf_maker q)),
     (''max_nav_dev_bps'', ScvU32 (qf_nav_dev q)), (''nonce'', ScvU64 (qf_nonce q)),
     (''taker'', ScvAddress (qf_taker q)), (''token_in'', ScvAddress (qf_token_in q)),
     (''token_out'', ScvAddress (qf_token_out q))]"
  have "quote_to_scval q = ScvMap (map (\<lambda>(k, v). (ScvSymbol k, v)) ?es)"
    by (simp add: quote_to_scval_def)
  then have "f (quote_to_scval q) = NatObject (map (\<lambda>(k, v). (k, f v)) ?es)"
    using assms(1) by (simp only: sdk_native_def)
  then have "f (quote_to_scval q) = NatObject
     [(''amount_in'', NatBig (qf_amount_in q)), (''amount_out'', NatBig (qf_amount_out q)),
     (''expiry_ledger'', NatNumber (Fin (of_int (qf_expiry q)))), (''maker'', NatString (qf_maker q)),
     (''max_nav_dev_bps'', NatNumber (Fin (of_int (qf_nav_dev q)))), (''nonce'', NatBig (qf_nonce q)),
     (''taker'', NatString (qf_taker q)), (''token_in'', NatString (qf_token_in q)),
     (''token_out'', NatString (qf_token_out q))]"
    using assms(1) by (simp add: sdk_native_def)
  moreover have "of_int (qf_expiry q) \<le> (4294967295 :: rat)" "of_int (qf_nav_dev q) \<le> (4294967295 :: rat)"
    using assms(2) by (simp_all add: quote_ok_def)
  ultimately show ?thesis
    using assms(2) by (simp add: quote_from_scval_def addr_field_def big_field_def u32_field_def to_number_def quote_ok_def)
qed



text \<open>The entry a maker signs for a quote.\<close>

definition settle_entry :: "string \<Rightarrow> auth_entry \<Rightarrow> quote_fields \<Rightarrow> bool" where
  "settle_entry rfq_contract e q \<longleftrightarrow> ae_root e = ContractFn rfq_contract ''settle_quote'' [quote_to_scval q] \<and>
    entry_address e = Some (qf_maker q)"

lemma decode_fields_ok:
  assumes "quote_from_scval f conv v = Inr q"
  shows "quote_ok q"
proof -
  have a: "addr_field n k = Inr s \<Longrightarrow> is_address s" for n k s
    by (auto simp: addr_field_def split: option.splits native.splits if_splits)
  have u: "u32_field conv n k = Inr x \<Longrightarrow> 0 \<le> x \<and> x \<le> 4294967295" for n k x
    by (auto simp: u32_field_def floor_le_iff split: num.splits if_splits)
  from assms show ?thesis
    by (auto simp: quote_from_scval_def quote_ok_def js_bind_Inr_iff split: native.splits dest: a u)
qed

text \<open>
  The gate for maker submissions is sound: whatever string it is given, an accepted entry
  authorises exactly one call of \<open>settle_quote\<close> on the RFQ contract with one argument, that
  argument decodes to the quote, the quote's fields fit their on-chain types, and the entry's
  credentials belong to the quote's maker.
\<close>

theorem decoded_entry_sound:
  assumes "decode_quote_entry from_xdr to_native conv s contract = Inr de"
  shows "\<exists>arg. from_xdr s = Some (de_entry de) \<and> ae_root (de_entry de) = ContractFn contract ''settle_quote'' [arg] \<and>
    quote_from_scval to_native conv arg = Inr (de_quote de) \<and> quote_ok (de_quote de) \<and>
    entry_address (de_entry de) = Some (qf_maker (de_quote de)) \<and> de_signer de = qf_maker (de_quote de) \<and>
    \<not> is_source_account_entry (de_entry de) \<and> length s \<le> 20000"
proof -
  from assms obtain e ac arg where
    e: "from_xdr s = Some e" "address_credentials e = Some ac" "ae_root e = ContractFn contract ''settle_quote'' [arg]"
      "quote_from_scval to_native conv arg = Inr (de_quote de)" "qf_maker (de_quote de) = ac_address ac"
      "de_entry de = e" "de_signer de = ac_address ac" "length s \<le> 20000"
    by (auto simp: decode_quote_entry_def js_bind_Inr_iff split: if_splits option.splits root_function.splits list.splits)
  moreover have "\<not> is_source_account_entry e"
    using e(2) by (auto simp: address_credentials_def is_source_account_entry_def)
  ultimately show ?thesis
    using decode_fields_ok [OF e(4)] by (auto simp: entry_address_def)
qed

text \<open>
  The gate is complete for honest makers: the entry for \<open>settle_quote(q)\<close> of a
  well-formed quote, with address credentials of its maker, decodes to that quote and to
  the credentials' expiry and signature.
\<close>

theorem honest_entry_decodes:
  assumes "sdk_native to_native" "quote_ok q" "s \<noteq> []" "length s \<le> 20000" "from_xdr s = Some e"
    and "address_credentials e = Some ac" "settle_entry contract e q"
  shows "\<exists>de. decode_quote_entry from_xdr to_native conv s contract = Inr de \<and> de_quote de = q \<and>
    de_expiration de = ac_expiration ac \<and> de_signed de = ac_signed ac \<and> de_signer de = qf_maker q"
  using assms decode_fields [OF assms(1,2)]
  by (simp add: decode_quote_entry_def settle_entry_def entry_address_def)

text \<open>
  The deviation from fair value is monotone: for a positive fair value below \<open>2 ^ 127\<close> a
  larger output never shows a larger shortfall, an output equal to the fair value shows none, and
  the figure is never NaN.
\<close>

theorem vs_fair_monotone:
  assumes "0 < fair" "fair < 2 ^ 127" "out \<le> out'"
  shows "\<exists>d d'. vs_fair_bps fair out = Some d \<and> vs_fair_bps fair out' = Some d' \<and> d' \<le> d \<and>
    d \<noteq> NaN \<and> d' \<noteq> NaN \<and> vs_fair_bps fair fair = Some (Fin 0)"
proof -
  from num_of_big_127 [OF assms(1,2)] obtain a where a: "num_of_big fair = Fin a" "1 \<le> a" by metis
  define f where "f x = num_div (num_round (num_mul (num_mul (num_div x (Fin a)) (Fin 10000)) (Fin 10))) (Fin 10)" for x
  have mono: "f x \<le> f y \<and> f x \<noteq> NaN \<and> f y \<noteq> NaN" if "x \<le> y" "x \<noteq> NaN" "y \<noteq> NaN" for x y
  proof -
    from num_div_mono [of a x y] that a
    have 1: "num_div x (Fin a) \<le> num_div y (Fin a)" "num_div x (Fin a) \<noteq> NaN" "num_div y (Fin a) \<noteq> NaN" by auto
    from num_mul_mono [OF _ this, of 10000]
    have 2: "num_mul (num_div x (Fin a)) (Fin 10000) \<le> num_mul (num_div y (Fin a)) (Fin 10000)"
      "num_mul (num_div x (Fin a)) (Fin 10000) \<noteq> NaN" "num_mul (num_div y (Fin a)) (Fin 10000) \<noteq> NaN" by auto
    have 3: "num_mul (num_mul (num_div x (Fin a)) (Fin 10000)) (Fin 10) \<le> num_mul (num_mul (num_div y (Fin a)) (Fin 10000)) (Fin 10)
      \<and> num_mul (num_mul (num_div x (Fin a)) (Fin 10000)) (Fin 10) \<noteq> NaN
      \<and> num_mul (num_mul (num_div y (Fin a)) (Fin 10000)) (Fin 10) \<noteq> NaN"
      by (rule num_mul_mono [OF _ 2]) simp
    then have "num_round (num_mul (num_mul (num_div x (Fin a)) (Fin 10000)) (Fin 10))
        \<le> num_round (num_mul (num_mul (num_div y (Fin a)) (Fin 10000)) (Fin 10))
      \<and> num_round (num_mul (num_mul (num_div x (Fin a)) (Fin 10000)) (Fin 10)) \<noteq> NaN
      \<and> num_round (num_mul (num_mul (num_div y (Fin a)) (Fin 10000)) (Fin 10)) \<noteq> NaN"
      by (intro num_round_mono) auto
    then show ?thesis unfolding f_def by (intro num_div_mono) auto
  qed
  have "num_of_big (fair - out') \<le> num_of_big (fair - out)" using assms(3) by (intro num_of_big_mono) simp
  from mono [OF this] have "f (num_of_big (fair - out')) \<le> f (num_of_big (fair - out))"
    "f (num_of_big (fair - out)) \<noteq> NaN" "f (num_of_big (fair - out')) \<noteq> NaN" by simp_all
  moreover have "vs_fair_bps fair x = Some (f (num_of_big (fair - x)))" for x
    using assms(1) a by (simp add: vs_fair_bps_def f_def Let_def)
  moreover have "f (num_of_big 0) = Fin 0"
  proof -
    have "\<lfloor>1 / 2 :: rat\<rfloor> = 0" by (simp add: floor_eq_iff)
    with a show ?thesis by (simp add: f_def num_of_big_def num_round_def)
  qed
  ultimately show ?thesis by simp
qed

section \<open>The properties at concrete inputs\<close>

definition demo_address :: "char \<Rightarrow> string" where
  "demo_address c = CHR ''G'' # replicate 55 c"

definition demo_quote :: quote_fields where
  "demo_quote = \<lparr>qf_maker = demo_address CHR ''A'', qf_taker = demo_address CHR ''B'',
     qf_token_in = demo_address CHR ''C'', qf_token_out = demo_address CHR ''D'', qf_amount_in = 100,
     qf_amount_out = 99, qf_expiry = 500, qf_nonce = 7, qf_nav_dev = 50\<rparr>"

definition demo_cred :: address_cred where
  "demo_cred = \<lparr>ac_address = qf_maker demo_quote, ac_nonce = 1, ac_expiration = 600, ac_signed = True\<rparr>"

definition demo_entry :: auth_entry where
  "demo_entry = \<lparr>ae_credentials = CredAddress demo_cred,
     ae_root = ContractFn ''C1'' ''settle_quote'' [quote_to_scval demo_quote], ae_subs = 0\<rparr>"

lemma demo_quote_ok: "quote_ok demo_quote"
  by code_simp


lemma demo_settle: "settle_entry ''C1'' demo_entry demo_quote"
  by (simp add: settle_entry_def demo_entry_def entry_address_def address_credentials_def demo_cred_def)

theorem honest_entry_decodes_witness:
  "\<exists>de. decode_quote_entry (\<lambda>s. Some demo_entry) native_of (\<lambda>_. NaN) ''x'' ''C1'' = Inr de \<and> de_quote de = demo_quote"
  using honest_entry_decodes [OF sdk_native_of demo_quote_ok, of "''x''" "\<lambda>s. Some demo_entry" demo_entry demo_cred "''C1''"]
    demo_settle by (auto simp: demo_entry_def address_credentials_def)

theorem decoded_entry_sound_witness:
  "\<exists>de. decode_quote_entry (\<lambda>s. Some demo_entry) native_of (\<lambda>_. NaN) ''x'' ''C1'' = Inr de \<and> quote_ok (de_quote de)"
proof -
  have "quote_from_scval native_of (\<lambda>_. NaN) (quote_to_scval demo_quote) = Inr demo_quote"
    by (rule decode_fields [OF sdk_native_of demo_quote_ok])
  then obtain de where d: "decode_quote_entry (\<lambda>s. Some demo_entry) native_of (\<lambda>_. NaN) ''x'' ''C1'' = Inr de"
    by (auto simp: decode_quote_entry_def demo_entry_def address_credentials_def demo_cred_def)
  from decoded_entry_sound [OF d] d show ?thesis by blast
qed

theorem vs_fair_monotone_witness:
  "\<exists>d d'. vs_fair_bps 1000 990 = Some d \<and> vs_fair_bps 1000 1010 = Some d' \<and> d' \<le> d"
  using vs_fair_monotone [of 1000 990 1010] by auto

end
