(* ===== verification/RfqStore.thy ===== *)
theory RfqStore
  imports Prelude JsNumber
begin

text \<open>
  The in-memory RFQ state, \<open>backend/src/rfq/store.ts\<close>.

  Requests are objects that handlers keep hold of across an \<open>await\<close>, also after the store
  has forgotten them. The state therefore has a heap of request objects by id, and the store's
  \<open>Map\<close> is the list of ids it holds, in insertion order. What \<open>emit\<close> hands to the
  listeners is logged.
\<close>

section \<open>Data\<close>

datatype request_status = Open | Accepted | Settled | Expired | Cancelled

datatype quote_status = QLive | QAccepted | QSuperseded | QExpired | QRejected

record rfq_reference =
  rr_nav_out :: "int option"
  rr_nav_price :: "num option"
  rr_nav_source :: "string option"
  rr_nav_age :: "num option"
  rr_oracle_on_chain :: bool
  rr_issuer_out :: "int option"
  rr_issuer_source :: "string option"
  rr_issuer_age :: "num option"
  rr_issuer_vs_oracle :: "num option"
  rr_amm_out :: "int option"
  rr_amm_vs_nav :: "num option"
  rr_amm_venues :: "string list"
  rr_book_out :: "int option"
  rr_book_in_used :: "int option"
  rr_book_vs_nav :: "num option"
  rr_book_fills :: nat

text \<open>A quote as the public sees it; the stored one also carries the maker's signed entry.\<close>

record public_quote =
  q_id :: string
  q_request :: string
  q_maker :: string
  q_label :: string
  q_out :: int
  q_expiry_ledger :: int
  q_expires_at :: int
  q_nonce :: int
  q_nav_dev :: int
  q_vs_nav :: "num option"
  q_status :: quote_status
  q_received :: int

record rfq_quote = public_quote +
  q_signed_xdr :: string

record 'q request_of =
  r_id :: string
  r_taker :: string
  r_token_in :: string
  r_token_out :: string
  r_symbol_in :: string
  r_symbol_out :: string
  r_decimals_in :: int
  r_decimals_out :: int
  r_amount_in :: int
  r_created :: int
  r_expires :: int
  r_ledger :: int
  r_status :: request_status
  r_reference :: rfq_reference
  r_quotes :: "'q list"
  r_accepted :: "string option"
  r_hash :: "string option"

type_synonym rfq_request = "rfq_quote request_of"
type_synonym public_request = "public_quote request_of"

definition to_public :: "rfq_request \<Rightarrow> public_request" where
  "to_public r =
    \<lparr>r_id = r_id r, r_taker = r_taker r, r_token_in = r_token_in r, r_token_out = r_token_out r,
     r_symbol_in = r_symbol_in r, r_symbol_out = r_symbol_out r, r_decimals_in = r_decimals_in r,
     r_decimals_out = r_decimals_out r, r_amount_in = r_amount_in r, r_created = r_created r,
     r_expires = r_expires r, r_ledger = r_ledger r, r_status = r_status r, r_reference = r_reference r,
     r_quotes = map public_quote.truncate (r_quotes r), r_accepted = r_accepted r, r_hash = r_hash r\<rparr>"

datatype rfq_event =
    RequestCreated public_request
  | RequestClosed string request_status

record rfq_store =
  rs_heap :: "(string, rfq_request) jmap"
  rs_live :: "string list"
  rs_log :: "rfq_event list"

definition retain_ms :: int where "retain_ms = 10 * 60 * 1000"
definition max_requests :: nat where "max_requests = 2000"

definition store_init :: rfq_store where
  "store_init = \<lparr>rs_heap = jm_empty, rs_live = [], rs_log = []\<rparr>"

section \<open>Operations\<close>

definition emit :: "rfq_event \<Rightarrow> rfq_store \<Rightarrow> rfq_store" where
  "emit ev s = s\<lparr>rs_log := rs_log s @ [ev]\<rparr>"

text \<open>An object of the heap, whether or not the store still holds it.\<close>

definition obj :: "rfq_store \<Rightarrow> string \<Rightarrow> rfq_request option" where
  "obj s i = jm_get (rs_heap s) i"

definition put_obj :: "rfq_request \<Rightarrow> rfq_store \<Rightarrow> rfq_store" where
  "put_obj r s = s\<lparr>rs_heap := jm_set (r_id r) r (rs_heap s)\<rparr>"

definition store_get :: "rfq_store \<Rightarrow> string \<Rightarrow> rfq_request option" where
  "store_get s i = (if i \<in> set (rs_live s) then obj s i else None)"

definition store_values :: "rfq_store \<Rightarrow> rfq_request list" where
  "store_values s = map (\<lambda>i. the (obj s i)) (rs_live s)"

text \<open>The closed request created first, else the oldest overall.\<close>

definition older_closed :: "rfq_request option \<Rightarrow> rfq_request \<Rightarrow> rfq_request option" where
  "older_closed victim x =
    (if r_status x \<noteq> Open \<and> (case victim of None \<Rightarrow> True | Some v \<Rightarrow> r_created x < r_created v)
     then Some x else victim)"

definition eviction_victim :: "rfq_store \<Rightarrow> rfq_request option" where
  "eviction_victim s =
    (case foldl older_closed None (store_values s) of
       Some v \<Rightarrow> Some v
     | None \<Rightarrow> (case store_values s of [] \<Rightarrow> None | x # _ \<Rightarrow> Some x))"

definition drop_id :: "string \<Rightarrow> rfq_store \<Rightarrow> rfq_store" where
  "drop_id i s = s\<lparr>rs_live := filter (\<lambda>j. j \<noteq> i) (rs_live s)\<rparr>"

definition make_room :: "rfq_store \<Rightarrow> rfq_store" where
  "make_room s =
    (if length (rs_live s) \<ge> max_requests
     then (case eviction_victim s of None \<Rightarrow> s | Some v \<Rightarrow> drop_id (r_id v) s)
     else s)"

definition store_insert :: "rfq_request \<Rightarrow> rfq_store \<Rightarrow> rfq_store" where
  "store_insert r s =
    (let s2 = put_obj r (make_room s);
         s3 = (if r_id r \<in> set (rs_live s2) then s2 else s2\<lparr>rs_live := rs_live s2 @ [r_id r]\<rparr>)
     in emit (RequestCreated (to_public r)) s3)"

definition store_open :: "rfq_store \<Rightarrow> int \<Rightarrow> rfq_request list" where
  "store_open s now = filter (\<lambda>r. r_status r = Open \<and> r_expires r > now) (store_values s)"

definition store_close :: "string \<Rightarrow> request_status \<Rightarrow> rfq_store \<Rightarrow> rfq_store" where
  "store_close i st s =
    (case store_get s i of
       None \<Rightarrow> s
     | Some r \<Rightarrow> if r_status r \<noteq> Open then s
                else emit (RequestClosed i st) (put_obj (r\<lparr>r_status := st\<rparr>) s))"

definition sweep_one :: "int \<Rightarrow> string \<Rightarrow> rfq_store \<Rightarrow> rfq_store" where
  "sweep_one now i s =
    (case obj s i of
       None \<Rightarrow> s
     | Some r \<Rightarrow>
         (let s1 = (if r_status r = Open \<and> r_expires r \<le> now
                    then emit (RequestClosed i Expired) (put_obj (r\<lparr>r_status := Expired\<rparr>) s) else s);
              st = (if r_status r = Open \<and> r_expires r \<le> now then Expired else r_status r)
          in if st \<noteq> Open \<and> now - max (r_created r) (r_expires r) > retain_ms
             then drop_id i s1 else s1))"

definition store_sweep :: "int \<Rightarrow> rfq_store \<Rightarrow> rfq_store" where
  "store_sweep now s = foldl (\<lambda>s i. sweep_one now i s) s (rs_live s)"

section \<open>The store's invariant\<close>

definition store_ok :: "rfq_store \<Rightarrow> bool" where
  "store_ok s \<longleftrightarrow> (\<forall>i r. obj s i = Some r \<longrightarrow> r_id r = i) \<and>
    (\<forall>i\<in>set (rs_live s). obj s i \<noteq> None) \<and> distinct (rs_live s) \<and> length (rs_live s) \<le> max_requests"

lemma obj_simps [simp]:
  "obj (emit ev s) = obj s" "obj (drop_id j s) = obj s"
  "obj (put_obj r s) i = (if i = r_id r then Some r else obj s i)"
  "obj (s\<lparr>rs_live := l\<rparr>) = obj s"
  by (simp_all add: emit_def drop_id_def put_obj_def obj_def jm.get_put fun_eq_iff)

lemma live_simps [simp]:
  "rs_live (emit ev s) = rs_live s" "rs_live (put_obj r s) = rs_live s"
  "rs_live (drop_id j s) = filter (\<lambda>k. k \<noteq> j) (rs_live s)"
  by (simp_all add: emit_def put_obj_def drop_id_def)

lemma store_ok_values:
  "store_ok s \<Longrightarrow> x \<in> set (store_values s) \<longleftrightarrow> r_id x \<in> set (rs_live s) \<and> obj s (r_id x) = Some x"
proof
  assume ok: "store_ok s" and "x \<in> set (store_values s)"
  then obtain i where i: "i \<in> set (rs_live s)" "x = the (obj s i)" by (auto simp: store_values_def)
  with ok obtain r where "obj s i = Some r" "r_id r = i" by (auto simp: store_ok_def)
  with i show "r_id x \<in> set (rs_live s) \<and> obj s (r_id x) = Some x" by simp
next
  assume "r_id x \<in> set (rs_live s) \<and> obj s (r_id x) = Some x"
  then show "x \<in> set (store_values s)" by (force simp: store_values_def)
qed

lemma store_ok_put: "store_ok s \<Longrightarrow> store_ok (put_obj r s)"
  by (auto simp: store_ok_def)

lemma store_ok_emit: "store_ok s \<Longrightarrow> store_ok (emit ev s)"
  by (simp add: store_ok_def)

lemma store_ok_drop: "store_ok s \<Longrightarrow> store_ok (drop_id i s)"
  by (auto simp: store_ok_def intro: order_trans [OF length_filter_le])

lemma store_ok_close: "store_ok s \<Longrightarrow> store_ok (store_close i st s)"
  by (auto simp: store_close_def store_ok_put store_ok_emit split: option.split)

lemma store_ok_sweep_one: "store_ok s \<Longrightarrow> store_ok (sweep_one now i s)"
  by (auto simp: sweep_one_def Let_def store_ok_put store_ok_emit store_ok_drop split: option.split)

lemma store_ok_sweep: "store_ok s \<Longrightarrow> store_ok (store_sweep now s)"
proof -
  have "store_ok s \<Longrightarrow> store_ok (foldl (\<lambda>s i. sweep_one now i s) s is)" for s "is"
    by (induction "is" arbitrary: s) (simp_all add: store_ok_sweep_one)
  then show "store_ok s \<Longrightarrow> store_ok (store_sweep now s)" by (simp add: store_sweep_def)
qed

text \<open>Who is evicted.\<close>

lemma older_closed_None: "older_closed v x = None \<longleftrightarrow> v = None \<and> r_status x = Open"
  by (cases v) (auto simp: older_closed_def)

lemma older_closed_Some:
  "older_closed v x = Some y \<Longrightarrow> (v = Some y \<or> y = x \<and> r_status x \<noteq> Open) \<and>
    (r_status x \<noteq> Open \<longrightarrow> r_created y \<le> r_created x) \<and> (\<forall>u. v = Some u \<longrightarrow> r_created y \<le> r_created u)"
  by (cases v) (auto simp: older_closed_def split: if_splits)

lemma older_closed_fold_None:
  "foldl older_closed v xs = None \<longleftrightarrow> v = None \<and> (\<forall>x\<in>set xs. r_status x = Open)"
  by (induction xs arbitrary: v) (auto simp: older_closed_None)

lemma older_closed_fold_Some:
  "foldl older_closed v xs = Some w \<Longrightarrow> (v = Some w \<or> w \<in> set xs \<and> r_status w \<noteq> Open) \<and>
    (\<forall>x\<in>set xs. r_status x \<noteq> Open \<longrightarrow> r_created w \<le> r_created x) \<and> (\<forall>u. v = Some u \<longrightarrow> r_created w \<le> r_created u)"
proof (induction xs arbitrary: v)
  case (Cons x xs)
  then have IH: "(older_closed v x = Some w \<or> w \<in> set xs \<and> r_status w \<noteq> Open)"
    "\<forall>x\<in>set xs. r_status x \<noteq> Open \<longrightarrow> r_created w \<le> r_created x"
    "\<forall>u. older_closed v x = Some u \<longrightarrow> r_created w \<le> r_created u" by auto
  show ?case
  proof (cases "older_closed v x")
    case None
    with IH show ?thesis by (auto simp: older_closed_None)
  next
    case (Some y)
    with older_closed_Some [OF Some] IH show ?thesis by (auto intro: order_trans)
  qed
qed simp

lemma eviction_victim_cases:
  assumes "store_ok s"
  shows "eviction_victim s = None \<longleftrightarrow> rs_live s = []"
    and "eviction_victim s = Some v \<Longrightarrow> v \<in> set (store_values s) \<and>
      (if \<exists>x\<in>set (store_values s). r_status x \<noteq> Open
       then r_status v \<noteq> Open \<and> (\<forall>x\<in>set (store_values s). r_status x \<noteq> Open \<longrightarrow> r_created v \<le> r_created x)
       else v = hd (store_values s))"
proof -
  have e: "store_values s = [] \<longleftrightarrow> rs_live s = []" by (simp add: store_values_def)
  show "eviction_victim s = None \<longleftrightarrow> rs_live s = []"
    by (simp add: eviction_victim_def e [symmetric] split: option.split list.split)
  assume v: "eviction_victim s = Some v"
  show "v \<in> set (store_values s) \<and>
      (if \<exists>x\<in>set (store_values s). r_status x \<noteq> Open
       then r_status v \<noteq> Open \<and> (\<forall>x\<in>set (store_values s). r_status x \<noteq> Open \<longrightarrow> r_created v \<le> r_created x)
       else v = hd (store_values s))"
  proof (cases "foldl older_closed None (store_values s)")
    case None
    with v have "v = hd (store_values s)" "store_values s \<noteq> []"
      by (auto simp: eviction_victim_def split: list.splits)
    with None show ?thesis by (simp add: older_closed_fold_None)
  next
    case (Some w)
    with v have "w = v" by (simp add: eviction_victim_def)
    with older_closed_fold_Some [OF Some] show ?thesis by auto
  qed
qed

lemma insert_room:
  assumes "store_ok s"
  shows "store_ok (make_room s)" "length (rs_live (make_room s)) < max_requests" "obj (make_room s) = obj s"
    "set (rs_live (make_room s)) = set (rs_live s) - (if length (rs_live s) \<ge> max_requests
       then (case eviction_victim s of None \<Rightarrow> {} | Some v \<Rightarrow> {r_id v}) else {})"
proof -
  have max: "0 < max_requests" by (simp add: max_requests_def)
  show "store_ok (make_room s)" "obj (make_room s) = obj s"
    using assms(1) by (auto simp: make_room_def store_ok_drop split: option.split)
  show "set (rs_live (make_room s)) = set (rs_live s) - (if length (rs_live s) \<ge> max_requests
       then (case eviction_victim s of None \<Rightarrow> {} | Some v \<Rightarrow> {r_id v}) else {})"
    by (auto simp: make_room_def split: option.split)
  show "length (rs_live (make_room s)) < max_requests"
  proof (cases "length (rs_live s) \<ge> max_requests")
    case True
    with max have "rs_live s \<noteq> []" by auto
    with eviction_victim_cases(1) [OF assms(1)] obtain v where v: "eviction_victim s = Some v" by auto
    with eviction_victim_cases(2) [OF assms(1) v] assms(1) have "r_id v \<in> set (rs_live s)"
      by (simp add: store_ok_values)
    then have "length (filter (\<lambda>k. k \<noteq> r_id v) (rs_live s)) < length (rs_live s)"
      by (intro length_filter_less) auto
    moreover have "length (rs_live s) \<le> max_requests" using assms(1) by (simp add: store_ok_def)
    ultimately show ?thesis using True v by (simp add: make_room_def)
  qed (simp add: make_room_def)
qed

lemma store_ok_add:
  "store_ok s \<Longrightarrow> length (rs_live s) < max_requests \<Longrightarrow> r_id r \<notin> set (rs_live s) \<Longrightarrow>
    store_ok (put_obj r s\<lparr>rs_live := rs_live s @ [r_id r]\<rparr>)"
  by (auto simp: store_ok_def)

lemma store_insert_ok:
  assumes "store_ok s"
  shows "store_ok (store_insert r s)" "obj (store_insert r s) i = (if i = r_id r then Some r else obj s i)"
    "set (rs_live (store_insert r s)) = insert (r_id r) (set (rs_live s) - (if length (rs_live s) \<ge> max_requests
       then (case eviction_victim s of None \<Rightarrow> {} | Some v \<Rightarrow> {r_id v}) else {}))"
proof -
  note room = insert_room [OF assms]
  show "store_ok (store_insert r s)"
    using room(1,2) unfolding store_insert_def Let_def
    by (intro store_ok_emit) (simp add: store_ok_add store_ok_put)
  show "obj (store_insert r s) i = (if i = r_id r then Some r else obj s i)"
    using room(3) by (simp add: store_insert_def Let_def)
  show "set (rs_live (store_insert r s)) = insert (r_id r) (set (rs_live s) - (if length (rs_live s) \<ge> max_requests
       then (case eviction_victim s of None \<Rightarrow> {} | Some v \<Rightarrow> {r_id v}) else {}))"
    unfolding store_insert_def Let_def using room(4) by auto
qed


section \<open>The sweep\<close>

definition overdue :: "int \<Rightarrow> rfq_request \<Rightarrow> bool" where
  "overdue now r \<longleftrightarrow> r_status r = Open \<and> r_expires r \<le> now"

definition swept :: "int \<Rightarrow> rfq_request \<Rightarrow> rfq_request" where
  "swept now r = (if overdue now r then r\<lparr>r_status := Expired\<rparr> else r)"

definition forgotten :: "int \<Rightarrow> rfq_request \<Rightarrow> bool" where
  "forgotten now r \<longleftrightarrow> r_status (swept now r) \<noteq> Open \<and> now - max (r_created r) (r_expires r) > retain_ms"

lemma swept_id [simp]: "r_id (swept now r) = r_id r"
  by (simp add: swept_def)

lemma sweep_one_obj:
  "store_ok s \<Longrightarrow> obj (sweep_one now i s) j = (if j = i then map_option (swept now) (obj s i) else obj s j)"
  by (auto simp: sweep_one_def Let_def swept_def overdue_def store_ok_def split: option.split)

lemma sweep_one_live:
  "rs_live (sweep_one now i s) = filter (\<lambda>j. j \<noteq> i \<or> \<not> (\<exists>r. obj s i = Some r \<and> forgotten now r)) (rs_live s)"
proof (cases "obj s i")
  case (Some r)
  then have "rs_live (sweep_one now i s) = (if forgotten now r then filter (\<lambda>k. k \<noteq> i) (rs_live s) else rs_live s)"
    by (simp add: sweep_one_def Let_def forgotten_def swept_def overdue_def)
  with Some show ?thesis by (cases "forgotten now r") simp_all
qed (simp add: sweep_one_def)

lemma sweep_fold:
  "store_ok s \<Longrightarrow> distinct is \<Longrightarrow>
    obj (foldl (\<lambda>s i. sweep_one now i s) s is) j = (if j \<in> set is then map_option (swept now) (obj s j) else obj s j) \<and>
    rs_live (foldl (\<lambda>s i. sweep_one now i s) s is) =
      filter (\<lambda>j. j \<notin> set is \<or> \<not> (\<exists>r. obj s j = Some r \<and> forgotten now r)) (rs_live s)"
proof (induction "is" arbitrary: s)
  case (Cons i "is")
  then have "obj (foldl (\<lambda>s i. sweep_one now i s) (sweep_one now i s) is) j =
      (if j \<in> set is then map_option (swept now) (obj (sweep_one now i s) j) else obj (sweep_one now i s) j) \<and>
    rs_live (foldl (\<lambda>s i. sweep_one now i s) (sweep_one now i s) is) =
      filter (\<lambda>j. j \<notin> set is \<or> \<not> (\<exists>r. obj (sweep_one now i s) j = Some r \<and> forgotten now r)) (rs_live (sweep_one now i s))"
    by (intro Cons.IH) (simp_all add: store_ok_sweep_one)
  with Cons.prems show ?case
    by (auto simp: sweep_one_obj sweep_one_live intro!: filter_cong)
qed simp

text \<open>
  One sweep at time \<open>now\<close> does exactly this to every request: an open one past its
  deadline becomes expired, everything else keeps its content; the store forgets, without
  reordering the rest, exactly the closed requests whose creation and deadline are more than the
  retention time ago. So afterwards no held request is open past its deadline.
\<close>

theorem sweep_exact:
  assumes "store_ok s"
  shows "(\<forall>i\<in>set (rs_live s). obj (store_sweep now s) i = map_option (swept now) (obj s i)) \<and>
    rs_live (store_sweep now s) = filter (\<lambda>i. \<not> (\<exists>r. obj s i = Some r \<and> forgotten now r)) (rs_live s) \<and>
    (\<forall>r\<in>set (store_values (store_sweep now s)). \<not> overdue now r)"
proof -
  have d: "distinct (rs_live s)" using assms by (simp add: store_ok_def)
  note f = sweep_fold [OF assms d, of now]
  have l: "rs_live (store_sweep now s) = filter (\<lambda>i. \<not> (\<exists>r. obj s i = Some r \<and> forgotten now r)) (rs_live s)"
    unfolding store_sweep_def using f by (auto intro!: filter_cong)
  have o: "obj (store_sweep now s) i = map_option (swept now) (obj s i)" if "i \<in> set (rs_live s)" for i
    unfolding store_sweep_def using f that by simp
  have "\<not> overdue now r" if "r \<in> set (store_values (store_sweep now s))" for r
  proof -
    from that obtain i where i: "i \<in> set (rs_live (store_sweep now s))" "r = the (obj (store_sweep now s) i)"
      by (auto simp: store_values_def)
    with l have "i \<in> set (rs_live s)" by simp
    with o i assms obtain r' where "r = swept now r'" by (auto simp: store_ok_def)
    then show ?thesis by (simp add: swept_def overdue_def)
  qed
  with l o show ?thesis by blast
qed

text \<open>
  Inserting keeps the store within its capacity and makes the new request readable; every
  other request stays unless the store was full, and then exactly one is dropped: the oldest
  closed one when any is closed, else the first one inserted. An open request is never dropped
  while a closed one is held.
\<close>

theorem insert_capacity:
  assumes "store_ok s" "r_id r \<notin> set (rs_live s)"
  shows "store_ok (store_insert r s) \<and> store_get (store_insert r s) (r_id r) = Some r \<and>
    (if length (rs_live s) < max_requests then set (rs_live (store_insert r s)) = insert (r_id r) (set (rs_live s))
     else \<exists>v\<in>set (store_values s). set (rs_live (store_insert r s)) = insert (r_id r) (set (rs_live s) - {r_id v}) \<and>
       (if \<exists>x\<in>set (store_values s). r_status x \<noteq> Open
        then r_status v \<noteq> Open \<and> (\<forall>x\<in>set (store_values s). r_status x \<noteq> Open \<longrightarrow> r_created v \<le> r_created x)
        else v = hd (store_values s)))"
proof -
  note ins = store_insert_ok [OF assms(1), of r]
  have g: "store_get (store_insert r s) (r_id r) = Some r"
    using ins(2,3) by (simp add: store_get_def)
  show ?thesis
  proof (cases "length (rs_live s) < max_requests")
    case True
    with ins g show ?thesis by simp
  next
    case False
    then have "rs_live s \<noteq> []" by (auto simp: max_requests_def)
    with eviction_victim_cases(1) [OF assms(1)] obtain v where v: "eviction_victim s = Some v" by auto
    note vic = eviction_victim_cases(2) [OF assms(1) v]
    have live: "set (rs_live (store_insert r s)) = insert (r_id r) (set (rs_live s) - {r_id v})"
      using ins(3) False v by simp
    show ?thesis
      unfolding if_not_P [OF False] using ins(1) g live vic by blast
  qed
qed

section \<open>The properties at concrete inputs\<close>

definition no_reference :: rfq_reference where
  "no_reference = \<lparr>rr_nav_out = None, rr_nav_price = None, rr_nav_source = None, rr_nav_age = None,
     rr_oracle_on_chain = False, rr_issuer_out = None, rr_issuer_source = None, rr_issuer_age = None,
     rr_issuer_vs_oracle = None, rr_amm_out = None, rr_amm_vs_nav = None, rr_amm_venues = [],
     rr_book_out = None, rr_book_in_used = None, rr_book_vs_nav = None, rr_book_fills = 0\<rparr>"

definition demo_request :: "string \<Rightarrow> rfq_request" where
  "demo_request i = \<lparr>r_id = i, r_taker = ''T'', r_token_in = ''A'', r_token_out = ''B'', r_symbol_in = ''A'',
     r_symbol_out = ''B'', r_decimals_in = 7, r_decimals_out = 7, r_amount_in = 100, r_created = 0,
     r_expires = 20000, r_ledger = 50, r_status = Open, r_reference = no_reference, r_quotes = [],
     r_accepted = None, r_hash = None\<rparr>"

lemma store_init_ok: "store_ok store_init"
  by (simp add: store_ok_def store_init_def obj_def jm.get_empty)

lemma demo_store_ok: "store_ok (store_insert (demo_request ''r1'') store_init)"
  by (rule store_insert_ok(1) [OF store_init_ok])

lemma demo_store_live: "rs_live (store_insert (demo_request ''r1'') store_init) = [''r1'']"
  by (simp add: store_insert_def make_room_def store_init_def max_requests_def demo_request_def)

theorem sweep_exact_witness:
  "rs_live (store_sweep 1000000 (store_insert (demo_request ''r1'') store_init)) = []"
proof -
  have "obj (store_insert (demo_request ''r1'') store_init) ''r1'' = Some (demo_request ''r1'')"
    by (simp add: store_insert_ok(2) [OF store_init_ok] demo_request_def)
  moreover have "forgotten 1000000 (demo_request ''r1'')"
    by (simp add: forgotten_def swept_def overdue_def demo_request_def retain_ms_def)
  ultimately show ?thesis
    using sweep_exact [OF demo_store_ok, of 1000000] by (simp add: demo_store_live)
qed

theorem insert_capacity_witness:
  "store_get (store_insert (demo_request ''r2'') (store_insert (demo_request ''r1'') store_init)) ''r2''
    = Some (demo_request ''r2'')"
proof -
  have i: "r_id (demo_request ''r2'') = ''r2''" by (simp add: demo_request_def)
  then have "r_id (demo_request ''r2'') \<notin> set (rs_live (store_insert (demo_request ''r1'') store_init))"
    by (simp add: demo_store_live)
  from insert_capacity [OF demo_store_ok this] i show ?thesis by simp
qed

end
