(* ===== verification/RfqService.thy ===== *)
theory RfqService
  imports RfqStore QuoteXdr
begin

text \<open>
  The RFQ service, \<open>backend/src/rfq/service.ts\<close>.

  Every handler is split where it awaits. Between two pieces other handlers run, so the pieces
  take the store as they find it, the clock reading of their moment, and what the awaited call
  returned; a piece that only checks returns an error or what the next piece captures. The
  concurrent system is at the end: a state with the operations in flight and one transition per
  piece.

  Refusals are constructors; \<open>rfq_status\<close> gives the HTTP status each carries. The chain,
  the token metadata and the sources of reference prices are arguments.
\<close>

section \<open>Refusals\<close>

datatype refusal =
    Disabled
  | SameToken
  | AmountNotPositive
  | TooManyOpen
  | TooSoon
  | RequestNotFound
  | RequestIs request_status
  | RequestExpired
  | QuoteNotFound
  | QuoteIs quote_status
  | OwnRequest
  | BadBand
  | NoNavFeed
  | WouldNotSettle
  | NoMakerEntry
  | BadEntry js_exn
  | NotSigned
  | WrongTaker
  | WrongTokens
  | WrongAmountIn
  | OutNotPositive
  | SignatureExpiresEarly
  | ExpiresTooSoon
  | ExpiryTooFar
  | HostRejected bool
  | ContractRefused
  | Failed js_exn

fun rfq_status :: "refusal \<Rightarrow> nat" where
  "rfq_status Disabled = 503"
| "rfq_status TooManyOpen = 429"
| "rfq_status TooSoon = 429"
| "rfq_status RequestNotFound = 404"
| "rfq_status (RequestIs _) = 409"
| "rfq_status RequestExpired = 409"
| "rfq_status QuoteNotFound = 404"
| "rfq_status (QuoteIs _) = 409"
| "rfq_status WouldNotSettle = 422"
| "rfq_status NoMakerEntry = 422"
| "rfq_status (HostRejected transport) = (if transport then 503 else 422)"
| "rfq_status ContractRefused = 422"
| "rfq_status (Failed _) = 500"
| "rfq_status _ = 400"

section \<open>Constants\<close>

definition default_request_ttl :: int where "default_request_ttl = 20"
definition max_request_ttl :: int where "max_request_ttl = 120"
definition quote_accept_grace :: int where "quote_accept_grace = 12"
definition min_quote_ttl :: int where "min_quote_ttl = 6"
definition max_quote_ttl :: int where "max_quote_ttl = 720"
definition default_nav_band :: int where "default_nav_band = 50"
definition max_nav_band :: int where "max_nav_band = 1000"
definition max_open_per_taker :: nat where "max_open_per_taker = 3"
definition min_request_spacing :: int where "min_request_spacing = 2000"
definition ledger_seconds :: int where "ledger_seconds = 5"

section \<open>Requests\<close>

record create_input =
  ci_taker :: string
  ci_token_in :: string
  ci_token_out :: string
  ci_amount :: int
  ci_ttl :: "int option"

definition clamp_ttl :: "int option \<Rightarrow> int" where
  "clamp_ttl ttl = min max_request_ttl (max 5 (case ttl of None \<Rightarrow> default_request_ttl | Some t \<Rightarrow> t))"

definition taker_open :: "rfq_store \<Rightarrow> string \<Rightarrow> int \<Rightarrow> rfq_request list" where
  "taker_open s taker now = filter (\<lambda>r. r_taker r = taker) (store_open s now)"

text \<open>\<open>createRequest\<close> up to the reads of the chain; \<open>now\<close> is the clock at
  \<open>open()\<close>, \<open>now'\<close> at the spacing check.\<close>

definition create_check :: "string \<Rightarrow> rfq_store \<Rightarrow> create_input \<Rightarrow> int \<Rightarrow> int \<Rightarrow> refusal + int" where
  "create_check contract s inp now now' =
    (if contract = '''' then Inl Disabled
     else if ci_token_in inp = ci_token_out inp then Inl SameToken
     else if ci_amount inp \<le> 0 then Inl AmountNotPositive
     else let mine = taker_open s (ci_taker inp) now in
       if length mine \<ge> max_open_per_taker then Inl TooManyOpen
       else if now' - Max (insert 0 (set (map r_created mine))) < min_request_spacing then Inl TooSoon
       else Inr (clamp_ttl (ci_ttl inp)))"

definition new_request :: "(string \<Rightarrow> string \<times> int) \<Rightarrow> create_input \<Rightarrow> int \<Rightarrow> int \<Rightarrow> rfq_reference \<Rightarrow> int \<Rightarrow> string \<Rightarrow> rfq_request" where
  "new_request meta inp ttl ledger reference now i =
    \<lparr>r_id = i, r_taker = ci_taker inp, r_token_in = ci_token_in inp, r_token_out = ci_token_out inp,
     r_symbol_in = fst (meta (ci_token_in inp)), r_symbol_out = fst (meta (ci_token_out inp)),
     r_decimals_in = snd (meta (ci_token_in inp)), r_decimals_out = snd (meta (ci_token_out inp)),
     r_amount_in = ci_amount inp, r_created = now, r_expires = now + ttl * 1000, r_ledger = ledger,
     r_status = Open, r_reference = reference, r_quotes = [], r_accepted = None, r_hash = None\<rparr>"

definition require_request :: "string \<Rightarrow> rfq_store \<Rightarrow> string \<Rightarrow> refusal + rfq_request" where
  "require_request contract s i =
    (if contract = '''' then Inl Disabled
     else case store_get s i of None \<Rightarrow> Inl RequestNotFound | Some r \<Rightarrow> Inr r)"

definition expire_quote :: "int \<Rightarrow> int option \<Rightarrow> rfq_quote \<Rightarrow> rfq_quote" where
  "expire_quote now ledger q =
    (if q_status q \<noteq> QLive then q
     else if (case ledger of None \<Rightarrow> False | Some l \<Rightarrow> l \<ge> q_expiry_ledger q) \<or> now \<ge> q_expires_at q
     then q\<lparr>q_status := QExpired\<rparr> else q)"

definition expire_quotes :: "int \<Rightarrow> int option \<Rightarrow> rfq_request \<Rightarrow> rfq_request" where
  "expire_quotes now ledger r = r\<lparr>r_quotes := map (expire_quote now ledger) (r_quotes r)\<rparr>"

definition rfq_get :: "string \<Rightarrow> rfq_store \<Rightarrow> string \<Rightarrow> int \<Rightarrow> rfq_store \<times> (refusal + public_request)" where
  "rfq_get contract s i now =
    (case require_request contract s i of
       Inl e \<Rightarrow> (s, Inl e)
     | Inr r \<Rightarrow> let r' = expire_quotes now None r in (put_obj r' s, Inr (to_public r')))"

definition rfq_list_open :: "rfq_store \<Rightarrow> int \<Rightarrow> public_request list" where
  "rfq_list_open s now = map to_public (store_open s now)"

definition rfq_cancel :: "string \<Rightarrow> rfq_store \<Rightarrow> string \<Rightarrow> rfq_store \<times> (refusal + public_request)" where
  "rfq_cancel contract s i =
    (case require_request contract s i of
       Inl e \<Rightarrow> (s, Inl e)
     | Inr r \<Rightarrow>
         let s1 = store_close i Cancelled s
         in (s1, Inr (to_public (case obj s1 i of None \<Rightarrow> r | Some r1 \<Rightarrow> r1))))"

definition rfq_mark_settled :: "string \<Rightarrow> rfq_store \<Rightarrow> string \<Rightarrow> string
    \<Rightarrow> rfq_store \<times> (refusal + public_request)" where
  "rfq_mark_settled contract s i hash =
    (case require_request contract s i of
       Inl e \<Rightarrow> (s, Inl e)
     | Inr r \<Rightarrow>
         let s1 = (if r_status r = Open then store_close i Settled s
                   else if r_status r = Accepted then put_obj (r\<lparr>r_status := Settled\<rparr>) s
                   else s);
             r1 = (case obj s1 i of None \<Rightarrow> r | Some r1 \<Rightarrow> r1)\<lparr>r_hash := Some hash\<rparr>
         in (put_obj r1 s1, Inr (to_public r1)))"

section \<open>Accepting a quote\<close>

definition fields_for :: "rfq_request \<Rightarrow> public_quote \<Rightarrow> quote_fields" where
  "fields_for r q =
    \<lparr>qf_maker = q_maker q, qf_taker = r_taker r, qf_token_in = r_token_in r, qf_token_out = r_token_out r,
     qf_amount_in = r_amount_in r, qf_amount_out = q_out q, qf_expiry = q_expiry_ledger q,
     qf_nonce = q_nonce q, qf_nav_dev = q_nav_dev q\<rparr>"

definition find_quote :: "rfq_request \<Rightarrow> string \<Rightarrow> rfq_quote option" where
  "find_quote r qid = find (\<lambda>q. q_id q = qid) (r_quotes r)"

definition accept_begin :: "string \<Rightarrow> rfq_store \<Rightarrow> string \<Rightarrow> string \<Rightarrow> refusal + unit" where
  "accept_begin contract s i qid =
    (case require_request contract s i of
       Inl e \<Rightarrow> Inl e
     | Inr r \<Rightarrow>
         if r_status r \<noteq> Open \<and> r_status r \<noteq> Expired then Inl (RequestIs (r_status r))
         else (case find_quote r qid of None \<Rightarrow> Inl QuoteNotFound | Some q \<Rightarrow> Inr ()))"

text \<open>After the ledger has been read: stale quotes expire, and the accepted one must still be
  live. Its fields and the maker's signed entry go into the transaction.\<close>

definition accept_ledger :: "rfq_store \<Rightarrow> string \<Rightarrow> string \<Rightarrow> int \<Rightarrow> int
    \<Rightarrow> rfq_store \<times> (refusal + quote_fields \<times> string)" where
  "accept_ledger s i qid now ledger =
    (case obj s i of
       None \<Rightarrow> (s, Inl RequestNotFound)
     | Some r \<Rightarrow>
         let r' = expire_quotes now (Some ledger) r
         in (put_obj r' s,
             (case find_quote r' qid of
                None \<Rightarrow> Inl QuoteNotFound
              | Some q \<Rightarrow> if q_status q \<noteq> QLive then Inl (QuoteIs (q_status q))
                         else Inr (fields_for r' (public_quote.truncate q), q_signed_xdr q))))"

definition mark_accepted :: "string \<Rightarrow> rfq_quote \<Rightarrow> rfq_quote" where
  "mark_accepted qid q =
    (if q_id q = qid then q\<lparr>q_status := QAccepted\<rparr>
     else if q_status q = QLive then q\<lparr>q_status := QSuperseded\<rparr> else q)"

definition accept_finish :: "rfq_store \<Rightarrow> string \<Rightarrow> string \<Rightarrow> rfq_store" where
  "accept_finish s i qid =
    (case obj s i of
       None \<Rightarrow> s
     | Some r \<Rightarrow>
         let r1 = r\<lparr>r_quotes := map (mark_accepted qid) (r_quotes r), r_accepted := Some qid\<rparr>
         in if r_status r = Open then store_close i Accepted (put_obj r1 s)
            else put_obj (r1\<lparr>r_status := Accepted\<rparr>) s)"

section \<open>Preparing and submitting a quote\<close>

record prepare_input =
  pi_maker :: string
  pi_out :: int
  pi_ttl :: "int option"
  pi_band :: "num option"

definition prepare_check :: "string \<Rightarrow> rfq_store \<Rightarrow> string \<Rightarrow> prepare_input \<Rightarrow> int \<Rightarrow> refusal + rfq_request" where
  "prepare_check contract s i inp now =
    (case require_request contract s i of
       Inl e \<Rightarrow> Inl e
     | Inr r \<Rightarrow>
         if r_status r \<noteq> Open then Inl (RequestIs (r_status r))
         else if now \<ge> r_expires r then Inl RequestExpired
         else if pi_maker inp = r_taker r then Inl OwnRequest
         else if pi_out inp \<le> 0 then Inl OutNotPositive
         else Inr r)"

text \<open>\<open>Math.ceil(ms / 1000 / ledgerSeconds)\<close>: the milliseconds are far below
  \<open>2 ^ 53\<close>, and the rounded quotients have the exact ceiling.\<close>

definition ceil_ledgers :: "int \<Rightarrow> int" where
  "ceil_ledgers ms = - ((- ms) div (1000 * ledger_seconds))"

definition quote_ttl :: "int option \<Rightarrow> int \<Rightarrow> int" where
  "quote_ttl ttl remaining =
    min max_quote_ttl (max min_quote_ttl (case ttl of None \<Rightarrow> remaining + quote_accept_grace | Some t \<Rightarrow> t))"

text \<open>After the ledger has been read: the fields the maker will sign.\<close>

definition prepare_fields :: "rfq_request \<Rightarrow> prepare_input \<Rightarrow> int \<Rightarrow> int \<Rightarrow> int \<Rightarrow> refusal + quote_fields" where
  "prepare_fields r inp ledger now nonce =
    (let ttl = quote_ttl (pi_ttl inp) (ceil_ledgers (r_expires r - now));
         on_chain = rr_oracle_on_chain (r_reference r);
         band = (case pi_band inp of None \<Rightarrow> Fin (if on_chain then of_int default_nav_band else 0) | Some b \<Rightarrow> b)
     in case band of
          Fin b \<Rightarrow>
            (if of_int \<lfloor>b\<rfloor> \<noteq> b \<or> b < 0 \<or> b > of_int max_nav_band then Inl BadBand
             else if b > 0 \<and> \<not> on_chain then Inl NoNavFeed
             else Inr \<lparr>qf_maker = pi_maker inp, qf_taker = r_taker r, qf_token_in = r_token_in r,
                       qf_token_out = r_token_out r, qf_amount_in = r_amount_in r, qf_amount_out = pi_out inp,
                       qf_expiry = ledger + ttl, qf_nonce = nonce, qf_nav_dev = \<lfloor>b\<rfloor>\<rparr>)
        | _ \<Rightarrow> Inl BadBand)"

text \<open>What the contract's check and the recording simulation answered turn into the reply: the
  maker's entry among those recorded.\<close>

definition prepare_finish :: "bool \<Rightarrow> auth_entry list js \<Rightarrow> string \<Rightarrow> refusal + auth_entry" where
  "prepare_finish accepted entries maker =
    (if \<not> accepted then Inl ContractRefused
     else case entries of
       Inl e \<Rightarrow> Inl WouldNotSettle
     | Inr es \<Rightarrow> (case find (\<lambda>e. entry_address e = Some maker) es of
                   None \<Rightarrow> Inl NoMakerEntry | Some e \<Rightarrow> Inr e))"

definition submit_begin :: "string \<Rightarrow> (string \<Rightarrow> decoded_entry js) \<Rightarrow> rfq_store \<Rightarrow> string \<Rightarrow> string \<Rightarrow> int
    \<Rightarrow> refusal + quote_fields" where
  "submit_begin contract decode s i signed_xdr now =
    (case require_request contract s i of
       Inl e \<Rightarrow> Inl e
     | Inr r \<Rightarrow>
         if r_status r \<noteq> Open then Inl (RequestIs (r_status r))
         else if now \<ge> r_expires r then Inl RequestExpired
         else (case decode signed_xdr of
            Inl e \<Rightarrow> Inl (BadEntry e)
          | Inr d \<Rightarrow>
              let f = de_quote d in
              if \<not> de_signed d then Inl NotSigned
              else if qf_taker f \<noteq> r_taker r then Inl WrongTaker
              else if qf_token_in f \<noteq> r_token_in r \<or> qf_token_out f \<noteq> r_token_out r then Inl WrongTokens
              else if qf_amount_in f \<noteq> r_amount_in r then Inl WrongAmountIn
              else if qf_amount_out f \<le> 0 then Inl OutNotPositive
              else if qf_maker f = r_taker r then Inl OwnRequest
              else if de_expiration d < qf_expiry f then Inl SignatureExpiresEarly
              else Inr f))"

definition submit_ledger :: "quote_fields \<Rightarrow> int \<Rightarrow> refusal + unit" where
  "submit_ledger f ledger =
    (if qf_expiry f \<le> ledger + min_quote_ttl - 1 then Inl ExpiresTooSoon
     else if qf_expiry f > ledger + max_quote_ttl then Inl ExpiryTooFar
     else Inr ())"

definition new_quote :: "rfq_request \<Rightarrow> quote_fields \<Rightarrow> string \<Rightarrow> string \<Rightarrow> int \<Rightarrow> int \<Rightarrow> string \<Rightarrow> rfq_quote" where
  "new_quote r f signed_xdr label now ledger qid =
    \<lparr>q_id = qid, q_request = r_id r, q_maker = qf_maker f, q_label = label, q_out = qf_amount_out f,
     q_expiry_ledger = qf_expiry f, q_expires_at = now + (qf_expiry f - ledger) * ledger_seconds * 1000,
     q_nonce = qf_nonce f, q_nav_dev = qf_nav_dev f,
     q_vs_nav = (case rr_nav_out (r_reference r) of None \<Rightarrow> None
                 | Some nav \<Rightarrow> if nav = 0 then None else vs_fair_bps nav (qf_amount_out f)),
     q_status = QLive, q_received = now, q_signed_xdr = signed_xdr\<rparr>"

definition supersede :: "string \<Rightarrow> rfq_quote \<Rightarrow> rfq_quote" where
  "supersede maker q = (if q_maker q = maker \<and> q_status q = QLive then q\<lparr>q_status := QSuperseded\<rparr> else q)"

definition submit_finish :: "rfq_store \<Rightarrow> string \<Rightarrow> quote_fields \<Rightarrow> string \<Rightarrow> string \<Rightarrow> int \<Rightarrow> int \<Rightarrow> string \<Rightarrow> rfq_store" where
  "submit_finish s i f signed_xdr label now ledger qid =
    (case obj s i of
       None \<Rightarrow> s
     | Some r \<Rightarrow> put_obj (r\<lparr>r_quotes := map (supersede (qf_maker f)) (r_quotes r)
         @ [new_quote r f signed_xdr label now ledger qid]\<rparr>) s)"

text \<open>\<open>buildWithMakerEntry\<close>: the entries attached are the taker's own recorded ones and the
  maker's signed one; a transport error is retried once.\<close>

definition attached_entries :: "auth_entry list \<Rightarrow> string \<Rightarrow> auth_entry \<Rightarrow> auth_entry list" where
  "attached_entries recorded taker maker_entry =
    filter (\<lambda>e. is_source_account_entry e \<or> entry_address e = Some taker) recorded @ [maker_entry]"

definition build_with_maker_entry ::
  "auth_entry list js \<Rightarrow> (nat \<Rightarrow> auth_entry list \<Rightarrow> bool + string) \<Rightarrow> string \<Rightarrow> auth_entry \<Rightarrow> refusal + string" where
  "build_with_maker_entry recorded build taker maker_entry =
    (case recorded of
       Inl e \<Rightarrow> Inl WouldNotSettle
     | Inr es \<Rightarrow>
         let auth = attached_entries es taker maker_entry
         in case build 0 auth of
              Inr xdr \<Rightarrow> Inr xdr
            | Inl transport \<Rightarrow>
                (if transport
                 then (case build 1 auth of Inr xdr \<Rightarrow> Inr xdr | Inl t \<Rightarrow> Inl (HostRejected t))
                 else Inl (HostRejected False)))"

section \<open>The concurrent system\<close>

text \<open>
  An operation in flight holds what its handler captured before the \<open>await\<close>. A transition
  is one piece of one handler. \<open>sy_verified\<close> records, for the statements only, the quotes
  the host has accepted in an enforce-mode build, with the signed entry that was attached.
\<close>

datatype flight =
    FCreate create_input int
  | FAccept string string
  | FAcceptBuild string string quote_fields string
  | FSubmit string quote_fields string int
  | FSubmitBuild string quote_fields string int int

record rfq_sys =
  sy_store :: rfq_store
  sy_flights :: "(nat, flight) jmap"
  sy_verified :: "(quote_fields \<times> string) list"
  sy_settle :: "(quote_fields \<times> string) list"

datatype act =
    ACreate nat create_input int int
  | ACreated nat int rfq_reference int string
  | AAccept nat string string
  | AAcceptLedger nat int int
  | AAcceptBuilt nat
  | ASubmit nat string string int
  | ASubmitLedger nat int
  | ASubmitBuilt nat string string
  | AFail nat
  | ACancel string
  | ASettle string string
  | AGet string int
  | ASweep int

definition sys_init :: rfq_sys where
  "sys_init = \<lparr>sy_store = store_init, sy_flights = jm_empty, sy_verified = [], sy_settle = []\<rparr>"

text \<open>A handler starts with a fresh number; an id the store draws is fresh (96 random bits).\<close>

definition launch :: "nat \<Rightarrow> flight \<Rightarrow> rfq_sys \<Rightarrow> rfq_sys" where
  "launch n f y = (if jm_get (sy_flights y) n = None then y\<lparr>sy_flights := jm_set n f (sy_flights y)\<rparr> else y)"

definition land_flight :: "nat \<Rightarrow> rfq_sys \<Rightarrow> rfq_sys" where
  "land_flight n y = y\<lparr>sy_flights := jm_delete n (sy_flights y)\<rparr>"

definition on_flight :: "nat \<Rightarrow> flight \<Rightarrow> rfq_sys \<Rightarrow> rfq_sys" where
  "on_flight n f y = y\<lparr>sy_flights := jm_set n f (sy_flights y)\<rparr>"

definition with_store :: "rfq_store \<Rightarrow> rfq_sys \<Rightarrow> rfq_sys" where
  "with_store s y = y\<lparr>sy_store := s\<rparr>"

definition all_quote_ids :: "rfq_store \<Rightarrow> string list" where
  "all_quote_ids s = concat (map (\<lambda>(i, r). map q_id (r_quotes r)) (rs_heap s))"

fun rfq_exec :: "string \<Rightarrow> (string \<Rightarrow> string \<times> int) \<Rightarrow> (string \<Rightarrow> decoded_entry js) \<Rightarrow> act \<Rightarrow> rfq_sys \<Rightarrow> rfq_sys" where
  "rfq_exec c meta dec (ACreate n inp now now') y =
    (case create_check c (sy_store y) inp now now' of Inl e \<Rightarrow> y | Inr ttl \<Rightarrow> launch n (FCreate inp ttl) y)"
| "rfq_exec c meta dec (ACreated n ledger reference now i) y =
    (case jm_get (sy_flights y) n of
       Some (FCreate inp ttl) \<Rightarrow>
         (if obj (sy_store y) i = None
          then land_flight n (with_store (store_insert (new_request meta inp ttl ledger reference now i) (sy_store y)) y)
          else y)
     | _ \<Rightarrow> y)"
| "rfq_exec c meta dec (AAccept n i qid) y =
    (case accept_begin c (sy_store y) i qid of Inl e \<Rightarrow> y | Inr _ \<Rightarrow> launch n (FAccept i qid) y)"
| "rfq_exec c meta dec (AAcceptLedger n now ledger) y =
    (case jm_get (sy_flights y) n of
       Some (FAccept i qid) \<Rightarrow>
         (case accept_ledger (sy_store y) i qid now ledger of
            (s, Inl e) \<Rightarrow> land_flight n (with_store s y)
          | (s, Inr (f, x)) \<Rightarrow> on_flight n (FAcceptBuild i qid f x) (with_store s y))
     | _ \<Rightarrow> y)"
| "rfq_exec c meta dec (AAcceptBuilt n) y =
    (case jm_get (sy_flights y) n of
       Some (FAcceptBuild i qid f x) \<Rightarrow>
         land_flight n (with_store (accept_finish (sy_store y) i qid) (y\<lparr>sy_settle := (f, x) # sy_settle y\<rparr>))
     | _ \<Rightarrow> y)"
| "rfq_exec c meta dec (ASubmit n i x now) y =
    (case submit_begin c dec (sy_store y) i x now of Inl e \<Rightarrow> y | Inr f \<Rightarrow> launch n (FSubmit i f x now) y)"
| "rfq_exec c meta dec (ASubmitLedger n ledger) y =
    (case jm_get (sy_flights y) n of
       Some (FSubmit i f x now) \<Rightarrow>
         (case submit_ledger f ledger of
            Inl e \<Rightarrow> land_flight n y
          | Inr _ \<Rightarrow> on_flight n (FSubmitBuild i f x now ledger) y)
     | _ \<Rightarrow> y)"
| "rfq_exec c meta dec (ASubmitBuilt n label qid) y =
    (case jm_get (sy_flights y) n of
       Some (FSubmitBuild i f x now ledger) \<Rightarrow>
         (if qid \<in> set (all_quote_ids (sy_store y)) then y
          else land_flight n (with_store (submit_finish (sy_store y) i f x label now ledger qid)
                 (y\<lparr>sy_verified := (f, x) # sy_verified y\<rparr>)))
     | _ \<Rightarrow> y)"
| "rfq_exec c meta dec (AFail n) y = land_flight n y"
| "rfq_exec c meta dec (ACancel i) y = with_store (fst (rfq_cancel c (sy_store y) i)) y"
| "rfq_exec c meta dec (ASettle i h) y = with_store (fst (rfq_mark_settled c (sy_store y) i h)) y"
| "rfq_exec c meta dec (AGet i now) y = with_store (fst (rfq_get c (sy_store y) i now)) y"
| "rfq_exec c meta dec (ASweep now) y = with_store (store_sweep now (sy_store y)) y"

inductive rfq_reach :: "string \<Rightarrow> (string \<Rightarrow> string \<times> int) \<Rightarrow> (string \<Rightarrow> decoded_entry js) \<Rightarrow> rfq_sys \<Rightarrow> bool"
  for c meta dec where
  start: "rfq_reach c meta dec sys_init"
| step: "rfq_reach c meta dec y \<Longrightarrow> rfq_reach c meta dec (rfq_exec c meta dec a y)"

section \<open>The invariant\<close>

text \<open>What holds of one request object, given the quotes the host has verified.\<close>

definition quotes_ok :: "(quote_fields \<times> string) list \<Rightarrow> rfq_request \<Rightarrow> rfq_quote list \<Rightarrow> bool" where
  "quotes_ok V r qs \<longleftrightarrow> distinct (map q_id qs) \<and>
    distinct (map q_maker (filter (\<lambda>q. q_status q = QLive) qs)) \<and>
    (\<forall>q\<in>set qs. q_request q = r_id r \<and> 0 < q_out q \<and> q_maker q \<noteq> r_taker r \<and>
      (fields_for r (public_quote.truncate q), q_signed_xdr q) \<in> set V)"

definition accepted_ok :: "string option \<Rightarrow> rfq_quote list \<Rightarrow> bool" where
  "accepted_ok a qs \<longleftrightarrow> (\<forall>qid. a = Some qid \<longrightarrow> (\<exists>q\<in>set qs. q_id q = qid \<and> q_status q = QAccepted))"

definition request_ok :: "(quote_fields \<times> string) list \<Rightarrow> rfq_request \<Rightarrow> bool" where
  "request_ok V r \<longleftrightarrow> quotes_ok V r (r_quotes r) \<and> accepted_ok (r_accepted r) (r_quotes r)"

text \<open>The request a submission is for matches the quote.\<close>

definition quote_matches :: "rfq_request \<Rightarrow> quote_fields \<Rightarrow> bool" where
  "quote_matches r f \<longleftrightarrow> qf_taker f = r_taker r \<and> qf_token_in f = r_token_in r \<and> qf_token_out f = r_token_out r \<and>
    qf_amount_in f = r_amount_in r \<and> 0 < qf_amount_out f \<and> qf_maker f \<noteq> r_taker r"

fun flight_ok :: "rfq_sys \<Rightarrow> flight \<Rightarrow> bool" where
  "flight_ok y (FCreate inp ttl) \<longleftrightarrow> ci_token_in inp \<noteq> ci_token_out inp \<and> 0 < ci_amount inp \<and> 5 \<le> ttl \<and> ttl \<le> max_request_ttl"
| "flight_ok y (FAccept i qid) \<longleftrightarrow> (\<exists>r. obj (sy_store y) i = Some r \<and> qid \<in> q_id ` set (r_quotes r))"
| "flight_ok y (FAcceptBuild i qid f x) \<longleftrightarrow> (f, x) \<in> set (sy_verified y) \<and>
    (\<exists>r. obj (sy_store y) i = Some r \<and> qid \<in> q_id ` set (r_quotes r))"
| "flight_ok y (FSubmit i f x now) \<longleftrightarrow> (\<exists>r. obj (sy_store y) i = Some r \<and> quote_matches r f)"
| "flight_ok y (FSubmitBuild i f x now ledger) \<longleftrightarrow> (\<exists>r. obj (sy_store y) i = Some r \<and> quote_matches r f) \<and>
    ledger + min_quote_ttl \<le> qf_expiry f \<and> qf_expiry f \<le> ledger + max_quote_ttl"

definition sys_ok :: "rfq_sys \<Rightarrow> bool" where
  "sys_ok y \<longleftrightarrow> store_ok (sy_store y) \<and> jm_ok (rs_heap (sy_store y)) \<and> jm_ok (sy_flights y) \<and>
    (\<forall>i r. obj (sy_store y) i = Some r \<longrightarrow> request_ok (sy_verified y) r \<and>
      r_token_in r \<noteq> r_token_out r \<and> 0 < r_amount_in r) \<and>
    (\<forall>n f. jm_get (sy_flights y) n = Some f \<longrightarrow> flight_ok y f) \<and>
    set (sy_settle y) \<subseteq> set (sy_verified y)"

text \<open>How an object may change: its terms are fixed, quotes are only appended, and nothing
  but the status of a quote changes.\<close>

definition quote_step :: "rfq_quote \<Rightarrow> rfq_quote \<Rightarrow> bool" where
  "quote_step q q' \<longleftrightarrow> q' = q\<lparr>q_status := q_status q'\<rparr> \<and> (q_status q' = QLive \<longrightarrow> q_status q = QLive) \<and>
    (q_status q = QAccepted \<longrightarrow> q_status q' = QAccepted)"

definition request_step :: "rfq_request \<Rightarrow> rfq_request \<Rightarrow> bool" where
  "request_step r r' \<longleftrightarrow> r_id r' = r_id r \<and> r_taker r' = r_taker r \<and> r_token_in r' = r_token_in r \<and>
    r_token_out r' = r_token_out r \<and> r_amount_in r' = r_amount_in r \<and> r_created r' = r_created r \<and>
    r_expires r' = r_expires r \<and> (r_status r \<noteq> Open \<longrightarrow> r_status r' \<noteq> Open) \<and>
    length (r_quotes r) \<le> length (r_quotes r') \<and>
    (\<forall>k<length (r_quotes r). quote_step (r_quotes r ! k) (r_quotes r' ! k))"

definition heap_step :: "rfq_store \<Rightarrow> rfq_store \<Rightarrow> bool" where
  "heap_step s s' \<longleftrightarrow> (\<forall>i r. obj s i = Some r \<longrightarrow> (\<exists>r'. obj s' i = Some r' \<and> request_step r r'))"


subsection \<open>Steps of an object\<close>

lemma quote_step_refl [simp]: "quote_step q q"
  by (simp add: quote_step_def)

lemma quote_step_trans:
  assumes "quote_step q q'" "quote_step q' q''"
  shows "quote_step q q''"
proof -
  from assms(1) obtain s1 where 1: "q' = q\<lparr>q_status := s1\<rparr>" "s1 = q_status q'" unfolding quote_step_def by blast
  from assms(2) obtain s2 where 2: "q'' = q'\<lparr>q_status := s2\<rparr>" "s2 = q_status q''" unfolding quote_step_def by blast
  from 1(1) 2(1) have "q'' = q\<lparr>q_status := s2\<rparr>" by simp
  with 2(2) have "q'' = q\<lparr>q_status := q_status q''\<rparr>" by simp
  moreover have "q_status q'' = QLive \<longrightarrow> q_status q = QLive" "q_status q = QAccepted \<longrightarrow> q_status q'' = QAccepted"
    using assms unfolding quote_step_def by blast+
  ultimately show ?thesis by (simp only: quote_step_def)
qed

lemma quote_step_same:
  "quote_step q q' \<Longrightarrow> q_id q' = q_id q \<and> q_request q' = q_request q \<and> q_maker q' = q_maker q \<and>
    q_out q' = q_out q \<and> q_signed_xdr q' = q_signed_xdr q \<and> q_expiry_ledger q' = q_expiry_ledger q \<and>
    q_nonce q' = q_nonce q \<and> q_nav_dev q' = q_nav_dev q"
proof -
  assume "quote_step q q'"
  then obtain s where "q' = q\<lparr>q_status := s\<rparr>" unfolding quote_step_def by blast
  then show ?thesis by simp
qed

lemma quote_step_status:
  "quote_step q q' \<Longrightarrow> (q_status q' = QLive \<longrightarrow> q_status q = QLive) \<and> (q_status q = QAccepted \<longrightarrow> q_status q' = QAccepted)"
  unfolding quote_step_def by blast

lemma request_step_refl [simp]: "request_step r r"
  by (simp add: request_step_def)

lemma request_step_trans: "request_step r r' \<Longrightarrow> request_step r' r'' \<Longrightarrow> request_step r r''"
proof -
  assume a: "request_step r r'" and b: "request_step r' r''"
  have "quote_step (r_quotes r ! k) (r_quotes r'' ! k)" if "k < length (r_quotes r)" for k
  proof (rule quote_step_trans)
    show "quote_step (r_quotes r ! k) (r_quotes r' ! k)" using a that by (simp add: request_step_def)
    show "quote_step (r_quotes r' ! k) (r_quotes r'' ! k)" using a b that by (simp add: request_step_def)
  qed
  with a b show ?thesis by (simp add: request_step_def)
qed

lemma request_step_ids: "request_step r r' \<Longrightarrow> q_id ` set (r_quotes r) \<subseteq> q_id ` set (r_quotes r')"
proof
  fix x
  assume st: "request_step r r'" and "x \<in> q_id ` set (r_quotes r)"
  then obtain k where k: "k < length (r_quotes r)" "x = q_id (r_quotes r ! k)" by (auto simp: in_set_conv_nth)
  with st have "quote_step (r_quotes r ! k) (r_quotes r' ! k)" "k < length (r_quotes r')"
    by (auto simp: request_step_def)
  with k quote_step_same show "x \<in> q_id ` set (r_quotes r')" by (metis image_eqI nth_mem)
qed

text \<open>The three ways a handler rewrites the statuses.\<close>

lemma quote_step_expire [simp]: "quote_step q (expire_quote now ledger q)"
  by (simp add: expire_quote_def quote_step_def)

lemma quote_step_accept [simp]: "quote_step q (mark_accepted qid q)"
  by (simp add: mark_accepted_def quote_step_def)

lemma quote_step_supersede [simp]: "quote_step q (supersede maker q)"
  by (simp add: supersede_def quote_step_def)

lemma heap_step_refl [simp]: "heap_step s s"
  by (auto simp: heap_step_def)

lemma heap_step_trans: "heap_step s s' \<Longrightarrow> heap_step s' s'' \<Longrightarrow> heap_step s s''"
  unfolding heap_step_def by (meson request_step_trans)

lemma heap_step_put: "obj s (r_id r') = Some r \<Longrightarrow> request_step r r' \<Longrightarrow> heap_step s (put_obj r' s)"
  by (auto simp: heap_step_def)

lemma heap_step_close: "store_ok s \<Longrightarrow> st \<noteq> Open \<Longrightarrow> heap_step s (store_close i st s)"
  by (auto simp: store_close_def store_get_def heap_step_def request_step_def store_ok_def split: option.split)

lemma heap_step_insert: "store_ok s \<Longrightarrow> obj s (r_id r) = None \<Longrightarrow> heap_step s (store_insert r s)"
  by (auto simp: heap_step_def store_insert_ok(2))

lemma heap_step_sweep: "store_ok s \<Longrightarrow> heap_step s (store_sweep now s)"
proof -
  assume ok: "store_ok s"
  then have "distinct (rs_live s)" by (simp add: store_ok_def)
  from sweep_fold [OF ok this] have o: "obj (store_sweep now s) j =
      (if j \<in> set (rs_live s) then map_option (swept now) (obj s j) else obj s j)" for j
    by (simp add: store_sweep_def)
  have "request_step r (swept now r)" for r by (simp add: request_step_def swept_def)
  then show ?thesis by (auto simp: heap_step_def o)
qed

end
