(* ===== verification/RfqSafety.thy ===== *)
theory RfqSafety
  imports RfqService
begin

text \<open>
  The invariant of the concurrent RFQ system: one lemma per piece of a handler, one per
  transition, reachability, and the properties of the service.
\<close>

subsection \<open>Objects stay well formed\<close>

definition objs_ok :: "(quote_fields \<times> string) list \<Rightarrow> rfq_store \<Rightarrow> bool" where
  "objs_ok V s \<longleftrightarrow> (\<forall>i r. obj s i = Some r \<longrightarrow> request_ok V r \<and> r_token_in r \<noteq> r_token_out r \<and> 0 < r_amount_in r)"

lemma fields_for_frame [simp]:
  "fields_for (r\<lparr>r_status := st\<rparr>) q = fields_for r q" "fields_for (r\<lparr>r_hash := h\<rparr>) q = fields_for r q"
  "fields_for (r\<lparr>r_quotes := qs\<rparr>) q = fields_for r q" "fields_for (r\<lparr>r_accepted := a\<rparr>) q = fields_for r q"
  by (simp_all add: fields_for_def)

lemma quotes_ok_frame [simp]:
  "quotes_ok V (r\<lparr>r_status := st\<rparr>) qs = quotes_ok V r qs" "quotes_ok V (r\<lparr>r_hash := h\<rparr>) qs = quotes_ok V r qs"
  "quotes_ok V (r\<lparr>r_quotes := ps\<rparr>) qs = quotes_ok V r qs" "quotes_ok V (r\<lparr>r_accepted := a\<rparr>) qs = quotes_ok V r qs"
  by (simp_all add: quotes_ok_def)

lemma request_ok_frame [simp]:
  "request_ok V (r\<lparr>r_status := st\<rparr>) = request_ok V r" "request_ok V (r\<lparr>r_hash := h\<rparr>) = request_ok V r"
  by (simp_all add: request_ok_def)

lemma request_ok_more: "request_ok V r \<Longrightarrow> set V \<subseteq> set W \<Longrightarrow> request_ok W r"
  by (auto simp: request_ok_def quotes_ok_def)

lemma objs_ok_more: "objs_ok V s \<Longrightarrow> set V \<subseteq> set W \<Longrightarrow> objs_ok W s"
  by (auto simp: objs_ok_def intro: request_ok_more)

lemma fields_for_step:
  "quote_step q q' \<Longrightarrow> fields_for r (public_quote.truncate q') = fields_for r (public_quote.truncate q)"
  by (drule quote_step_same) (simp add: fields_for_def public_quote.truncate_def)

lemma live_map:
  assumes "\<And>q. quote_step q (f q)" "distinct (map q_maker (filter (\<lambda>q. q_status q = QLive) qs))"
  shows "distinct (map q_maker (filter (\<lambda>q. q_status q = QLive) (map f qs)))"
    and "q_maker ` set (filter (\<lambda>q. q_status q = QLive) (map f qs)) \<subseteq> q_maker ` set (filter (\<lambda>q. q_status q = QLive) qs)"
proof -
  have m: "q_maker (f q) = q_maker q" "q_status (f q) = QLive \<Longrightarrow> q_status q = QLive" for q
    using quote_step_same [OF assms(1) [of q]] quote_step_status [OF assms(1) [of q]] by auto
  show "q_maker ` set (filter (\<lambda>q. q_status q = QLive) (map f qs)) \<subseteq> q_maker ` set (filter (\<lambda>q. q_status q = QLive) qs)"
    using m by fastforce
  show "distinct (map q_maker (filter (\<lambda>q. q_status q = QLive) (map f qs)))"
    using assms(2)
  proof (induction qs)
    case (Cons q qs)
    have "q_maker q \<notin> q_maker ` set (filter (\<lambda>q. q_status q = QLive) (map f qs))" if "q_status q = QLive"
    proof
      assume "q_maker q \<in> q_maker ` set (filter (\<lambda>q. q_status q = QLive) (map f qs))"
      then obtain p where "p \<in> set qs" "q_status (f p) = QLive" "q_maker q = q_maker (f p)" by auto
      with m [of p] Cons.prems that show False by (force simp: image_iff)
    qed
    with Cons m [of q] show ?case by (cases "q_status q = QLive") auto
  qed simp
qed

lemma map_ids:
  assumes "\<And>q. quote_step q (f q)"
  shows "map q_id (map f qs) = map q_id qs"
  using assms quote_step_same by (simp add: comp_def)

lemma quotes_ok_map:
  assumes ok: "quotes_ok V r qs" and f: "\<And>q. quote_step q (f q)"
  shows "quotes_ok V r (map f qs)"
  unfolding quotes_ok_def
proof (intro conjI ballI)
  show "distinct (map q_id (map f qs))" unfolding map_ids [of f qs, OF f] using ok by (simp add: quotes_ok_def)
  show "distinct (map q_maker (filter (\<lambda>q. q_status q = QLive) (map f qs)))"
    using ok by (intro live_map f) (simp add: quotes_ok_def)
  fix q'
  assume "q' \<in> set (map f qs)"
  then obtain q where q: "q \<in> set qs" "q' = f q" by auto
  note same = quote_step_same [OF f [of q]] fields_for_step [OF f [of q], of r]
  from ok q(1) have o: "q_request q = r_id r" "0 < q_out q" "q_maker q \<noteq> r_taker r"
    "(fields_for r (public_quote.truncate q), q_signed_xdr q) \<in> set V" by (auto simp: quotes_ok_def)
  show "q_request q' = r_id r" "0 < q_out q'" "q_maker q' \<noteq> r_taker r"
    "(fields_for r (public_quote.truncate q'), q_signed_xdr q') \<in> set V"
    using o same by (simp_all add: q(2))
qed

lemma accepted_ok_map:
  assumes "accepted_ok a qs" "\<And>q. quote_step q (f q)"
  shows "accepted_ok a (map f qs)"
  unfolding accepted_ok_def
proof (intro allI impI)
  fix qid
  assume "a = Some qid"
  with assms(1) obtain q where q: "q \<in> set qs" "q_id q = qid" "q_status q = QAccepted"
    by (auto simp: accepted_ok_def)
  with quote_step_status [OF assms(2) [of q]] quote_step_same [OF assms(2) [of q]]
  have "q_id (f q) = qid" "q_status (f q) = QAccepted" by simp_all
  with q(1) show "\<exists>q\<in>set (map f qs). q_id q = qid \<and> q_status q = QAccepted" by auto
qed

lemma request_ok_map:
  assumes "request_ok V r" and "\<And>q. quote_step q (f q)"
  shows "request_ok V (r\<lparr>r_quotes := map f (r_quotes r)\<rparr>)"
  using assms by (simp add: request_ok_def quotes_ok_map accepted_ok_map)

lemma request_step_map:
  assumes "\<And>q. quote_step q (f q)"
  shows "request_step r (r\<lparr>r_quotes := map f (r_quotes r)\<rparr>)"
  using assms by (simp add: request_step_def)

lemma request_ok_accept:
  assumes ok: "request_ok V r" and qid: "qid \<in> q_id ` set (r_quotes r)"
  shows "request_ok V (r\<lparr>r_quotes := map (mark_accepted qid) (r_quotes r), r_accepted := Some qid\<rparr>)"
proof -
  from qid obtain q where q: "q \<in> set (r_quotes r)" "q_id q = qid" by auto
  then have "q_id (mark_accepted qid q) = qid \<and> q_status (mark_accepted qid q) = QAccepted"
    by (simp add: mark_accepted_def)
  with q(1) have "accepted_ok (Some qid) (map (mark_accepted qid) (r_quotes r))"
    unfolding accepted_ok_def by auto
  with ok show ?thesis by (simp add: request_ok_def quotes_ok_map)
qed

lemma request_ok_submit:
  assumes ok: "request_ok V r" and m: "quote_matches r f" and qid: "qid \<notin> q_id ` set (r_quotes r)"
  shows "request_ok ((f, x) # V) (r\<lparr>r_quotes := map (supersede (qf_maker f)) (r_quotes r)
         @ [new_quote r f x label now ledger qid]\<rparr>)"
proof -
  let ?qs = "map (supersede (qf_maker f)) (r_quotes r)" and ?n = "new_quote r f x label now ledger qid"
  have "request_ok ((f, x) # V) (r\<lparr>r_quotes := ?qs\<rparr>)"
    by (rule request_ok_map, rule request_ok_more [OF ok]) auto
  then have old: "quotes_ok ((f, x) # V) r ?qs" "accepted_ok (r_accepted r) ?qs"
    by (simp_all add: request_ok_def)
  have n: "q_id ?n = qid" "q_maker ?n = qf_maker f" "q_status ?n = QLive" "q_request ?n = r_id r"
    "q_out ?n = qf_amount_out f" "q_signed_xdr ?n = x" by (simp_all add: new_quote_def)
  have nf: "fields_for r (public_quote.truncate ?n) = f"
    using m by (simp add: quote_matches_def new_quote_def fields_for_def public_quote.truncate_def)
  have "set (map q_id ?qs) = set (map q_id (r_quotes r))"
    using map_ids [of "supersede (qf_maker f)" "r_quotes r"] by simp
  with qid have fresh: "qid \<notin> set (map q_id ?qs)" by simp
  have nomaker: "qf_maker f \<notin> q_maker ` set (filter (\<lambda>q. q_status q = QLive) ?qs)"
    by (auto simp: supersede_def)
  have "quotes_ok ((f, x) # V) r (?qs @ [?n])"
    unfolding quotes_ok_def
  proof (intro conjI ballI)
    show "distinct (map q_id (?qs @ [?n]))" using old(1) fresh n(1) by (simp add: quotes_ok_def)
    have "distinct (map q_maker (filter (\<lambda>q. q_status q = QLive) ?qs))" using old(1) by (simp add: quotes_ok_def)
    with nomaker n show "distinct (map q_maker (filter (\<lambda>q. q_status q = QLive) (?qs @ [?n])))"
      by (simp only: filter_append map_append distinct_append) simp
    fix q
    assume "q \<in> set (?qs @ [?n])"
    then consider "q \<in> set ?qs" | "q = ?n" by auto
    then have "q_request q = r_id r \<and> 0 < q_out q \<and> q_maker q \<noteq> r_taker r \<and>
        (fields_for r (public_quote.truncate q), q_signed_xdr q) \<in> set ((f, x) # V)"
    proof cases
      case 1
      with old(1) show ?thesis unfolding quotes_ok_def by blast
    next
      case 2
      with n nf m show ?thesis by (simp add: quote_matches_def)
    qed
    then show "q_request q = r_id r" "0 < q_out q" "q_maker q \<noteq> r_taker r"
      "(fields_for r (public_quote.truncate q), q_signed_xdr q) \<in> set ((f, x) # V)" by blast+
  qed
  moreover have "accepted_ok (r_accepted r) (?qs @ [?n])"
    using old(2) by (auto simp: accepted_ok_def)
  ultimately show ?thesis by (simp add: request_ok_def)
qed

lemma request_step_submit:
  "request_step r (r\<lparr>r_quotes := map (supersede mk) (r_quotes r) @ [n]\<rparr>)"
  by (simp add: request_step_def nth_append)

definition store_fine :: "(quote_fields \<times> string) list \<Rightarrow> rfq_store \<Rightarrow> bool" where
  "store_fine V s \<longleftrightarrow> store_ok s \<and> jm_ok (rs_heap s) \<and> objs_ok V s"

text \<open>A piece that keeps the store fine and only steps its objects.\<close>

definition piece_ok :: "(quote_fields \<times> string) list \<Rightarrow> rfq_store \<Rightarrow> rfq_store \<Rightarrow> bool" where
  "piece_ok V s s' \<longleftrightarrow> store_fine V s' \<and> heap_step s s'"

lemma piece_ok_refl: "store_fine V s \<Longrightarrow> piece_ok V s s"
  by (simp add: piece_ok_def)

lemma piece_ok_trans: "piece_ok V s s' \<Longrightarrow> piece_ok V s' s'' \<Longrightarrow> piece_ok V s s''"
  unfolding piece_ok_def by (blast intro: heap_step_trans)

lemma heap_simps [simp]:
  "rs_heap (emit ev s) = rs_heap s" "rs_heap (drop_id i s) = rs_heap s"
  "rs_heap (put_obj r s) = jm_set (r_id r) r (rs_heap s)"
  by (simp_all add: emit_def drop_id_def put_obj_def)

lemma store_fine_emit: "store_fine V s \<Longrightarrow> store_fine V (emit ev s)"
  by (simp add: store_fine_def store_ok_emit objs_ok_def)

lemma store_fine_drop: "store_fine V s \<Longrightarrow> store_fine V (drop_id i s)"
  by (simp add: store_fine_def store_ok_drop objs_ok_def)

lemma store_fine_put:
  "store_fine V s \<Longrightarrow> request_ok V r \<Longrightarrow> r_token_in r \<noteq> r_token_out r \<Longrightarrow> 0 < r_amount_in r \<Longrightarrow>
    store_fine V (put_obj r s)"
  by (simp add: store_fine_def store_ok_put objs_ok_def jm.ok_put)

lemma store_fine_obj:
  "store_fine V s \<Longrightarrow> obj s i = Some r \<Longrightarrow>
    r_id r = i \<and> request_ok V r \<and> r_token_in r \<noteq> r_token_out r \<and> 0 < r_amount_in r"
  by (simp add: store_fine_def objs_ok_def store_ok_def)

lemma piece_put:
  assumes "store_fine V s" "obj s (r_id r) = Some r" "request_step r r'" "request_ok V r'"
  shows "piece_ok V s (put_obj r' s)"
proof -
  have id: "r_id r' = r_id r" using assms(3) by (simp add: request_step_def)
  from store_fine_obj [OF assms(1,2)] assms(3) have "r_token_in r' \<noteq> r_token_out r'" "0 < r_amount_in r'"
    by (simp_all add: request_step_def)
  moreover have "heap_step s (put_obj r' s)" using assms(2,3) id by (intro heap_step_put) simp_all
  ultimately show ?thesis using assms(1,4) by (simp add: piece_ok_def store_fine_put)
qed

lemma piece_emit: "piece_ok V s s' \<Longrightarrow> piece_ok V s (emit ev s')"
  by (simp add: piece_ok_def store_fine_emit heap_step_def)

lemma piece_drop: "piece_ok V s s' \<Longrightarrow> piece_ok V s (drop_id i s')"
  by (simp add: piece_ok_def store_fine_drop heap_step_def)

lemma request_step_status: "r_status r = Open \<or> st \<noteq> Open \<Longrightarrow> request_step r (r\<lparr>r_status := st\<rparr>)"
  by (auto simp: request_step_def)

lemma piece_status:
  assumes "store_fine V s" "obj s i = Some r" "r_status r = Open \<or> st \<noteq> Open"
  shows "piece_ok V s (put_obj (r\<lparr>r_status := st\<rparr>) s)"
proof -
  from store_fine_obj [OF assms(1,2)] have "r_id r = i" "request_ok V r" by simp_all
  with assms show ?thesis by (intro piece_put [of V s r]) (simp_all add: request_step_status)
qed

lemma piece_close: "store_fine V s \<Longrightarrow> st \<noteq> Open \<Longrightarrow> piece_ok V s (store_close i st s)"
  by (auto simp: store_close_def store_get_def piece_ok_refl piece_emit piece_status split: option.split)

lemma piece_expire:
  assumes "store_fine V s" "obj s i = Some r"
  shows "piece_ok V s (put_obj (expire_quotes now ledger r) s)"
proof -
  from store_fine_obj [OF assms] have r: "r_id r = i" "request_ok V r" by simp_all
  with assms show ?thesis
    unfolding expire_quotes_def
    by (intro piece_put [of V s r]) (simp_all add: request_step_map request_ok_map)
qed

lemma piece_get: "store_fine V s \<Longrightarrow> piece_ok V s (fst (rfq_get c s i now))"
  by (auto simp: rfq_get_def require_request_def store_get_def Let_def piece_ok_refl piece_expire
      split: sum.split option.split if_splits)

lemma piece_cancel: "store_fine V s \<Longrightarrow> piece_ok V s (fst (rfq_cancel c s i))"
  by (auto simp: rfq_cancel_def Let_def piece_ok_refl piece_close split: sum.split)

lemma piece_hash:
  assumes "store_fine V s" "obj s i = Some r"
  shows "piece_ok V s (put_obj (r\<lparr>r_hash := Some h\<rparr>) s)"
proof -
  from store_fine_obj [OF assms] have r: "r_id r = i" "request_ok V r" by simp_all
  moreover have "request_step r (r\<lparr>r_hash := Some h\<rparr>)" by (simp add: request_step_def)
  ultimately show ?thesis using assms by (intro piece_put [of V s r]) simp_all
qed

lemma piece_settle:
  assumes "store_fine V s"
  shows "piece_ok V s (fst (rfq_mark_settled c s i h))"
proof (cases "require_request c s i")
  case (Inr r)
  then have o: "obj s i = Some r" by (auto simp: require_request_def store_get_def split: if_splits option.splits)
  define s1 where "s1 = (if r_status r = Open then store_close i Settled s
      else if r_status r = Accepted then put_obj (r\<lparr>r_status := Settled\<rparr>) s else s)"
  have p: "piece_ok V s s1"
    using assms o by (simp add: s1_def piece_close piece_status piece_ok_refl)
  then have fine: "store_fine V s1" by (simp add: piece_ok_def)
  from p o obtain r1 where r1: "obj s1 i = Some r1" by (auto simp: piece_ok_def heap_step_def)
  from piece_ok_trans [OF p piece_hash [OF fine r1, of h]] Inr r1 show ?thesis
    by (simp add: rfq_mark_settled_def Let_def s1_def [symmetric])
qed (use assms in \<open>simp add: rfq_mark_settled_def piece_ok_refl\<close>)

lemma piece_sweep_one: "store_fine V s \<Longrightarrow> piece_ok V s (sweep_one now i s)"
  by (auto simp: sweep_one_def Let_def piece_ok_refl piece_emit piece_drop piece_status split: option.split)

lemma piece_sweep: "store_fine V s \<Longrightarrow> piece_ok V s (store_sweep now s)"
proof -
  have "store_fine V s \<Longrightarrow> piece_ok V s (foldl (\<lambda>s i. sweep_one now i s) s is)" for s "is"
  proof (induction "is" arbitrary: s)
    case (Cons i "is")
    note one = piece_sweep_one [OF Cons.prems, of now i]
    then have "store_fine V (sweep_one now i s)" by (simp add: piece_ok_def)
    from piece_ok_trans [OF one Cons.IH [OF this]] show ?case by simp
  qed (simp add: piece_ok_refl)
  then show "store_fine V s \<Longrightarrow> piece_ok V s (store_sweep now s)" by (simp add: store_sweep_def)
qed

lemma piece_accept_ledger: "store_fine V s \<Longrightarrow> piece_ok V s (fst (accept_ledger s i qid now ledger))"
  by (auto simp: accept_ledger_def Let_def piece_ok_refl piece_expire split: option.split)

text \<open>What \<open>accept\<close> is about to put into the transaction has been verified.\<close>

lemma accept_ledger_verified:
  assumes "store_fine V s" "accept_ledger s i qid now ledger = (s', Inr (f, x))"
  shows "(f, x) \<in> set V \<and> (\<exists>r. obj s' i = Some r \<and> qid \<in> q_id ` set (r_quotes r))"
proof -
  from assms(2) obtain r q where r: "obj s i = Some r" "s' = put_obj (expire_quotes now (Some ledger) r) s"
    and q: "find_quote (expire_quotes now (Some ledger) r) qid = Some q"
      "f = fields_for (expire_quotes now (Some ledger) r) (public_quote.truncate q)" "x = q_signed_xdr q"
    by (auto simp: accept_ledger_def Let_def split: option.splits if_splits)
  let ?r = "expire_quotes now (Some ledger) r"
  have mem: "q \<in> set (r_quotes ?r)" "q_id q = qid"
    using q(1) by (auto simp: find_quote_def find_Some_iff)
  from store_fine_obj [OF assms(1) r(1)] have "request_ok V ?r"
    by (simp add: expire_quotes_def request_ok_map)
  with mem(1) have "(f, x) \<in> set V"
    unfolding q(2,3) request_ok_def quotes_ok_def by blast
  moreover have "r_id ?r = i" using store_fine_obj [OF assms(1) r(1)] by (simp add: expire_quotes_def)
  ultimately show ?thesis using mem r(2) by auto
qed

lemma piece_accept_finish:
  assumes "store_fine V s" "obj s i = Some r" "qid \<in> q_id ` set (r_quotes r)"
  shows "piece_ok V s (accept_finish s i qid)"
proof -
  let ?r1 = "r\<lparr>r_quotes := map (mark_accepted qid) (r_quotes r), r_accepted := Some qid\<rparr>"
  from store_fine_obj [OF assms(1,2)] have r: "r_id r = i" "request_ok V r" by simp_all
  have ok: "request_ok V ?r1" using r(2) assms(3) by (rule request_ok_accept)
  have st: "request_step r ?r1" by (simp add: request_step_def)
  then have p1: "piece_ok V s (put_obj ?r1 s)"
    using assms(1,2) r(1) ok by (intro piece_put [of V s r]) simp_all
  then have "piece_ok V s (store_close i Accepted (put_obj ?r1 s))"
    by (intro piece_ok_trans [OF p1] piece_close) (simp_all add: piece_ok_def)
  moreover have "request_step r (?r1\<lparr>r_status := Accepted\<rparr>)"
    by (rule request_step_trans [OF st request_step_status]) simp
  then have "piece_ok V s (put_obj (?r1\<lparr>r_status := Accepted\<rparr>) s)"
    using assms(1,2) r(1) ok by (intro piece_put [of V s r]) simp_all
  ultimately show ?thesis using assms(2) by (simp add: accept_finish_def Let_def)
qed

lemma store_fine_more: "store_fine V s \<Longrightarrow> set V \<subseteq> set W \<Longrightarrow> store_fine W s"
  by (auto simp: store_fine_def intro: objs_ok_more)

lemma all_quote_ids_mem: "obj s i = Some r \<Longrightarrow> q \<in> set (r_quotes r) \<Longrightarrow> q_id q \<in> set (all_quote_ids s)"
  by (force simp: all_quote_ids_def obj_def dest: jm_get_mem)

lemma piece_submit_finish:
  assumes "store_fine V s" "obj s i = Some r" "quote_matches r f" "qid \<notin> set (all_quote_ids s)"
  shows "piece_ok ((f, x) # V) s (submit_finish s i f x label now ledger qid)"
proof -
  from store_fine_obj [OF assms(1,2)] have r: "r_id r = i" "request_ok V r" by simp_all
  have "qid \<notin> q_id ` set (r_quotes r)" using assms(4) all_quote_ids_mem [OF assms(2)] by auto
  from request_ok_submit [OF r(2) assms(3) this] show ?thesis
    using assms(1,2) r(1)
    by (simp add: submit_finish_def)
      (intro piece_put [of _ s r], auto simp: request_step_submit intro: store_fine_more)
qed

lemma piece_insert:
  assumes "store_fine V s" "obj s (r_id r) = None" "r_quotes r = []" "r_accepted r = None"
    and "r_token_in r \<noteq> r_token_out r" "0 < r_amount_in r"
  shows "piece_ok V s (store_insert r s)"
proof -
  have "request_ok V r" using assms(3,4) by (simp add: request_ok_def quotes_ok_def accepted_ok_def)
  moreover have "rs_heap (store_insert r s) = jm_set (r_id r) r (rs_heap s)"
    by (auto simp: store_insert_def Let_def make_room_def split: option.split)
  ultimately show ?thesis
    using assms by (auto simp: piece_ok_def store_fine_def store_insert_ok objs_ok_def jm.ok_put heap_step_insert)
qed

subsection \<open>The system's invariant\<close>

lemma sys_ok_iff: "sys_ok y \<longleftrightarrow> store_fine (sy_verified y) (sy_store y) \<and> jm_ok (sy_flights y) \<and>
    (\<forall>n f. jm_get (sy_flights y) n = Some f \<longrightarrow> flight_ok y f) \<and> set (sy_settle y) \<subseteq> set (sy_verified y)"
  by (auto simp: sys_ok_def store_fine_def objs_ok_def)

lemma sys_ok_flight: "sys_ok y \<Longrightarrow> jm_get (sy_flights y) n = Some f \<Longrightarrow> flight_ok y f"
  by (simp add: sys_ok_iff)

lemma sys_ok_fine: "sys_ok y \<Longrightarrow> store_fine (sy_verified y) (sy_store y)"
  by (simp add: sys_ok_iff)

lemma sys_ok_settled: "sys_ok y \<Longrightarrow> set (sy_settle y) \<subseteq> set (sy_verified y)"
  by (simp add: sys_ok_iff)

lemma flight_ok_step:
  assumes "flight_ok y f" "heap_step (sy_store y) (sy_store y')" "set (sy_verified y) \<subseteq> set (sy_verified y')"
  shows "flight_ok y' f"
proof -
  have o: "\<exists>r'. obj (sy_store y') i = Some r' \<and> qid \<in> q_id ` set (r_quotes r')"
    if "\<exists>r. obj (sy_store y) i = Some r \<and> qid \<in> q_id ` set (r_quotes r)" for i qid
    using that assms(2) request_step_ids unfolding heap_step_def by blast
  have m: "\<exists>r'. obj (sy_store y') i = Some r' \<and> quote_matches r' g"
    if a: "\<exists>r. obj (sy_store y) i = Some r \<and> quote_matches r g" for i g
  proof -
    from a obtain r where r: "obj (sy_store y) i = Some r" "quote_matches r g" by blast
    with assms(2) obtain r' where r': "obj (sy_store y') i = Some r'" "request_step r r'"
      unfolding heap_step_def by blast
    with r(2) have "quote_matches r' g" by (simp add: quote_matches_def request_step_def)
    with r' show ?thesis by blast
  qed
  show ?thesis
  proof (cases f)
    case FAccept
    with assms(1) o show ?thesis by simp
  next
    case FAcceptBuild
    with assms(1,3) o show ?thesis by auto
  next
    case FSubmit
    with assms(1) m show ?thesis by simp
  next
    case FSubmitBuild
    with assms(1) m show ?thesis by simp
  qed (use assms(1) in simp)
qed

text \<open>A transition whose store piece is fine, that keeps the flights or lands one, and starts
  at most one well-formed flight, keeps the invariant.\<close>

lemma sys_ok_update:
  assumes "sys_ok y" "piece_ok (sy_verified y') (sy_store y) (sy_store y')"
    and "set (sy_verified y) \<subseteq> set (sy_verified y')" "set (sy_settle y') \<subseteq> set (sy_verified y')"
    and "sy_flights y' = sy_flights y \<or> sy_flights y' = jm_delete n (sy_flights y) \<or>
      (\<exists>f. sy_flights y' = jm_set n f (sy_flights y) \<and> flight_ok y' f)"
  shows "sys_ok y'"
proof -
  have old: "flight_ok y' g" if "jm_get (sy_flights y) k = Some g" for k g
    using assms(1-3) that by (auto simp: sys_ok_iff piece_ok_def intro: flight_ok_step)
  have "jm_ok (sy_flights y')"
    using assms(1,5) by (auto simp: sys_ok_iff jm.ok_put jm.ok_del)
  moreover have "flight_ok y' g" if "jm_get (sy_flights y') k = Some g" for k g
    using assms(5) that old by (auto simp: jm.get_put jm.get_del split: if_splits)
  ultimately show ?thesis
    using assms(2,4) by (auto simp: sys_ok_iff piece_ok_def)
qed

lemma launch_ok:
  assumes "sys_ok y" "flight_ok y f"
  shows "sys_ok (launch n f y)"
proof (cases "jm_get (sy_flights y) n = None")
  case True
  have "flight_ok (y\<lparr>sy_flights := g\<rparr>) f" for g
    using assms(2) by (cases f) simp_all
  then have "sys_ok (y\<lparr>sy_flights := jm_set n f (sy_flights y)\<rparr>)"
    by (intro sys_ok_update [OF assms(1), of _ n])
      (use assms(1) in \<open>auto simp: sys_ok_fine piece_ok_refl dest: sys_ok_settled\<close>)
  with True show ?thesis by (simp add: launch_def)
qed (use assms(1) in \<open>auto simp: launch_def\<close>)

lemma sys_simps [simp]:
  "sy_store (land_flight n y) = sy_store y" "sy_verified (land_flight n y) = sy_verified y"
  "sy_settle (land_flight n y) = sy_settle y" "sy_flights (land_flight n y) = jm_delete n (sy_flights y)"
  "sy_store (on_flight n f y) = sy_store y" "sy_verified (on_flight n f y) = sy_verified y"
  "sy_settle (on_flight n f y) = sy_settle y" "sy_flights (on_flight n f y) = jm_set n f (sy_flights y)"
  "sy_store (with_store s y) = s" "sy_verified (with_store s y) = sy_verified y"
  "sy_settle (with_store s y) = sy_settle y" "sy_flights (with_store s y) = sy_flights y"
  by (simp_all add: land_flight_def on_flight_def with_store_def)

lemma require_obj: "require_request c s i = Inr r \<Longrightarrow> obj s i = Some r"
  by (auto simp: require_request_def store_get_def split: if_splits option.splits)

lemma create_check_ok:
  "create_check c s inp now now' = Inr ttl \<Longrightarrow>
    ci_token_in inp \<noteq> ci_token_out inp \<and> 0 < ci_amount inp \<and> 5 \<le> ttl \<and> ttl \<le> max_request_ttl"
  by (auto simp: create_check_def clamp_ttl_def max_request_ttl_def Let_def split: if_splits)

lemma submit_begin_ok:
  "submit_begin c dec s i x now = Inr f \<Longrightarrow> \<exists>r. obj s i = Some r \<and> quote_matches r f"
  by (auto simp: submit_begin_def quote_matches_def Let_def split: sum.splits if_splits dest!: require_obj)

lemma find_quote_id: "find_quote r qid = Some q \<Longrightarrow> qid \<in> q_id ` set (r_quotes r)"
  by (auto simp: find_quote_def find_Some_iff)

lemma accept_begin_ok:
  "accept_begin c s i qid = Inr u \<Longrightarrow> \<exists>r. obj s i = Some r \<and> qid \<in> q_id ` set (r_quotes r)"
  by (auto simp: accept_begin_def split: sum.splits if_splits option.splits dest!: require_obj find_quote_id)

lemma submit_ledger_ok:
  "submit_ledger f ledger = Inr u \<Longrightarrow> ledger + min_quote_ttl \<le> qf_expiry f \<and> qf_expiry f \<le> ledger + max_quote_ttl"
  by (auto simp: submit_ledger_def split: if_splits)

text \<open>A transition that only changes the store.\<close>

lemma sys_ok_store:
  "sys_ok y \<Longrightarrow> piece_ok (sy_verified y) (sy_store y) s \<Longrightarrow> sys_ok (with_store s y)"
  by (rule sys_ok_update [of y _ 0]) (auto dest: sys_ok_settled)

lemma sys_ok_land: "sys_ok y \<Longrightarrow> sys_ok (land_flight n y)"
  by (rule sys_ok_update [of y _ n]) (auto simp: piece_ok_refl sys_ok_fine dest: sys_ok_settled)

lemma exec_created:
  assumes "sys_ok y"
  shows "sys_ok (rfq_exec c meta dec (ACreated n ledger reference now i) y)"
proof (cases "\<exists>inp ttl. jm_get (sy_flights y) n = Some (FCreate inp ttl) \<and> obj (sy_store y) i = None")
  case True
  then obtain inp ttl where f: "jm_get (sy_flights y) n = Some (FCreate inp ttl)" "obj (sy_store y) i = None" by blast
  have "flight_ok y (FCreate inp ttl)" by (rule sys_ok_flight [OF assms f(1)])
  with f(2) assms have "piece_ok (sy_verified y) (sy_store y)
      (store_insert (new_request meta inp ttl ledger reference now i) (sy_store y))"
    by (intro piece_insert) (simp_all add: new_request_def sys_ok_iff)
  then show ?thesis using f assms by (simp add: sys_ok_land sys_ok_store)
qed (use assms in \<open>auto split: option.split flight.split\<close>)

lemma exec_accept_ledger:
  assumes "sys_ok y"
  shows "sys_ok (rfq_exec c meta dec (AAcceptLedger n now ledger) y)"
proof (cases "\<exists>i qid. jm_get (sy_flights y) n = Some (FAccept i qid)")
  case True
  then obtain i qid where f: "jm_get (sy_flights y) n = Some (FAccept i qid)" by blast
  obtain s res where s: "accept_ledger (sy_store y) i qid now ledger = (s, res)" by fastforce
  have fine: "store_fine (sy_verified y) (sy_store y)" using assms by (simp add: sys_ok_iff)
  have p: "piece_ok (sy_verified y) (sy_store y) s"
    using piece_accept_ledger [OF fine, of i qid now ledger] s by simp
  show ?thesis
  proof (cases res)
    case (Inl e)
    with f s p assms show ?thesis by (simp add: sys_ok_land sys_ok_store)
  next
    case (Inr fx)
    obtain g x where fx: "fx = (g, x)" by fastforce
    from accept_ledger_verified [OF fine, of i qid now ledger s g x] s Inr fx
    have v: "(g, x) \<in> set (sy_verified y) \<and> (\<exists>r. obj s i = Some r \<and> qid \<in> q_id ` set (r_quotes r))" by simp
    have "sys_ok (on_flight n (FAcceptBuild i qid g x) (with_store s y))"
      by (rule sys_ok_update [OF assms, of _ n]) (use p v assms in \<open>auto simp: sys_ok_iff\<close>)
    with f s Inr fx show ?thesis by simp
  qed
qed (use assms in \<open>auto split: option.split flight.split\<close>)

lemma exec_accept_built:
  assumes "sys_ok y"
  shows "sys_ok (rfq_exec c meta dec (AAcceptBuilt n) y)"
proof (cases "\<exists>i qid f x. jm_get (sy_flights y) n = Some (FAcceptBuild i qid f x)")
  case True
  then obtain i qid f x where f: "jm_get (sy_flights y) n = Some (FAcceptBuild i qid f x)" by blast
  from assms have fl: "flight_ok y (FAcceptBuild i qid f x)" by (rule sys_ok_flight) fact
  then obtain r where r: "obj (sy_store y) i = Some r" "qid \<in> q_id ` set (r_quotes r)" by auto
  have "piece_ok (sy_verified y) (sy_store y) (accept_finish (sy_store y) i qid)"
    using assms r by (intro piece_accept_finish) (simp_all add: sys_ok_iff)
  then have "sys_ok (land_flight n (with_store (accept_finish (sy_store y) i qid) (y\<lparr>sy_settle := (f, x) # sy_settle y\<rparr>)))"
    by (intro sys_ok_update [OF assms, of _ n]) (use fl assms in \<open>auto simp: sys_ok_iff\<close>)
  with f show ?thesis by simp
qed (use assms in \<open>auto split: option.split flight.split\<close>)

lemma exec_submit_ledger:
  assumes "sys_ok y"
  shows "sys_ok (rfq_exec c meta dec (ASubmitLedger n ledger) y)"
proof (cases "\<exists>i f x now. jm_get (sy_flights y) n = Some (FSubmit i f x now)")
  case True
  then obtain i f x now where f: "jm_get (sy_flights y) n = Some (FSubmit i f x now)" by blast
  from assms have fl: "flight_ok y (FSubmit i f x now)" by (rule sys_ok_flight) fact
  show ?thesis
  proof (cases "submit_ledger f ledger")
    case (Inl e)
    with f assms show ?thesis by (simp add: sys_ok_land)
  next
    case (Inr u)
    have "sys_ok (on_flight n (FSubmitBuild i f x now ledger) y)"
      by (rule sys_ok_update [OF assms, of _ n])
        (use fl submit_ledger_ok [OF Inr] assms in \<open>auto simp: sys_ok_iff piece_ok_refl\<close>)
    with f Inr show ?thesis by simp
  qed
qed (use assms in \<open>auto split: option.split flight.split\<close>)

lemma exec_submit_built:
  assumes "sys_ok y"
  shows "sys_ok (rfq_exec c meta dec (ASubmitBuilt n label qid) y)"
proof (cases "\<exists>i f x now ledger. jm_get (sy_flights y) n = Some (FSubmitBuild i f x now ledger) \<and>
    qid \<notin> set (all_quote_ids (sy_store y))")
  case True
  then obtain i f x now ledger where f: "jm_get (sy_flights y) n = Some (FSubmitBuild i f x now ledger)"
    "qid \<notin> set (all_quote_ids (sy_store y))" by blast
  have "flight_ok y (FSubmitBuild i f x now ledger)" by (rule sys_ok_flight [OF assms f(1)])
  then obtain r where r: "obj (sy_store y) i = Some r" "quote_matches r f" by auto
  have "piece_ok ((f, x) # sy_verified y) (sy_store y) (submit_finish (sy_store y) i f x label now ledger qid)"
    using assms r f(2) by (intro piece_submit_finish) (simp_all add: sys_ok_iff)
  then have "sys_ok (land_flight n (with_store (submit_finish (sy_store y) i f x label now ledger qid)
      (y\<lparr>sy_verified := (f, x) # sy_verified y\<rparr>)))"
    by (intro sys_ok_update [OF assms, of _ n]) (use assms in \<open>auto simp: sys_ok_iff\<close>)
  with f show ?thesis by simp
qed (use assms in \<open>auto split: option.split flight.split\<close>)

lemma sys_ok_exec: "sys_ok y \<Longrightarrow> sys_ok (rfq_exec c meta dec a y)"
proof (cases a)
  case (ACreate n inp now now')
  assume "sys_ok y"
  with ACreate show ?thesis
    by (cases "create_check c (sy_store y) inp now now'") (simp_all add: launch_ok create_check_ok)
next
  case (AAccept n i qid)
  assume "sys_ok y"
  with AAccept accept_begin_ok show ?thesis
    by (cases "accept_begin c (sy_store y) i qid") (simp_all add: launch_ok)
next
  case (ASubmit n i x now)
  assume "sys_ok y"
  with ASubmit submit_begin_ok show ?thesis
    by (cases "submit_begin c dec (sy_store y) i x now") (simp_all add: launch_ok)
next
  case (ACreated n ledger reference now i)
  assume "sys_ok y"
  with ACreated show ?thesis by (simp only: exec_created)
next
  case (AAcceptLedger n now ledger)
  assume "sys_ok y"
  with AAcceptLedger show ?thesis by (simp only: exec_accept_ledger)
next
  case (AAcceptBuilt n)
  assume "sys_ok y"
  with AAcceptBuilt show ?thesis by (simp only: exec_accept_built)
next
  case (ASubmitLedger n ledger)
  assume "sys_ok y"
  with ASubmitLedger show ?thesis by (simp only: exec_submit_ledger)
next
  case (ASubmitBuilt n label qid)
  assume "sys_ok y"
  with ASubmitBuilt show ?thesis by (simp only: exec_submit_built)
qed (simp_all add: sys_ok_land sys_ok_store sys_ok_fine piece_cancel piece_settle piece_get piece_sweep)

subsection \<open>Reachable systems\<close>

lemma sys_ok_init: "sys_ok sys_init"
proof -
  have h: "rs_heap store_init = jm_empty" by (simp add: store_init_def)
  show ?thesis
    by (simp add: sys_ok_def sys_init_def store_init_ok h obj_def jm.get_empty jm.ok_empty)
qed

lemma rfq_reach_ok: "rfq_reach c meta dec y \<Longrightarrow> sys_ok y"
  by (induction rule: rfq_reach.induct) (simp_all only: sys_ok_init sys_ok_exec)

lemma heap_step_piece: "piece_ok V s s' \<Longrightarrow> heap_step s s'"
  by (simp add: piece_ok_def)

lemma heap_step_exec:
  assumes "sys_ok y"
  shows "heap_step (sy_store y) (sy_store (rfq_exec c meta dec a y))"
proof -
  note fine = sys_ok_fine [OF assms]
  note flights = sys_ok_flight [OF assms]
  have launch: "sy_store (launch n f y) = sy_store y" for n f by (simp add: launch_def)
  show ?thesis
  proof (cases a)
    case (ACreated n ledger reference now i)
    have "heap_step (sy_store y) (store_insert r (sy_store y))" if "obj (sy_store y) (r_id r) = None" for r
      using that fine by (intro heap_step_insert) (simp_all add: store_fine_def)
    with ACreated show ?thesis by (auto simp: new_request_def split: option.split flight.split)
  next
    case (AAcceptLedger n now ledger)
    have "heap_step (sy_store y) s" if "accept_ledger (sy_store y) i qid now ledger = (s, e)" for i qid s e
      using heap_step_piece [OF piece_accept_ledger [OF fine, of i qid now ledger]] that by simp
    with AAcceptLedger show ?thesis by (auto split: option.split flight.split sum.split prod.split)
  next
    case (AAcceptBuilt n)
    have "heap_step (sy_store y) (accept_finish (sy_store y) i qid)"
      if "jm_get (sy_flights y) n = Some (FAcceptBuild i qid f x)" for i qid f x
      using flights [OF that] fine by (auto intro!: heap_step_piece piece_accept_finish)
    with AAcceptBuilt show ?thesis by (auto split: option.split flight.split)
  next
    case (ASubmitBuilt n label qid)
    have "heap_step (sy_store y) (submit_finish (sy_store y) i f x label now ledger qid)"
      if "jm_get (sy_flights y) n = Some (FSubmitBuild i f x now ledger)" "qid \<notin> set (all_quote_ids (sy_store y))"
      for i f x now ledger
      using flights [OF that(1)] fine that(2) by (auto intro!: heap_step_piece piece_submit_finish)
    with ASubmitBuilt show ?thesis by (auto split: option.split flight.split)
  qed (auto simp: launch split: option.split flight.split sum.split
      intro: heap_step_piece [OF piece_cancel [OF fine]] heap_step_piece [OF piece_settle [OF fine]]
        heap_step_piece [OF piece_get [OF fine]] heap_step_piece [OF piece_sweep [OF fine]])
qed

section \<open>The properties\<close>

text \<open>
  C1. In every interleaving of creates, accepts, submissions, cancellations, settlements, reads
  and sweeps, a settlement transaction is built only for fields and a signed entry the host has
  accepted in an enforce-mode build, and every stored quote is one of those: its fields, rebuilt
  from the request and the quote, are exactly the verified ones, it pays something, and its
  maker is not the taker.
\<close>

theorem rfq_settles_verified:
  assumes "rfq_reach c meta dec y"
  shows "set (sy_settle y) \<subseteq> set (sy_verified y) \<and>
    (\<forall>i r q. obj (sy_store y) i = Some r \<longrightarrow> q \<in> set (r_quotes r) \<longrightarrow>
      (fields_for r (public_quote.truncate q), q_signed_xdr q) \<in> set (sy_verified y) \<and>
      0 < q_out q \<and> q_maker q \<noteq> r_taker r)"
  using rfq_reach_ok [OF assms] by (auto simp: sys_ok_def request_ok_def quotes_ok_def)

text \<open>
  C23. In every reachable state the quotes of a request carry distinct ids and belong to it, a
  maker has at most one live quote on it, and an accepted id names a quote that is accepted.
\<close>

theorem rfq_one_live_per_maker:
  assumes "rfq_reach c meta dec y" "obj (sy_store y) i = Some r"
  shows "distinct (map q_id (r_quotes r)) \<and> (\<forall>q\<in>set (r_quotes r). q_request q = i) \<and>
    distinct (map q_maker (filter (\<lambda>q. q_status q = QLive) (r_quotes r))) \<and>
    (\<forall>qid. r_accepted r = Some qid \<longrightarrow> (\<exists>q\<in>set (r_quotes r). q_id q = qid \<and> q_status q = QAccepted))"
  using rfq_reach_ok [OF assms(1)] assms(2)
  by (auto simp: sys_ok_def request_ok_def quotes_ok_def accepted_ok_def store_ok_def)

text \<open>
  C35. Whatever piece of whatever handler runs next, a request object keeps its taker, tokens,
  amount and deadline, a closed request is never open again, quotes are only appended, nothing
  of a quote but its status changes, no quote becomes live again, and an accepted one stays
  accepted.
\<close>

theorem rfq_lifecycle:
  assumes "rfq_reach c meta dec y" "obj (sy_store y) i = Some r"
  shows "\<exists>r'. obj (sy_store (rfq_exec c meta dec a y)) i = Some r' \<and> request_step r r'"
  using heap_step_exec [OF rfq_reach_ok [OF assms(1)], of c meta dec a] assms(2) by (simp add: heap_step_def)

lemma accept_ledger_Inr:
  assumes "accept_ledger s i qid now ledger = (s', Inr (f, x))"
  obtains r q where "obj s i = Some r" "s' = put_obj (expire_quotes now (Some ledger) r) s"
    "find_quote (expire_quotes now (Some ledger) r) qid = Some q" "q_status q = QLive"
    "f = fields_for (expire_quotes now (Some ledger) r) (public_quote.truncate q)" "x = q_signed_xdr q"
  using assms by (auto simp: accept_ledger_def Let_def split: option.splits if_splits)

lemma expired_live:
  assumes "find_quote (expire_quotes now (Some ledger) r) qid = Some q" "q_status q = QLive"
  shows "ledger < q_expiry_ledger q \<and> now < q_expires_at q"
proof -
  from assms(1) have "q \<in> set (map (expire_quote now (Some ledger)) (r_quotes r))"
    by (auto simp: find_quote_def find_Some_iff expire_quotes_def)
  with assms(2) show ?thesis by (auto simp: expire_quote_def split: if_splits)
qed

text \<open>
  An accept that no other handler interrupts settles a quote that is unexpired at the ledger
  it read, and leaves the request accepted with that quote, the only one whose status became
  accepted, and no live quote; a second accept of the same request is then refused with 409.
\<close>

theorem accept_uninterrupted:
  assumes "rfq_reach c meta dec y" "accept_begin c (sy_store y) i qid = Inr ()"
    and "accept_ledger (sy_store y) i qid now ledger = (s, Inr (f, x))"
  shows "ledger < qf_expiry f \<and>
    (\<exists>r. obj (accept_finish s i qid) i = Some r \<and> r_status r = Accepted \<and> r_accepted r = Some qid \<and>
      (\<forall>q\<in>set (r_quotes r). q_status q \<noteq> QLive) \<and>
      (\<exists>q\<in>set (r_quotes r). q_id q = qid \<and> q_status q = QAccepted \<and>
        f = fields_for r (public_quote.truncate q))) \<and>
    accept_begin c (accept_finish s i qid) i qid' = Inl (RequestIs Accepted)"
proof -
  from assms(3) obtain r q where r: "obj (sy_store y) i = Some r"
    and s: "s = put_obj (expire_quotes now (Some ledger) r) (sy_store y)"
    and q: "find_quote (expire_quotes now (Some ledger) r) qid = Some q" "q_status q = QLive"
    and f: "f = fields_for (expire_quotes now (Some ledger) r) (public_quote.truncate q)"
    by (rule accept_ledger_Inr)
  define r1 where "r1 = expire_quotes now (Some ledger) r"
  have ok: "store_ok (sy_store y)" using rfq_reach_ok [OF assms(1)] by (simp add: sys_ok_def)
  with r have id: "r_id r = i" by (simp add: store_ok_def)
  then have id1: "r_id r1 = i" "r_status r1 = r_status r" by (simp_all add: r1_def expire_quotes_def)
  from assms(2) r have en: "c \<noteq> ''''" "i \<in> set (rs_live (sy_store y))" "r_status r = Open \<or> r_status r = Expired"
    by (auto simp: accept_begin_def require_request_def store_get_def split: if_splits option.splits sum.splits)
  let ?r2 = "r1\<lparr>r_quotes := map (mark_accepted qid) (r_quotes r1), r_accepted := Some qid, r_status := Accepted\<rparr>"
  have fin: "obj (accept_finish s i qid) i = Some ?r2" "i \<in> set (rs_live (accept_finish s i qid))"
    using en id1 by (auto simp: accept_finish_def s r1_def [symmetric] store_close_def store_get_def Let_def)
  have "q \<in> set (r_quotes r1)" "q_id q = qid"
    using q(1) by (auto simp: find_quote_def find_Some_iff r1_def)
  then have "\<exists>q\<in>set (r_quotes ?r2). q_id q = qid \<and> q_status q = QAccepted \<and> f = fields_for ?r2 (public_quote.truncate q)"
    using f by (intro bexI [of _ "mark_accepted qid q"])
      (simp_all add: mark_accepted_def fields_for_def public_quote.truncate_def r1_def)
  moreover have "\<forall>q\<in>set (r_quotes ?r2). q_status q \<noteq> QLive" by (auto simp: mark_accepted_def)
  moreover have "ledger < qf_expiry f"
    using expired_live [OF q] f by (simp add: fields_for_def public_quote.truncate_def)
  moreover have "accept_begin c (accept_finish s i qid) i qid' = Inl (RequestIs Accepted)"
    using fin en(1) by (simp add: accept_begin_def require_request_def store_get_def)
  ultimately show ?thesis using fin(1) by auto
qed


lemma prepare_fields_Inr:
  assumes "prepare_fields r inp ledger now nonce = Inr f"
  obtains n where "0 \<le> n" "n \<le> max_nav_band"
    "f = \<lparr>qf_maker = pi_maker inp, qf_taker = r_taker r, qf_token_in = r_token_in r,
      qf_token_out = r_token_out r, qf_amount_in = r_amount_in r, qf_amount_out = pi_out inp,
      qf_expiry = ledger + quote_ttl (pi_ttl inp) (ceil_ledgers (r_expires r - now)), qf_nonce = nonce,
      qf_nav_dev = n\<rparr>"
proof -
  define band where "band = (case pi_band inp of
    None \<Rightarrow> Fin (if rr_oracle_on_chain (r_reference r) then of_int default_nav_band else 0) | Some b \<Rightarrow> b)"
  from assms obtain b where "band = Fin b" "of_int \<lfloor>b\<rfloor> = b" "0 \<le> b" "b \<le> of_int max_nav_band"
    and f: "f = \<lparr>qf_maker = pi_maker inp, qf_taker = r_taker r, qf_token_in = r_token_in r,
      qf_token_out = r_token_out r, qf_amount_in = r_amount_in r, qf_amount_out = pi_out inp,
      qf_expiry = ledger + quote_ttl (pi_ttl inp) (ceil_ledgers (r_expires r - now)), qf_nonce = nonce,
      qf_nav_dev = \<lfloor>b\<rfloor>\<rparr>"
    unfolding prepare_fields_def Let_def band_def [symmetric]
    by (cases band) (simp_all add: not_less split: if_splits)
  then have "0 \<le> \<lfloor>b\<rfloor>" "\<lfloor>b\<rfloor> \<le> max_nav_band" by (simp_all add: floor_le_iff)
  then show ?thesis using f by (rule that)
qed

text \<open>
  A quote prepared by the service and signed as it stands is accepted by the submission
  checks for as long as at least six ledgers of its validity remain: the fields pass every
  comparison with the request, the signature's expiry only has to reach the quote's, and the
  window test of the later ledger passes. With the default validity that leaves the whole time
  to the request's deadline and six ledgers more.
\<close>

theorem prepared_quote_submits:
  assumes "prepare_check c s i inp now = Inr r" "prepare_fields r inp ledger now1 nonce = Inr f"
    and "decode x = Inr d" "de_quote d = f" "de_signed d" "qf_expiry f \<le> de_expiration d"
    and "now2 < r_expires r" "ledger \<le> ledger2" "ledger2 + min_quote_ttl \<le> qf_expiry f"
  shows "submit_begin c decode s i x now2 = Inr f \<and> submit_ledger f ledger2 = Inr () \<and>
    0 \<le> qf_nav_dev f \<and> qf_nav_dev f \<le> max_nav_band \<and>
    ledger + min_quote_ttl \<le> qf_expiry f \<and> qf_expiry f \<le> ledger + max_quote_ttl \<and>
    (pi_ttl inp = None \<longrightarrow> ceil_ledgers (r_expires r - now1) + quote_accept_grace \<le> max_quote_ttl \<longrightarrow>
      ledger + ceil_ledgers (r_expires r - now1) + quote_accept_grace \<le> qf_expiry f)"
proof -
  from assms(1) have r: "require_request c s i = Inr r" "r_status r = Open" "pi_maker inp \<noteq> r_taker r" "0 < pi_out inp"
    by (auto simp: prepare_check_def split: sum.splits if_splits)
  from assms(2) obtain n where nav: "0 \<le> n" "n \<le> max_nav_band"
    and f: "f = \<lparr>qf_maker = pi_maker inp, qf_taker = r_taker r, qf_token_in = r_token_in r,
      qf_token_out = r_token_out r, qf_amount_in = r_amount_in r, qf_amount_out = pi_out inp,
      qf_expiry = ledger + quote_ttl (pi_ttl inp) (ceil_ledgers (r_expires r - now1)), qf_nonce = nonce,
      qf_nav_dev = n\<rparr>"
    by (rule prepare_fields_Inr)
  have ttl: "min_quote_ttl \<le> quote_ttl t k" "quote_ttl t k \<le> max_quote_ttl" for t k
    by (simp_all add: quote_ttl_def min_quote_ttl_def max_quote_ttl_def)
  have subm: "submit_begin c decode s i x now2 = Inr f"
    using r assms(3-7) f by (simp add: submit_begin_def Let_def)
  have win: "submit_ledger f ledger2 = Inr ()"
    using assms(8,9) f ttl [of "pi_ttl inp" "ceil_ledgers (r_expires r - now1)"] by (simp add: submit_ledger_def)
  have grace: "k + quote_accept_grace \<le> quote_ttl None k" if "k + quote_accept_grace \<le> max_quote_ttl" for k
    using that by (simp add: quote_ttl_def)
  show ?thesis
    using subm win nav ttl f grace by simp
qed


section \<open>The properties at a concrete schedule\<close>

text \<open>One request, quotes of two makers, and two accepts whose pieces interleave.\<close>

definition demo_meta :: "string \<Rightarrow> string \<times> int" where
  "demo_meta a = (a, 7)"

definition demo_fields :: "string \<Rightarrow> int \<Rightarrow> quote_fields" where
  "demo_fields maker out = \<lparr>qf_maker = maker, qf_taker = ''T'', qf_token_in = ''A'', qf_token_out = ''B'',
     qf_amount_in = 100, qf_amount_out = out, qf_expiry = 70, qf_nonce = 1, qf_nav_dev = 0\<rparr>"

definition demo_decode :: "string \<Rightarrow> decoded_entry js" where
  "demo_decode x = Inr \<lparr>de_entry = demo_entry, de_signer = x, de_credential_nonce = 1, de_expiration = 70,
     de_signed = True, de_contract = ''C'', de_function = ''settle_quote'', de_quote = demo_fields x 90, de_subs = 0\<rparr>"

definition demo_input :: create_input where
  "demo_input = \<lparr>ci_taker = ''T'', ci_token_in = ''A'', ci_token_out = ''B'', ci_amount = 100, ci_ttl = None\<rparr>"

abbreviation demo_step :: "rfq_sys \<Rightarrow> act \<Rightarrow> rfq_sys" where
  "demo_step y a \<equiv> rfq_exec ''C'' demo_meta demo_decode a y"

definition demo_quoted :: rfq_sys where
  "demo_quoted = foldl demo_step sys_init
     [ACreate 0 demo_input 5000 5000, ACreated 0 50 no_reference 5000 ''r'',
      ASubmit 1 ''r'' ''M'' 6000, ASubmitLedger 1 50, ASubmitBuilt 1 ''m'' ''q1'',
      ASubmit 2 ''r'' ''N'' 6000, ASubmitLedger 2 50, ASubmitBuilt 2 ''n'' ''q2'']"

definition demo_race :: rfq_sys where
  "demo_race = foldl demo_step demo_quoted
     [AAccept 3 ''r'' ''q1'', AAccept 4 ''r'' ''q2'', AAcceptLedger 3 7000 51, AAcceptLedger 4 7000 51,
      AAcceptBuilt 3, AAcceptBuilt 4]"

lemma reach_foldl: "rfq_reach c meta dec y \<Longrightarrow> rfq_reach c meta dec (foldl (\<lambda>y a. rfq_exec c meta dec a y) y acts)"
  by (induction acts arbitrary: y) (auto intro: rfq_reach.step)

lemma demo_quoted_reach: "rfq_reach ''C'' demo_meta demo_decode demo_quoted"
  unfolding demo_quoted_def by (rule reach_foldl [OF rfq_reach.start])

lemma demo_race_reach: "rfq_reach ''C'' demo_meta demo_decode demo_race"
  unfolding demo_race_def by (rule reach_foldl [OF demo_quoted_reach])

lemma demo_quoted_quotes:
  "map_option (\<lambda>r. map (\<lambda>q. (q_id q, q_status q)) (r_quotes r)) (obj (sy_store demo_quoted) ''r'')
    = Some [(''q1'', QLive), (''q2'', QLive)]"
  by code_simp


lemma demo_race_state:
  "map_option (\<lambda>r. (r_status r, r_accepted r, map (\<lambda>q. (q_id q, q_status q)) (r_quotes r))) (obj (sy_store demo_race) ''r'')
    = Some (Accepted, Some ''q2'', [(''q1'', QAccepted), (''q2'', QAccepted)])"
  by code_simp

lemma demo_race_settles: "map (qf_maker \<circ> fst) (sy_settle demo_race) = [''N'', ''M'']"
  by code_simp

text \<open>
  Two accepts of one request can both succeed: each checks the status before it waits for
  the chain, so a schedule in which their pieces interleave ends with two quotes accepted, two
  settlement transactions handed out to the taker, and only one of the two recorded on the
  request.
\<close>

theorem double_accept_reachable:
  "\<exists>y r q1 q2. rfq_reach ''C'' demo_meta demo_decode y \<and> obj (sy_store y) ''r'' = Some r \<and>
    q1 \<in> set (r_quotes r) \<and> q2 \<in> set (r_quotes r) \<and> q_id q1 \<noteq> q_id q2 \<and>
    q_status q1 = QAccepted \<and> q_status q2 = QAccepted \<and> length (sy_settle y) = 2"
proof -
  from demo_race_state obtain r where r: "obj (sy_store demo_race) ''r'' = Some r"
    and qs: "map (\<lambda>q. (q_id q, q_status q)) (r_quotes r) = [(''q1'', QAccepted), (''q2'', QAccepted)]"
    by (cases "obj (sy_store demo_race) ''r''") auto
  from qs obtain q1 q2 where "r_quotes r = [q1, q2]" "q_id q1 = ''q1''" "q_id q2 = ''q2''"
    "q_status q1 = QAccepted" "q_status q2 = QAccepted" by auto
  moreover have "length (map (qf_maker \<circ> fst) (sy_settle demo_race)) = 2"
    unfolding demo_race_settles by simp
  then have "length (sy_settle demo_race) = 2" by simp
  ultimately show ?thesis using r demo_race_reach
    by (intro exI [of _ demo_race] exI [of _ r] exI [of _ q1] exI [of _ q2]) simp
qed

theorem rfq_settles_verified_witness:
  "\<exists>r q. obj (sy_store demo_quoted) ''r'' = Some r \<and> q \<in> set (r_quotes r) \<and>
    (fields_for r (public_quote.truncate q), q_signed_xdr q) \<in> set (sy_verified demo_quoted)"
proof -
  from demo_quoted_quotes obtain r q qs where "obj (sy_store demo_quoted) ''r'' = Some r" "r_quotes r = q # qs"
    by (cases "obj (sy_store demo_quoted) ''r''") auto
  with rfq_settles_verified [OF demo_quoted_reach] show ?thesis by fastforce
qed

theorem rfq_one_live_per_maker_witness:
  "\<exists>r. obj (sy_store demo_race) ''r'' = Some r \<and> distinct (map q_id (r_quotes r))"
proof -
  from demo_race_state obtain r where "obj (sy_store demo_race) ''r'' = Some r"
    by (cases "obj (sy_store demo_race) ''r''") auto
  with rfq_one_live_per_maker [OF demo_race_reach this] show ?thesis by blast
qed

theorem rfq_lifecycle_witness:
  "\<exists>r r'. obj (sy_store demo_quoted) ''r'' = Some r \<and>
    obj (sy_store (demo_step demo_quoted (ACancel ''r''))) ''r'' = Some r' \<and> request_step r r'"
proof -
  from demo_quoted_quotes obtain r where "obj (sy_store demo_quoted) ''r'' = Some r"
    by (cases "obj (sy_store demo_quoted) ''r''") auto
  with rfq_lifecycle [OF demo_quoted_reach this, of "ACancel ''r''"] show ?thesis by blast
qed

lemma demo_accept:
  "accept_begin ''C'' (sy_store demo_quoted) ''r'' ''q1'' = Inr ()"
  "\<exists>s. accept_ledger (sy_store demo_quoted) ''r'' ''q1'' 7000 51 = (s, Inr (demo_fields ''M'' 90, ''M''))"
proof -
  show "accept_begin ''C'' (sy_store demo_quoted) ''r'' ''q1'' = Inr ()" by code_simp
  have "snd (accept_ledger (sy_store demo_quoted) ''r'' ''q1'' 7000 51) = Inr (demo_fields ''M'' 90, ''M'')"
    by code_simp
  then show "\<exists>s. accept_ledger (sy_store demo_quoted) ''r'' ''q1'' 7000 51 = (s, Inr (demo_fields ''M'' 90, ''M''))"
    by (metis prod.collapse)
qed

theorem accept_uninterrupted_witness:
  "\<exists>s. accept_ledger (sy_store demo_quoted) ''r'' ''q1'' 7000 51 = (s, Inr (demo_fields ''M'' 90, ''M'')) \<and>
    accept_begin ''C'' (accept_finish s ''r'' ''q1'') ''r'' ''q2'' = Inl (RequestIs Accepted)"
proof -
  from demo_accept(2) obtain s
    where s: "accept_ledger (sy_store demo_quoted) ''r'' ''q1'' 7000 51 = (s, Inr (demo_fields ''M'' 90, ''M''))" ..
  from accept_uninterrupted [OF demo_quoted_reach demo_accept(1) s, of "''q2''"] s show ?thesis by blast
qed

theorem prepared_quote_submits_witness:
  "\<exists>s r f d. prepare_check ''C'' s ''r1'' \<lparr>pi_maker = ''M'', pi_out = 90, pi_ttl = None, pi_band = None\<rparr> 1000 = Inr r \<and>
    prepare_fields r \<lparr>pi_maker = ''M'', pi_out = 90, pi_ttl = None, pi_band = None\<rparr> 50 1000 7 = Inr f \<and>
    submit_begin ''C'' (\<lambda>_. Inr d) s ''r1'' ''x'' 2000 = Inr f"
proof -
  let ?s = "store_insert (demo_request ''r1'') store_init"
  let ?inp = "\<lparr>pi_maker = ''M'', pi_out = 90, pi_ttl = None, pi_band = None\<rparr>"
  have p: "prepare_check ''C'' ?s ''r1'' ?inp 1000 = Inr (demo_request ''r1'')" by code_simp
  have "prepare_fields (demo_request ''r1'') ?inp 50 1000 7 = Inr \<lparr>qf_maker = ''M'', qf_taker = ''T'',
      qf_token_in = ''A'', qf_token_out = ''B'', qf_amount_in = 100, qf_amount_out = 90, qf_expiry = 66,
      qf_nonce = 7, qf_nav_dev = 0\<rparr>" (is "_ = Inr ?f") by code_simp
  note q = this
  let ?d = "\<lparr>de_entry = demo_entry, de_signer = ''M'', de_credential_nonce = 1, de_expiration = 70,
     de_signed = True, de_contract = ''C'', de_function = ''settle_quote'', de_quote = ?f, de_subs = 0\<rparr>"
  have "submit_begin ''C'' (\<lambda>_. Inr ?d) ?s ''r1'' ''x'' 2000 = Inr ?f"
    using prepared_quote_submits [OF p q, of "\<lambda>_. Inr ?d" "''x''" ?d 2000 51]
    by (simp add: demo_request_def min_quote_ttl_def)
  with p q show ?thesis by blast
qed

end
