(* ===== verification/Keeper.thy ===== *)
theory Keeper
  imports Pathfinder
begin

text \<open>
  The two keepers, \<open>backend/src/services/twap-keeper.ts\<close> and
  \<open>backend/src/services/timer-sweep.ts\<close>.

  A tick reads the chain, decides per order what to submit, and submits. What a read answers is
  an argument, what would be submitted is the result: processing an order is a function from the
  order as read, the ledger and the router to an action, and \<open>Inl\<close> is a rejection the
  tick logs. Contracts, ids and ledgers are numbers the chain keeps in 32 or 64 bits.
\<close>

section \<open>Enums as the SDK decodes them\<close>

datatype sc_value = ScString string | ScArray "sc_value list" | ScOtherValue string

text \<open>\<open>scEnum\<close> of \<open>stellar/client.ts\<close>: a unit variant arrives as a one-element array.\<close>

fun sc_string :: "sc_value \<Rightarrow> string" where
  "sc_string (ScString s) = s"
| "sc_string (ScArray []) = ''''"
| "sc_string (ScArray [x]) = sc_string x"
| "sc_string (ScArray (x # xs)) = sc_string x @ '','' @ sc_string (ScArray xs)"
| "sc_string (ScOtherValue s) = s"

fun sc_enum :: "sc_value \<Rightarrow> string" where
  "sc_enum (ScString s) = s"
| "sc_enum (ScArray (ScString s # xs)) = s"
| "sc_enum v = sc_string v"

section \<open>TWAP orders\<close>

definition opportunity_bps :: num where "opportunity_bps = Fin 10"
definition max_orders_per_tick :: nat where "max_orders_per_tick = 25"

text \<open>\<open>get_order\<close>'s struct; a missing field is \<open>None\<close>.\<close>

record twap_raw =
  tr_maker :: string
  tr_token_in :: string
  tr_token_out :: string
  tr_total_in :: "int option"
  tr_filled_in :: "int option"
  tr_start :: "int option"
  tr_end :: "int option"
  tr_limit_num :: "int option"
  tr_limit_den :: "int option"
  tr_max_slice :: "int option"
  tr_min_gap :: "int option"
  tr_tolerance :: "int option"
  tr_last_slice :: "int option"
  tr_status :: sc_value

record twap_order =
  tw_id :: int
  tw_maker :: string
  tw_token_in :: string
  tw_token_out :: string
  tw_total_in :: int
  tw_filled_in :: int
  tw_start :: int
  tw_end :: int
  tw_limit_num :: int
  tw_limit_den :: int
  tw_max_slice :: int
  tw_min_gap :: int
  tw_tolerance :: int
  tw_last_slice :: int
  tw_status :: string

definition or0 :: "int option \<Rightarrow> int" where
  "or0 x = (case x of None \<Rightarrow> 0 | Some v \<Rightarrow> v)"

definition fetch_twap :: "int \<Rightarrow> twap_raw option \<Rightarrow> twap_order option" where
  "fetch_twap i raw = (case raw of
     None \<Rightarrow> None
   | Some r \<Rightarrow> Some \<lparr>tw_id = i, tw_maker = tr_maker r, tw_token_in = tr_token_in r, tw_token_out = tr_token_out r,
       tw_total_in = or0 (tr_total_in r), tw_filled_in = or0 (tr_filled_in r), tw_start = or0 (tr_start r),
       tw_end = or0 (tr_end r), tw_limit_num = or0 (tr_limit_num r), tw_limit_den = or0 (tr_limit_den r),
       tw_max_slice = or0 (tr_max_slice r), tw_min_gap = or0 (tr_min_gap r), tw_tolerance = or0 (tr_tolerance r),
       tw_last_slice = or0 (tr_last_slice r), tw_status = sc_enum (tr_status r)\<rparr>)"

section \<open>Pace\<close>

record pace =
  pc_on_schedule :: int
  pc_headroom :: int
  pc_remaining :: int
  pc_end_game :: bool

definition pace_of :: "twap_order \<Rightarrow> int \<Rightarrow> pace js" where
  "pace_of o' ledger =
    (let elapsed = max 0 (ledger - tw_start o'); duration = tw_end o' - tw_start o'
     in js_bind (big_div (tw_total_in o' * elapsed) duration) (\<lambda>on_schedule.
       let headroom = tdiv (tw_total_in o' * tw_tolerance o') 10000;
           remaining = tw_total_in o' - tw_filled_in o';
           ledgers_left = max 0 (tw_end o' - ledger)
       in js_bind (big_div (remaining + tw_max_slice o' - 1) (tw_max_slice o')) (\<lambda>slices_needed.
         Inr \<lparr>pc_on_schedule = on_schedule, pc_headroom = headroom, pc_remaining = remaining,
              pc_end_game = ledgers_left \<le> tw_min_gap o' * slices_needed + 18\<rparr>)))"

definition base_slice :: "twap_order \<Rightarrow> pace \<Rightarrow> int" where
  "base_slice o' p =
    (if pc_end_game p then pc_on_schedule p + pc_headroom p - tw_filled_in o'
     else pc_on_schedule p - tw_filled_in o')"

definition pace_ceiling :: "twap_order \<Rightarrow> pace \<Rightarrow> int" where
  "pace_ceiling o' p =
    (let c = pc_on_schedule p + pc_headroom p - tw_filled_in o';
         c = (if c > tw_max_slice o' then tw_max_slice o' else c)
     in if c > pc_remaining p then pc_remaining p else c)"

text \<open>The opportunistic size. \<open>vs\<close> is the comparison of the market with the oracle for an
  amount (a route and a fair-value read), \<open>None\<close> when the keeper has no oracle.\<close>

definition opportunistic :: "(twap_order \<Rightarrow> int \<Rightarrow> num option js) option \<Rightarrow> twap_order \<Rightarrow> pace \<Rightarrow> int" where
  "opportunistic vs o' p =
    (let slice = base_slice o' p
     in case vs of
          None \<Rightarrow> slice
        | Some probe \<Rightarrow>
            if pc_end_game p \<or> \<not> tw_tolerance o' > 0 then slice
            else let mx = pace_ceiling o' p
              in if mx > slice \<and> mx > 0
                 then (case probe o' mx of
                         Inr (Some b) \<Rightarrow> if num_le b opportunity_bps then mx else slice
                       | _ \<Rightarrow> slice)
                 else slice)"

text \<open>What the probe computes: the route for the ceiling, then the fair-value comparison of its
  net output, over the tokens' symbols and decimals.\<close>

definition twap_probe :: "(string \<Rightarrow> string \<Rightarrow> int \<Rightarrow> route js) \<Rightarrow> (string \<Rightarrow> int \<times> string)
    \<Rightarrow> (string \<Rightarrow> string \<Rightarrow> string \<Rightarrow> string \<Rightarrow> int \<Rightarrow> int \<Rightarrow> int \<Rightarrow> int \<Rightarrow> num option js)
    \<Rightarrow> twap_order \<Rightarrow> int \<Rightarrow> num option js" where
  "twap_probe router token_meta vs_oracle o' x =
    js_bind (router (tw_token_in o') (tw_token_out o') x) (\<lambda>r.
      let (din, sin) = token_meta (tw_token_in o'); (dout, sout) = token_meta (tw_token_out o')
      in vs_oracle (tw_token_in o') (tw_token_out o') sin sout x (rt_net_out r) din dout)"

text \<open>The bounds applied afterwards; \<open>None\<close> waits for the next tick.\<close>

definition clamp_slice :: "twap_order \<Rightarrow> pace \<Rightarrow> int \<Rightarrow> int option" where
  "clamp_slice o' p slice =
    (if slice \<le> 0 then None
     else let s = (if slice > tw_max_slice o' then tw_max_slice o' else slice);
              s = (if s > pc_remaining p then pc_remaining p else s)
          in if s \<le> 0 then None else Some s)"

section \<open>Processing an order\<close>

datatype keeper_action =
    Wait
  | ExpireTwap int
  | ExecuteSlice int int "swap_instruction list"
  | RouteExpired int "swap_instruction list"

definition meets_limit :: "twap_order \<Rightarrow> int \<Rightarrow> int \<Rightarrow> bool js" where
  "meets_limit o' slice net =
    (if tw_limit_num o' > 0
     then js_bind (muldiv_ceil slice (tw_limit_num o') (tw_limit_den o')) (\<lambda>min_net. Inr (\<not> net < min_net))
     else Inr True)"

definition slice_action :: "(string \<Rightarrow> string \<Rightarrow> int \<Rightarrow> route js) \<Rightarrow> bool \<Rightarrow> twap_order \<Rightarrow> int \<Rightarrow> keeper_action js" where
  "slice_action router live o' slice =
    (case router (tw_token_in o') (tw_token_out o') slice of
       Inl _ \<Rightarrow> Inr Wait
     | Inr r \<Rightarrow>
         if rt_instructions r = [] then Inr Wait
         else js_bind (meets_limit o' slice (rt_net_out r)) (\<lambda>ok.
           if \<not> ok \<or> \<not> live then Inr Wait
           else Inr (ExecuteSlice (tw_id o') slice (rt_instructions r))))"

record keeper_env =
  ke_eligible :: "(string \<Rightarrow> string \<Rightarrow> bool) option"
  ke_vs :: "(twap_order \<Rightarrow> int \<Rightarrow> num option js) option"
  ke_router :: "string \<Rightarrow> string \<Rightarrow> int \<Rightarrow> route js"
  ke_live :: bool

definition process_twap :: "keeper_env \<Rightarrow> int \<Rightarrow> twap_order option \<Rightarrow> keeper_action js" where
  "process_twap env ledger order =
    (case order of
       None \<Rightarrow> Inr Wait
     | Some o' \<Rightarrow>
         if tw_status o' \<noteq> ''Active'' then Inr Wait
         else if (case ke_eligible env of None \<Rightarrow> False | Some ok \<Rightarrow> \<not> ok (tw_token_in o') (tw_token_out o'))
         then Inr Wait
         else if ledger > tw_end o' then Inr (if ke_live env then ExpireTwap (tw_id o') else Wait)
         else if tw_last_slice o' > 0 \<and> ledger < tw_last_slice o' + tw_min_gap o' then Inr Wait
         else js_bind (pace_of o' ledger) (\<lambda>p.
           case clamp_slice o' p (opportunistic (ke_vs env) o' p) of
             None \<Rightarrow> Inr Wait
           | Some slice \<Rightarrow> slice_action (ke_router env) (ke_live env) o' slice))"

text \<open>The orders of one tick, from the rotating start, and the next rotation.\<close>

definition tick_ids :: "nat \<Rightarrow> int list \<Rightarrow> int list" where
  "tick_ids rotation ids =
    (let count = min (length ids) max_orders_per_tick; start = (if ids \<noteq> [] then rotation mod length ids else 0)
     in map (\<lambda>i. ids ! ((start + i) mod length ids)) [0..<count])"

definition tick_rotation :: "nat \<Rightarrow> int list \<Rightarrow> nat" where
  "tick_rotation rotation ids = rotation + min (length ids) max_orders_per_tick"

text \<open>A tick: the actions of its orders; a rejection of one order does not stop the others.\<close>

definition twap_tick :: "keeper_env \<Rightarrow> (int \<Rightarrow> twap_raw option js) \<Rightarrow> int list option \<Rightarrow> int \<Rightarrow> nat
    \<Rightarrow> nat \<times> keeper_action js list" where
  "twap_tick env fetch active ledger rotation =
    (case active of
       None \<Rightarrow> (rotation, [])
     | Some ids \<Rightarrow>
         if ids = [] then (rotation, [])
         else (tick_rotation rotation ids,
               map (\<lambda>i. js_bind (fetch i) (\<lambda>raw. process_twap env ledger (fetch_twap i raw)))
                 (tick_ids rotation ids)))"

section \<open>The timer sweep\<close>

record live_token =
  lt_symbol :: string
  lt_sac :: string
  lt_live :: bool

definition sweep_pairs :: "live_token list \<Rightarrow> (live_token \<times> live_token) list" where
  "sweep_pairs tokens =
    (let live = filter (\<lambda>t. lt_live t \<and> lt_sac t \<noteq> '''') tokens
     in if length live < 2 then []
        else concat (map (\<lambda>a. map (Pair a) (filter (\<lambda>b. lt_symbol b \<noteq> lt_symbol a) live)) live))"

record timer_raw =
  ti_status :: sc_value
  ti_remaining :: "int option"

definition process_expired :: "(string \<Rightarrow> string \<Rightarrow> int \<Rightarrow> route js) \<Rightarrow> bool \<Rightarrow> int \<Rightarrow> string \<Rightarrow> string
    \<Rightarrow> timer_raw option \<Rightarrow> keeper_action" where
  "process_expired router live i tin tout raw =
    (case raw of
       None \<Rightarrow> Wait
     | Some r \<Rightarrow>
         let status = sc_enum (ti_status r); remaining = or0 (ti_remaining r)
         in if status \<noteq> ''Open'' \<and> status \<noteq> ''PartialFill'' then Wait
            else if remaining \<le> 0 then Wait
            else (case router tin tout remaining of
                    Inl _ \<Rightarrow> Wait
                  | Inr rt \<Rightarrow> if rt_instructions rt = [] \<or> \<not> live then Wait
                             else RouteExpired i (rt_instructions rt)))"

text \<open>One pair of a sweep: a failing read, of the ids or of an order, ends the pair.\<close>

fun sweep_orders :: "(int \<Rightarrow> timer_raw option js) \<Rightarrow> (int \<Rightarrow> timer_raw option \<Rightarrow> keeper_action) \<Rightarrow> int list
    \<Rightarrow> keeper_action list" where
  "sweep_orders fetch act [] = []"
| "sweep_orders fetch act (i # is) =
    (case fetch i of Inl _ \<Rightarrow> [] | Inr raw \<Rightarrow> act i raw # sweep_orders fetch act is)"

definition timer_sweep :: "bool \<Rightarrow> (string \<Rightarrow> string \<Rightarrow> int \<Rightarrow> route js) \<Rightarrow> bool
    \<Rightarrow> (string \<Rightarrow> string \<Rightarrow> int list option js) \<Rightarrow> (int \<Rightarrow> timer_raw option js) \<Rightarrow> live_token list
    \<Rightarrow> keeper_action list" where
  "timer_sweep configured router live expired fetch tokens =
    (if \<not> configured then [] else concat (map (\<lambda>(a, b). case expired (lt_sac a) (lt_sac b) of
        Inr (Some ids) \<Rightarrow> sweep_orders fetch (\<lambda>i. process_expired router live i (lt_sac a) (lt_sac b)) ids
      | _ \<Rightarrow> []) (sweep_pairs tokens)))"

text \<open>\<open>tickGuarded\<close> and \<open>runSweep\<close>: a call while one runs does nothing.\<close>

definition guarded_start :: "bool \<Rightarrow> bool \<times> bool" where
  "guarded_start running = (True, \<not> running)"

section \<open>A slice keeps every bound of its order\<close>

lemma pace_of_Inr:
  assumes "pace_of o' ledger = Inr p"
  shows "tw_start o' \<noteq> tw_end o'" "tw_max_slice o' \<noteq> 0"
    "pc_on_schedule p = tdiv (tw_total_in o' * max 0 (ledger - tw_start o')) (tw_end o' - tw_start o')"
    "pc_headroom p = tdiv (tw_total_in o' * tw_tolerance o') 10000"
    "pc_remaining p = tw_total_in o' - tw_filled_in o'"
    "pc_end_game p \<longleftrightarrow> max 0 (tw_end o' - ledger) \<le>
      tw_min_gap o' * tdiv (pc_remaining p + tw_max_slice o' - 1) (tw_max_slice o') + 18"
  using assms by (auto simp: pace_of_def Let_def big_div_def js_bind_Inr_iff split: if_splits)

lemma headroom_nonneg:
  "pace_of o' ledger = Inr p \<Longrightarrow> 0 \<le> tw_total_in o' \<Longrightarrow> 0 \<le> tw_tolerance o' \<Longrightarrow> 0 \<le> pc_headroom p"
  by (simp add: pace_of_Inr(4) tdiv_sign)

lemma pace_ceiling_le: "pace_ceiling o' p \<le> pc_on_schedule p + pc_headroom p - tw_filled_in o'"
  by (simp add: pace_ceiling_def Let_def)

lemma opportunistic_le:
  assumes "0 \<le> pc_headroom p"
  shows "opportunistic vs o' p \<le> pc_on_schedule p + pc_headroom p - tw_filled_in o'"
proof -
  have "base_slice o' p \<le> pc_on_schedule p + pc_headroom p - tw_filled_in o'"
    using assms by (simp add: base_slice_def)
  with pace_ceiling_le [of o' p] show ?thesis
    by (auto simp: opportunistic_def Let_def split: option.split sum.split)
qed

lemma clamp_slice_Some:
  assumes "clamp_slice o' p x = Some s"
  shows "0 < s" "s \<le> x" "s \<le> tw_max_slice o'" "s \<le> pc_remaining p"
  using assms by (auto simp: clamp_slice_def Let_def split: if_splits)

lemma meets_limit_Inr:
  assumes "meets_limit o' slice net = Inr True" "0 < tw_limit_num o'" "0 < tw_limit_den o'" "0 < slice"
  shows "slice * tw_limit_num o' \<le> net * tw_limit_den o'"
proof -
  have "muldiv_ceil slice (tw_limit_num o') (tw_limit_den o') = Inr (cdiv (slice * tw_limit_num o') (tw_limit_den o'))"
    using assms by (intro muldiv_ceil_eq) simp_all
  with assms(1,2) have "cdiv (slice * tw_limit_num o') (tw_limit_den o') \<le> net" by (simp add: meets_limit_def)
  with assms(3) show ?thesis by (simp add: cdiv_le_iff)
qed

lemma slice_action_cases:
  assumes "slice_action router live o' slice = Inr (ExecuteSlice i s segs)"
  obtains r where "router (tw_token_in o') (tw_token_out o') slice = Inr r" "segs = rt_instructions r" "segs \<noteq> []"
    "meets_limit o' slice (rt_net_out r) = Inr True" "live" "i = tw_id o'" "s = slice"
proof (cases "router (tw_token_in o') (tw_token_out o') slice")
  case (Inr r)
  with assms obtain ok where ok: "rt_instructions r \<noteq> []" "meets_limit o' slice (rt_net_out r) = Inr ok"
    "(if \<not> ok \<or> \<not> live then Inr Wait else Inr (ExecuteSlice (tw_id o') slice (rt_instructions r)))
      = (Inr (ExecuteSlice i s segs) :: keeper_action js)"
    by (cases "rt_instructions r = []") (simp_all add: slice_action_def js_bind_Inr_iff del: not_not, blast)
  then show ?thesis by (cases "ok \<and> live") (simp_all add: that [OF Inr])
qed (use assms in \<open>simp add: slice_action_def\<close>)

lemma process_twap_cases:
  assumes "process_twap env ledger order = Inr (ExecuteSlice i s segs)"
  obtains o' p where "order = Some o'" "tw_status o' = ''Active''" "ledger \<le> tw_end o'"
    "tw_last_slice o' \<le> 0 \<or> tw_last_slice o' + tw_min_gap o' \<le> ledger"
    "\<forall>ok. ke_eligible env = Some ok \<longrightarrow> ok (tw_token_in o') (tw_token_out o')"
    "pace_of o' ledger = Inr p" "clamp_slice o' p (opportunistic (ke_vs env) o' p) = Some s"
    "slice_action (ke_router env) (ke_live env) o' s = Inr (ExecuteSlice i s segs)"
proof -
  from assms obtain o' where o: "order = Some o'" by (cases order) (auto simp: process_twap_def)
  define skip where "skip \<longleftrightarrow> (case ke_eligible env of None \<Rightarrow> False
    | Some ok \<Rightarrow> \<not> ok (tw_token_in o') (tw_token_out o'))"
  define early where "early \<longleftrightarrow> tw_last_slice o' > 0 \<and> ledger < tw_last_slice o' + tw_min_gap o'"
  define rest where "rest = js_bind (pace_of o' ledger) (\<lambda>p.
    case clamp_slice o' p (opportunistic (ke_vs env) o' p) of None \<Rightarrow> Inr Wait
      | Some slice \<Rightarrow> slice_action (ke_router env) (ke_live env) o' slice)"
  have "process_twap env ledger order =
      (if tw_status o' \<noteq> ''Active'' then Inr Wait else if skip then Inr Wait
       else if ledger > tw_end o' then Inr (if ke_live env then ExpireTwap (tw_id o') else Wait)
       else if early then Inr Wait else rest)"
    by (simp only: process_twap_def o option.case skip_def early_def rest_def)
  with assms have st: "tw_status o' = ''Active''" "\<not> skip" "ledger \<le> tw_end o'" "\<not> early"
    and re: "rest = Inr (ExecuteSlice i s segs)"
    by (auto simp only: not_less keeper_action.distinct sum.inject split: if_split_asm)
  have g: "tw_last_slice o' \<le> 0 \<or> tw_last_slice o' + tw_min_gap o' \<le> ledger"
    "\<forall>ok. ke_eligible env = Some ok \<longrightarrow> ok (tw_token_in o') (tw_token_out o')"
    using st(2,4) by (auto simp: skip_def early_def)
  from re obtain p where p: "pace_of o' ledger = Inr p"
    "(case clamp_slice o' p (opportunistic (ke_vs env) o' p) of None \<Rightarrow> Inr Wait
      | Some slice \<Rightarrow> slice_action (ke_router env) (ke_live env) o' slice) = Inr (ExecuteSlice i s segs)"
    unfolding rest_def js_bind_Inr_iff by blast
  then obtain x where x: "clamp_slice o' p (opportunistic (ke_vs env) o' p) = Some x"
    "slice_action (ke_router env) (ke_live env) o' x = Inr (ExecuteSlice i s segs)" by (auto split: option.splits)
  from x(2) have "s = x" by (elim slice_action_cases)
  with that [OF o st(1,3) g p(1)] x show ?thesis by simp
qed

lemma hop_route_segments:
  assumes "hop_route router_fee venues decs slip a b x = Inr r" "rt_instructions r \<noteq> []"
  shows "rt_segments r \<noteq> []" "(\<Sum>s\<leftarrow>rt_segments r. sg_in s) = x"
proof -
  from assms(1) have "length (rt_instructions r) = length (rt_segments r)"
    unfolding hop_route_def by (auto elim!: compute_route_elim dest: js_all_length)
  with assms(2) show ne: "rt_segments r \<noteq> []" by auto
  show "(\<Sum>s\<leftarrow>rt_segments r. sg_in s) = x" by (rule engine.spends [OF assms(1) ne])
qed

text \<open>
  Whatever the oracle comparison answers, a slice the keeper submits belongs to an active,
  eligible order inside its window and past its cadence gap, is positive, at most the order's
  largest slice and what is left of it, keeps the filled amount at or below the pace ceiling
  (schedule plus tolerance band), is routed for exactly its amount, and meets the order's fixed
  limit exactly.
\<close>

theorem twap_slice_bounds:
  assumes "process_twap env ledger (Some o') = Inr (ExecuteSlice i s segs)"
    and "ke_router env = hop_route router_fee venues (\<lambda>_. 7) 50"
    and "0 \<le> tw_total_in o'" "0 \<le> tw_tolerance o'"
  shows "i = tw_id o' \<and> ke_live env \<and> tw_status o' = ''Active'' \<and> ledger \<le> tw_end o' \<and>
    (tw_last_slice o' \<le> 0 \<or> tw_last_slice o' + tw_min_gap o' \<le> ledger) \<and>
    0 < s \<and> s \<le> tw_max_slice o' \<and> tw_filled_in o' + s \<le> tw_total_in o' \<and>
    tw_filled_in o' + s \<le> tdiv (tw_total_in o' * max 0 (ledger - tw_start o')) (tw_end o' - tw_start o') +
      tdiv (tw_total_in o' * tw_tolerance o') 10000 \<and>
    (\<exists>r. ke_router env (tw_token_in o') (tw_token_out o') s = Inr r \<and> segs = rt_instructions r \<and>
      (\<Sum>g\<leftarrow>rt_segments r. sg_in g) = s \<and>
      (0 < tw_limit_num o' \<and> 0 < tw_limit_den o' \<longrightarrow>
        s * tw_limit_num o' \<le> rt_net_out r * tw_limit_den o'))"
  using assms(1)
proof (rule process_twap_cases)
  fix x p
  assume *: "Some o' = Some x" "tw_status x = ''Active''" "ledger \<le> tw_end x"
    "tw_last_slice x \<le> 0 \<or> tw_last_slice x + tw_min_gap x \<le> ledger" "pace_of x ledger = Inr p"
    "clamp_slice x p (opportunistic (ke_vs env) x p) = Some s"
    "slice_action (ke_router env) (ke_live env) x s = Inr (ExecuteSlice i s segs)"
  then have p: "pace_of o' ledger = Inr p" by simp
  from * obtain r where r: "ke_router env (tw_token_in o') (tw_token_out o') s = Inr r" "segs = rt_instructions r"
    "segs \<noteq> []" "meets_limit o' s (rt_net_out r) = Inr True" "ke_live env" "i = tw_id o'"
    by (auto elim!: slice_action_cases)
  note c = clamp_slice_Some [OF *(6)]
  have "s \<le> pc_on_schedule p + pc_headroom p - tw_filled_in o'"
    using c(2) opportunistic_le [OF headroom_nonneg [OF p assms(3,4)]] * by (metis order_trans option.inject)
  moreover have "(\<Sum>g\<leftarrow>rt_segments r. sg_in g) = s"
    using r assms(2) by (intro hop_route_segments(2)) simp_all
  moreover note meets_limit_Inr [OF r(4)]
  ultimately show ?thesis
    using * c r pace_of_Inr [OF p] by auto
qed

section \<open>Rotation\<close>

text \<open>
  No active order is starved by the cap: over any run of ticks on the same list of active
  orders whose caps add up to its length, every order is processed.
\<close>

theorem twap_rotation_covers:
  assumes "length ids \<le> m * min (length ids) max_orders_per_tick"
  shows "set (concat (map (\<lambda>k. tick_ids (((\<lambda>r. tick_rotation r ids) ^^ k) rotation) ids) [0..<m])) = set ids"
proof (cases "ids = []")
  case True
  then show ?thesis by (simp add: tick_ids_def)
next
  case False
  define n where "n = length ids"
  define c where "c = min n max_orders_per_tick"
  from False have n: "0 < n" by (simp add: n_def)
  have rot: "((\<lambda>r. tick_rotation r ids) ^^ k) rotation = rotation + k * c" for k
    by (induction k) (simp_all add: tick_rotation_def n_def c_def)
  have ids_at: "tick_ids (rotation + k * c) ids = map (\<lambda>i. ids ! ((rotation + (k * c + i)) mod n)) [0..<c]" for k
    using False by (simp add: tick_ids_def Let_def n_def [symmetric] c_def [symmetric] mod_add_left_eq add.assoc)
  have "ids ! j \<in> (\<Union>k<m. (\<lambda>i. ids ! ((rotation + (k * c + i)) mod n)) ` {..<c})" if j: "j < n" for j
  proof -
    define t where "t = (j + (n - rotation mod n)) mod n"
    have t: "t < n" using n by (simp add: t_def)
    have "(rotation + t) mod n = (rotation mod n + (j + (n - rotation mod n))) mod n"
      by (simp add: t_def mod_add_left_eq mod_add_right_eq)
    also have "\<dots> = (j + n) mod n" using mod_less_divisor [OF n, of rotation] by (intro arg_cong2 [of _ _ _ _ "(mod)"]) auto
    also have "\<dots> = j" using j by simp
    finally have rt: "(rotation + t) mod n = j" .
    have c0: "0 < c" using n by (simp add: c_def max_orders_per_tick_def)
    have "t < m * c" using t assms by (simp add: n_def [symmetric] c_def [symmetric])
    then have k: "t div c < m" using c0 by (simp add: less_mult_imp_div_less)
    have "t = t div c * c + t mod c" by simp
    with rt have "ids ! j = ids ! ((rotation + (t div c * c + t mod c)) mod n)" by simp
    moreover have "t mod c \<in> {..<c}" using c0 by simp
    ultimately have "ids ! j \<in> (\<lambda>i. ids ! ((rotation + (t div c * c + i)) mod n)) ` {..<c}" by blast
    with k show ?thesis by blast
  qed
  moreover have "ids ! ((rotation + x) mod n) \<in> set ids" for x using n by (simp add: n_def)
  ultimately show ?thesis
    by (auto simp: rot ids_at in_set_conv_nth n_def [symmetric] atLeast0LessThan)
qed


section \<open>The end game\<close>

text \<open>In the end game, when the tolerance band covers what is left, a due order whose slice has a
  route meeting its limit is sliced at full size: the whole remainder, or the largest slice.\<close>

lemma end_game_full_slice:
  assumes "tw_status o' = ''Active''" "ke_eligible env = None" "ledger \<le> tw_end o'" "tw_last_slice o' \<le> 0"
    and "pace_of o' ledger = Inr p" "pc_end_game p" "tw_total_in o' \<le> pc_on_schedule p + pc_headroom p"
    and "0 < pc_remaining p" "0 < tw_max_slice o'"
    and "slice_action (ke_router env) (ke_live env) o' (min (tw_max_slice o') (pc_remaining p)) = act"
  shows "process_twap env ledger (Some o') = act"
proof -
  have "opportunistic (ke_vs env) o' p = pc_on_schedule p + pc_headroom p - tw_filled_in o'"
    using assms(6) by (simp add: opportunistic_def base_slice_def Let_def split: option.split)
  moreover have "pc_remaining p \<le> pc_on_schedule p + pc_headroom p - tw_filled_in o'"
    using assms(7) pace_of_Inr(5) [OF assms(5)] by simp
  ultimately have "clamp_slice o' p (opportunistic (ke_vs env) o' p) = Some (min (tw_max_slice o') (pc_remaining p))"
    using assms(8,9) by (auto simp: clamp_slice_def Let_def min_def)
  with assms show ?thesis by (simp add: process_twap_def)
qed

section \<open>The timer sweep routes what is left of an expired order\<close>

lemma sweep_orders_mem:
  "x \<in> set (sweep_orders fetch act ids) \<Longrightarrow> \<exists>i\<in>set ids. \<exists>raw. fetch i = Inr raw \<and> x = act i raw"
proof (induction ids)
  case (Cons i ids)
  then show ?case by (cases "fetch i") auto
qed simp

lemma process_expired_cases:
  assumes "process_expired router live i tin tout raw = RouteExpired j segs"
  obtains w r where "raw = Some w" "sc_enum (ti_status w) \<in> {''Open'', ''PartialFill''}" "0 < or0 (ti_remaining w)"
    "router tin tout (or0 (ti_remaining w)) = Inr r" "segs = rt_instructions r" "segs \<noteq> []" "live" "j = i"
proof (cases raw)
  case (Some w)
  define bad where "bad \<longleftrightarrow> sc_enum (ti_status w) \<noteq> ''Open'' \<and> sc_enum (ti_status w) \<noteq> ''PartialFill''"
  have e: "process_expired router live i tin tout raw =
      (if bad then Wait else if or0 (ti_remaining w) \<le> 0 then Wait
       else (case router tin tout (or0 (ti_remaining w)) of Inl _ \<Rightarrow> Wait
         | Inr rt \<Rightarrow> if rt_instructions rt = [] \<or> \<not> live then Wait else RouteExpired i (rt_instructions rt)))"
    by (simp only: process_expired_def Some option.case Let_def bad_def)
  with assms have c: "\<not> bad" "0 < or0 (ti_remaining w)" by (auto simp only: not_le keeper_action.distinct split: if_split_asm)
  with assms e obtain r where r: "router tin tout (or0 (ti_remaining w)) = Inr r"
    by (cases "router tin tout (or0 (ti_remaining w))") simp_all
  with assms e c have a: "rt_instructions r \<noteq> [] \<and> live \<and> j = i \<and> segs = rt_instructions r"
    by (cases "rt_instructions r = [] \<or> \<not> live") simp_all
  have st: "sc_enum (ti_status w) \<in> {''Open'', ''PartialFill''}" using c(1) unfolding bad_def by blast
  show ?thesis by (rule that [OF Some st c(2) r]) (use a in auto)
qed (use assms in \<open>simp add: process_expired_def\<close>)

text \<open>
  The sweep only routes an order that the chain reports open or partly filled with something
  left, between two different live tokens, when a keeper key is set, and the route it submits
  splits exactly what is left of the order.
\<close>

theorem timer_routes_remaining:
  assumes "RouteExpired i segs \<in>
    set (timer_sweep configured (hop_route router_fee venues (\<lambda>_. 7) 50) live expired fetch tokens)"
  shows "configured \<and> live \<and> (\<exists>a\<in>set tokens. \<exists>b\<in>set tokens. \<exists>w r. lt_symbol a \<noteq> lt_symbol b \<and>
    fetch i = Inr (Some w) \<and> sc_enum (ti_status w) \<in> {''Open'', ''PartialFill''} \<and> 0 < or0 (ti_remaining w) \<and>
    hop_route router_fee venues (\<lambda>_. 7) 50 (lt_sac a) (lt_sac b) (or0 (ti_remaining w)) = Inr r \<and>
    segs = rt_instructions r \<and> (\<Sum>s\<leftarrow>rt_segments r. sg_in s) = or0 (ti_remaining w))"
proof -
  from assms obtain a b ids where ab: "(a, b) \<in> set (sweep_pairs tokens)" "configured"
    "expired (lt_sac a) (lt_sac b) = Inr (Some ids)"
    "RouteExpired i segs \<in> set (sweep_orders fetch
      (\<lambda>i. process_expired (hop_route router_fee venues (\<lambda>_. 7) 50) live i (lt_sac a) (lt_sac b)) ids)"
    by (auto simp: timer_sweep_def split: if_splits sum.splits option.splits intro: sym)
  from ab(1) have t: "a \<in> set tokens" "b \<in> set tokens" "lt_symbol a \<noteq> lt_symbol b"
    by (auto simp: sweep_pairs_def Let_def split: if_splits)
  from sweep_orders_mem [OF ab(4)] obtain k raw where f: "fetch k = Inr raw"
    "process_expired (hop_route router_fee venues (\<lambda>_. 7) 50) live k (lt_sac a) (lt_sac b) raw = RouteExpired i segs"
    by metis
  from f(2) show ?thesis
  proof (rule process_expired_cases)
    fix w r
    assume *: "raw = Some w" "sc_enum (ti_status w) \<in> {''Open'', ''PartialFill''}" "0 < or0 (ti_remaining w)"
      "hop_route router_fee venues (\<lambda>_. 7) 50 (lt_sac a) (lt_sac b) (or0 (ti_remaining w)) = Inr r"
      "segs = rt_instructions r" "segs \<noteq> []" "live" "i = k"
    then have "(\<Sum>s\<leftarrow>rt_segments r. sg_in s) = or0 (ti_remaining w)"
      by (intro hop_route_segments(2)) simp_all
    with * ab(2) t f(1) show ?thesis by blast
  qed
qed

section \<open>The properties at concrete inputs\<close>

definition demo_twap :: twap_order where
  "demo_twap = \<lparr>tw_id = 1, tw_maker = ''M'', tw_token_in = ''A'', tw_token_out = ''B'', tw_total_in = 6000000000,
     tw_filled_in = 0, tw_start = 0, tw_end = 100, tw_limit_num = 0, tw_limit_den = 1, tw_max_slice = 3000000000,
     tw_min_gap = 1, tw_tolerance = 0, tw_last_slice = 0, tw_status = ''Active''\<rparr>"

definition demo_env :: keeper_env where
  "demo_env = \<lparr>ke_eligible = None, ke_vs = None, ke_router = hop_route router_fee two_pools (\<lambda>_. 7) 50, ke_live = True\<rparr>"

theorem twap_slice_bounds_witness:
  "\<exists>segs r. process_twap demo_env 50 (Some demo_twap) = Inr (ExecuteSlice 1 3000000000 segs) \<and>
    ke_router demo_env ''A'' ''B'' 3000000000 = Inr r \<and> (\<Sum>g\<leftarrow>rt_segments r. sg_in g) = 3000000000"
proof -
  from demo_hop [of "''A''" "''B''"] obtain r where
    r: "hop_route router_fee two_pools (\<lambda>_. 7) 50 ''A'' ''B'' 3000000000 = Inr r" "rt_segments r \<noteq> []" by blast
  from r(1) have "length (rt_instructions r) = length (rt_segments r)"
    unfolding hop_route_def by (auto elim!: compute_route_elim dest: js_all_length)
  with r(2) have i: "rt_instructions r \<noteq> []" by auto
  have "pace_of demo_twap 50 = Inr \<lparr>pc_on_schedule = 3000000000, pc_headroom = 0, pc_remaining = 6000000000, pc_end_game = False\<rparr>"
    by (simp add: pace_of_def demo_twap_def big_div_def tdiv_def)
  then have p: "process_twap demo_env 50 (Some demo_twap) = Inr (ExecuteSlice 1 3000000000 (rt_instructions r))"
    using r(1) i
    by (simp add: process_twap_def demo_env_def demo_twap_def opportunistic_def base_slice_def clamp_slice_def
        slice_action_def meets_limit_def)
  from twap_slice_bounds [OF p, of two_pools] p show ?thesis
    by (auto simp: demo_env_def demo_twap_def)
qed

theorem twap_rotation_covers_witness:
  "set (concat (map (\<lambda>k. tick_ids (((\<lambda>r. tick_rotation r [4, 5, 6]) ^^ k) 7) [4, 5, 6]) [0..<1])) = {4, 5, 6}"
  using twap_rotation_covers [of "[4, 5, 6]" 1 7] by (simp add: max_orders_per_tick_def)

theorem timer_routes_remaining_witness:
  "\<exists>segs. RouteExpired 9 segs \<in> set (timer_sweep True (hop_route router_fee two_pools (\<lambda>_. 7) 50) True
      (\<lambda>a b. Inr (if a = ''A'' then Some [9] else None))
      (\<lambda>i. Inr (Some \<lparr>ti_status = ScArray [ScString ''Open''], ti_remaining = Some 3000000000\<rparr>))
      [\<lparr>lt_symbol = ''a'', lt_sac = ''A'', lt_live = True\<rparr>, \<lparr>lt_symbol = ''b'', lt_sac = ''B'', lt_live = True\<rparr>]) \<and>
    segs \<noteq> []"
proof -
  from demo_hop [of "''A''" "''B''"] obtain r where
    r: "hop_route router_fee two_pools (\<lambda>_. 7) 50 ''A'' ''B'' 3000000000 = Inr r" "rt_segments r \<noteq> []" by blast
  from r(1) have "length (rt_instructions r) = length (rt_segments r)"
    unfolding hop_route_def by (auto elim!: compute_route_elim dest: js_all_length)
  with r(2) have i: "rt_instructions r \<noteq> []" by auto
  let ?w = "\<lparr>ti_status = ScArray [ScString ''Open''], ti_remaining = Some 3000000000\<rparr>"
  let ?ts = "[\<lparr>lt_symbol = ''a'', lt_sac = ''A'', lt_live = True\<rparr>, \<lparr>lt_symbol = ''b'', lt_sac = ''B'', lt_live = True\<rparr>]"
  have m: "RouteExpired 9 (rt_instructions r) \<in> set (timer_sweep True (hop_route router_fee two_pools (\<lambda>_. 7) 50) True
      (\<lambda>a b. Inr (if a = ''A'' then Some [9] else None)) (\<lambda>i. Inr (Some ?w)) ?ts)"
    using r(1) i by (simp add: timer_sweep_def sweep_pairs_def process_expired_def or0_def)
  from timer_routes_remaining [OF m] m i show ?thesis by blast
qed

end
