(* ===== verification/Stellar.thy ===== *)
theory Stellar
  imports QuoteXdr Keeper
begin

text \<open>
  The RPC client, \<open>backend/src/stellar/client.ts\<close>: which errors another endpoint can
  cure, the failover over the endpoints with the shared map of endpoints that are down, the gate
  on concurrent simulations, the inclusion fee, submission with bounded polling, and the encoders
  of the contracts' structs. The servers are arguments: what a call answers and after how long.
\<close>

section \<open>Patterns\<close>

text \<open>A regular expression without repetition is a list of character tests; \<open>test\<close>
  searches it anywhere. Case is ignored by lowering the ASCII letters of the subject.\<close>

type_synonym pattern = "(char \<Rightarrow> bool) list"

fun match_here :: "pattern \<Rightarrow> string \<Rightarrow> bool" where
  "match_here [] s = True"
| "match_here (p # ps) [] = False"
| "match_here (p # ps) (c # cs) = (p c \<and> match_here ps cs)"

fun search :: "pattern \<Rightarrow> string \<Rightarrow> bool" where
  "search ps [] = match_here ps []"
| "search ps (c # cs) = (match_here ps (c # cs) \<or> search ps cs)"

definition lit :: "string \<Rightarrow> pattern" where
  "lit s = map (\<lambda>c. (=) c) s"

definition digit_char :: "char \<Rightarrow> bool" where
  "digit_char c \<longleftrightarrow> 48 \<le> (of_char c :: nat) \<and> (of_char c :: nat) \<le> 57"

definition lower_char :: "char \<Rightarrow> char" where
  "lower_char c = (if 65 \<le> (of_char c :: nat) \<and> (of_char c :: nat) \<le> 90 then char_of ((of_char c :: nat) + 32) else c)"

definition matches_any :: "pattern list \<Rightarrow> string \<Rightarrow> bool" where
  "matches_any ps s = list_ex (\<lambda>p. search p (map lower_char s)) ps"

section \<open>Transport errors\<close>

record rpc_error =
  re_name :: string
  re_status :: "int option"
  re_message :: string

definition not_found_patterns :: "pattern list" where
  "not_found_patterns = map lit [''account not found'', ''not found: '']"

definition transport_patterns :: "pattern list" where
  "transport_patterns = map lit [''fetch failed'', ''econn'', ''enotfound'', ''etimedout'', ''eai_again'', ''epipe'',
     ''socket'', ''network'', ''timeout'', ''time out'', ''timedout'', ''timed out'', ''certificate'', ''tls'', ''ssl'',
     ''alert'', ''aborted'', ''unexpected token'', ''invalid json'', ''status code 429'', ''status code 403''] @
     [lit ''status code 5'' @ [digit_char, digit_char]]"

definition is_transport_error :: "rpc_error option \<Rightarrow> bool" where
  "is_transport_error err =
    (case err of
       None \<Rightarrow> False
     | Some e \<Rightarrow>
         if re_name e = ''AbortError'' \<or> re_name e = ''RpcTimeoutError'' then True
         else if (case re_status e of None \<Rightarrow> False | Some st \<Rightarrow> st \<ge> 500 \<or> st = 429 \<or> st = 403 \<or> st = 401) then True
         else if matches_any not_found_patterns (re_message e) then False
         else matches_any transport_patterns (re_message e))"

section \<open>Failover\<close>

definition failover_cooldown_ms :: int where "failover_cooldown_ms = 60000"
definition default_rpc_timeout_ms :: int where "default_rpc_timeout_ms = 12000"
definition probe_timeout_ms :: int where "probe_timeout_ms = 3000"

text \<open>\<open>urls.filter((u, i, arr) => u && arr.indexOf(u) === i)\<close>\<close>

fun dedup_urls :: "string list \<Rightarrow> string list \<Rightarrow> string list" where
  "dedup_urls seen [] = []"
| "dedup_urls seen (u # us) =
    (if u \<noteq> '''' \<and> u \<notin> set seen then u # dedup_urls (u # seen) us else dedup_urls (u # seen) us)"

definition endpoints :: "string \<Rightarrow> string list \<Rightarrow> string list" where
  "endpoints primary fallbacks = dedup_urls [] (primary # fallbacks)"

type_synonym down_map = "(string, int) jmap"

definition down_until :: "down_map \<Rightarrow> string \<Rightarrow> int" where
  "down_until down u = (case jm_get down u of None \<Rightarrow> 0 | Some t \<Rightarrow> t)"

definition ordered_endpoints :: "down_map \<Rightarrow> int \<Rightarrow> string list \<Rightarrow> string list" where
  "ordered_endpoints down now eps =
    filter (\<lambda>u. down_until down u \<le> now) eps @ filter (\<lambda>u. down_until down u > now) eps"

text \<open>What a server answers and after how many milliseconds.\<close>

record 'a reply =
  rp_after :: int
  rp_result :: "rpc_error + 'a"

definition timeout_error :: "string \<Rightarrow> rpc_error" where
  "timeout_error label = \<lparr>re_name = ''RpcTimeoutError'', re_status = None, re_message = label @ '' timed out''\<rparr>"

definition with_timeout :: "'a reply \<Rightarrow> int \<Rightarrow> string \<Rightarrow> int \<times> (rpc_error + 'a)" where
  "with_timeout r ms label =
    (if rp_after r > ms then (ms, Inl (timeout_error label)) else (rp_after r, rp_result r))"

fun rpc_loop :: "int \<Rightarrow> string \<Rightarrow> (string \<Rightarrow> 'a reply) \<Rightarrow> string list \<Rightarrow> int \<Rightarrow> down_map \<Rightarrow> rpc_error
    \<Rightarrow> down_map \<times> (rpc_error + 'a)" where
  "rpc_loop timeout label call [] now down err = (down, Inl err)"
| "rpc_loop timeout label call (u # us) now down err =
    (case with_timeout (call u) timeout label of
       (t, Inr out) \<Rightarrow> (if jm_get down u \<noteq> None then jm_delete u down else down, Inr out)
     | (t, Inl e) \<Rightarrow>
         if \<not> is_transport_error (Some e) then (down, Inl e)
         else rpc_loop timeout label call us (now + t) (jm_set u (now + t + failover_cooldown_ms) down) e)"

definition no_endpoints :: "string \<Rightarrow> rpc_error" where
  "no_endpoints label = \<lparr>re_name = ''Error'', re_status = None, re_message = label @ '': no RPC endpoints configured''\<rparr>"

definition rpc_call :: "int \<Rightarrow> string \<Rightarrow> (string \<Rightarrow> 'a reply) \<Rightarrow> string list \<Rightarrow> int \<Rightarrow> down_map
    \<Rightarrow> down_map \<times> (rpc_error + 'a)" where
  "rpc_call timeout label call eps now down =
    rpc_loop timeout label call (ordered_endpoints down now eps) now down (no_endpoints label)"

record rpc_status =
  rs_primary :: string
  rs_primary_ok :: bool
  rs_latency :: "int option"
  rs_ledger :: "int option"
  rs_error :: "string option"
  rs_active :: string
  rs_fallbacks :: "string list"

text \<open>\<open>rpcStatus\<close>: the primary is probed directly. Without an endpoint the property
  read of \<open>endpoints[0]\<close> throws.\<close>

definition rpc_status_probe :: "(string \<Rightarrow> string) \<Rightarrow> (string \<Rightarrow> int reply) \<Rightarrow> string list \<Rightarrow> int \<Rightarrow> down_map
    \<Rightarrow> (down_map \<times> rpc_status) js" where
  "rpc_status_probe host call eps now down =
    (case eps of
       [] \<Rightarrow> Inl TypeError
     | p # fb \<Rightarrow>
         (case with_timeout (call p) probe_timeout_ms ''probe'' of
            (t, Inr ledger) \<Rightarrow>
              let down' = jm_delete p down
              in Inr (down', \<lparr>rs_primary = host p, rs_primary_ok = True, rs_latency = Some t, rs_ledger = Some ledger,
                   rs_error = None, rs_active = host (hd (ordered_endpoints down' (now + t) eps)),
                   rs_fallbacks = map host fb\<rparr>)
          | (t, Inl e) \<Rightarrow>
              let down' = jm_set p (now + t + failover_cooldown_ms) down
              in Inr (down', \<lparr>rs_primary = host p, rs_primary_ok = False, rs_latency = None, rs_ledger = None,
                   rs_error = Some (take 200 (re_message e)), rs_active = host (hd (ordered_endpoints down' (now + t) eps)),
                   rs_fallbacks = map host fb\<rparr>)))"

section \<open>Simulations\<close>

definition sim_concurrency :: nat where "sim_concurrency = 8"

text \<open>The gate: calls in flight, calls queued, and calls resolved whose continuation has not run
  yet. A resolved continuation is a later turn, so other calls run before it.\<close>

record sim_gate =
  sg_in_flight :: int
  sg_waiting :: nat
  sg_woken :: nat

datatype gate_step = Acquire | Resume | Release

fun gate_exec :: "gate_step \<Rightarrow> sim_gate \<Rightarrow> sim_gate" where
  "gate_exec Acquire g =
    (if sg_in_flight g < int sim_concurrency then g\<lparr>sg_in_flight := sg_in_flight g + 1\<rparr>
     else g\<lparr>sg_waiting := sg_waiting g + 1\<rparr>)"
| "gate_exec Resume g =
    (if sg_woken g > 0 then g\<lparr>sg_woken := sg_woken g - 1, sg_in_flight := sg_in_flight g + 1\<rparr> else g)"
| "gate_exec Release g =
    (if sg_waiting g > 0
     then g\<lparr>sg_in_flight := sg_in_flight g - 1, sg_waiting := sg_waiting g - 1, sg_woken := sg_woken g + 1\<rparr>
     else g\<lparr>sg_in_flight := sg_in_flight g - 1\<rparr>)"

text \<open>\<open>simulateCall\<close>: a success carries a value or none; everything else is null.\<close>

datatype 'v sim_result = SimSuccess "'v option" | SimFailure string

definition simulate_call :: "rpc_error + 'v sim_result \<Rightarrow> 'v option" where
  "simulate_call r = (case r of Inr (SimSuccess v) \<Rightarrow> v | _ \<Rightarrow> None)"

text \<open>\<open>simulateAndParse\<close>: a second attempt when the first has no value; \<open>parse\<close> is
  \<open>scValToNative\<close>, whose failure ends the call.\<close>

definition simulate_and_parse :: "(nat \<Rightarrow> rpc_error + 'v sim_result) \<Rightarrow> ('v \<Rightarrow> 'n js) \<Rightarrow> 'n option" where
  "simulate_and_parse sim parse =
    (let parsed = (\<lambda>v. case parse v of Inl _ \<Rightarrow> None | Inr n \<Rightarrow> Some n)
     in case simulate_call (sim 0) of
          Some v \<Rightarrow> parsed v
        | None \<Rightarrow> (case simulate_call (sim 1) of Some v \<Rightarrow> parsed v | None \<Rightarrow> None))"

section \<open>Inclusion fee\<close>

definition fee_bid :: "num option \<Rightarrow> num \<Rightarrow> num \<Rightarrow> num" where
  "fee_bid p90 flo cap = num_min cap (num_max flo (num_mul (case p90 of None \<Rightarrow> Fin 0 | Some p \<Rightarrow> p) (Fin 2)))"

record fee_cache =
  fc_at :: int
  fc_soroban :: num
  fc_classic :: num

record fee_stats =
  fs_soroban :: "num option"
  fs_classic :: "num option"

definition inclusion_fee :: "rpc_error + fee_stats \<Rightarrow> fee_cache option \<Rightarrow> int \<Rightarrow> bool \<Rightarrow> fee_cache \<times> num" where
  "inclusion_fee stats cache now soroban =
    (let c = (if (case cache of None \<Rightarrow> True | Some c \<Rightarrow> now - fc_at c > 30000)
              then (case stats of
                      Inl _ \<Rightarrow> \<lparr>fc_at = now, fc_soroban = Fin 200, fc_classic = Fin 10000\<rparr>
                    | Inr st \<Rightarrow> \<lparr>fc_at = now, fc_soroban = fee_bid (fs_soroban st) (Fin 200) (Fin 10000000),
                                fc_classic = fee_bid (fs_classic st) (Fin 10000) (Fin 1000000)\<rparr>)
              else the cache)
     in (c, if soroban then fc_soroban c else fc_classic c))"

section \<open>Submission\<close>

definition submit_poll_attempts :: nat where "submit_poll_attempts = 30"

datatype send_status = SendError "string option" | TryAgainLater | Duplicate | Pending

datatype 'tx poll_status = TxNotFound | TxFailed "string option" | TxDone 'tx

datatype submit_error =
    RpcFailed rpc_error
  | RejectedAtSend string
  | NotAccepted string
  | FailedOnLedger string
  | NotConfirmed

definition or_unknown :: "string option \<Rightarrow> string" where
  "or_unknown c = (case c of None \<Rightarrow> ''unknown'' | Some s \<Rightarrow> s)"

fun poll_loop :: "(nat \<Rightarrow> rpc_error + 'tx poll_status) \<Rightarrow> nat \<Rightarrow> nat \<Rightarrow> submit_error + 'tx" where
  "poll_loop poll k 0 = Inl NotConfirmed"
| "poll_loop poll k (Suc n) =
    (case poll k of
       Inl e \<Rightarrow> Inl (RpcFailed e)
     | Inr (TxFailed c) \<Rightarrow> Inl (FailedOnLedger (or_unknown c))
     | Inr (TxDone tx) \<Rightarrow> Inr tx
     | Inr TxNotFound \<Rightarrow> poll_loop poll (Suc k) n)"

definition submit_transaction :: "rpc_error + send_status \<Rightarrow> (nat \<Rightarrow> rpc_error + 'tx poll_status) \<Rightarrow> submit_error + 'tx" where
  "submit_transaction send poll =
    (case send of
       Inl e \<Rightarrow> Inl (RpcFailed e)
     | Inr (SendError c) \<Rightarrow> Inl (RejectedAtSend (or_unknown c))
     | Inr TryAgainLater \<Rightarrow> Inl (NotAccepted ''TRY_AGAIN_LATER'')
     | Inr Duplicate \<Rightarrow> Inl (NotAccepted ''DUPLICATE'')
     | Inr Pending \<Rightarrow> poll_loop poll 0 submit_poll_attempts)"

section \<open>Encoders\<close>

definition to_route_segment :: "swap_instruction \<Rightarrow> scval" where
  "to_route_segment i = ScvMap
    [(ScvSymbol ''amount_in'', ScvI128 (si_in i)),
     (ScvSymbol ''min_amount_out'', ScvI128 (si_min_out i)),
     (ScvSymbol ''venue_id'', ScvU32 (si_venue i))]"

definition to_route_segments :: "swap_instruction list \<Rightarrow> scval" where
  "to_route_segments segs = ScvVec (map to_route_segment segs)"

definition to_address_vec :: "string list \<Rightarrow> scval" where
  "to_address_vec as = ScvVec (map ScvAddress as)"

record path_leg =
  pl_venue :: int
  pl_weight :: int
  pl_min_out :: int

record path_hop =
  ph_token_out :: string
  ph_legs :: "path_leg list"

definition to_path_leg :: "path_leg \<Rightarrow> scval" where
  "to_path_leg l = ScvMap
    [(ScvSymbol ''min_amount_out'', ScvI128 (pl_min_out l)),
     (ScvSymbol ''venue_id'', ScvU32 (pl_venue l)),
     (ScvSymbol ''weight_bps'', ScvI128 (pl_weight l))]"

definition to_path_hops :: "path_hop list \<Rightarrow> scval" where
  "to_path_hops hops = ScvVec (map (\<lambda>h. ScvMap
    [(ScvSymbol ''legs'', ScvVec (map to_path_leg (ph_legs h))),
     (ScvSymbol ''token_out'', ScvAddress (ph_token_out h))]) hops)"

record fill_spec =
  fl_order :: int
  fl_amount_in :: int
  fl_amount_out :: int

definition to_fill_specs :: "fill_spec list \<Rightarrow> scval" where
  "to_fill_specs fills = ScvVec (map (\<lambda>f. ScvMap
    [(ScvSymbol ''amount_out'', ScvI128 (fl_amount_out f)),
     (ScvSymbol ''fill_amount_in'', ScvI128 (fl_amount_in f)),
     (ScvSymbol ''order_id'', ScvU64 (fl_order f))]) fills)"

section \<open>Failover\<close>

text \<open>The call fails at an endpoint in a way another endpoint can cure.\<close>

definition transport_fails :: "int \<Rightarrow> string \<Rightarrow> (string \<Rightarrow> 'a reply) \<Rightarrow> string \<Rightarrow> bool" where
  "transport_fails timeout label call u \<longleftrightarrow>
    (case snd (with_timeout (call u) timeout label) of Inl e \<Rightarrow> is_transport_error (Some e) | Inr _ \<Rightarrow> False)"

lemma dedup_urls_distinct: "distinct (dedup_urls seen us) \<and> set (dedup_urls seen us) \<inter> set seen = {}"
  by (induction seen us rule: dedup_urls.induct) auto

lemma endpoints_distinct: "distinct (endpoints p fb)"
  using dedup_urls_distinct [of "[]"] by (simp only: endpoints_def)

lemma ordered_endpoints_distinct: "distinct eps \<Longrightarrow> distinct (ordered_endpoints down now eps)"
  by (auto simp: ordered_endpoints_def)

lemma ordered_endpoints_set: "set (ordered_endpoints down now eps) = set eps"
  by (auto simp: ordered_endpoints_def)

lemma down_until_set: "down_until (jm_set u t down) v = (if v = u then t else down_until down v)"
  by (simp add: down_until_def jm.get_put)

lemma down_until_delete: "down_until (jm_delete u down) v = (if v = u then 0 else down_until down v)"
  by (simp add: down_until_def jm.get_del)

lemma rpc_loop_result:
  assumes "distinct us" "0 \<le> timeout" "\<And>u. 0 \<le> rp_after (call u)"
    and "rpc_loop timeout label call us now down err = (down', res)"
  shows "(\<exists>pre u post. us = pre @ u # post \<and> (\<forall>x\<in>set pre. transport_fails timeout label call x) \<and>
      \<not> transport_fails timeout label call u \<and> res = snd (with_timeout (call u) timeout label) \<and>
      (\<forall>x\<in>set pre. now + failover_cooldown_ms \<le> down_until down' x) \<and>
      (\<forall>x. x \<notin> set pre \<longrightarrow> x \<noteq> u \<longrightarrow> down_until down' x = down_until down x) \<and>
      (\<forall>out. res = Inr out \<longrightarrow> down_until down' u = 0)) \<or>
    ((\<forall>x\<in>set us. transport_fails timeout label call x \<and> now + failover_cooldown_ms \<le> down_until down' x) \<and>
      (\<forall>x. x \<notin> set us \<longrightarrow> down_until down' x = down_until down x) \<and> (\<exists>e. res = Inl e))"
  using assms(1,4)
proof (induction us arbitrary: now down err)
  case Nil
  then show ?case by (auto dest: sym)
next
  case (Cons u us)
  obtain t r where w: "with_timeout (call u) timeout label = (t, r)" by fastforce
  have t: "0 \<le> t" using w assms(2) assms(3) [of u] by (auto simp: with_timeout_def split: if_splits)
  show ?case
  proof (cases "transport_fails timeout label call u")
    case False
    from Cons.prems(2) False w have "res = r" "\<forall>x. x \<noteq> u \<longrightarrow> down_until down' x = down_until down x"
      "\<forall>out. res = Inr out \<longrightarrow> down_until down' u = 0"
      by (auto simp: transport_fails_def down_until_delete down_until_def jm.get_del split: sum.splits if_splits)
    with False w show ?thesis by (intro disjI1 exI [of _ "[]"] exI [of _ u] exI [of _ us]) simp
  next
    case True
    then obtain e where e: "r = Inl e" "is_transport_error (Some e)"
      using w by (auto simp: transport_fails_def split: sum.splits)
    let ?down = "jm_set u (now + t + failover_cooldown_ms) down"
    from Cons.prems(2) w e have loop: "rpc_loop timeout label call us (now + t) ?down e = (down', res)" by simp
    from Cons.prems(1) have u: "u \<notin> set us" "distinct us" by auto
    from Cons.IH [OF u(2) loop] show ?thesis
    proof
      assume "\<exists>pre v post. us = pre @ v # post \<and> (\<forall>x\<in>set pre. transport_fails timeout label call x) \<and>
        \<not> transport_fails timeout label call v \<and> res = snd (with_timeout (call v) timeout label) \<and>
        (\<forall>x\<in>set pre. now + t + failover_cooldown_ms \<le> down_until down' x) \<and>
        (\<forall>x. x \<notin> set pre \<longrightarrow> x \<noteq> v \<longrightarrow> down_until down' x = down_until ?down x) \<and>
        (\<forall>out. res = Inr out \<longrightarrow> down_until down' v = 0)"
      then obtain pre v post where p: "us = pre @ v # post" "\<forall>x\<in>set pre. transport_fails timeout label call x"
        "\<not> transport_fails timeout label call v" "res = snd (with_timeout (call v) timeout label)"
        "\<forall>x\<in>set pre. now + t + failover_cooldown_ms \<le> down_until down' x"
        "\<forall>x. x \<notin> set pre \<longrightarrow> x \<noteq> v \<longrightarrow> down_until down' x = down_until ?down x"
        "\<forall>out. res = Inr out \<longrightarrow> down_until down' v = 0" by blast
      have "u \<notin> set pre" "u \<noteq> v" using u(1) p(1) by auto
      with p(6) have "down_until down' u = now + t + failover_cooldown_ms" by (simp add: down_until_set)
      with p t True show ?thesis
        by (intro disjI1 exI [of _ "u # pre"] exI [of _ v] exI [of _ post]) (auto simp: down_until_set)
    next
      assume a: "(\<forall>x\<in>set us. transport_fails timeout label call x \<and> now + t + failover_cooldown_ms \<le> down_until down' x) \<and>
        (\<forall>x. x \<notin> set us \<longrightarrow> down_until down' x = down_until ?down x) \<and> (\<exists>e. res = Inl e)"
      with u(1) have "down_until down' u = now + t + failover_cooldown_ms" by (simp add: down_until_set)
      with a t True show ?thesis by (intro disjI2) (auto simp: down_until_set)
    qed
  qed
qed


section \<open>Submission\<close>

lemma poll_loop_spec:
  "(poll_loop poll k n = Inr tx \<longleftrightarrow>
      (\<exists>j<n. poll (k + j) = Inr (TxDone tx) \<and> (\<forall>i<j. poll (k + i) = Inr TxNotFound))) \<and>
    (poll_loop poll k n = Inl (FailedOnLedger c) \<longleftrightarrow>
      (\<exists>j<n. \<exists>d. poll (k + j) = Inr (TxFailed d) \<and> or_unknown d = c \<and> (\<forall>i<j. poll (k + i) = Inr TxNotFound))) \<and>
    (poll_loop poll k n = Inl NotConfirmed \<longleftrightarrow> (\<forall>j<n. poll (k + j) = Inr TxNotFound))"
proof (induction n arbitrary: k)
  case (Suc n)
  have ex: "(\<exists>j<Suc n. P j) \<longleftrightarrow> P 0 \<or> (\<exists>j<n. P (Suc j))" for P :: "nat \<Rightarrow> bool"
    by (metis Suc_less_eq less_Suc_eq_0_disj zero_less_Suc)
  have all: "(\<forall>i<Suc j. P i) \<longleftrightarrow> P 0 \<and> (\<forall>i<j. P (Suc i))" for P :: "nat \<Rightarrow> bool" and j
    using All_less_Suc2 by blast
  show ?case
  proof (cases "poll k")
    case (Inl e)
    then show ?thesis by (auto simp: ex all)
  next
    case (Inr st)
    with Suc.IH [of "Suc k"] show ?thesis by (cases st) (auto simp: ex all)
  qed
qed simp

text \<open>
  C38. A submission returns a transaction exactly when the network took it and one of the thirty
  polls reports it done after only "not found" answers; a transaction that landed and failed is
  an error with its code, one no poll has seen is reported as unconfirmed, and what the network
  refused at once is never polled.
\<close>

theorem submit_outcome:
  "(submit_transaction send poll = Inr tx \<longleftrightarrow> send = Inr Pending \<and>
      (\<exists>j<30. poll j = Inr (TxDone tx) \<and> (\<forall>i<j. poll i = Inr TxNotFound))) \<and>
    (submit_transaction send poll = Inl (FailedOnLedger c) \<longleftrightarrow> send = Inr Pending \<and>
      (\<exists>j<30. \<exists>d. poll j = Inr (TxFailed d) \<and> or_unknown d = c \<and> (\<forall>i<j. poll i = Inr TxNotFound))) \<and>
    (submit_transaction send poll = Inl NotConfirmed \<longleftrightarrow> send = Inr Pending \<and> (\<forall>j<30. poll j = Inr TxNotFound)) \<and>
    (case send of Inr (SendError d) \<Rightarrow> submit_transaction send poll = Inl (RejectedAtSend (or_unknown d))
     | Inr TryAgainLater \<Rightarrow> submit_transaction send poll = Inl (NotAccepted ''TRY_AGAIN_LATER'')
     | Inr Duplicate \<Rightarrow> submit_transaction send poll = Inl (NotAccepted ''DUPLICATE'')
     | _ \<Rightarrow> True)"
proof (cases "send = Inr Pending")
  case True
  with poll_loop_spec [of poll 0 30 tx c] show ?thesis
    by (simp add: submit_transaction_def submit_poll_attempts_def)
next
  case False
  then show ?thesis by (auto simp: submit_transaction_def split: sum.splits send_status.splits)
qed

section \<open>Encoders\<close>

fun str_less :: "string \<Rightarrow> string \<Rightarrow> bool" where
  "str_less s [] = False"
| "str_less [] (d # ds) = True"
| "str_less (c # cs) (d # ds) =
    ((of_char c :: nat) < of_char d \<or> (of_char c :: nat) = of_char d \<and> str_less cs ds)"

lemma key_order:
  "str_less ''amount_in'' ''amount_out''"
  "str_less ''amount_out'' ''expiry_ledger''"
  "str_less ''expiry_ledger'' ''maker''"
  "str_less ''maker'' ''max_nav_dev_bps''"
  "str_less ''max_nav_dev_bps'' ''nonce''"
  "str_less ''nonce'' ''taker''"
  "str_less ''taker'' ''token_in''"
  "str_less ''token_in'' ''token_out''"
  "str_less ''amount_in'' ''min_amount_out''"
  "str_less ''min_amount_out'' ''venue_id''"
  "str_less ''venue_id'' ''weight_bps''"
  "str_less ''legs'' ''token_out''"
  "str_less ''amount_out'' ''fill_amount_in''"
  "str_less ''fill_amount_in'' ''order_id''"
  by code_simp+

declare str_less.simps [simp del]

text \<open>The host decodes a struct from a map whose keys are symbols in strictly ascending order.\<close>

fun canonical :: "scval \<Rightarrow> bool" where
  "canonical (ScvMap es) \<longleftrightarrow> list_all (\<lambda>e. canonical (snd e)) es \<and> list_all (\<lambda>e. \<exists>s. fst e = ScvSymbol s) es \<and>
    successively (\<lambda>e e'. case (fst e, fst e') of (ScvSymbol s, ScvSymbol s') \<Rightarrow> str_less s s' | _ \<Rightarrow> False) es"
| "canonical (ScvVec vs) \<longleftrightarrow> list_all canonical vs"
| "canonical _ \<longleftrightarrow> True"

lemma map_eq_by_key:
  assumes "\<And>x y. f x = f y \<longleftrightarrow> g x = g y"
  shows "map f xs = map f ys \<longleftrightarrow> map g xs = map g ys"
proof (induction xs arbitrary: ys)
  case (Cons x xs)
  then show ?case using assms by (cases ys) auto
qed simp


section \<open>The gate and the fee\<close>

text \<open>The gate admits more calls than its cap: between a release and the turn of the call it
  woke, a new call takes the freed slot.\<close>

lemma sim_gate_overshoots:
  "sg_in_flight (fold gate_exec (replicate 9 Acquire @ [Release, Acquire, Resume])
    \<lparr>sg_in_flight = 0, sg_waiting = 0, sg_woken = 0\<rparr>) = int sim_concurrency + 1"
  by code_simp



section \<open>The properties at concrete inputs\<close>

text \<open>The primary hangs, the fallback answers ledger 7.\<close>

definition demo_call :: "string \<Rightarrow> int reply" where
  "demo_call u = (if u = ''p'' then \<lparr>rp_after = 99999, rp_result = Inr 1\<rparr> else \<lparr>rp_after = 20, rp_result = Inr 7\<rparr>)"


theorem submit_outcome_witness:
  "submit_transaction (Inr Pending) (\<lambda>k. if k < 2 then Inr TxNotFound else Inr (TxDone (7::nat))) = Inr 7"
proof -
  have "\<exists>j<30::nat. (if j < 2 then Inr TxNotFound else Inr (TxDone 7)) = (Inr (TxDone 7) :: rpc_error + nat poll_status) \<and>
      (\<forall>i<j. (if i < 2 then Inr TxNotFound else Inr (TxDone 7)) = (Inr TxNotFound :: rpc_error + nat poll_status))"
    by (intro exI [of _ "2::nat"]) simp
  with submit_outcome [of "Inr Pending" "\<lambda>k. if k < 2 then Inr TxNotFound else Inr (TxDone (7::nat))" 7]
  show ?thesis by blast
qed

end
