(* ===== verification/SwapBuild.thy ===== *)
theory SwapBuild
  imports Pathfinder Impact Stellar JsText
begin

text \<open>
  Best execution and the swap builder of \<open>backend/src/server.ts\<close>:
  \<open>computeBestExecution\<close>, \<open>buildClassicSwap\<close>'s amounts, and
  \<open>POST /api/swap/build\<close> with its five replies (blend, classic, atomic path, deferred path,
  direct), on every branch. The building of a transaction by the SDK, the screening and the
  adapters' on-chain quotes are arguments; a transaction is what is asked of the SDK. Labels and
  symbols, which are only displayed, are left out.
\<close>

section \<open>Amounts\<close>

definition slip_min :: "int \<Rightarrow> int \<Rightarrow> int" where
  "slip_min net slip = tdiv (net * (10000 - slip)) 10000"

text \<open>\<open>toDisplay7\<close>; \<open>tmod\<close> keeps the sign of the dividend.\<close>

definition to_display7 :: "int \<Rightarrow> string" where
  "to_display7 base = big_string (tdiv base 10000000) @ ''.'' @ pad_start 7 (big_string (tmod base 10000000))"

section \<open>Best execution\<close>

definition blend_min_gain_bps :: int where "blend_min_gain_bps = 10"
definition blend_min_gain_units :: int where "blend_min_gain_units = 1000000"

text \<open>The venue id of the classic exchange.\<close>

abbreviation sdex_id :: int where
  "sdex_id \<equiv> 3"

record blend_plan =
  bl_sdex_in :: int
  bl_sdex_out :: int
  bl_amm_in :: int
  bl_amm_net :: int
  bl_net :: int
  bl_gain :: int
  bl_mixed :: route

datatype exec_kind = Classic | Soroban | Blend

record execution =
  ex_kind :: exec_kind
  ex_single :: exec_kind
  ex_route :: "route option"
  ex_sdex_out :: int
  ex_blend :: "blend_plan option"

definition catch_null :: "'a js \<Rightarrow> 'a option" where
  "catch_null m = (case m of Inl _ \<Rightarrow> None | Inr x \<Rightarrow> Some x)"

text \<open>The quote of the classic exchange: absent or unavailable is 0, and so is a failing quote.\<close>

definition sdex_quote :: "int js option \<Rightarrow> int" where
  "sdex_quote q = (case q of None \<Rightarrow> 0 | Some m \<Rightarrow> js_catch m 0)"

definition route_net :: "route option \<Rightarrow> int" where
  "route_net r = (case r of None \<Rightarrow> 0 | Some r \<Rightarrow> if rt_instructions r \<noteq> [] then rt_net_out r else 0)"

definition amm_fee :: "int \<Rightarrow> int" where
  "amm_fee out = (if out > 0 then tdiv (out * 5 + 100000 - 1) 100000 else 0)"

definition blend_of :: "route option \<Rightarrow> int \<Rightarrow> blend_plan option" where
  "blend_of mixed single_best =
    (case mixed of
       None \<Rightarrow> None
     | Some r \<Rightarrow>
         let sdex = filter (\<lambda>s. sg_venue s = sdex_id) (rt_segments r);
             amm = filter (\<lambda>s. sg_venue s \<noteq> sdex_id) (rt_segments r)
         in if sdex \<noteq> [] \<and> amm \<noteq> [] \<and> single_best > 0
            then let amm_out = (\<Sum>s\<leftarrow>amm. sg_out s);
                     amm_net = amm_out - amm_fee amm_out;
                     sdex_out = (\<Sum>s\<leftarrow>sdex. sg_out s);
                     net = sdex_out + amm_net;
                     gain = net - single_best
                 in if gain \<ge> blend_min_gain_units \<and> gain * 10000 \<ge> single_best * blend_min_gain_bps
                    then Some \<lparr>bl_sdex_in = (\<Sum>s\<leftarrow>sdex. sg_in s), bl_sdex_out = sdex_out,
                           bl_amm_in = (\<Sum>s\<leftarrow>amm. sg_in s), bl_amm_net = amm_net, bl_net = net,
                           bl_gain = gain, bl_mixed = r\<rparr>
                    else None
            else None)"

definition best_execution :: "route js \<Rightarrow> int js option \<Rightarrow> route js \<Rightarrow> execution" where
  "best_execution direct sdex mixed =
    (let route = catch_null direct; sdex_out = sdex_quote sdex; net = route_net route;
         single = (if sdex_out > net then Classic else Soroban);
         blend = blend_of (catch_null mixed) (if sdex_out > net then sdex_out else net)
     in \<lparr>ex_kind = (case blend of None \<Rightarrow> single | Some _ \<Rightarrow> Blend), ex_single = single, ex_route = route,
         ex_sdex_out = sdex_out, ex_blend = blend\<rparr>)"

section \<open>Transactions and replies\<close>

text \<open>What is asked of the SDK: a contract call with its arguments, or a classic path payment with
  the amounts as display strings.\<close>

datatype tx =
    ContractCall string string string "scval list"
  | ClassicPayment string string string string string

datatype bad_request =
    ImpactTooHigh num num
  | NoLiquidity
  | NeedsLatestApp
  | LaterLegDead string string
  | OutputTooSmall

datatype build_error = Blocked js_exn | Bad bad_request | BuildFailed js_exn

record swap_leg =
  lg_kind :: exec_kind
  lg_tx :: "tx option"
  lg_deferred :: "(string \<times> string \<times> int) option"
  lg_in :: int
  lg_out :: int

record swap_reply =
  sr_kind :: exec_kind
  sr_legs :: "swap_leg list"
  sr_total_in :: int
  sr_net :: int
  sr_min_total :: int
  sr_bps :: num
  sr_gain :: "int option"
  sr_path :: "(string list \<times> bool) option"
  sr_segments :: "(int \<times> int \<times> int) list"

record swap_config =
  cf_router :: string
  cf_v12 :: bool
  cf_surplus :: bool

record swap_body =
  sb_source :: string
  sb_in :: string
  sb_out :: string
  sb_amount :: int
  sb_slip :: int
  sb_deferred :: bool

definition surplus_arg :: "swap_config \<Rightarrow> int \<Rightarrow> scval list" where
  "surplus_arg cf estimated = (if cf_surplus cf then [ScvI128 (if estimated > 0 then estimated else 0)] else [])"

definition check_impact :: "num option \<Rightarrow> build_error + unit" where
  "check_impact bps = (case impact_violation bps of None \<Rightarrow> Inr () | Some (a, b) \<Rightarrow> Inl (Bad (ImpactTooHigh a b)))"

definition and_then :: "build_error + 'a \<Rightarrow> ('a \<Rightarrow> build_error + 'b) \<Rightarrow> build_error + 'b" where
  "and_then m f = (case m of Inl e \<Rightarrow> Inl e | Inr x \<Rightarrow> f x)"

text \<open>A build the SDK or the network may refuse.\<close>

definition build :: "(tx \<Rightarrow> unit js) \<Rightarrow> tx \<Rightarrow> build_error + tx" where
  "build sdk t = (case sdk t of Inl e \<Rightarrow> Inl (BuildFailed e) | Inr _ \<Rightarrow> Inr t)"

definition big_bps :: "int \<Rightarrow> int \<Rightarrow> num" where
  "big_bps amount net = num_of_big (tdiv ((amount - net) * 10000) amount)"

definition classic_payment :: "swap_body \<Rightarrow> int \<Rightarrow> int \<Rightarrow> tx" where
  "classic_payment b amount expected =
    (let dest_min = slip_min expected (sb_slip b)
     in ClassicPayment (sb_source b) (sb_in b) (to_display7 amount) (sb_out b)
          (to_display7 (if dest_min > 0 then dest_min else 1)))"

definition execute_route :: "swap_config \<Rightarrow> string \<Rightarrow> string \<Rightarrow> string \<Rightarrow> int \<Rightarrow> int \<Rightarrow> swap_instruction list \<Rightarrow> int \<Rightarrow> tx" where
  "execute_route cf source tin tout amount min_total ins estimated =
    ContractCall source (cf_router cf) ''execute_route''
      ([ScvAddress source, ScvAddress tin, ScvAddress tout, ScvI128 amount, ScvI128 min_total,
        to_route_segments ins] @ surplus_arg cf estimated)"

definition triple :: "route_segment \<Rightarrow> int \<times> int \<times> int" where
  "triple s = (sg_venue s, sg_in s, sg_out s)"

subsection \<open>Blend and classic\<close>

definition blend_reply :: "(tx \<Rightarrow> unit js) \<Rightarrow> swap_config \<Rightarrow> swap_body \<Rightarrow> blend_plan \<Rightarrow> build_error + swap_reply" where
  "blend_reply sdk cf b p =
    and_then (check_impact (Some (rt_impact_bps (bl_mixed p)))) (\<lambda>_.
    and_then (build sdk (classic_payment b (bl_sdex_in p) (bl_sdex_out p))) (\<lambda>classic.
      let amm_min = slip_min (bl_amm_net p) (sb_slip b);
          ins = filter (\<lambda>i. si_venue i \<noteq> sdex_id) (rt_instructions (bl_mixed p))
      in and_then (build sdk (execute_route cf (sb_source b) (sb_in b) (sb_out b) (bl_amm_in p)
              (if amm_min > 0 then amm_min else 1) ins (bl_amm_net p))) (\<lambda>soroban.
        Inr \<lparr>sr_kind = Blend,
             sr_legs = [\<lparr>lg_kind = Classic, lg_tx = Some classic, lg_deferred = None, lg_in = bl_sdex_in p, lg_out = bl_sdex_out p\<rparr>,
                        \<lparr>lg_kind = Soroban, lg_tx = Some soroban, lg_deferred = None, lg_in = bl_amm_in p, lg_out = bl_amm_net p\<rparr>],
             sr_total_in = sb_amount b, sr_net = bl_net p, sr_min_total = slip_min (bl_net p) (sb_slip b),
             sr_bps = big_bps (sb_amount b) (bl_net p), sr_gain = Some (bl_gain p), sr_path = None,
             sr_segments = map triple (filter (\<lambda>s. sg_in s > 0) (rt_segments (bl_mixed p)))\<rparr>)))"

definition single_leg :: "exec_kind \<Rightarrow> tx \<Rightarrow> int \<Rightarrow> int \<Rightarrow> swap_leg" where
  "single_leg k t amount out = \<lparr>lg_kind = k, lg_tx = Some t, lg_deferred = None, lg_in = amount, lg_out = out\<rparr>"

definition classic_reply :: "(tx \<Rightarrow> unit js) \<Rightarrow> swap_body \<Rightarrow> int \<Rightarrow> build_error + swap_reply" where
  "classic_reply sdk b sdex_out =
    and_then (build sdk (classic_payment b (sb_amount b) sdex_out)) (\<lambda>t.
      Inr \<lparr>sr_kind = Classic, sr_legs = [single_leg Classic t (sb_amount b) sdex_out], sr_total_in = sb_amount b,
           sr_net = sdex_out, sr_min_total = slip_min sdex_out (sb_slip b), sr_bps = big_bps (sb_amount b) sdex_out,
           sr_gain = None, sr_path = None, sr_segments = [(sdex_id, sb_amount b, sdex_out)]\<rparr>)"

subsection \<open>Multi-hop\<close>

text \<open>The weights of one hop's legs; the last one absorbs the rounding.\<close>

fun weights_loop :: "int \<Rightarrow> int \<Rightarrow> int list \<Rightarrow> int list" where
  "weights_loop hop_total assigned [] = []"
| "weights_loop hop_total assigned [x] = [10000 - assigned]"
| "weights_loop hop_total assigned (x # y # xs) =
    (let w = tdiv (x * 10000) (if hop_total > 0 then hop_total else 1)
     in w # weights_loop hop_total (assigned + w) (y # xs))"

definition hop_weights :: "int list \<Rightarrow> int list" where
  "hop_weights xs = weights_loop (sum_list xs) 0 xs"

definition path_hop_of :: "hop_quote \<Rightarrow> path_hop" where
  "path_hop_of h =
    (let ins = rt_instructions (hq_route h)
     in \<lparr>ph_token_out = hq_out h,
         ph_legs = map (\<lambda>(i, w). \<lparr>pl_venue = si_venue i, pl_weight = w, pl_min_out = 0\<rparr>)
           (zip ins (hop_weights (map si_in ins)))\<rparr>)"

definition estimated_gross :: "int \<Rightarrow> hop_quote list \<Rightarrow> int" where
  "estimated_gross amount hops =
    foldl (\<lambda>g h. if hq_amount h > 0 then tdiv (rt_total_out (hq_route h) * g) (hq_amount h) else g) amount hops"

text \<open>\<open>multi.hops[0].route.segments[0]?.venueId ?? 1\<close>\<close>

definition first_venue :: "hop_quote list \<Rightarrow> int" where
  "first_venue hops = (case hops of [] \<Rightarrow> 1 | h # _ \<Rightarrow> (case rt_segments (hq_route h) of [] \<Rightarrow> 1 | s # _ \<Rightarrow> sg_venue s))"

definition atomic_reply :: "(tx \<Rightarrow> unit js) \<Rightarrow> swap_config \<Rightarrow> swap_body \<Rightarrow> path_result \<Rightarrow> build_error + swap_reply" where
  "atomic_reply sdk cf b p =
    (let final_min = slip_min (pr_net p) (sb_slip b)
     in and_then (build sdk (ContractCall (sb_source b) (cf_router cf) ''execute_path''
          ([ScvAddress (sb_source b), ScvAddress (sb_in b), ScvI128 (sb_amount b),
            ScvI128 (if final_min > 0 then final_min else 1), to_path_hops (map path_hop_of (pr_hops p))] @
           surplus_arg cf (estimated_gross (sb_amount b) (pr_hops p))))) (\<lambda>t.
       Inr \<lparr>sr_kind = Soroban, sr_legs = [single_leg Soroban t (sb_amount b) (pr_net p)], sr_total_in = sb_amount b,
            sr_net = pr_net p, sr_min_total = final_min, sr_bps = Fin 0, sr_gain = None, sr_path = Some (pr_path p, True),
            sr_segments = [(first_venue (pr_hops p), sb_amount b, pr_net p)]\<rparr>))"

text \<open>\<open>/^C[A-Z2-7]{55}$/\<close>\<close>

definition is_contract :: "string \<Rightarrow> bool" where
  "is_contract s \<longleftrightarrow> length s = 56 \<and> hd s = CHR ''C'' \<and> list_all base32_char (tl s)"

text \<open>The check of every later hop's adapters before anything is signed.\<close>

definition later_legs :: "hop_quote list \<Rightarrow> (hop_quote \<times> swap_instruction) list" where
  "later_legs hops = concat (map (\<lambda>h. map (Pair h)
    (filter (\<lambda>i. is_contract (si_contract i)) (rt_instructions (hq_route h)))) (tl hops))"

fun preflight :: "(string \<Rightarrow> string \<Rightarrow> string \<Rightarrow> int \<Rightarrow> int option) \<Rightarrow> (hop_quote \<times> swap_instruction) list \<Rightarrow> build_error + unit" where
  "preflight adapter [] = Inr ()"
| "preflight adapter ((h, i) # xs) =
    (case adapter (si_contract i) (hq_in h) (hq_out h) (si_in i) of
       None \<Rightarrow> Inl (Bad (LaterLegDead (hq_in h) (hq_out h)))
     | Some out \<Rightarrow> if out \<le> 0 then Inl (Bad (LaterLegDead (hq_in h) (hq_out h))) else preflight adapter xs)"

definition hop_leg :: "tx \<Rightarrow> hop_quote list \<Rightarrow> nat \<Rightarrow> swap_leg" where
  "hop_leg first hops k =
    (let h = hops ! k
     in \<lparr>lg_kind = Soroban, lg_tx = (if k = 0 then Some first else None),
         lg_deferred = (if k = 0 then None else Some (hq_in h, hq_out h, hq_min_out (hops ! (k - 1)))),
         lg_in = hq_amount h, lg_out = rt_net_out (hq_route h)\<rparr>)"

definition deferred_reply :: "(tx \<Rightarrow> unit js) \<Rightarrow> (string \<Rightarrow> string \<Rightarrow> string \<Rightarrow> int \<Rightarrow> int option) \<Rightarrow> swap_config \<Rightarrow> swap_body
    \<Rightarrow> path_result \<Rightarrow> build_error + swap_reply" where
  "deferred_reply sdk adapter cf b p =
    (let hops = pr_hops p
     in if length hops > 1 \<and> \<not> sb_deferred b then Inl (Bad NeedsLatestApp)
        else and_then (preflight adapter (later_legs hops)) (\<lambda>_.
          case hops of
            [] \<Rightarrow> Inl (BuildFailed TypeError)
          | h # _ \<Rightarrow>
              and_then (build sdk (execute_route cf (sb_source b) (hq_in h) (hq_out h) (hq_amount h) (hq_min_out h)
                  (rt_instructions (hq_route h)) (rt_total_out (hq_route h)))) (\<lambda>t.
                Inr \<lparr>sr_kind = Blend, sr_legs = map (hop_leg t hops) [0..<length hops], sr_total_in = sb_amount b,
                     sr_net = pr_net p, sr_min_total = hq_min_out (last hops), sr_bps = Fin 0, sr_gain = None,
                     sr_path = Some (pr_path p, False), sr_segments = [(first_venue hops, sb_amount b, pr_net p)]\<rparr>)))"

definition multi_reply :: "(tx \<Rightarrow> unit js) \<Rightarrow> (string \<Rightarrow> string \<Rightarrow> string \<Rightarrow> int \<Rightarrow> int option) \<Rightarrow> swap_config \<Rightarrow> swap_body
    \<Rightarrow> path_result option \<Rightarrow> build_error + swap_reply" where
  "multi_reply sdk adapter cf b multi =
    (case multi of
       None \<Rightarrow> Inl (Bad NoLiquidity)
     | Some p \<Rightarrow>
         and_then (check_impact (Some (sum_hop_impact (map (\<lambda>h. Some (rt_impact_bps (hq_route h))) (pr_hops p))))) (\<lambda>_.
           if cf_v12 cf then atomic_reply sdk cf b p else deferred_reply sdk adapter cf b p))"

subsection \<open>Direct\<close>

definition direct_reply :: "(tx \<Rightarrow> unit js) \<Rightarrow> swap_config \<Rightarrow> swap_body \<Rightarrow> route \<Rightarrow> build_error + swap_reply" where
  "direct_reply sdk cf b r =
    and_then (check_impact (Some (rt_impact_bps r))) (\<lambda>_.
      let min_total = slip_min (rt_net_out r) (sb_slip b)
      in if min_total \<le> 0 then Inl (Bad OutputTooSmall)
         else and_then (build sdk (execute_route cf (sb_source b) (sb_in b) (sb_out b) (rt_in r) min_total
             (rt_instructions r) (rt_total_out r))) (\<lambda>t.
           Inr \<lparr>sr_kind = Soroban, sr_legs = [single_leg Soroban t (rt_in r) (rt_net_out r)], sr_total_in = rt_in r,
                sr_net = rt_net_out r, sr_min_total = min_total, sr_bps = rt_blended_bps r, sr_gain = None,
                sr_path = None, sr_segments = map triple (rt_segments r)\<rparr>))"

text \<open>The handler after its input is parsed. \<open>plan\<close> is the answer of
  \<open>pathfinder.bestRoute\<close>, asked for only on the soroban branch.\<close>

definition swap_build :: "unit js \<Rightarrow> (tx \<Rightarrow> unit js) \<Rightarrow> (string \<Rightarrow> string \<Rightarrow> string \<Rightarrow> int \<Rightarrow> int option) \<Rightarrow> swap_config
    \<Rightarrow> swap_body \<Rightarrow> execution \<Rightarrow> best_route js \<Rightarrow> build_error + swap_reply" where
  "swap_build screening sdk adapter cf b ex plan =
    (case screening of Inl e \<Rightarrow> Inl (Blocked e) | Inr _ \<Rightarrow>
       (case ex_blend ex of
          Some p \<Rightarrow> blend_reply sdk cf b p
        | None \<Rightarrow>
            if ex_single ex = Classic then classic_reply sdk b (ex_sdex_out ex)
            else (case plan of
                    Inl e \<Rightarrow> Inl (BuildFailed e)
                  | Inr br \<Rightarrow>
                      let direct = route_net (ex_route ex)
                      in (case ex_route ex of
                            None \<Rightarrow> multi_reply sdk adapter cf b (br_multi br)
                          | Some r \<Rightarrow>
                              if rt_instructions r = [] \<or>
                                 (case br_multi br of None \<Rightarrow> False | Some p \<Rightarrow> pr_net p > direct)
                              then multi_reply sdk adapter cf b (br_multi br)
                              else direct_reply sdk cf b r))))"

section \<open>Weights\<close>

lemma weights_loop_sum: "xs \<noteq> [] \<Longrightarrow> sum_list (weights_loop t a xs) = 10000 - a"
  by (induction t a xs rule: weights_loop.induct) (simp_all add: Let_def)

lemma weights_loop_length: "length (weights_loop t a xs) = length xs"
  by (induction t a xs rule: weights_loop.induct) (simp_all add: Let_def)

lemma weights_loop_nonneg:
  assumes "0 < t" "\<And>x. x \<in> set xs \<Longrightarrow> 0 \<le> x" "a * t \<le> 10000 * (t - sum_list xs)" "w \<in> set (weights_loop t a xs)"
  shows "0 \<le> w"
  using assms
proof (induction t a xs rule: weights_loop.induct)
  case (2 t a x)
  have "a * t \<le> 10000 * t" using 2(2) [of x] 2(3) by (simp add: algebra_simps)
  then have "a \<le> 10000" using 2(1) by (rule mult_right_le_imp_le)
  with 2(4) show ?case by simp
next
  case (3 t a x y xs)
  define v where "v = tdiv (x * 10000) t"
  have v: "0 \<le> v" "v * t \<le> x * 10000"
    using 3(2,3) by (simp_all add: v_def tdiv_sign tdiv_mult_le)
  have "w = v \<or> w \<in> set (weights_loop t (a + v) (y # xs))"
    using 3(2,5) by (simp add: v_def Let_def)
  moreover have "(a + v) * t \<le> 10000 * (t - sum_list (y # xs))"
    using 3(4) v(2) by (simp add: algebra_simps)
  then have "w \<in> set (weights_loop t (a + v) (y # xs)) \<Longrightarrow> 0 \<le> w"
    using 3(1) [of v] 3(2,3) by (simp add: v_def)
  ultimately show ?case using v(1) by blast
qed simp

lemma sum_list_pos: "xs \<noteq> [] \<Longrightarrow> (\<And>x. x \<in> set xs \<Longrightarrow> 0 < x) \<Longrightarrow> 0 < sum_list xs" for xs :: "int list"
proof (induction xs)
  case (Cons x xs)
  then show ?case by (cases xs) (auto intro: add_pos_pos)
qed simp

lemma zip_views: "length ws = length xs \<Longrightarrow> map snd (zip xs ws) = ws \<and> map (\<lambda>z. f (fst z)) (zip xs ws) = map f xs"
proof (induction ws xs rule: list_induct2')
qed auto


section \<open>Best execution\<close>

lemma amm_fee_eq: "0 \<le> out \<Longrightarrow> amm_fee out = cdiv (out * 5) 100000"
  by (auto simp: amm_fee_def cdiv_def tdiv_nonneg)

lemma blend_of_Some:
  assumes "blend_of mixed best = Some p"
  obtains r where "mixed = Some r" "bl_mixed p = r" "0 < best"
    "bl_sdex_in p = (\<Sum>s\<leftarrow>filter (\<lambda>s. sg_venue s = sdex_id) (rt_segments r). sg_in s)"
    "bl_amm_in p = (\<Sum>s\<leftarrow>filter (\<lambda>s. sg_venue s \<noteq> sdex_id) (rt_segments r). sg_in s)"
    "bl_sdex_out p = (\<Sum>s\<leftarrow>filter (\<lambda>s. sg_venue s = sdex_id) (rt_segments r). sg_out s)"
    "bl_amm_net p = (\<Sum>s\<leftarrow>filter (\<lambda>s. sg_venue s \<noteq> sdex_id) (rt_segments r). sg_out s) -
      amm_fee (\<Sum>s\<leftarrow>filter (\<lambda>s. sg_venue s \<noteq> sdex_id) (rt_segments r). sg_out s)"
    "bl_net p = bl_sdex_out p + bl_amm_net p" "bl_gain p = bl_net p - best"
    "blend_min_gain_units \<le> bl_gain p" "best * blend_min_gain_bps \<le> bl_gain p * 10000"
    "filter (\<lambda>s. sg_venue s = sdex_id) (rt_segments r) \<noteq> []"
  using assms by (auto simp: blend_of_def Let_def split: option.splits if_splits)

lemma sum_split: "(\<Sum>s\<leftarrow>filter P xs. f s) + (\<Sum>s\<leftarrow>filter (\<lambda>s. \<not> P s) xs. f s) = (\<Sum>s\<leftarrow>xs. f s)"
  for f :: "'a \<Rightarrow> int"
  by (induction xs) auto

text \<open>
  C5. The single-transaction plan is the better of the executable route and the classic quote. A
  two-transaction blend is chosen only when its net output, the classic part plus the AMM part less
  the router's rounded-up fee, beats that best by both gates; its two inputs add up to exactly the
  amount.
\<close>

theorem best_execution_gated:
  assumes "mixed = compute_route fee_num venues tin tout amount slip True True d"
    and "ex = best_execution direct sdex mixed" "best = max (sdex_quote sdex) (route_net (catch_null direct))"
  shows "(ex_single ex = Classic \<longleftrightarrow> route_net (catch_null direct) < sdex_quote sdex) \<and>
    (ex_kind ex = Blend \<longleftrightarrow> ex_blend ex \<noteq> None) \<and>
    (\<forall>p. ex_blend ex = Some p \<longrightarrow> bl_sdex_in p + bl_amm_in p = amount \<and>
      bl_net p = bl_sdex_out p + bl_amm_net p \<and> 0 < best \<and>
      best + blend_min_gain_units \<le> bl_net p \<and>
      best * (10000 + blend_min_gain_bps) \<le> bl_net p * 10000)"
proof -
  have single: "ex_single ex = Classic \<longleftrightarrow> route_net (catch_null direct) < sdex_quote sdex"
    "ex_kind ex = Blend \<longleftrightarrow> ex_blend ex \<noteq> None"
    by (simp_all add: assms(2) best_execution_def Let_def split: option.split)
  have blend: "ex_blend ex = blend_of (catch_null mixed) best"
    by (simp add: assms(2,3) best_execution_def Let_def max_def)
  have "bl_sdex_in p + bl_amm_in p = amount \<and> bl_net p = bl_sdex_out p + bl_amm_net p \<and> 0 < best \<and>
      best + blend_min_gain_units \<le> bl_net p \<and> best * (10000 + blend_min_gain_bps) \<le> bl_net p * 10000"
    if "ex_blend ex = Some p" for p
    using that unfolding blend
  proof (rule blend_of_Some)
    fix r
    assume r: "catch_null mixed = Some r" "filter (\<lambda>s. sg_venue s = sdex_id) (rt_segments r) \<noteq> []" "0 < best"
      and i: "bl_sdex_in p = (\<Sum>s\<leftarrow>filter (\<lambda>s. sg_venue s = sdex_id) (rt_segments r). sg_in s)"
        "bl_amm_in p = (\<Sum>s\<leftarrow>filter (\<lambda>s. sg_venue s \<noteq> sdex_id) (rt_segments r). sg_in s)"
      and g: "bl_net p = bl_sdex_out p + bl_amm_net p" "bl_gain p = bl_net p - best"
        "blend_min_gain_units \<le> bl_gain p" "best * blend_min_gain_bps \<le> bl_gain p * 10000"
    from r(1) have "mixed = Inr r" by (simp add: catch_null_def split: sum.splits)
    moreover from r(2) have "rt_segments r \<noteq> []" by auto
    ultimately have "(\<Sum>s\<leftarrow>rt_segments r. sg_in s) = amount" using assms(1) by (intro route_segments_ok(2)) simp_all
    with i sum_split [of sg_in "\<lambda>s. sg_venue s = sdex_id" "rt_segments r"]
    have "bl_sdex_in p + bl_amm_in p = amount" by simp
    with g r(3) show ?thesis by (simp add: algebra_simps)
  qed
  with single show ?thesis by blast
qed


section \<open>Every transaction handed out carries a minimum\<close>

lemma and_then_Inr: "and_then m f = Inr y \<longleftrightarrow> (\<exists>x. m = Inr x \<and> f x = Inr y)"
  by (simp add: and_then_def split: sum.split)

lemma build_Inr: "build sdk t = Inr t' \<longleftrightarrow> t' = t \<and> (\<exists>u. sdk t = Inr u)"
  by (auto simp: build_def split: sum.split)

text \<open>The minimum output argument of a call, or the minimum of a classic payment, is positive.\<close>

definition tx_guarded :: "tx \<Rightarrow> bool" where
  "tx_guarded t \<longleftrightarrow> (case t of
     ContractCall s c meth args \<Rightarrow> \<exists>x>0. args ! (if meth = ''execute_path'' then 3 else 4) = ScvI128 x
   | ClassicPayment s a n b m \<Rightarrow> \<exists>x>0. m = to_display7 x)"

definition legs_guarded :: "swap_leg list \<Rightarrow> bool" where
  "legs_guarded ls \<longleftrightarrow> (\<exists>t. lg_tx (hd ls) = Some t) \<and> (\<forall>l\<in>set ls. \<forall>t. lg_tx l = Some t \<longrightarrow> tx_guarded t)"

lemma classic_guarded: "tx_guarded (classic_payment b amount out)"
  unfolding tx_guarded_def classic_payment_def Let_def tx.case
  by (rule exI [of _ "if slip_min out (sb_slip b) > 0 then slip_min out (sb_slip b) else 1"]) simp

lemma route_guarded: "0 < m \<Longrightarrow> tx_guarded (execute_route cf source tin tout amount m ins est)"
  by (simp add: tx_guarded_def execute_route_def)

lemma blend_reply_guarded: "blend_reply sdk cf b p = Inr rep \<Longrightarrow> legs_guarded (sr_legs rep)"
  by (auto simp: blend_reply_def and_then_Inr build_Inr Let_def legs_guarded_def classic_guarded route_guarded)

lemma classic_reply_guarded: "classic_reply sdk b out = Inr rep \<Longrightarrow> legs_guarded (sr_legs rep)"
  by (auto simp: classic_reply_def and_then_Inr build_Inr single_leg_def legs_guarded_def classic_guarded)

lemma direct_reply_guarded: "direct_reply sdk cf b r = Inr rep \<Longrightarrow> legs_guarded (sr_legs rep)"
  by (auto simp: direct_reply_def and_then_Inr build_Inr single_leg_def legs_guarded_def route_guarded Let_def
      split: if_splits)

lemma atomic_reply_guarded: "atomic_reply sdk cf b p = Inr rep \<Longrightarrow> legs_guarded (sr_legs rep)"
  by (auto simp: atomic_reply_def and_then_Inr build_Inr single_leg_def legs_guarded_def Let_def tx_guarded_def)

lemma deferred_reply_guarded:
  assumes "deferred_reply sdk adapter cf b p = Inr rep" "\<And>h. h \<in> set (pr_hops p) \<Longrightarrow> 0 < hq_min_out h"
  shows "legs_guarded (sr_legs rep)"
proof -
  from assms(1) obtain h hs t where h: "pr_hops p = h # hs" and t: "t = execute_route cf (sb_source b) (hq_in h)
      (hq_out h) (hq_amount h) (hq_min_out h) (rt_instructions (hq_route h)) (rt_total_out (hq_route h))"
    and legs: "sr_legs rep = map (hop_leg t (h # hs)) [0..<length (h # hs)]"
    by (auto simp: deferred_reply_def and_then_Inr build_Inr Let_def split: if_splits list.splits)
  have "tx_guarded t" unfolding t using assms(2) h by (intro route_guarded) simp
  then show ?thesis unfolding legs
    by (auto simp: legs_guarded_def hop_leg_def Let_def upt_conv_Cons simp del: upt_Suc split: if_splits)
qed

lemma swap_build_guarded:
  assumes "swap_build screening sdk adapter cf b ex plan = Inr rep"
    and "\<And>br p h. plan = Inr br \<Longrightarrow> br_multi br = Some p \<Longrightarrow> h \<in> set (pr_hops p) \<Longrightarrow> 0 < hq_min_out h"
  shows "screening = Inr () \<and> legs_guarded (sr_legs rep)"
proof -
  have multi: "legs_guarded (sr_legs rep)"
    if "plan = Inr br" "multi_reply sdk adapter cf b (br_multi br) = Inr rep" for br
  proof (cases "br_multi br")
    case (Some p)
    from that(2) Some have "(if cf_v12 cf then atomic_reply sdk cf b p else deferred_reply sdk adapter cf b p) = Inr rep"
      by (auto simp: multi_reply_def and_then_Inr)
    then show ?thesis
      using atomic_reply_guarded [of sdk cf b p rep] deferred_reply_guarded [of sdk adapter cf b p rep]
        assms(2) [OF that(1) Some] by (cases "cf_v12 cf") simp_all
  qed (use that in \<open>simp add: multi_reply_def\<close>)
  have scr: "screening = Inr ()" using assms(1) by (cases screening) (simp_all add: swap_build_def)
  show ?thesis
  proof (cases "ex_blend ex")
    case (Some p)
    with assms(1) scr have "legs_guarded (sr_legs rep)" by (intro blend_reply_guarded) (simp add: swap_build_def)
    with scr show ?thesis by simp
  next
    case None
    show ?thesis
    proof (cases "ex_single ex = Classic")
      case True
      with None assms(1) scr have "legs_guarded (sr_legs rep)"
        by (intro classic_reply_guarded) (simp add: swap_build_def)
      with scr show ?thesis by simp
    next
      case False
      with None assms(1) scr obtain br where br: "plan = Inr br"
        "multi_reply sdk adapter cf b (br_multi br) = Inr rep \<or> (\<exists>r. direct_reply sdk cf b r = Inr rep)"
        by (auto simp: swap_build_def Let_def split: sum.splits option.splits if_splits)
      with multi direct_reply_guarded have "legs_guarded (sr_legs rep)" by blast
      with scr show ?thesis by simp
    qed
  qed
qed


section \<open>The properties at concrete inputs\<close>

definition demo_body :: swap_body where
  "demo_body = \<lparr>sb_source = ''S'', sb_in = ''A'', sb_out = ''B'', sb_amount = 100, sb_slip = 50, sb_deferred = True\<rparr>"

definition demo_config :: swap_config where
  "demo_config = \<lparr>cf_router = ''R'', cf_v12 = True, cf_surplus = False\<rparr>"


definition demo_hop_quote :: hop_quote where
  "demo_hop_quote = \<lparr>hq_in = ''A'', hq_out = ''B'', hq_amount = 3, hq_min_out = 2,
     hq_route = fixed_route\<lparr>rt_instructions :=
       [\<lparr>si_contract = ''V'', si_venue = 1, si_in = 1, si_min_out = 1\<rparr>,
        \<lparr>si_contract = ''W'', si_venue = 2, si_in = 2, si_min_out = 1\<rparr>]\<rparr>\<rparr>"


theorem best_execution_gated_witness:
  "\<exists>p. ex_blend (best_execution (Inl TypeError) (Some (Inr 2000000000))
      (compute_route 0 two_pools ''A'' ''B'' 3000000000 50 True True seven)) = Some p \<and>
    bl_sdex_in p + bl_amm_in p = 3000000000 \<and> 2000000000 + blend_min_gain_units \<le> bl_net p"
proof -
  let ?mixed = "compute_route 0 two_pools ''A'' ''B'' 3000000000 50 True True seven"
  let ?ex = "best_execution (Inl TypeError) (Some (Inr 2000000000)) ?mixed"
  from pool_route_value [of 0 "''A''" "''B''" True] obtain r where r: "?mixed = Inr r"
    "map triple (rt_segments r) = [(3, 2000000000, 1975344949), (1, 1000000000, 990099009)]"
    by (auto simp: triple_def [abs_def])
  then obtain s t where st: "rt_segments r = [s, t]" "sg_venue s = 3" "sg_out s = 1975344949"
    "sg_venue t = 1" "sg_out t = 990099009" by (auto simp: triple_def)
  then obtain p where p: "ex_blend ?ex = Some p"
    by (auto simp: r(1) best_execution_def catch_null_def sdex_quote_def route_net_def blend_of_def amm_fee_def
        blend_min_gain_units_def blend_min_gain_bps_def Let_def)
  have b: "2000000000 = max (sdex_quote (Some (Inr 2000000000))) (route_net (catch_null (Inl TypeError)))"
    by (simp add: sdex_quote_def route_net_def catch_null_def)
  from best_execution_gated [OF refl refl b, of 0 two_pools "''A''" "''B''" 3000000000 50 seven] p show ?thesis by blast
qed

end
