(* ===== verification/Tokens.thy ===== *)
theory Tokens
  imports JsText QuoteXdr Stellar
begin

text \<open>
  The token registry, \<open>backend/src/stellar/tokens.ts\<close>: the curated entries, their
  environment overrides, resolution of symbols and addresses, and the display form of an amount.
  The lemma to look for: a displayed amount reads back as itself, and resolution answers only
  registry addresses or contract addresses given as such.
\<close>

section \<open>Address shapes\<close>

text \<open>\<open>/^C[A-Z2-7]{55}$/\<close> and \<open>/^G[A-Z2-7]{55}$/\<close>\<close>

definition strkey :: "char \<Rightarrow> string \<Rightarrow> bool" where
  "strkey c s \<longleftrightarrow> length s = 56 \<and> hd s = c \<and> list_all base32_char (tl s)"

section \<open>The registry\<close>

record token_config =
  tk_symbol :: string
  tk_name :: string
  tk_issuer :: string
  tk_sac :: string
  tk_decimals :: int
  tk_live :: bool
  tk_home :: "string option"

definition xlm_sac :: string where
  "xlm_sac = ''CAS3J7GYLGXMF6TDJBBYYSE3HQ6BBSMLNUQ34T6TZMYMW2EVH34XOWMA''"

text \<open>\<open>Object.values(TOKENS)\<close>; every entry's key is its symbol.\<close>

definition tokens :: "token_config list" where
  "tokens =
    [\<lparr>tk_symbol = ''XLM'', tk_name = ''Stellar Lumens'', tk_issuer = '''', tk_sac = xlm_sac, tk_decimals = 7,
      tk_live = True, tk_home = Some ''stellar.org''\<rparr>,
     \<lparr>tk_symbol = ''USDC'', tk_name = ''USD Coin (Circle)'',
      tk_issuer = ''GA5ZSEJYB37JRC5AVCIA5MOP4RHTM335X2KGX3IHOJAPP5RE34K4KZVN'', tk_sac = '''', tk_decimals = 7,
      tk_live = True, tk_home = Some ''circle.com''\<rparr>,
     \<lparr>tk_symbol = ''PYUSD'', tk_name = ''PayPal USD'',
      tk_issuer = ''GDQE7IXJ4HUHV6RQHIUPRJSEZE4DRS5WY577O2FY6YQ5LVWZ7JZTU2V5'', tk_sac = '''', tk_decimals = 7,
      tk_live = True, tk_home = Some ''paxos.com''\<rparr>,
     \<lparr>tk_symbol = ''USDY'', tk_name = ''Ondo US Dollar Yield'',
      tk_issuer = ''GAJMPX5NBOG6TQFPQGRABJEEB2YE7RFRLUKJDZAZGAD5GFX4J7TADAZ6'', tk_sac = '''', tk_decimals = 7,
      tk_live = True, tk_home = Some ''ondo.finance''\<rparr>,
     \<lparr>tk_symbol = ''USDT0'', tk_name = ''USDT0 (Tether via LayerZero)'',
      tk_issuer = ''GATISXX6BZ6NC7IKQBY37CJD4SOZL3CYZJWXEDG6JVIY4WBS6KXJHN6Q'',
      tk_sac = ''CBSJZEIO5C7KC2SF3MKSNXXJSW5G3VTNBX4ATMKUI3B2MR4JKM4R26YF'', tk_decimals = 7,
      tk_live = True, tk_home = None\<rparr>]"

text \<open>A truthy environment variable overrides; a status other than the two known ones is ignored.\<close>

definition truthy :: "string option \<Rightarrow> bool" where
  "truthy v \<longleftrightarrow> (case v of Some (c # cs) \<Rightarrow> True | _ \<Rightarrow> False)"

definition override_token :: "(string \<Rightarrow> string option) \<Rightarrow> token_config \<Rightarrow> token_config" where
  "override_token env t =
    (let key = to_upper (tk_symbol t);
         issuer = env (''TOKEN_'' @ key @ ''_ISSUER'');
         sac = env (''TOKEN_'' @ key @ ''_SAC'');
         status = env (''TOKEN_'' @ key @ ''_STATUS'');
         t1 = (if truthy issuer then t\<lparr>tk_issuer := the issuer\<rparr> else t);
         t2 = (if truthy sac then t1\<lparr>tk_sac := the sac\<rparr> else t1)
     in if status = Some ''live'' \<or> status = Some ''coming_soon'' then t2\<lparr>tk_live := (status = Some ''live'')\<rparr> else t2)"

definition load_tokens :: "(string \<Rightarrow> string option) \<Rightarrow> token_config list" where
  "load_tokens env = map (override_token env) tokens"

definition get_live_tokens :: "token_config list \<Rightarrow> token_config list" where
  "get_live_tokens ts = filter tk_live ts"

definition get_token_pairs :: "token_config list \<Rightarrow> (token_config \<times> token_config) list" where
  "get_token_pairs ts =
    (let live = get_live_tokens ts
     in concat (map (\<lambda>a. map (Pair a) (filter (\<lambda>b. tk_symbol a \<noteq> tk_symbol b) live)) live))"

definition resolve_token :: "token_config list \<Rightarrow> string \<Rightarrow> token_config option" where
  "resolve_token ts s =
    (case find (\<lambda>t. to_upper (tk_symbol t) = to_upper s) ts of
       Some t \<Rightarrow> Some t
     | None \<Rightarrow> find (\<lambda>t. tk_sac t = s) ts)"

definition resolve_sac_address :: "token_config list \<Rightarrow> string \<Rightarrow> string js" where
  "resolve_sac_address ts s =
    (if strkey (CHR ''C'') s then Inr s
     else case resolve_token ts s of
            Some t \<Rightarrow> if tk_sac t \<noteq> [] then Inr (tk_sac t) else Inl (Thrown (''Unknown token or missing SAC address: '' @ s))
          | None \<Rightarrow> Inl (Thrown (''Unknown token or missing SAC address: '' @ s)))"

section \<open>Display amounts\<close>

text \<open>\<open>10 ** d\<close> as a double.\<close>

definition num_pow10 :: "int \<Rightarrow> num" where
  "num_pow10 d = rnd (10 powi d)"

text \<open>\<open>s.replace(/0+$/, '')\<close>\<close>

definition strip_zeros :: "string \<Rightarrow> string" where
  "strip_zeros s = rev (dropWhile (\<lambda>c. c = CHR ''0'') (rev s))"

definition format_amount :: "int \<Rightarrow> int \<Rightarrow> string js" where
  "format_amount amount decs =
    js_bind (big_of_num (num_pow10 decs)) (\<lambda>divisor.
    js_bind (big_div amount divisor) (\<lambda>whole.
      let rest = tmod amount divisor;
          frac_str = strip_zeros (pad_start (nat decs) (big_string rest))
      in Inr (if frac_str \<noteq> [] then big_string whole @ ''.'' @ frac_str else big_string whole)))"

text \<open>\<open>const [whole, frac = ''] = display.split('.')\<close>\<close>

definition split_point :: "string \<Rightarrow> string \<times> string" where
  "split_point s = (case split_on (CHR ''.'') s of w # f # _ \<Rightarrow> (w, f) | [w] \<Rightarrow> (w, []) | [] \<Rightarrow> ([], []))"

definition parse_display :: "string \<Rightarrow> nat \<Rightarrow> int js" where
  "parse_display s decs =
    (case split_point s of (whole, fr) \<Rightarrow> big_of_string (whole @ take decs (pad_end decs fr)))"

subsection \<open>Round trip\<close>

lemma strip_zeros_split: "\<exists>k. s = strip_zeros s @ replicate k (CHR ''0'')"
proof -
  have "rev s = takeWhile (\<lambda>c. c = CHR ''0'') (rev s) @ dropWhile (\<lambda>c. c = CHR ''0'') (rev s)" by simp
  moreover have "takeWhile (\<lambda>c. c = CHR ''0'') (rev s) = replicate (length (takeWhile (\<lambda>c. c = CHR ''0'') (rev s))) (CHR ''0'')"
    by (rule replicate_eqI) (auto dest: set_takeWhileD)
  ultimately have "rev s = replicate (length (takeWhile (\<lambda>c. c = CHR ''0'') (rev s))) (CHR ''0'') @ dropWhile (\<lambda>c. c = CHR ''0'') (rev s)"
    by metis
  then have "s = rev (dropWhile (\<lambda>c. c = CHR ''0'') (rev s)) @ replicate (length (takeWhile (\<lambda>c. c = CHR ''0'') (rev s))) (CHR ''0'')"
    by (metis rev_append rev_replicate rev_rev_ident)
  then show ?thesis unfolding strip_zeros_def by blast
qed

lemma pad_strip_zeros: "length s = d \<Longrightarrow> pad_end d (strip_zeros s) = s"
proof -
  assume len: "length s = d"
  obtain k where k: "s = strip_zeros s @ replicate k (CHR ''0'')" using strip_zeros_split by blast
  then have "length s = length (strip_zeros s) + k" by (metis length_append length_replicate)
  with len have "d - length (strip_zeros s) = k" by simp
  with k show ?thesis by (simp add: pad_end_def)
qed

text \<open>Reading whole digits followed by the fraction at the full width.\<close>

lemma parse_display_digits:
  assumes w: "list_all is_digit w" "w \<noteq> []" and f: "list_all is_digit f" "length f = d"
    and s: "s = (if strip_zeros f \<noteq> [] then w @ ''.'' @ strip_zeros f else w)"
  shows "parse_display s d = Inr (int (digits_val w * 10 ^ d + digits_val f))"
proof -
  obtain k where k: "f = strip_zeros f @ replicate k (CHR ''0'')" using strip_zeros_split by blast
  then have sd: "list_all is_digit (strip_zeros f)" using f(1) by (metis list_all_append)
  have sp: "split_point s = (w, strip_zeros f)"
  proof (cases "strip_zeros f = []")
    case True
    with s show ?thesis using split_on_absent [OF digits_no_point [OF w(1)]] by (simp add: split_point_def)
  next
    case False
    with s show ?thesis
      using split_on_once [OF digits_no_point [OF w(1)], of "strip_zeros f"] split_on_absent [OF digits_no_point [OF sd]]
      by (simp add: split_point_def)
  qed
  have "take d (pad_end d (strip_zeros f)) = f" using pad_strip_zeros [OF f(2)] f(2) by simp
  then have "parse_display s d = big_of_string (w @ f)" by (simp add: parse_display_def sp)
  also have "\<dots> = Inr (int (digits_val (w @ f)))" using w f by (intro big_of_digits) simp_all
  finally show ?thesis using f(2) by (simp add: digits_val_append)
qed

text \<open>Scaling by a power of two is exact, so \<open>10 ^ d = 5 ^ d * 2 ^ d\<close> is a double
  while \<open>5 ^ d\<close> fits 53 bits.\<close>

lemma ilog2_eq: "0 < x \<Longrightarrow> 2 powi e \<le> x \<Longrightarrow> x < 2 powi (e + 1) \<Longrightarrow> ilog2 x = e"
proof -
  assume x: "0 < x" "2 powi e \<le> x" "x < 2 powi (e + 1)"
  have "e < ilog2 x + 1"
  proof (rule ccontr)
    assume "\<not> e < ilog2 x + 1"
    then have "(2::rat) powi (ilog2 x + 1) \<le> 2 powi e" by (intro power_int_increasing) auto
    with x ilog2_bounds(2) [OF x(1)] show False by simp
  qed
  moreover have "ilog2 x < e + 1"
  proof (rule ccontr)
    assume "\<not> ilog2 x < e + 1"
    then have "(2::rat) powi (e + 1) \<le> 2 powi ilog2 x" by (intro power_int_increasing) auto
    with x ilog2_bounds(1) [OF x(1)] show False by simp
  qed
  ultimately show ?thesis by simp
qed

lemma ilog2_scale: "0 < x \<Longrightarrow> ilog2 (x * 2 powi k) = ilog2 x + k"
proof -
  assume x: "0 < x"
  have "2 powi (ilog2 x + k) \<le> x * 2 powi k"
    using ilog2_bounds(1) [OF x] by (simp add: power_int_add mult_right_mono)
  moreover have "x * 2 powi k < 2 powi (ilog2 x + k + 1)"
  proof -
    have "x * 2 powi k < 2 powi (ilog2 x + 1) * 2 powi k" using ilog2_bounds(2) [OF x] by simp
    also have "\<dots> = 2 powi (ilog2 x + k + 1)" by (simp add: algebra_simps flip: power_int_add)
    finally show ?thesis .
  qed
  ultimately show ?thesis using x by (intro ilog2_eq) simp_all
qed

lemma ilog2_nonneg: "1 \<le> x \<Longrightarrow> 0 \<le> ilog2 x"
proof (rule ccontr)
  assume x: "1 \<le> x" "\<not> 0 \<le> ilog2 x"
  then have "(2::rat) powi (ilog2 x + 1) \<le> 2 powi 0" by (intro power_int_increasing) auto
  with x ilog2_bounds(2) [of x] show False by simp
qed

lemma mag_scale:
  assumes "1 \<le> x" "0 \<le> k"
  shows "mag (x * 2 powi k) = mag x * 2 powi k"
proof -
  have u: "ulp (x * 2 powi k) = ulp x * 2 powi k"
    using ilog2_nonneg [OF assms(1)] ilog2_scale [of x k] assms
    by (simp add: ulp_def ulp_exp_def max_def algebra_simps flip: power_int_add)
  then have "x * 2 powi k / ulp (x * 2 powi k) = x / ulp x" by simp
  with u show ?thesis by (simp add: mag_def)
qed

lemma pow10_exact: "d \<le> 22 \<Longrightarrow> num_pow10 (int d) = Fin (10 ^ d)"
proof -
  assume d: "d \<le> 22"
  have ten: "(10 ^ d :: rat) = of_int (5 ^ d) * 2 powi int d"
    by (simp add: power_int_def flip: power_mult_distrib)
  have "(5 ^ d :: int) \<le> 5 ^ 22" using d by (intro power_increasing) auto
  then have five: "(5 ^ d :: int) \<le> 2 ^ 53" by simp
  have "(1 :: rat) \<le> of_int (5 ^ d)" by simp
  then have "mag (10 ^ d) = mag (of_int (5 ^ d)) * 2 powi int d" unfolding ten by (rule mag_scale) simp
  also have "mag (of_int (5 ^ d)) = of_int (5 ^ d)" using five by (intro mag_int) simp_all
  finally have "mag (10 ^ d) = 10 ^ d" unfolding ten .
  moreover have "(10 ^ d :: rat) < 2 powi 1024"
  proof -
    have "(10 ^ d :: rat) \<le> 10 ^ 22" using d by (intro power_increasing) auto
    also have "\<dots> < 2 ^ 80" by simp
    also have "(2 ^ 80 :: rat) \<le> 2 powi 1024" using power_int_increasing [of 80 1024 "2 :: rat"] by simp
    finally show ?thesis .
  qed
  ultimately show ?thesis by (simp add: num_pow10_def power_int_def rnd_def Let_def)
qed

lemma padded_digits:
  assumes "n < 10 ^ d" "0 < d"
  shows "list_all is_digit (pad_start d (nat_string n))" "length (pad_start d (nat_string n)) = d"
    "digits_val (pad_start d (nat_string n)) = n"
proof -
  have z: "is_digit (CHR ''0'')" by (simp add: is_digit_def)
  show "list_all is_digit (pad_start d (nat_string n))" 
    using nat_string_digits [of n] z by (auto simp: pad_start_def list_all_iff)
  show "length (pad_start d (nat_string n)) = d" using nat_string_length [OF assms] by (simp add: pad_start_def)
  show "digits_val (pad_start d (nat_string n)) = n" by (simp add: pad_start_def digits_val_zeros nat_string_val)
qed

text \<open>
  An amount formatted for display at up to 22 decimals reads back as itself, and so does a token
  of any decimals in that range.
\<close>

theorem display_round_trip:
  assumes "0 \<le> n" "0 < d" "d \<le> 22"
  shows "\<exists>s. format_amount n (int d) = Inr s \<and> parse_display s d = Inr n"
proof -
  let ?p = "10 ^ d :: int"
  have pos: "0 < ?p" by simp
  have "\<lfloor>10 ^ d :: rat\<rfloor> = ?p" using floor_of_int [of ?p, where 'a = rat] by simp
  then have "big_of_num (num_pow10 (int d)) = Inr ?p"
    using pow10_exact [OF assms(3)] by (simp add: big_of_num_def num_int_def)
  then have fmt: "format_amount n (int d) = Inr (let f = pad_start d (big_string (n mod ?p)) in
      if strip_zeros f \<noteq> [] then big_string (n div ?p) @ ''.'' @ strip_zeros f else big_string (n div ?p))"
    using assms(1) pos by (simp add: format_amount_def Let_def tdiv_nonneg tmod_def minus_mult_div_eq_mod [symmetric])
  have q: "0 \<le> n div ?p" "0 \<le> n mod ?p" "n mod ?p < ?p" using assms(1) pos by (simp_all add: pos_imp_zdiv_nonneg_iff)
  then have lt: "nat (n mod ?p) < 10 ^ d" by (simp add: nat_less_iff)
  define w where "w = nat_string (nat (n div ?p))"
  define f where "f = pad_start d (nat_string (nat (n mod ?p)))"
  define s where "s = (if strip_zeros f \<noteq> [] then w @ ''.'' @ strip_zeros f else w)"
  have bs: "big_string (n div ?p) = w" "big_string (n mod ?p) = nat_string (nat (n mod ?p))"
    using q unfolding big_string_def w_def by (simp_all only: not_less [symmetric] if_False)
  have "format_amount n (int d) = Inr s" unfolding fmt bs Let_def s_def f_def ..
  moreover have "parse_display s d = Inr (int (digits_val w * 10 ^ d + digits_val f))"
    by (rule parse_display_digits [OF _ _ _ _ s_def])
      (simp_all add: w_def f_def nat_string_digits nat_string_ne padded_digits [OF lt assms(2)])
  moreover have "int (digits_val w * 10 ^ d + digits_val f) = n"
    using q by (simp add: w_def f_def div_mult_mod_eq nat_string_val padded_digits [OF lt assms(2)])
  ultimately show ?thesis by simp
qed

theorem display_round_trip_witness:
  "\<exists>s. format_amount 1234500000 7 = Inr s \<and> parse_display s 7 = Inr 1234500000"
  using display_round_trip [of 1234500000 7] by simp

section \<open>Resolution\<close>

lemma resolve_token_in: "resolve_token ts s = Some t \<Longrightarrow> t \<in> set ts"
  by (auto simp: resolve_token_def find_Some_iff split: option.splits)

lemma resolve_sac_address_ok:
  "resolve_sac_address ts s = Inr a \<Longrightarrow>
    a \<noteq> [] \<and> (a = s \<and> strkey (CHR ''C'') a \<or> (\<exists>t\<in>set ts. tk_sac t = a \<and> (to_upper (tk_symbol t) = to_upper s \<or> a = s)))"
  by (auto simp: resolve_sac_address_def resolve_token_def strkey_def find_Some_iff split: if_splits option.splits)

end
