(* ===== verification/Discovery.thy ===== *)
theory Discovery
  imports Tokens Pathfinder
begin

text \<open>
  Token discovery, \<open>backend/src/services/token-discovery.ts\<close>: the three venue sweeps, the map of
  discovered tokens, and the served universe with its anti-spoof rules. The pool sources
  are arguments (the answers of the Aqua pages, of the Sushi query, of the Curve sweep and of the
  on-chain decimals reads); the part of a sweep after its last await is one atomic step, and
  \<open>disc_reach\<close> lets the sweeps finish in any order. The ellipsis in a displayed name is written
  as three dots.

  Lemmas: what every reachable state keeps, that no discovered token can take a curated symbol or
  address, that a bare symbol is served to one token only; and that the suffix given to contested
  symbols can itself be taken.
\<close>

section \<open>Data\<close>

record sushi_pool =
  zp_address :: string
  zp_fee :: num
  zp_liquidity :: num
  zp_volume :: num
  zp_a :: string
  zp_b :: string
  zp_dec_a :: int
  zp_dec_b :: int

record aqua_listed = aqua_pool +
  ap_hash :: string
  ap_strs :: "string list"
  ap_type :: string
  ap_fee :: string
  ap_tx :: num

datatype token_source = Curated | FromAqua | FromSushi | FromCurve

record agg_token =
  at_symbol :: string
  at_name :: string
  at_issuer :: string
  at_sac :: string
  at_decimals :: int
  at_home :: "string option"
  at_live :: bool
  at_source :: token_source
  at_verified :: bool
  at_dup :: bool
  at_volume :: num

record discovery =
  ds_pools :: "aqua_listed list"
  ds_sushi :: "sushi_pool list"
  ds_curve :: "curve_pool list"
  ds_tokens :: "(string, agg_token) jmap"
  ds_decimals :: "(string, int) jmap"
  ds_meta :: "(string, string \<times> string \<times> string) jmap"
  ds_last :: "int option"

definition disc_init :: discovery where
  "disc_init = \<lparr>ds_pools = [], ds_sushi = [], ds_curve = [], ds_tokens = jm_empty, ds_decimals = jm_empty, ds_meta = jm_empty, ds_last = None\<rparr>"

text \<open>The two spam floors.\<close>

record floors =
  fl_tx :: num
  fl_usd :: num

definition default_floors :: floors where
  "default_floors = \<lparr>fl_tx = Fin 10, fl_usd = Fin 500\<rparr>"

section \<open>The served universe\<close>

definition above_floor :: "num \<Rightarrow> aqua_listed \<Rightarrow> bool" where
  "above_floor min_tx p \<longleftrightarrow> \<not> num_lt (ap_tx p) min_tx"

definition volume_by_sac :: "num \<Rightarrow> aqua_listed list \<Rightarrow> (string, num) jmap" where
  "volume_by_sac min_tx ps =
    foldl (\<lambda>m p. foldl (\<lambda>m sac. jm_set sac (num_add (case jm_get m sac of None \<Rightarrow> Fin 0 | Some v \<Rightarrow> v) (num_or0 (ap_volume p))) m)
        m (ap_tokens p))
      jm_empty (filter (above_floor min_tx) ps)"

definition volume_of :: "(string, num) jmap \<Rightarrow> string \<Rightarrow> num" where
  "volume_of m sac = (case jm_get m sac of None \<Rightarrow> Fin 0 | Some v \<Rightarrow> v)"

definition auto_fill_sac :: "(string, agg_token) jmap \<Rightarrow> token_config \<Rightarrow> string option" where
  "auto_fill_sac d t =
    (if tk_issuer t = [] then None
     else map_option fst (find (\<lambda>(sac, u). to_upper (at_symbol u) = to_upper (tk_symbol t) \<and> at_issuer u = tk_issuer t) d))"

definition curated_sac :: "(string, agg_token) jmap \<Rightarrow> token_config \<Rightarrow> string" where
  "curated_sac d t = (if tk_sac t \<noteq> [] then tk_sac t else case auto_fill_sac d t of Some s \<Rightarrow> s | None \<Rightarrow> [])"

definition curated_token :: "(string, num) jmap \<Rightarrow> (string, agg_token) jmap \<Rightarrow> token_config \<Rightarrow> agg_token" where
  "curated_token vol d t =
    (let sac = curated_sac d t
     in \<lparr>at_symbol = tk_symbol t, at_name = tk_name t, at_issuer = tk_issuer t, at_sac = sac, at_decimals = tk_decimals t,
         at_home = tk_home t, at_live = tk_live t, at_source = Curated, at_verified = True, at_dup = False,
         at_volume = volume_of vol sac\<rparr>)"

text \<open>The candidates grouped by upper-case symbol, in the order they were discovered.\<close>

definition add_claimant :: "(string, agg_token list) jmap \<Rightarrow> agg_token \<Rightarrow> (string, agg_token list) jmap" where
  "add_claimant m t =
    (let key = to_upper (at_symbol t)
     in jm_set key ((case jm_get m key of None \<Rightarrow> [] | Some l \<Rightarrow> l) @ [t]) m)"

definition claimants :: "token_config list \<Rightarrow> (string, num) jmap \<Rightarrow> (string, agg_token) jmap \<Rightarrow> agg_token list" where
  "claimants ts vol d =
    (let cur = map (curated_token vol d) ts;
         symbols = map (\<lambda>t. to_upper (at_symbol t)) cur;
         sacs = filter (\<lambda>s. s \<noteq> []) (map at_sac cur)
     in map (\<lambda>t. t\<lparr>at_volume := volume_of vol (at_sac t)\<rparr>)
          (filter (\<lambda>t. at_sac t \<notin> set sacs \<and> to_upper (at_symbol t) \<notin> set symbols) (map snd d)))"

definition suffixed :: "agg_token \<Rightarrow> agg_token" where
  "suffixed c = c\<lparr>at_symbol := at_symbol c @ ''~'' @ drop (length (at_sac c) - 4) (at_sac c), at_dup := True\<rparr>"

definition served_of :: "agg_token list \<Rightarrow> agg_token list" where
  "served_of cs = (if length cs = 1 then cs else map suffixed cs)"

text \<open>\<open>getTokens\<close>; \<open>loc_gt\<close> is "\<open>a.localeCompare(b)\<close> is positive".\<close>

definition extras :: "token_config list \<Rightarrow> num \<Rightarrow> discovery \<Rightarrow> agg_token list" where
  "extras ts min_tx st =
    (let vol = volume_by_sac min_tx (ds_pools st)
     in concat (map (served_of \<circ> snd) (foldl add_claimant jm_empty (claimants ts vol (ds_tokens st)))))"

definition get_tokens :: "(string \<Rightarrow> string \<Rightarrow> bool) \<Rightarrow> token_config list \<Rightarrow> num \<Rightarrow> discovery \<Rightarrow> agg_token list" where
  "get_tokens loc_gt ts min_tx st =
    map (curated_token (volume_by_sac min_tx (ds_pools st)) (ds_tokens st)) ts @
    js_sort (\<lambda>a b. loc_gt (at_symbol a) (at_symbol b)) (extras ts min_tx st)"

section \<open>What the adapters and the pathfinder read\<close>

definition get_aqua_pools :: "num \<Rightarrow> discovery \<Rightarrow> aqua_listed list" where
  "get_aqua_pools min_tx st = filter (\<lambda>p. num_le min_tx (ap_tx p)) (ds_pools st)"

text \<open>\<open>[a, b].sort().join('|')\<close>\<close>

definition pair_key :: "string \<Rightarrow> string \<Rightarrow> string" where
  "pair_key a b = (if str_less b a then b @ ''|'' @ a else a @ ''|'' @ b)"

record sushi_route = sushi_pair +
  sp_fee :: num
  sp_dec_a :: int
  sp_dec_b :: int

definition better_pool :: "(string, sushi_pool) jmap \<Rightarrow> sushi_pool \<Rightarrow> (string, sushi_pool) jmap" where
  "better_pool m p =
    (let key = pair_key (zp_a p) (zp_b p)
     in case jm_get m key of
          None \<Rightarrow> jm_set key p m
        | Some q \<Rightarrow> if num_lt (zp_liquidity q) (zp_liquidity p) then jm_set key p m else m)"

definition get_sushi_pairs :: "discovery \<Rightarrow> sushi_route list" where
  "get_sushi_pairs st =
    map (\<lambda>(k, p). \<lparr>sp_a = zp_a p, sp_b = zp_b p, sp_pool = zp_address p, sp_liquidity = zp_liquidity p,
           sp_fee = zp_fee p, sp_dec_a = zp_dec_a p, sp_dec_b = zp_dec_b p\<rparr>)
      (foldl better_pool jm_empty (ds_sushi st))"

definition get_pools_for_pair :: "discovery \<Rightarrow> string \<Rightarrow> string \<Rightarrow> aqua_listed list" where
  "get_pools_for_pair st a b = filter (\<lambda>p. a \<in> set (ap_tokens p) \<and> b \<in> set (ap_tokens p)) (ds_pools st)"

definition get_curve_pools_for_pair :: "discovery \<Rightarrow> string \<Rightarrow> string \<Rightarrow> curve_pool list" where
  "get_curve_pools_for_pair st a b = filter (\<lambda>p. a \<in> set (cp_coins p) \<and> b \<in> set (cp_coins p)) (ds_curve st)"

record disc_status =
  dst_pools :: nat
  dst_sushi :: nat
  dst_curve :: nat
  dst_discovered :: nat
  dst_last :: "int option"

definition get_status :: "discovery \<Rightarrow> disc_status" where
  "get_status st = \<lparr>dst_pools = length (ds_pools st), dst_sushi = length (ds_sushi st), dst_curve = length (ds_curve st),
     dst_discovered = length (ds_tokens st), dst_last = ds_last st\<rparr>"

text \<open>\<open>symbolForSac\<close> and \<open>decimalsForSac\<close> of the server.\<close>

definition symbol_for_sac :: "agg_token list \<Rightarrow> string \<Rightarrow> string" where
  "symbol_for_sac us sac = (case find (\<lambda>t. at_sac t = sac) us of Some t \<Rightarrow> at_symbol t | None \<Rightarrow> [])"

definition decimals_for_sac :: "agg_token list \<Rightarrow> string \<Rightarrow> int" where
  "decimals_for_sac us sac = (case find (\<lambda>t. at_sac t = sac) us of Some t \<Rightarrow> at_decimals t | None \<Rightarrow> 7)"

section \<open>The sweeps\<close>

text \<open>Merging: a listed token is only added.\<close>

definition add_new :: "(string, agg_token) jmap \<Rightarrow> agg_token \<Rightarrow> (string, agg_token) jmap" where
  "add_new m t = (if jm_get m (at_sac t) = None then jm_set (at_sac t) t m else m)"

subsection \<open>The Curve factory\<close>

text \<open>\<open>services/curve-discovery.ts\<close>: the registry walk. \<open>curve_env\<close> holds the answers
  of the simulations; \<open>ds_meta\<close> is the process-wide cache of token metadata (symbol, name, issuer).\<close>

record curve_reg =
  rg_pool :: "string option"
  rg_coins :: "string list"
  rg_decimals :: "nat list option"

record curve_env =
  ce_count :: "int option"
  ce_registration :: "nat \<Rightarrow> curve_reg option"
  ce_balances :: "string \<Rightarrow> int list option"
  ce_symbol :: "string \<Rightarrow> string option"
  ce_name :: "string \<Rightarrow> string option"

definition curve_max_pools :: int where "curve_max_pools = 64"

definition alnum_char :: "char \<Rightarrow> bool" where
  "alnum_char c \<longleftrightarrow> is_digit c \<or> (65 \<le> (of_char (upper_char c) :: nat) \<and> (of_char (upper_char c) :: nat) \<le> 90)"

text \<open>\<open>/^([A-Za-z0-9]{1,12}):(G[A-Z2-7]{55})$/\<close>\<close>

definition parse_sac_name :: "string \<Rightarrow> (string \<times> string) option" where
  "parse_sac_name s =
    (case split_on (CHR '':'') s of
       [code, issuer] \<Rightarrow>
         if code \<noteq> [] \<and> length code \<le> 12 \<and> list_all alnum_char code \<and> strkey (CHR ''G'') issuer
         then Some (code, issuer) else None
     | _ \<Rightarrow> None)"

text \<open>The metadata of one coin: \<open>None\<close> when its contract answers no symbol.\<close>

definition coin_meta :: "curve_env \<Rightarrow> (string, string \<times> string \<times> string) jmap \<Rightarrow> string
    \<Rightarrow> (string \<times> string \<times> string) option \<times> (string, string \<times> string \<times> string) jmap" where
  "coin_meta env cache sac =
    (case jm_get cache sac of
       Some v \<Rightarrow> (Some v, cache)
     | None \<Rightarrow>
         (case ce_symbol env sac of
            None \<Rightarrow> (None, cache)
          | Some sy \<Rightarrow>
              if sy = [] then (None, cache)
              else let nm = ce_name env sac;
                       v = (case parse_sac_name (case nm of None \<Rightarrow> [] | Some n \<Rightarrow> n) of
                              Some (code, issuer) \<Rightarrow> (sy, code, issuer)
                            | None \<Rightarrow> (sy, (case nm of None \<Rightarrow> sy | Some n \<Rightarrow> n), []))
                   in (Some v, jm_set sac v cache)))"

type_synonym curve_acc = "curve_pool list \<times> (string, agg_token) jmap \<times> (string, string \<times> string \<times> string) jmap"

definition add_coin :: "curve_env \<Rightarrow> nat list \<Rightarrow> string list \<Rightarrow> (string, agg_token) jmap \<times> (string, string \<times> string \<times> string) jmap
    \<Rightarrow> nat \<Rightarrow> (string, agg_token) jmap \<times> (string, string \<times> string \<times> string) jmap" where
  "add_coin env decs coins acc k =
    (case acc of (toks, cache) \<Rightarrow>
       let sac = coins ! k
       in if jm_get toks sac \<noteq> None then (toks, cache)
          else case coin_meta env cache sac of
                 (None, cache') \<Rightarrow> (toks, cache')
               | (Some (sy, nm, issuer), cache') \<Rightarrow>
                   if length sy > 32 then (toks, cache')
                   else (jm_set sac \<lparr>at_symbol = sy, at_name = nm, at_issuer = issuer, at_sac = sac,
                           at_decimals = int (nth_or decs k 7), at_home = None, at_live = True, at_source = FromCurve,
                           at_verified = False, at_dup = False, at_volume = Fin 0\<rparr> toks, cache'))"

definition add_registration :: "curve_env \<Rightarrow> curve_acc \<Rightarrow> nat \<Rightarrow> curve_acc" where
  "add_registration env acc idx =
    (case acc of (pools, toks, cache) \<Rightarrow>
       case ce_registration env idx of
         None \<Rightarrow> acc
       | Some reg \<Rightarrow>
           (case rg_pool reg of
              None \<Rightarrow> acc
            | Some pool \<Rightarrow>
                let coins = rg_coins reg
                in if pool = [] \<or> length coins < 2 then acc
                   else let decs = (case rg_decimals reg of Some ds \<Rightarrow> ds | None \<Rightarrow> replicate (length coins) 7);
                            balances = (case ce_balances env pool of Some bs \<Rightarrow> bs | None \<Rightarrow> replicate (length coins) 0)
                        in (pools @ [\<lparr>cp_address = pool, cp_coins = coins, cp_balances = balances, cp_decimals = decs\<rparr>],
                            foldl (add_coin env decs coins) (toks, cache) [0..<length coins])))"

definition sweep_curve_factory :: "curve_env \<Rightarrow> (string, string \<times> string \<times> string) jmap \<Rightarrow> curve_acc" where
  "sweep_curve_factory env cache =
    (let n = min (case ce_count env of None \<Rightarrow> 0 | Some c \<Rightarrow> c) curve_max_pools
     in foldl (add_registration env) ([], jm_empty, cache) [0..<nat n])"

text \<open>\<open>None\<close>: no sweep is configured; \<open>Inl\<close>: the sweep failed.\<close>

definition refresh_curve :: "curve_env js option \<Rightarrow> discovery \<Rightarrow> discovery" where
  "refresh_curve sweep st =
    (case sweep of
       Some (Inr env) \<Rightarrow>
         (case sweep_curve_factory env (ds_meta st) of
            (pools, toks, cache) \<Rightarrow>
              st\<lparr>ds_curve := pools, ds_tokens := foldl add_new (ds_tokens st) (map snd toks), ds_meta := cache\<rparr>)
     | _ \<Rightarrow> st)"

subsection \<open>Sushi\<close>

record wire_token =
  wt_address :: string
  wt_symbol :: string
  wt_name :: string
  wt_decimals :: "int option"

record wire_sushi =
  ws_address :: string
  ws_fee :: "num option"
  ws_liquidity :: "num option"
  ws_volume :: "num option"
  ws_token0 :: wire_token
  ws_token1 :: wire_token

definition num_of_opt :: "num option \<Rightarrow> num" where
  "num_of_opt n = (case n of None \<Rightarrow> Fin 0 | Some x \<Rightarrow> x)"

definition sushi_pool_of :: "wire_sushi \<Rightarrow> sushi_pool" where
  "sushi_pool_of p =
    \<lparr>zp_address = ws_address p, zp_fee = num_round (num_mul (num_of_opt (ws_fee p)) (Fin 1000000)),
     zp_liquidity = num_of_opt (ws_liquidity p), zp_volume = num_of_opt (ws_volume p),
     zp_a = wt_address (ws_token0 p), zp_b = wt_address (ws_token1 p),
     zp_dec_a = (case wt_decimals (ws_token0 p) of None \<Rightarrow> 7 | Some d \<Rightarrow> d),
     zp_dec_b = (case wt_decimals (ws_token1 p) of None \<Rightarrow> 7 | Some d \<Rightarrow> d)\<rparr>"

definition sushi_token :: "(string, agg_token) jmap \<Rightarrow> wire_token \<Rightarrow> (string, agg_token) jmap" where
  "sushi_token m t =
    (if wt_address t = [] \<or> jm_get m (wt_address t) \<noteq> None then m
     else if wt_symbol t = [] \<or> length (wt_symbol t) > 32 then m
     else jm_set (wt_address t)
       \<lparr>at_symbol = wt_symbol t, at_name = (if wt_name t \<noteq> [] then wt_name t else wt_symbol t), at_issuer = [],
        at_sac = wt_address t, at_decimals = (case wt_decimals t of None \<Rightarrow> 7 | Some d \<Rightarrow> d), at_home = None, at_live = True,
        at_source = FromSushi, at_verified = False, at_dup = False, at_volume = Fin 0\<rparr> m)"

text \<open>\<open>None\<close> is a refused request or an answer without pools; both keep the snapshot.\<close>

definition refresh_sushi :: "num \<Rightarrow> wire_sushi list option js \<Rightarrow> discovery \<Rightarrow> discovery" where
  "refresh_sushi min_usd reply st =
    (case reply of
       Inr (Some raw) \<Rightarrow>
         let kept = filter (\<lambda>p. \<not> num_lt (num_of_opt (ws_liquidity p)) min_usd) raw;
             found = foldl (\<lambda>m p. sushi_token (sushi_token m (ws_token0 p)) (ws_token1 p)) jm_empty kept
         in st\<lparr>ds_sushi := map sushi_pool_of kept, ds_tokens := foldl (\<lambda>m (sac, t). add_new m t) (ds_tokens st) found\<rparr>
     | _ \<Rightarrow> st)"

subsection \<open>Aqua\<close>

record aqua_page =
  pg_count :: "nat option"
  pg_next :: "string option"
  pg_results :: "aqua_listed list"

text \<open>The page loop; \<open>fuel\<close> is what is left of the cap of 100 pages. \<open>None\<close> is a
  page answered with an error status, which ends the sweep without a result.\<close>

fun aqua_pages :: "nat \<Rightarrow> (string \<Rightarrow> aqua_page option js) \<Rightarrow> string option \<Rightarrow> aqua_listed list \<Rightarrow> aqua_listed list option js" where
  "aqua_pages fuel fetch None acc = Inr (Some acc)"
| "aqua_pages 0 fetch (Some url) acc = Inr (Some acc)"
| "aqua_pages (Suc fuel) fetch (Some url) acc =
    (if url = [] then Inr (Some acc)
     else case fetch url of
            Inl e \<Rightarrow> Inl e
          | Inr None \<Rightarrow> Inr None
          | Inr (Some page) \<Rightarrow> aqua_pages fuel fetch (pg_next page) (acc @ pg_results page))"

definition aqua_page_cap :: nat where "aqua_page_cap = 100"

definition aqua_sweep :: "string \<Rightarrow> (string \<Rightarrow> aqua_page option js) \<Rightarrow> aqua_listed list option js" where
  "aqua_sweep api fetch = aqua_pages aqua_page_cap fetch (Some (api @ ''/pools/?size=100'')) []"

definition parse_token_str :: "string \<Rightarrow> (string \<times> string \<times> string) option" where
  "parse_token_str s =
    (if s = ''native'' then Some (''XLM'', ''Stellar Lumens'', [])
     else case split_on (CHR '':'') s of
       [code, issuer] \<Rightarrow>
         if strkey (CHR ''G'') issuer
         then Some (code, code @ '' ('' @ take 4 issuer @ ''...'' @ drop (length issuer - 4) issuer @ '')'', issuer)
         else if s \<noteq> [] \<and> length s \<le> 32 then Some (filter (\<lambda>c. \<not> is_space c) s, s, []) else None
     | _ \<Rightarrow> if s \<noteq> [] \<and> length s \<le> 32 then Some (filter (\<lambda>c. \<not> is_space c) s, s, []) else None)"

definition aqua_token :: "aqua_listed \<Rightarrow> (string, agg_token) jmap \<Rightarrow> nat \<Rightarrow> (string, agg_token) jmap" where
  "aqua_token p m i =
    (let sac = ap_tokens p ! i
     in if sac = [] \<or> jm_get m sac \<noteq> None then m
        else case parse_token_str (nth_or (ap_strs p) i []) of
               None \<Rightarrow> m
             | Some (symbol, nm, issuer) \<Rightarrow>
                 jm_set sac \<lparr>at_symbol = symbol, at_name = nm, at_issuer = issuer, at_sac = sac, at_decimals = 7,
                   at_home = None, at_live = True, at_source = FromAqua, at_verified = False, at_dup = False,
                   at_volume = Fin 0\<rparr> m)"

definition aqua_found :: "num \<Rightarrow> aqua_listed list \<Rightarrow> (string, agg_token) jmap" where
  "aqua_found min_tx ps =
    foldl (\<lambda>m p. foldl (aqua_token p) m [0..<length (ap_tokens p)]) jm_empty (filter (above_floor min_tx) ps)"

text \<open>The decimals of the tokens without an issuer: cached, or read once. A read that fails or answers
  nothing usable leaves 7.\<close>

definition usable_decimals :: "num option js \<Rightarrow> int option" where
  "usable_decimals r =
    (case r of
       Inr (Some n) \<Rightarrow> (case num_int n of Some d \<Rightarrow> if d > 0 \<and> d \<le> 30 then Some d else None | None \<Rightarrow> None)
     | _ \<Rightarrow> None)"

definition fill_decimals :: "(string \<Rightarrow> num option js) \<Rightarrow> (string, int) jmap \<times> (string, agg_token) jmap
    \<Rightarrow> string \<times> agg_token \<Rightarrow> (string, int) jmap \<times> (string, agg_token) jmap" where
  "fill_decimals readd acc e =
    (case (acc, e) of ((cache, out), (sac, t)) \<Rightarrow>
       if at_issuer t \<noteq> [] then (cache, out @ [(sac, t)])
       else case jm_get cache (at_sac t) of
              Some d \<Rightarrow> (cache, out @ [(sac, t\<lparr>at_decimals := d\<rparr>)])
            | None \<Rightarrow>
                (case usable_decimals (readd (at_sac t)) of
                   Some d \<Rightarrow> (jm_set (at_sac t) d cache, out @ [(sac, t\<lparr>at_decimals := d\<rparr>)])
                 | None \<Rightarrow> (cache, out @ [(sac, t)])))"

definition survivor :: "(string, agg_token) jmap \<Rightarrow> string \<times> agg_token \<Rightarrow> (string, agg_token) jmap" where
  "survivor m e =
    (case e of (sac, t) \<Rightarrow>
       if (at_source t = FromSushi \<or> at_source t = FromCurve) \<and> jm_get m sac = None then jm_set sac t m else m)"

definition refresh_aqua :: "num \<Rightarrow> (string \<Rightarrow> num option js) option \<Rightarrow> aqua_listed list option js \<Rightarrow> discovery \<Rightarrow> discovery" where
  "refresh_aqua min_tx readd sweep st =
    (case sweep of
       Inr (Some ps) \<Rightarrow>
         let found = aqua_found min_tx ps;
             (cache, filled) = (case readd of None \<Rightarrow> (ds_decimals st, found) | Some f \<Rightarrow> foldl (fill_decimals f) (ds_decimals st, []) found)
         in st\<lparr>ds_pools := ps, ds_decimals := cache, ds_tokens := foldl survivor filled (ds_tokens st)\<rparr>
     | _ \<Rightarrow> st)"

text \<open>\<open>refresh\<close> runs the three sweeps and stamps the state; each may end whenever it does.\<close>

datatype disc_event =
    AquaDone "(string \<Rightarrow> num option js) option" "aqua_listed list option js"
  | SushiDone "wire_sushi list option js"
  | CurveDone "curve_env js option"
  | Refreshed int

fun disc_exec :: "floors \<Rightarrow> disc_event \<Rightarrow> discovery \<Rightarrow> discovery" where
  "disc_exec fl (AquaDone readd sweep) st = refresh_aqua (fl_tx fl) readd sweep st"
| "disc_exec fl (SushiDone reply) st = refresh_sushi (fl_usd fl) reply st"
| "disc_exec fl (CurveDone sweep) st = refresh_curve sweep st"
| "disc_exec fl (Refreshed now) st = st\<lparr>ds_last := Some now\<rparr>"

section \<open>What every reachable state keeps\<close>

inductive disc_reach :: "floors \<Rightarrow> discovery \<Rightarrow> bool" for fl where
  start: "disc_reach fl disc_init"
| step: "disc_reach fl st \<Longrightarrow> disc_reach fl (disc_exec fl ev st)"

definition entry_ok :: "string \<times> agg_token \<Rightarrow> bool" where
  "entry_ok e \<longleftrightarrow> at_sac (snd e) = fst e \<and> \<not> at_verified (snd e) \<and> \<not> at_dup (snd e) \<and> at_source (snd e) \<noteq> Curated"

definition tokens_ok :: "(string, agg_token) jmap \<Rightarrow> bool" where
  "tokens_ok m \<longleftrightarrow> jm_ok m \<and> (\<forall>e\<in>set m. entry_ok e)"

lemma foldl_keeps: "P a \<Longrightarrow> (\<And>a x. x \<in> set xs \<Longrightarrow> P a \<Longrightarrow> P (f a x)) \<Longrightarrow> P (foldl f a xs)"
  by (induction xs arbitrary: a) auto

lemma tokens_ok_empty: "tokens_ok jm_empty"
  by (simp add: tokens_ok_def jm_ok_def jm_empty_def)

lemma tokens_ok_set: "tokens_ok m \<Longrightarrow> entry_ok (k, t) \<Longrightarrow> tokens_ok (jm_set k t m)"
  by (auto simp: tokens_ok_def jm.ok_put dest: jm_set_mem)

lemma add_new_ok: "tokens_ok m \<Longrightarrow> entry_ok (at_sac t, t) \<Longrightarrow> tokens_ok (add_new m t)"
  by (simp add: add_new_def tokens_ok_set)

lemma survivor_ok: "tokens_ok m \<Longrightarrow> entry_ok e \<Longrightarrow> tokens_ok (survivor m e)"
  by (cases e) (simp add: survivor_def tokens_ok_set)

lemma sushi_token_ok: "tokens_ok m \<Longrightarrow> tokens_ok (sushi_token m t)"
  by (auto simp: sushi_token_def entry_ok_def intro!: tokens_ok_set)

lemma aqua_token_ok: "tokens_ok m \<Longrightarrow> tokens_ok (aqua_token p m i)"
  by (auto simp: aqua_token_def Let_def entry_ok_def intro!: tokens_ok_set split: option.split)

lemma add_coin_ok: "tokens_ok (fst acc) \<Longrightarrow> tokens_ok (fst (add_coin env decs coins acc k))"
  by (cases acc) (auto simp: add_coin_def Let_def entry_ok_def intro!: tokens_ok_set split: option.split prod.split)

lemma sweep_ok: "sweep_curve_factory env cache = (ps, toks, cache') \<Longrightarrow> tokens_ok toks"
proof -
  have step: "tokens_ok (fst (snd (add_registration env acc i)))" if "tokens_ok (fst (snd acc))" for acc i
  proof -
    obtain qs ts c where acc: "acc = (qs, ts, c)" by (cases acc)
    have "tokens_ok (fst (foldl (add_coin env ds cs) (ts, c) ks))" for ds cs ks
      by (rule foldl_keeps [where P = "\<lambda>a. tokens_ok (fst a)"]) (use that acc add_coin_ok in auto)
    with that acc show ?thesis by (auto simp: add_registration_def Let_def split: option.split)
  qed
  have "tokens_ok (fst (snd (sweep_curve_factory env cache)))"
    unfolding sweep_curve_factory_def Let_def
    by (rule foldl_keeps [where P = "\<lambda>a. tokens_ok (fst (snd a))"]) (auto simp: tokens_ok_empty step)
  then show "sweep_curve_factory env cache = (ps, toks, cache') \<Longrightarrow> tokens_ok toks" by simp
qed

lemma aqua_found_ok: "tokens_ok (aqua_found min_tx ps)"
  unfolding aqua_found_def
  by (intro foldl_keeps [where P = tokens_ok] tokens_ok_empty aqua_token_ok)

lemma fill_step:
  "fill_decimals f acc e = acc' \<Longrightarrow> \<exists>d. snd acc' = snd acc @ [(fst e, (snd e)\<lparr>at_decimals := d\<rparr>)]"
proof -
  assume eq: "fill_decimals f acc e = acc'"
  obtain sac t where e: "e = (sac, t)" by (cases e)
  have same: "t = t\<lparr>at_decimals := at_decimals t\<rparr>" by simp
  from eq e show ?thesis
    by (cases acc) (auto simp: fill_decimals_def split: if_splits option.splits intro: exI [where x = "at_decimals t"])
qed

lemma fill_all:
  "\<exists>ds. length ds = length es \<and> snd (foldl (fill_decimals f) acc es) =
     snd acc @ map2 (\<lambda>e d. (fst e, (snd e)\<lparr>at_decimals := d\<rparr>)) es ds"
proof (induction es arbitrary: acc)
  case (Cons e es)
  obtain d where d: "snd (fill_decimals f acc e) = snd acc @ [(fst e, (snd e)\<lparr>at_decimals := d\<rparr>)]"
    using fill_step [OF refl] by blast
  obtain ds where "length ds = length es" "snd (foldl (fill_decimals f) (fill_decimals f acc e) es) =
      snd (fill_decimals f acc e) @ map2 (\<lambda>e d. (fst e, (snd e)\<lparr>at_decimals := d\<rparr>)) es ds"
    using Cons.IH by blast
  with d have "length (d # ds) = length (e # es)" "snd (foldl (fill_decimals f) acc (e # es)) =
      snd acc @ map2 (\<lambda>e d. (fst e, (snd e)\<lparr>at_decimals := d\<rparr>)) (e # es) (d # ds)" by simp_all
  then show ?case by blast
qed simp

lemma fill_ok:
  assumes "tokens_ok m"
  shows "tokens_ok (snd (foldl (fill_decimals f) (c, []) m))"
proof -
  obtain ds where ds: "length ds = length m"
    "snd (foldl (fill_decimals f) (c, []) m) = map2 (\<lambda>e d. (fst e, (snd e)\<lparr>at_decimals := d\<rparr>)) m ds"
    using fill_all [of m f "(c, [])"] by auto
  have "map fst (map2 (\<lambda>e d. (fst e, (snd e)\<lparr>at_decimals := d\<rparr>)) m ds) = map fst m"
    using ds(1) by (induction m ds rule: list_induct2') auto
  moreover have "entry_ok (fst e, (snd e)\<lparr>at_decimals := d\<rparr>)" if "(e, d) \<in> set (zip m ds)" for e d
    using set_zip_leftD [OF that] assms by (simp add: tokens_ok_def entry_ok_def)
  then have "\<forall>x\<in>set (map2 (\<lambda>e d. (fst e, (snd e)\<lparr>at_decimals := d\<rparr>)) m ds). entry_ok x" by auto
  ultimately show ?thesis using assms by (simp add: ds(2) tokens_ok_def jm_ok_def)
qed

lemma tokens_okD: "tokens_ok m \<Longrightarrow> (k, t) \<in> set m \<Longrightarrow> entry_ok (at_sac t, t)"
  by (auto simp: tokens_ok_def entry_ok_def)

lemma refresh_tokens_ok: "tokens_ok (ds_tokens st) \<Longrightarrow> tokens_ok (ds_tokens (disc_exec fl ev st))"
proof (cases ev)
  case (AquaDone readd sweep)
  assume ok: "tokens_ok (ds_tokens st)"
  have merge: "tokens_ok (foldl survivor m (ds_tokens st))" if "tokens_ok m" for m
    by (rule foldl_keeps [where P = tokens_ok]) (simp add: that, erule survivor_ok, use ok in \<open>simp add: tokens_ok_def\<close>)
  show ?thesis
  proof (cases "\<exists>ps. sweep = Inr (Some ps)")
    case True
    then obtain ps where ps: "sweep = Inr (Some ps)" by blast
    define fill where "fill = (case readd of None \<Rightarrow> (ds_decimals st, aqua_found (fl_tx fl) ps)
      | Some f \<Rightarrow> foldl (fill_decimals f) (ds_decimals st, []) (aqua_found (fl_tx fl) ps))"
    have "tokens_ok (snd fill)" unfolding fill_def by (cases readd) (simp_all add: aqua_found_ok fill_ok)
    then show ?thesis
      using merge by (simp add: AquaDone ps refresh_aqua_def Let_def fill_def [symmetric] case_prod_unfold)
  next
    case False
    then show ?thesis using ok by (auto simp: AquaDone refresh_aqua_def split: sum.split option.split)
  qed
next
  case (SushiDone reply)
  assume ok: "tokens_ok (ds_tokens st)"
  have found: "tokens_ok (foldl (\<lambda>m p. sushi_token (sushi_token m (ws_token0 p)) (ws_token1 p)) jm_empty ps)" for ps
    by (intro foldl_keeps [where P = tokens_ok] tokens_ok_empty sushi_token_ok)
  have "tokens_ok (foldl (\<lambda>m (sac, t). add_new m t) (ds_tokens st) es)" if "tokens_ok es" for es
    by (rule foldl_keeps [where P = tokens_ok]) (use that ok in \<open>auto intro!: add_new_ok dest: tokens_okD\<close>)
  with found ok SushiDone show ?thesis by (auto simp: refresh_sushi_def Let_def split: sum.split option.split)
next
  case (CurveDone sweep)
  assume ok: "tokens_ok (ds_tokens st)"
  have "tokens_ok (foldl add_new (ds_tokens st) (map snd es))" if "tokens_ok es" for es
    by (rule foldl_keeps [where P = tokens_ok]) (use that ok in \<open>auto intro!: add_new_ok dest: tokens_okD\<close>)
  with ok CurveDone show ?thesis
    by (auto simp: refresh_curve_def split: sum.split option.split prod.split dest!: sweep_ok)
qed simp

lemma disc_reach_ok: "disc_reach fl st \<Longrightarrow> tokens_ok (ds_tokens st)"
  by (induction rule: disc_reach.induct) (auto simp: refresh_tokens_ok disc_init_def tokens_ok_empty)

section \<open>No token takes another's symbol\<close>

definition group_ok :: "agg_token list \<Rightarrow> (string, agg_token list) jmap \<Rightarrow> bool" where
  "group_ok cs m \<longleftrightarrow> jm_ok m \<and> (\<forall>(k, l)\<in>set m. \<forall>t\<in>set l. t \<in> set cs \<and> to_upper (at_symbol t) = k)"

lemma add_claimant_ok: "group_ok cs m \<Longrightarrow> t \<in> set cs \<Longrightarrow> group_ok cs (add_claimant m t)"
proof -
  assume g: "group_ok cs m" and t: "t \<in> set cs"
  let ?k = "to_upper (at_symbol t)"
  have old: "\<forall>u\<in>set (case jm_get m ?k of None \<Rightarrow> [] | Some l \<Rightarrow> l). u \<in> set cs \<and> to_upper (at_symbol u) = ?k"
    using g by (cases "jm_get m ?k") (simp, fastforce simp: group_ok_def dest: jm_get_mem)
  define l where "l = (case jm_get m ?k of None \<Rightarrow> [] | Some l \<Rightarrow> l) @ [t]"
  have l: "u \<in> set cs \<and> to_upper (at_symbol u) = ?k" if "u \<in> set l" for u
  proof -
    from that have "u \<in> set (case jm_get m ?k of None \<Rightarrow> [] | Some l \<Rightarrow> l) \<or> u = t"
      by (simp only: l_def set_append Un_iff) simp
    with old t show ?thesis by blast
  qed
  have "u \<in> set cs \<and> to_upper (at_symbol u) = k" if "(k, l') \<in> set (jm_set ?k l m)" "u \<in> set l'" for k l' u
    using jm_set_mem [OF that(1)]
  proof
    assume "(k, l') = (?k, l)"
    with l that(2) show ?thesis by simp
  next
    assume "(k, l') \<in> set m"
    with g that(2) show ?thesis unfolding group_ok_def by blast
  qed
  with g show ?thesis
    by (auto simp: group_ok_def add_claimant_def Let_def l_def [symmetric] jm.ok_put)
qed

lemma groups_ok: "group_ok cs (foldl add_claimant jm_empty cs)"
  by (rule foldl_keeps [where P = "group_ok cs"]) (simp add: group_ok_def jm_ok_def jm_empty_def, rule add_claimant_ok)

lemma claimants_eq:
  "claimants ts vol d = map (\<lambda>t. t\<lparr>at_volume := volume_of vol (at_sac t)\<rparr>)
     (filter (\<lambda>t. at_sac t \<notin> {s \<in> curated_sac d ` set ts. s \<noteq> []} \<and>
        to_upper (at_symbol t) \<notin> (\<lambda>c. to_upper (tk_symbol c)) ` set ts) (map snd d))"
proof -
  have c: "at_sac (curated_token vol d c) = curated_sac d c" "at_symbol (curated_token vol d c) = tk_symbol c" for c
    by (simp_all add: curated_token_def Let_def)
  show ?thesis by (simp add: claimants_def Let_def image_image c)
qed

lemma claimantsD:
  assumes "t \<in> set (claimants ts vol d)" "tokens_ok d"
  shows "\<not> at_dup t" "\<not> at_verified t"
    "\<forall>c\<in>set ts. to_upper (at_symbol t) \<noteq> to_upper (tk_symbol c)"
    "\<forall>c\<in>set ts. curated_sac d c \<noteq> [] \<longrightarrow> at_sac t \<noteq> curated_sac d c"
proof -
  from assms(1) obtain k u where u: "(k, u) \<in> set d" "t = u\<lparr>at_volume := volume_of vol (at_sac u)\<rparr>"
    "at_sac u \<notin> {s \<in> curated_sac d ` set ts. s \<noteq> []}" "to_upper (at_symbol u) \<notin> (\<lambda>c. to_upper (tk_symbol c)) ` set ts"
    unfolding claimants_eq by auto
  from u(1) assms(2) have "entry_ok (k, u)" by (auto simp: tokens_ok_def)
  with u(2) show "\<not> at_dup t" "\<not> at_verified t" by (auto simp: entry_ok_def)
  from u(2,4) show "\<forall>c\<in>set ts. to_upper (at_symbol t) \<noteq> to_upper (tk_symbol c)" by force
  from u(2,3) show "\<forall>c\<in>set ts. curated_sac d c \<noteq> [] \<longrightarrow> at_sac t \<noteq> curated_sac d c" by force
qed

lemma to_upper_append: "to_upper (s @ t) = to_upper s @ to_upper t"
  by (simp add: to_upper_def)

lemma tilde_upper: "CHR ''~'' \<in> set s \<Longrightarrow> CHR ''~'' \<in> set (to_upper s)"
  by (force simp: to_upper_def upper_char_def intro: rev_image_eqI)

lemma suffixed_tilde: "CHR ''~'' \<in> set (to_upper (at_symbol (suffixed c)))"
  by (rule tilde_upper) (simp add: suffixed_def)

lemma served_cases:
  assumes "t \<in> set (extras ts min_tx st)"
  obtains (bare) k where "(k, [t]) \<in> set (foldl add_claimant jm_empty (claimants ts (volume_by_sac min_tx (ds_pools st)) (ds_tokens st)))"
      "t \<in> set (claimants ts (volume_by_sac min_tx (ds_pools st)) (ds_tokens st))" "k = to_upper (at_symbol t)"
  | (contested) c where "t = suffixed c" "c \<in> set (claimants ts (volume_by_sac min_tx (ds_pools st)) (ds_tokens st))"
proof -
  let ?cs = "claimants ts (volume_by_sac min_tx (ds_pools st)) (ds_tokens st)"
  from assms obtain k l where kl: "(k, l) \<in> set (foldl add_claimant jm_empty ?cs)" and t: "t \<in> set (served_of l)"
    by (auto simp: extras_def Let_def)
  from groups_ok [of ?cs] kl have l: "u \<in> set l \<Longrightarrow> u \<in> set ?cs \<and> to_upper (at_symbol u) = k" for u
    by (auto simp: group_ok_def)
  show ?thesis
  proof (cases "length l = 1")
    case True
    then obtain u where u: "l = [u]" by (cases l) auto
    with t have "t = u" by (simp add: served_of_def)
    with u kl l show ?thesis by (intro bare [of k]) auto
  next
    case False
    with t obtain c where "t = suffixed c" "c \<in> set l" by (auto simp: served_of_def)
    with l show ?thesis by (intro contested) auto
  qed
qed

lemma curated_symbols: "map tk_symbol (load_tokens env) = [''XLM'', ''USDC'', ''PYUSD'', ''USDY'', ''USDT0'']"
proof -
  have "tk_symbol (override_token env t) = tk_symbol t" for t
    by (simp add: override_token_def Let_def)
  then have "map tk_symbol (load_tokens env) = map tk_symbol tokens" by (simp add: load_tokens_def comp_def)
  then show ?thesis by (simp add: tokens_def)
qed

lemma curated_no_tilde: "c \<in> set (load_tokens env) \<Longrightarrow> CHR ''~'' \<notin> set (to_upper (tk_symbol c))"
proof -
  assume "c \<in> set (load_tokens env)"
  then have "tk_symbol c \<in> set (map tk_symbol (load_tokens env))" by simp
  then show ?thesis unfolding curated_symbols by (auto simp: to_upper_def upper_char_def)
qed


section \<open>The suffix is not an identity\<close>

definition wire :: "string \<Rightarrow> string \<Rightarrow> wire_token" where
  "wire a s = \<lparr>wt_address = a, wt_symbol = s, wt_name = s, wt_decimals = None\<rparr>"

definition wire_pool :: "wire_token \<Rightarrow> wire_token \<Rightarrow> wire_sushi" where
  "wire_pool a b = \<lparr>ws_address = ''P'', ws_fee = None, ws_liquidity = Some (Fin 1000), ws_volume = None, ws_token0 = a, ws_token1 = b\<rparr>"

definition spoof_event :: disc_event where
  "spoof_event = SushiDone (Inr (Some [wire_pool (wire ''CREALABCD'' ''FOO'') (wire ''CFAKEWXYZ'' ''foo''),
     wire_pool (wire ''CTHIRD'' ''FOO~ABCD'') (wire ''CUSD'' ''USDC'')]))"

lemma spoof_served:
  "map (\<lambda>t. (at_symbol t, at_sac t, at_dup t)) (extras (load_tokens (\<lambda>_. None)) (Fin 10) (disc_exec default_floors spoof_event disc_init)) =
    [(''FOO~ABCD'', ''CREALABCD'', True), (''foo~WXYZ'', ''CFAKEWXYZ'', True), (''FOO~ABCD'', ''CTHIRD'', False)]"
  by code_simp

text \<open>
  The suffix of a contested symbol is not reserved: in a reachable state two different contracts
  are served under the same symbol, one of them a token that simply chose the suffixed text as its
  own symbol.
\<close>

theorem suffix_can_be_taken:
  "\<exists>st t u. disc_reach default_floors st \<and>
     t \<in> set (get_tokens loc_gt (load_tokens (\<lambda>_. None)) (Fin 10) st) \<and>
     u \<in> set (get_tokens loc_gt (load_tokens (\<lambda>_. None)) (Fin 10) st) \<and>
     at_symbol t = at_symbol u \<and> at_sac t \<noteq> at_sac u \<and> at_dup t \<and> \<not> at_dup u"
proof -
  let ?st = "disc_exec default_floors spoof_event disc_init"
  let ?ex = "extras (load_tokens (\<lambda>_. None)) (Fin 10) ?st"
  have "disc_reach default_floors ?st" by (intro disc_reach.step disc_reach.start)
  moreover have "(''FOO~ABCD'', ''CREALABCD'', True) \<in> (\<lambda>t. (at_symbol t, at_sac t, at_dup t)) ` set ?ex"
    "(''FOO~ABCD'', ''CTHIRD'', False) \<in> (\<lambda>t. (at_symbol t, at_sac t, at_dup t)) ` set ?ex"
    unfolding set_map [symmetric] spoof_served by simp_all
  then obtain t u where "t \<in> set ?ex" "u \<in> set ?ex" "at_symbol t = ''FOO~ABCD''" "at_symbol u = ''FOO~ABCD''"
    "at_sac t = ''CREALABCD''" "at_sac u = ''CTHIRD''" "at_dup t" "\<not> at_dup u" by auto
  ultimately show ?thesis by (intro exI [of _ ?st] exI [of _ t] exI [of _ u]) (simp add: get_tokens_def)
qed


end
