(* ===== verification/Params.thy ===== *)
theory Params
  imports Discovery
begin

text \<open>
  The request validation of \<open>backend/src/server.ts\<close> and its error mapping: amounts,
  slippage, accounts, tokens, the P2P corridor; wallet screening
  (\<open>backend/src/services/screening.ts\<close>); the reply status of each kind of error. A handler
  is a value of \<open>http_error + 'a\<close>; message texts are kept where the code or a client tells
  them apart.
\<close>

section \<open>Errors of a handler\<close>

datatype http_error =
    BadRequest string
  | BlockedAddress string
  | OtherError string

type_synonym 'a handler = "http_error + 'a"

definition hbind :: "'a handler \<Rightarrow> ('a \<Rightarrow> 'b handler) \<Rightarrow> 'b handler" where
  "hbind m f = (case m of Inl e \<Rightarrow> Inl e | Inr x \<Rightarrow> f x)"

lemma hbind_simps [simp]: "hbind (Inl e) f = Inl e" "hbind (Inr x) f = f x"
  by (simp_all add: hbind_def)

lemma hbind_Inr: "hbind m f = Inr y \<longleftrightarrow> (\<exists>x. m = Inr x \<and> f x = Inr y)"
  by (cases m) auto

definition guard :: "bool \<Rightarrow> string \<Rightarrow> unit handler" where
  "guard ok msg = (if ok then Inr () else Inl (BadRequest msg))"

lemma guard_Inr [simp]: "guard ok msg = Inr u \<longleftrightarrow> ok"
  by (simp add: guard_def)

definition exn_message :: "js_exn \<Rightarrow> string" where
  "exn_message e = (case e of RangeError \<Rightarrow> ''RangeError'' | TypeError \<Rightarrow> ''TypeError'' | Thrown m \<Rightarrow> m)"

text \<open>An exception of a callee that the handler's \<open>catch\<close> receives.\<close>

definition lift_js :: "'a js \<Rightarrow> 'a handler" where
  "lift_js m = (case m of Inl e \<Rightarrow> Inl (OtherError (exn_message e)) | Inr x \<Rightarrow> Inr x)"

section \<open>Parameters\<close>

definition max_amount :: int where "max_amount = 10 ^ 26"

definition big_of_jv :: "jv \<Rightarrow> int js" where
  "big_of_jv v = (case v of JStr s \<Rightarrow> big_of_string s | JNum n \<Rightarrow> big_of_num n | _ \<Rightarrow> Inl TypeError)"

definition parse_amount :: "jv \<Rightarrow> string \<Rightarrow> int handler" where
  "parse_amount v field =
    hbind (guard (case v of JStr _ \<Rightarrow> True | JNum _ \<Rightarrow> True | _ \<Rightarrow> False) (field @ '' is required'')) (\<lambda>_.
    hbind (case big_of_jv v of Inl _ \<Rightarrow> Inl (BadRequest (field @ '' must be an integer amount in base units'')) | Inr n \<Rightarrow> Inr n) (\<lambda>n.
    hbind (guard (\<not> n \<le> 0) (field @ '' must be positive'')) (\<lambda>_.
    hbind (guard (\<not> n > max_amount) (field @ '' is implausibly large'')) (\<lambda>_. Inr n))))"

definition parse_slippage_bps :: "jv \<Rightarrow> int \<Rightarrow> int handler" where
  "parse_slippage_bps v fallback =
    (if v = JUndef \<or> v = JNull \<or> v = JStr [] then Inr fallback
     else case num_int (num_of_jv v) of
            None \<Rightarrow> Inl (BadRequest ''slippage must be an integer between 1 and 1000 bps'')
          | Some n \<Rightarrow> if n < 1 \<or> n > 1000 then Inl (BadRequest ''slippage must be an integer between 1 and 1000 bps'') else Inr n)"

definition parse_stellar_account :: "jv \<Rightarrow> string \<Rightarrow> string handler" where
  "parse_stellar_account v field =
    (case v of
       JStr s \<Rightarrow> if strkey (CHR ''G'') s then Inr s else Inl (BadRequest (field @ '' must be a Stellar account address''))
     | _ \<Rightarrow> Inl (BadRequest (field @ '' must be a Stellar account address'')))"

text \<open>\<open>us\<close> is what \<open>tokenDiscovery.getTokens()\<close> answers.\<close>

definition resolve_token_param :: "token_config list \<Rightarrow> agg_token list \<Rightarrow> jv \<Rightarrow> string \<Rightarrow> string handler" where
  "resolve_token_param ts us v field =
    (case v of
       JStr s \<Rightarrow>
         if s = [] then Inl (BadRequest (field @ '' is required''))
         else (case resolve_sac_address ts s of
                 Inr a \<Rightarrow> Inr a
               | Inl e \<Rightarrow>
                   (case find (\<lambda>t. to_upper (at_symbol t) = to_upper s \<and> at_sac t \<noteq> []) us of
                      Some t \<Rightarrow> Inr (at_sac t)
                    | None \<Rightarrow> Inl (BadRequest (exn_message e))))
     | _ \<Rightarrow> Inl (BadRequest (field @ '' is required'')))"

text \<open>\<open>P2P_ALLOWED_TOKENS\<close> with the environment unset.\<close>

definition p2p_allowed_tokens :: "string list" where
  "p2p_allowed_tokens = [''USDC'', ''USDT0'']"

definition p2p_symbol :: "token_config list \<Rightarrow> agg_token list \<Rightarrow> jv \<Rightarrow> string option" where
  "p2p_symbol ts us v =
    (case v of
       JStr s \<Rightarrow>
         (case resolve_token ts s of
            Some t \<Rightarrow> Some (tk_symbol t)
          | None \<Rightarrow> map_option at_symbol (find (\<lambda>t. at_sac t = s \<or> to_upper (at_symbol t) = to_upper s) us))
     | _ \<Rightarrow> None)"

definition assert_p2p_allowed :: "token_config list \<Rightarrow> agg_token list \<Rightarrow> jv \<Rightarrow> string \<Rightarrow> unit handler" where
  "assert_p2p_allowed ts us v field =
    guard (case p2p_symbol ts us v of Some sy \<Rightarrow> sy \<noteq> [] \<and> to_upper sy \<in> set p2p_allowed_tokens | None \<Rightarrow> False)
      (field @ '': P2P swaps are limited to USDC, USDT0'')"

text \<open>\<open>Number(v)\<close>, an integer, at least 1\<close>

definition parse_order_id :: "jv \<Rightarrow> int handler" where
  "parse_order_id v =
    (case num_int (num_of_jv v) of
       Some n \<Rightarrow> if n < 1 then Inl (BadRequest ''orderId must be a positive integer'') else Inr n
     | None \<Rightarrow> Inl (BadRequest ''orderId must be a positive integer''))"

subsection \<open>RPC fallbacks\<close>

definition mainnet_passphrase :: string where
  "mainnet_passphrase = ''Public Global Stellar Network ; September 2015''"

definition default_mainnet_fallbacks :: "string list" where
  "default_mainnet_fallbacks = [''https://mainnet.sorobanrpc.com'', ''https://soroban-rpc.mainnet.stellar.gateway.fm'']"

text \<open>\<open>s.split(',').map(trim).filter(Boolean)\<close>\<close>

definition comma_list :: "string \<Rightarrow> string list" where
  "comma_list s = filter (\<lambda>u. u \<noteq> []) (map trim (split_on (CHR '','') s))"

definition resolve_fallback_rpc_urls :: "string option \<Rightarrow> string \<Rightarrow> string \<Rightarrow> string list" where
  "resolve_fallback_rpc_urls env primary passphrase =
    filter (\<lambda>u. u \<noteq> primary)
      (case env of
         Some s \<Rightarrow> comma_list s
       | None \<Rightarrow> if passphrase = mainnet_passphrase then default_mainnet_fallbacks else [])"

section \<open>Replies to errors\<close>

text \<open>A pattern with one gap that does not cross a line (\<open>a.*b\<close>).\<close>

fun search_gap :: "pattern \<Rightarrow> pattern list \<Rightarrow> string \<Rightarrow> bool" where
  "search_gap p qs [] = False"
| "search_gap p qs (c # cs) =
    (match_here p (c # cs) \<and>
       (\<exists>q\<in>set qs. search q (takeWhile (\<lambda>x. x \<noteq> CHR 0x0A) (drop (length p) (c # cs)))) \<or>
     search_gap p qs cs)"

text \<open>The digits of \<open>/Error\(Contract, #(\d+)\)/\<close>.\<close>

definition code_here :: "string \<Rightarrow> string option" where
  "code_here s =
    (let p = lit ''Error(Contract, #'';
         rest = drop (length p) s;
         ds = takeWhile is_digit rest
     in if match_here p s \<and> ds \<noteq> [] \<and> take 1 (dropWhile is_digit rest) = '')'' then Some ds else None)"

fun contract_code :: "string \<Rightarrow> string option" where
  "contract_code [] = None"
| "contract_code (c # cs) = (case code_here (c # cs) of Some d \<Rightarrow> Some d | None \<Rightarrow> contract_code cs)"

datatype explanation = InsufficientBalance | MissingTrustline | NoPool | RejectedBySim "string option"

definition explain_sim_error :: "string \<Rightarrow> explanation option" where
  "explain_sim_error m =
    (let low = map lower_char m
     in if \<not> search (lit ''simulation failed'') low then None
        else if search (lit ''resulting balance is not within the allowed range'') low then Some InsufficientBalance
        else if search_gap (lit ''trustline'') [lit ''missing'', lit ''not found''] low
          \<or> search_gap (lit ''missing'') [lit ''trustline''] low then Some MissingTrustline
        else if contract_code m = Some ''6'' then Some NoPool
        else Some (RejectedBySim (contract_code m)))"

datatype reply_text = Said string | Explained explanation | Label

definition handle_error :: "http_error \<Rightarrow> int \<times> reply_text" where
  "handle_error e =
    (case e of
       BadRequest m \<Rightarrow> (400, Said m)
     | BlockedAddress a \<Rightarrow> (403, Said a)
     | OtherError m \<Rightarrow> (case explain_sim_error m of Some x \<Rightarrow> (400, Explained x) | None \<Rightarrow> (500, Label)))"

section \<open>Wallet screening\<close>

datatype screening_provider = NoScreening | Denylist | Predicate

record screening_config =
  sn_provider :: screening_provider
  sn_denylist :: "string list"
  sn_url :: string
  sn_key :: string
  sn_hash :: string
  sn_fail_closed :: bool

definition lower :: "string \<Rightarrow> string" where
  "lower = map lower_char"

definition env_or :: "string option \<Rightarrow> string \<Rightarrow> string" where
  "env_or v d = (case v of Some s \<Rightarrow> s | None \<Rightarrow> d)"

definition config_from_env :: "(string \<Rightarrow> string option) \<Rightarrow> screening_config" where
  "config_from_env env =
    (let provider = lower (env_or (env ''SCREENING_PROVIDER'') ''none'')
     in \<lparr>sn_provider = (if provider = ''denylist'' then Denylist else if provider = ''predicate'' then Predicate else NoScreening),
         sn_denylist = comma_list (env_or (env ''SCREENING_DENYLIST'') []),
         sn_url = (if truthy (env ''PREDICATE_API_URL'') then the (env ''PREDICATE_API_URL'') else ''https://api.predicate.io/v2/attestation''),
         sn_key = env_or (env ''PREDICATE_API_KEY'') [],
         sn_hash = env_or (env ''PREDICATE_VERIFICATION_HASH'') [],
         sn_fail_closed = (lower (env_or (env ''SCREENING_FAIL_CLOSED'') []) \<in> {''1'', ''true''})\<rparr>)"

definition screening_ttl_ms :: int where "screening_ttl_ms = 600000"

text \<open>The answer of the attestation service: a status that is not ok, or the field
  \<open>is_compliant\<close> when it is a boolean.\<close>

datatype predicate_reply = NotOk int | Shape "bool option"

definition predicate_check :: "screening_config \<Rightarrow> predicate_reply js \<Rightarrow> bool js" where
  "predicate_check cfg reply =
    (if sn_key cfg = [] \<or> sn_hash cfg = [] then Inl (Thrown ''predicate screening selected but not configured'')
     else case reply of
            Inl e \<Rightarrow> Inl e
          | Inr (NotOk st) \<Rightarrow> Inl (Thrown (''predicate API '' @ big_string st))
          | Inr (Shape None) \<Rightarrow> Inl (Thrown ''predicate: unrecognized response shape'')
          | Inr (Shape (Some b)) \<Rightarrow> Inr b)"

type_synonym screen_cache = "(string, bool \<times> int) jmap"

text \<open>\<open>isBlocked\<close>: the times before and after the request may differ.\<close>

definition is_blocked :: "screening_config \<Rightarrow> (string \<Rightarrow> predicate_reply js) \<Rightarrow> int \<Rightarrow> int \<Rightarrow> screen_cache \<Rightarrow> string
    \<Rightarrow> bool \<times> screen_cache" where
  "is_blocked cfg ask now later cache address =
    (case sn_provider cfg of
       NoScreening \<Rightarrow> (False, cache)
     | Denylist \<Rightarrow> (address \<in> set (sn_denylist cfg), cache)
     | Predicate \<Rightarrow>
         (case (case jm_get cache address of Some (b, ts) \<Rightarrow> if now - ts < screening_ttl_ms then Some b else None | None \<Rightarrow> None) of
            Some b \<Rightarrow> (b, cache)
          | None \<Rightarrow>
              (case predicate_check cfg (ask address) of
                 Inr compliant \<Rightarrow> (\<not> compliant, jm_set address (\<not> compliant, later) cache)
               | Inl _ \<Rightarrow> (sn_fail_closed cfg, cache))))"

definition assert_not_blocked :: "bool \<Rightarrow> string \<Rightarrow> unit handler" where
  "assert_not_blocked blocked address = (if blocked then Inl (BlockedAddress (take 6 address)) else Inr ())"

section \<open>What validated parameters are\<close>

lemma parse_amount_bounds: "parse_amount v f = Inr n \<Longrightarrow> 0 < n \<and> n \<le> max_amount"
  by (auto simp: parse_amount_def hbind_Inr)

lemma parse_amount_text:
  assumes "0 < n" "n \<le> max_amount"
  shows "parse_amount (JStr (big_string n)) f = Inr n"
  using assms by (simp add: parse_amount_def big_of_jv_def big_string_round_trip guard_def)

lemma parse_slippage_bounds:
  "parse_slippage_bps v d = Inr n \<Longrightarrow> 1 \<le> d \<Longrightarrow> d \<le> 1000 \<Longrightarrow> 1 \<le> n \<and> n \<le> 1000"
  by (auto simp: parse_slippage_bps_def split: if_splits option.splits)

lemma parse_account_ok: "parse_stellar_account v f = Inr a \<Longrightarrow> v = JStr a \<and> strkey (CHR ''G'') a"
  by (auto simp: parse_stellar_account_def split: jv.splits if_splits)

lemma find_SomeD: "find P xs = Some x \<Longrightarrow> x \<in> set xs \<and> P x"
  by (induction xs) (auto split: if_splits)

lemma resolve_token_param_ok:
  assumes "resolve_token_param ts us v f = Inr a"
  obtains s where "v = JStr s" "a \<noteq> []"
    "a = s \<and> strkey (CHR ''C'') a \<or> (\<exists>t\<in>set ts. tk_sac t = a) \<or> (\<exists>t\<in>set us. at_sac t = a \<and> to_upper (at_symbol t) = to_upper s)"
proof -
  from assms obtain s where s: "v = JStr s" "s \<noteq> []"
    by (auto simp: resolve_token_param_def split: jv.splits if_splits)
  show ?thesis
  proof (cases "resolve_sac_address ts s")
    case (Inr b)
    with assms s resolve_sac_address_ok [OF Inr] show ?thesis by (intro that [of s]) (auto simp: resolve_token_param_def)
  next
    case (Inl e)
    with assms s obtain t where t: "find (\<lambda>t. to_upper (at_symbol t) = to_upper s \<and> at_sac t \<noteq> []) us = Some t" "a = at_sac t"
      by (simp add: resolve_token_param_def split: option.split_asm)
    from find_SomeD [OF t(1)] t(2) have "a \<noteq> []" "\<exists>t\<in>set us. at_sac t = a \<and> to_upper (at_symbol t) = to_upper s"
      by metis+
    with s(1) show ?thesis using that by blast
  qed
qed

text \<open>A provider outage never changes the cache, and its answer is the configured default.\<close>

lemma outage_uncached:
  assumes "sn_provider cfg = Predicate" "ask a = Inl e" "jm_get cache a = None"
  shows "is_blocked cfg ask now later cache a = (sn_fail_closed cfg, cache)"
  using assms by (simp add: is_blocked_def predicate_check_def)

lemma explained_is_sim:
  "explain_sim_error m = Some x \<Longrightarrow> search (lit ''simulation failed'') (map lower_char m)"
  unfolding explain_sim_error_def Let_def by (rule ccontr) (simp only: not_not if_True option.distinct simp_thms)

text \<open>
  The status of every error reply: a rejected parameter 400 with its own message, a screened
  address 403, a recognisable simulation failure 400, anything else 500 with only the handler's
  label; nothing but the first two kinds ever shows a message of its own.
\<close>

lemma error_status:
  "fst (handle_error e) \<in> {400, 403, 500} \<and>
   (fst (handle_error e) = 403 \<longleftrightarrow> (\<exists>a. e = BlockedAddress a)) \<and>
   (fst (handle_error e) = 500 \<longleftrightarrow> snd (handle_error e) = Label) \<and>
   (\<forall>m. snd (handle_error e) = Said m \<longrightarrow> e = BadRequest m \<or> e = BlockedAddress m) \<and>
   (\<forall>m x. e = OtherError m \<longrightarrow> snd (handle_error e) = Explained x \<longrightarrow> search (lit ''simulation failed'') (map lower_char m))"
proof (cases e)
  case (OtherError m)
  show ?thesis
  proof (cases "explain_sim_error m")
    case (Some x)
    from explained_is_sim [OF this] show ?thesis by (simp add: OtherError handle_error_def Some)
  qed (simp add: OtherError handle_error_def)
qed (simp_all add: handle_error_def)

end
