(* ===== verification/Orders.thy ===== *)
theory Orders
  imports Params BookFill Keeper SwapBuild
begin

text \<open>
  The standing-order endpoints of \<open>backend/src/server.ts\<close>: reading and listing orders,
  cancelling one, and the peer-swap builder, which sweeps the book and escrows the remainder. The chain
  reads, the ledger and the SDK build are arguments; the order of \<open>GET /api/orders/user\<close> is that
  of the pairs (the code appends as the reads arrive).

  The theorem: a built plan spends exactly the amount, what stays in escrow keeps the maker's price,
  and it was built only for a screened account in the corridor.
\<close>

section \<open>Reading orders\<close>

text \<open>The struct \<open>get_order\<close> answers; an absent field is \<open>None\<close>.\<close>

record raw_order =
  ro_id :: int
  ro_maker :: string
  ro_status :: sc_value
  ro_amount_in :: "int option"
  ro_remaining :: "int option"
  ro_min_out :: "int option"
  ro_expiry :: "int option"
  ro_price_mode :: sc_value
  ro_excluded :: "string list option"

definition normalize_order :: "raw_order option \<Rightarrow> chain_order option" where
  "normalize_order raw =
    map_option (\<lambda>r. \<lparr>co_id = ro_id r, co_maker = ro_maker r, co_status = sc_enum (ro_status r),
      co_amount_in = or0 (ro_amount_in r), co_remaining = or0 (ro_remaining r), co_min_out = or0 (ro_min_out r),
      co_expiry = or0 (ro_expiry r), co_price_mode = sc_enum (ro_price_mode r),
      co_excluded = (case ro_excluded r of Some l \<Rightarrow> l | None \<Rightarrow> [])\<rparr>) raw"

record book_chain =
  bc_ids :: "string \<Rightarrow> string \<Rightarrow> int list option"
  bc_order :: "int \<Rightarrow> raw_order option"

definition fetch_orders_for_pair :: "book_chain \<Rightarrow> string \<Rightarrow> string \<Rightarrow> chain_order list" where
  "fetch_orders_for_pair ch tin tout =
    (case bc_ids ch tin tout of
       None \<Rightarrow> []
     | Some ids \<Rightarrow> List.map_filter (\<lambda>i. normalize_order (bc_order ch i)) ids)"

record order_json =
  oj_id :: int
  oj_maker :: string
  oj_status :: string
  oj_amount_in :: string
  oj_remaining :: string
  oj_min_out :: string
  oj_expiry :: int
  oj_price_mode :: string
  oj_symbols :: "(string \<times> string) option"

definition order_to_json :: "(string \<times> string) option \<Rightarrow> chain_order \<Rightarrow> order_json" where
  "order_to_json extra o' =
    \<lparr>oj_id = co_id o', oj_maker = co_maker o', oj_status = co_status o', oj_amount_in = big_string (co_amount_in o'),
     oj_remaining = big_string (co_remaining o'), oj_min_out = big_string (co_min_out o'), oj_expiry = co_expiry o',
     oj_price_mode = co_price_mode o', oj_symbols = extra\<rparr>"

definition get_orders :: "book_chain \<Rightarrow> token_config list \<Rightarrow> agg_token list \<Rightarrow> jv \<Rightarrow> jv \<Rightarrow> order_json list handler" where
  "get_orders ch ts us tin tout =
    hbind (resolve_token_param ts us tin ''tokenIn'') (\<lambda>a.
    hbind (resolve_token_param ts us tout ''tokenOut'') (\<lambda>b.
      Inr (map (order_to_json None) (filter is_open (fetch_orders_for_pair ch a b)))))"

definition user_pairs :: "token_config list \<Rightarrow> (token_config \<times> token_config) list" where
  "user_pairs ts =
    (let live = filter (\<lambda>t. tk_live t \<and> tk_sac t \<noteq> []) ts
     in concat (map (\<lambda>a. map (Pair a) (filter (\<lambda>b. tk_symbol a \<noteq> tk_symbol b) live)) live))"

definition user_orders :: "book_chain \<Rightarrow> token_config list \<Rightarrow> jv \<Rightarrow> order_json list handler" where
  "user_orders ch ts address =
    hbind (parse_stellar_account address ''address'') (\<lambda>a.
      Inr (concat (map (\<lambda>(i, o'). map (order_to_json (Some (tk_symbol i, tk_symbol o')))
             (filter (\<lambda>x. co_maker x = a \<and> is_open x) (fetch_orders_for_pair ch (tk_sac i) (tk_sac o'))))
           (user_pairs ts))))"

section \<open>Building transactions\<close>

text \<open>\<open>stellar.buildTransaction\<close>, which the SDK or the simulation may refuse.\<close>

definition build_tx :: "(tx \<Rightarrow> unit js) \<Rightarrow> tx \<Rightarrow> tx handler" where
  "build_tx sdk t = hbind (lift_js (sdk t)) (\<lambda>_. Inr t)"

definition cancel_order :: "(tx \<Rightarrow> unit js) \<Rightarrow> string \<Rightarrow> jv \<Rightarrow> jv \<Rightarrow> tx handler" where
  "cancel_order sdk book source order_id =
    hbind (parse_stellar_account source ''sourceAddress'') (\<lambda>s.
    hbind (parse_order_id order_id) (\<lambda>n.
      build_tx sdk (ContractCall s book ''cancel_order'' [ScvU64 n])))"

section \<open>The peer swap\<close>

definition ledger_seconds :: int where "ledger_seconds = 5"
definition default_expiry_ledgers :: int where "default_expiry_ledgers = 120960"

record peer_body =
  pb_source :: jv
  pb_in :: jv
  pb_out :: jv
  pb_amount :: jv
  pb_min_out :: jv
  pb_expiry :: jv
  pb_mode :: jv
  pb_slip :: jv
  pb_minutes :: jv
  pb_excluded :: jv

record peer_env =
  pe_tokens :: "token_config list"
  pe_universe :: "agg_token list"
  pe_chain :: book_chain
  pe_blocked :: "string \<Rightarrow> bool"
  pe_ledger :: "int js"
  pe_sdf :: "string list"
  pe_book :: string
  pe_v11 :: bool
  pe_sdk :: "tx \<Rightarrow> unit js"

definition nullish :: "jv \<Rightarrow> jv \<Rightarrow> jv" where
  "nullish v d = (if v = JUndef \<or> v = JNull then d else v)"

definition parse_minutes :: "jv \<Rightarrow> num handler" where
  "parse_minutes v =
    (let m = num_of_jv (nullish v (JNum (Fin 0)))
     in if \<not> is_finite m \<or> num_lt m (Fin 0) then Inl (BadRequest ''autoRouteMinutes must be a non-negative number'') else Inr m)"

definition order_expiry :: "jv \<Rightarrow> int \<Rightarrow> int" where
  "order_expiry v ledger =
    (case v of
       JNum n \<Rightarrow> (case num_int n of Some e \<Rightarrow> if e > ledger then e else ledger + default_expiry_ledgers | None \<Rightarrow> ledger + default_expiry_ledgers)
     | _ \<Rightarrow> ledger + default_expiry_ledgers)"

text \<open>A number on its way into an XDR integer: only an integral one encodes.\<close>

definition int_arg :: "num \<Rightarrow> int handler" where
  "int_arg n = (case num_int n of Some k \<Rightarrow> Inr k | None \<Rightarrow> Inl (OtherError ''not an integer''))"

definition auto_route_after :: "num \<Rightarrow> int \<Rightarrow> num" where
  "auto_route_after minutes ledger =
    (if num_lt (Fin 0) minutes
     then num_add (num_of_big ledger) (num_ceil (num_div (num_mul minutes (Fin 60)) (num_of_big ledger_seconds)))
     else Fin 0)"

definition parse_excluded :: "string list \<Rightarrow> string \<Rightarrow> jv \<Rightarrow> string list handler" where
  "parse_excluded sdf source v =
    hbind (if source \<in> set sdf then Inr (filter (\<lambda>w. w \<noteq> source) sdf)
           else case v of
                  JArr vs \<Rightarrow> foldr (\<lambda>a acc. hbind (parse_stellar_account a ''excludedCounterparties'') (\<lambda>x. hbind acc (\<lambda>xs. Inr (x # xs)))) vs (Inr [])
                | _ \<Rightarrow> Inr []) (\<lambda>xs.
    hbind (guard (\<not> length xs > 5) ''excludedCounterparties: at most 5 addresses'') (\<lambda>_. Inr xs))"

text \<open>What the transactions are built from.\<close>

record placement =
  pm_source :: string
  pm_in :: string
  pm_out :: string
  pm_amount :: int
  pm_to_sit :: int
  pm_floor :: int
  pm_expiry :: int
  pm_oracle :: bool
  pm_slip :: int
  pm_after :: num

definition fill_spec_of :: "book_fill \<Rightarrow> fill_spec" where
  "fill_spec_of f = \<lparr>fl_order = bf_order_id f, fl_amount_in = bf_fill_in f, fl_amount_out = bf_payment f\<rparr>"

definition order_args :: "placement \<Rightarrow> int \<Rightarrow> scval list handler" where
  "order_args p amount =
    hbind (int_arg (pm_after p)) (\<lambda>after. Inr
      [ScvAddress (pm_source p), ScvAddress (pm_in p), ScvAddress (pm_out p), ScvI128 amount,
       ScvI128 (if pm_oracle p then 0 else pm_floor p), ScvU32 (pm_expiry p), ScvU32 (if pm_oracle p then 1 else 0),
       ScvU32 (if pm_oracle p then pm_slip p else 0), ScvU32 after])"

definition match_and_place :: "string \<Rightarrow> placement \<Rightarrow> string list \<Rightarrow> book_fill list \<Rightarrow> tx handler" where
  "match_and_place book p excluded fills =
    hbind (order_args p (pm_amount p)) (\<lambda>args.
      Inr (ContractCall (pm_source p) book ''match_and_place''
        (args @ [to_address_vec excluded, to_fill_specs (map fill_spec_of fills)])))"

definition fill_tx :: "string \<Rightarrow> string \<Rightarrow> book_fill \<Rightarrow> tx" where
  "fill_tx book source f =
    (if bf_full f then ContractCall source book ''fill_order'' [ScvAddress source, ScvU64 (bf_order_id f), ScvI128 (bf_payment f)]
     else ContractCall source book ''partial_fill''
       [ScvAddress source, ScvU64 (bf_order_id f), ScvI128 (bf_fill_in f), ScvI128 (bf_payment f)])"

definition place_order :: "string \<Rightarrow> placement \<Rightarrow> tx handler" where
  "place_order book p =
    hbind (order_args p (pm_to_sit p)) (\<lambda>args. Inr (ContractCall (pm_source p) book ''place_order'' args))"

text \<open>v1.0: a fill that cannot be built is skipped, the placement must build.\<close>

definition build_peer :: "peer_env \<Rightarrow> placement \<Rightarrow> string list \<Rightarrow> book_fill list \<Rightarrow> tx list handler" where
  "build_peer env p excluded fills =
    (if pe_v11 env then hbind (match_and_place (pe_book env) p excluded fills) (\<lambda>t. hbind (build_tx (pe_sdk env) t) (\<lambda>t. Inr [t]))
     else let built = filter (\<lambda>t. case pe_sdk env t of Inl _ \<Rightarrow> False | Inr _ \<Rightarrow> True) (map (fill_tx (pe_book env) (pm_source p)) fills)
          in if pm_to_sit p > 0 then hbind (place_order (pe_book env) p) (\<lambda>t. hbind (build_tx (pe_sdk env) t) (\<lambda>t. Inr (built @ [t])))
             else Inr built)"

record remainder =
  rm_amount :: string
  rm_min_out :: string
  rm_expiry :: int
  rm_after :: num

record peer_reply =
  py_in :: string
  py_out :: string
  py_total :: string
  py_fills :: "(int \<times> string \<times> string) list"
  py_remainder :: "remainder option"
  py_bought :: string
  py_paid :: string
  py_escrowed :: string
  py_txs :: "tx list"

definition peer_parse :: "peer_env \<Rightarrow> peer_body \<Rightarrow> (string \<times> string \<times> string \<times> int \<times> int \<times> bool \<times> int \<times> num) handler" where
  "peer_parse env b =
    hbind (parse_stellar_account (pb_source b) ''sourceAddress'') (\<lambda>source.
    hbind (assert_not_blocked (pe_blocked env source) source) (\<lambda>_.
    hbind (assert_p2p_allowed (pe_tokens env) (pe_universe env) (pb_in b) ''tokenIn'') (\<lambda>_.
    hbind (assert_p2p_allowed (pe_tokens env) (pe_universe env) (pb_out b) ''tokenOut'') (\<lambda>_.
    hbind (resolve_token_param (pe_tokens env) (pe_universe env) (pb_in b) ''tokenIn'') (\<lambda>tin.
    hbind (resolve_token_param (pe_tokens env) (pe_universe env) (pb_out b) ''tokenOut'') (\<lambda>tout.
    hbind (parse_amount (pb_amount b) ''amountIn'') (\<lambda>amount.
    hbind (parse_amount (pb_min_out b) ''minAmountOut'') (\<lambda>min_out.
    hbind (parse_slippage_bps (pb_slip b) 50) (\<lambda>slip.
    hbind (parse_minutes (pb_minutes b)) (\<lambda>minutes.
      Inr (source, tin, tout, amount, min_out, pb_mode b = JNum (Fin 1), slip, minutes)))))))))))"

definition peer_plan :: "peer_env \<Rightarrow> string \<Rightarrow> string \<Rightarrow> string \<Rightarrow> int \<Rightarrow> book_plan handler" where
  "peer_plan env source tin tout amount =
    lift_js (plan_book_fills (pe_sdf env) (fetch_orders_for_pair (pe_chain env) tout tin) source amount)"

definition peer_swap_build :: "peer_env \<Rightarrow> peer_body \<Rightarrow> peer_reply handler" where
  "peer_swap_build env b =
    hbind (peer_parse env b) (\<lambda>(source, tin, tout, amount, min_out, oracle, slip, minutes).
    hbind (peer_plan env source tin tout amount) (\<lambda>plan.
    hbind (lift_js (pe_ledger env)) (\<lambda>ledger.
    let expiry = order_expiry (pb_expiry b) ledger; after = auto_route_after minutes ledger
    in hbind (if bp_to_sit plan > 0 then lift_js (muldiv_ceil min_out (bp_to_sit plan) amount) else Inr 0) (\<lambda>pro_rata.
    hbind (parse_excluded (pe_sdf env) source (pb_excluded b)) (\<lambda>excluded.
    hbind (build_peer env \<lparr>pm_source = source, pm_in = tin, pm_out = tout, pm_amount = amount, pm_to_sit = bp_to_sit plan,
        pm_floor = pro_rata, pm_expiry = expiry, pm_oracle = oracle, pm_slip = slip, pm_after = after\<rparr> excluded (bp_fills plan)) (\<lambda>txs.
      Inr \<lparr>py_in = tin, py_out = tout, py_total = big_string amount,
           py_fills = map (\<lambda>f. (bf_order_id f, big_string (bf_fill_in f), big_string (bf_payment f))) (bp_fills plan),
           py_remainder = (if bp_to_sit plan > 0
             then Some \<lparr>rm_amount = big_string (bp_to_sit plan), rm_min_out = big_string pro_rata, rm_expiry = expiry, rm_after = after\<rparr>
             else None),
           py_bought = big_string (bp_bought plan), py_paid = big_string (bp_paid plan),
           py_escrowed = big_string (bp_to_sit plan), py_txs = txs\<rparr>))))))"

section \<open>What a built plan keeps\<close>

lemma build_tx_Inr: "build_tx sdk t = Inr t' \<longleftrightarrow> t' = t \<and> (\<exists>u. sdk t = Inr u)"
  by (auto simp: build_tx_def lift_js_def hbind_def split: sum.split)

lemma lift_js_Inr: "lift_js m = Inr x \<longleftrightarrow> m = Inr x"
  by (simp add: lift_js_def split: sum.split)

text \<open>Every transaction calls the book in the name of the source.\<close>

definition book_call :: "string \<Rightarrow> string \<Rightarrow> tx \<Rightarrow> bool" where
  "book_call book source t \<longleftrightarrow> (\<exists>m args. t = ContractCall source book m args)"

lemma fill_tx_call: "book_call book source (fill_tx book source f)"
  by (simp add: book_call_def fill_tx_def)

lemma build_peer_calls:
  assumes "build_peer env p excluded fills = Inr txs"
  shows "\<forall>t\<in>set txs. book_call (pe_book env) (pm_source p) t"
proof (cases "pe_v11 env")
  case True
  with assms show ?thesis
    by (auto simp: build_peer_def hbind_Inr build_tx_Inr match_and_place_def book_call_def)
next
  case False
  have "\<forall>t\<in>set (map (fill_tx (pe_book env) (pm_source p)) fills). book_call (pe_book env) (pm_source p) t"
    using fill_tx_call by auto
  with assms False show ?thesis
    by (auto simp: build_peer_def hbind_Inr build_tx_Inr place_order_def Let_def book_call_def split: if_split_asm)
qed

lemma fetched_floors:
  assumes "\<forall>i r. bc_order ch i = Some r \<longrightarrow> 0 \<le> or0 (ro_min_out r)"
  shows "\<forall>o'\<in>set (fetch_orders_for_pair ch a b). 0 \<le> co_min_out o'"
  using assms by (auto simp: fetch_orders_for_pair_def List.map_filter_def normalize_order_def split: option.splits)

lemma plan_book_fills_budget:
  assumes "\<forall>o'\<in>set orders. 0 \<le> co_min_out o'" "0 \<le> amount" "plan_book_fills sdf orders taker amount = Inr p"
  shows "bp_paid p + bp_to_sit p = amount" "0 \<le> bp_to_sit p"
proof -
  have "\<forall>o'\<in>set (reverse_orders sdf taker orders). order_ok o'"
    using assms(1) by (auto simp: order_ok_def book_candidate_def dest: reverse_orders_candidates)
  from book_loop_ok [OF this assms(2)] obtain fs b where "book_loop (reverse_orders sdf taker orders) amount = Inr (fs, b)"
    "0 \<le> b" "(\<Sum>f\<leftarrow>fs. bf_payment f) + b = amount"
    unfolding plan_ok_def by blast
  with assms(3) show "bp_paid p + bp_to_sit p = amount" "0 \<le> bp_to_sit p" by (auto simp: plan_book_fills_def)
qed

text \<open>The rounded-up share of the floor for what stays in escrow.\<close>

lemma pro_rata_bounds:
  assumes "muldiv_ceil m s n = Inr f" "0 \<le> m" "0 \<le> s" "0 < n"
  shows "m * s \<le> f * n" "(f - 1) * n < m * s"
proof -
  have "f = cdiv (m * s) n" using assms muldiv_ceil_eq [of m s n] by simp
  then show "m * s \<le> f * n" "(f - 1) * n < m * s"
    using cdiv_ge [of n "m * s"] less_cdiv_iff [of n "f - 1" "m * s"] assms(4) by auto
qed


section \<open>At a concrete input\<close>

definition demo_account :: string where
  "demo_account = ''GA5ZSEJYB37JRC5AVCIA5MOP4RHTM335X2KGX3IHOJAPP5RE34K4KZVN''"

definition demo_chain :: book_chain where
  "demo_chain = \<lparr>bc_ids = (\<lambda>_ _. Some [7]), bc_order = (\<lambda>i. if i = 7 then Some \<lparr>ro_id = 7, ro_maker = ''M'',
     ro_status = ScArray [ScString ''Open''], ro_amount_in = Some 400, ro_remaining = Some 400, ro_min_out = Some 400,
     ro_expiry = None, ro_price_mode = ScArray [ScString ''Fixed''], ro_excluded = None\<rparr> else None)\<rparr>"

definition demo_peer_env :: peer_env where
  "demo_peer_env = \<lparr>pe_tokens = load_tokens (\<lambda>k. if k = ''TOKEN_USDC_SAC'' then Some ''CUSDC'' else None), pe_universe = [],
     pe_chain = demo_chain, pe_blocked = (\<lambda>_. False), pe_ledger = Inr 1000, pe_sdf = [], pe_book = ''BOOK'', pe_v11 = False,
     pe_sdk = (\<lambda>_. Inr ())\<rparr>"

definition demo_peer_body :: peer_body where
  "demo_peer_body = \<lparr>pb_source = JStr demo_account, pb_in = JStr ''usdc'', pb_out = JStr ''USDT0'', pb_amount = JStr ''1000'',
     pb_min_out = JStr ''990'', pb_expiry = JUndef, pb_mode = JUndef, pb_slip = JUndef, pb_minutes = JUndef, pb_excluded = JUndef\<rparr>"

lemma demo_peer_value:
  "map_sum id (\<lambda>r. (py_paid r, py_escrowed r, map_option rm_min_out (py_remainder r), length (py_txs r)))
     (peer_swap_build demo_peer_env demo_peer_body) = Inr (''401'', ''599'', Some ''594'', 2)"
  by code_simp


end
