(* ===== verification/TwapApi.thy ===== *)
theory TwapApi
  imports Orders FairValue
begin

text \<open>
  The TWAP endpoints of \<open>backend/src/server.ts\<close>: the recommendation of a window, the fee,
  the order builder, the listing and the cancellation. Routes, prices, the ledger, the chain reads
  and the SDK are arguments; the fixed texts of a reply are left out.

  The theorems: what a built order carries, and that its price floor does not look at the tokens'
  decimals.
\<close>

section \<open>Recommendation\<close>

definition min_slice_usd :: num where "min_slice_usd = Fin 25"
definition refill_minutes :: num where "refill_minutes = Fin 2"
definition twap_fee_bps :: num where "twap_fee_bps = Fin 10"

record twap_advice =
  ta_minutes :: num
  ta_slices :: num
  ta_estimated :: "num option"
  ta_slice_cost :: "num option"
  ta_notional :: "num option"
  ta_impact :: num

definition useful_slices :: "num option \<Rightarrow> num" where
  "useful_slices notional =
    (if falsy notional then Fin 60 else num_max (Fin 1) (num_floor (num_div (the notional) min_slice_usd)))"

definition advised_slices :: "num option \<Rightarrow> num \<Rightarrow> num" where
  "advised_slices notional impact =
    num_min (useful_slices notional) (num_max (Fin 1) (num_ceil (num_div impact (Fin 10))))"

definition advised_minutes :: "num \<Rightarrow> num" where
  "advised_minutes slices =
    (if num_le slices (Fin 1) then Fin 0 else num_max (Fin 30) (num_mul slices refill_minutes))"

text \<open>The cost of one slice against the oracle; any failure degrades to \<open>None\<close>. \<open>route\<close>
  is the direct executable route at 50 bps slippage for an amount.\<close>

definition slice_cost :: "(int \<Rightarrow> route js) \<Rightarrow> (int \<Rightarrow> int \<Rightarrow> num option js) \<Rightarrow> int \<Rightarrow> num \<Rightarrow> num option" where
  "slice_cost route vs_oracle amount slices =
    js_catch (js_bind (big_of_num (num_max (Fin 1) slices)) (\<lambda>n.
      js_bind (big_div amount n) (\<lambda>slice.
        if slice > 0 then js_bind (route slice) (\<lambda>r. vs_oracle slice (rt_net_out r)) else Inr None))) None"

definition estimate_out :: "num \<Rightarrow> num \<Rightarrow> num option \<Rightarrow> num \<Rightarrow> num" where
  "estimate_out fair_units impact cost price_out =
    (let fair = num_div fair_units price_out;
         cost_bps = num_add (case cost of Some c \<Rightarrow> c | None \<Rightarrow> num_max impact (Fin 5)) twap_fee_bps
     in num_div (num_round (num_mul (num_mul fair (num_sub (Fin 1) (num_div (num_max (Fin 0) cost_bps) (Fin 10000))))
          (Fin 10000000))) (Fin 10000000))"

definition twap_advise :: "(int \<Rightarrow> route js) \<Rightarrow> (int \<Rightarrow> int \<Rightarrow> num option js) \<Rightarrow> num option js \<Rightarrow> num option js
    \<Rightarrow> int \<Rightarrow> int \<Rightarrow> twap_advice" where
  "twap_advise route vs_oracle price_in_js price_out_js amount d_in =
    (let u = units amount d_in;
         price_in = js_catch price_in_js None;
         notional = (if falsy price_in then None else Some (num_mul u (the price_in)));
         impact = js_catch (js_bind (route amount) (\<lambda>r. Inr (num_max (Fin 0) (rt_impact_bps r)))) (Fin 0);
         slices = advised_slices notional impact;
         price_out = js_catch price_out_js None;
         priced = (\<not> falsy price_in \<and> \<not> falsy price_out \<and> num_lt (Fin 0) u);
         cost = (if priced then slice_cost route vs_oracle amount slices else None)
     in \<lparr>ta_minutes = advised_minutes slices, ta_slices = slices,
         ta_estimated = (if priced then Some (estimate_out (num_mul u (the price_in)) impact cost (the price_out)) else None),
         ta_slice_cost = cost,
         ta_notional = (if falsy notional then None else Some (num_div (num_round (num_mul (the notional) (Fin 100))) (Fin 100))),
         ta_impact = num_div (num_round (num_mul impact (Fin 10))) (Fin 10)\<rparr>)"

definition twap_recommend :: "token_config list \<Rightarrow> agg_token list \<Rightarrow> (string \<Rightarrow> string \<Rightarrow> int \<Rightarrow> route js)
    \<Rightarrow> (string \<Rightarrow> string \<Rightarrow> int \<Rightarrow> int \<Rightarrow> num option js) \<Rightarrow> (string \<Rightarrow> num option js) \<Rightarrow> jv \<Rightarrow> jv \<Rightarrow> jv \<Rightarrow> twap_advice handler" where
  "twap_recommend ts us route vs_oracle price tin tout amount =
    hbind (resolve_token_param ts us tin ''tokenIn'') (\<lambda>a.
    hbind (resolve_token_param ts us tout ''tokenOut'') (\<lambda>b.
    hbind (parse_amount amount ''amountIn'') (\<lambda>n.
      Inr (twap_advise (route a b) (vs_oracle a b) (price a) (price b) n (decimals_for_sac us a)))))"

section \<open>Fee\<close>

text \<open>The cached fee and its time; \<open>None\<close> for \<open>get_fee\<close> is a simulation without result.\<close>

definition twap_fee :: "bool \<Rightarrow> (num \<times> int) option \<Rightarrow> int \<Rightarrow> (int \<times> int) option \<Rightarrow> num handler \<times> (num \<times> int) option" where
  "twap_fee deployed cache now fee =
    (if \<not> deployed then (Inl (BadRequest ''TWAP not deployed''), cache)
     else let stale = (case cache of None \<Rightarrow> True | Some (_, ts) \<Rightarrow> now - ts > 600000)
          in if \<not> stale then (Inr (fst (the cache)), cache)
             else case fee of
                    None \<Rightarrow> (Inl (OtherError ''get_fee simulation returned no result''), cache)
                  | Some (n, d) \<Rightarrow>
                      (let v = num_div (num_of_big n) (num_div (num_of_big d) (Fin 10000))
                       in (Inr v, Some (v, now))))"

section \<open>Building an order\<close>

record twap_body =
  tb_source :: jv
  tb_in :: jv
  tb_out :: jv
  tb_amount :: jv
  tb_minutes :: jv
  tb_limit :: jv
  tb_slip :: jv
  tb_slice_pct :: jv
  tb_gap :: jv
  tb_pace :: jv

record twap_env =
  te_tokens :: "token_config list"
  te_universe :: "agg_token list"
  te_blocked :: "string \<Rightarrow> bool"
  te_ledger :: "int js"
  te_contract :: string
  te_sdk :: "tx \<Rightarrow> unit js"

definition num_between :: "num \<Rightarrow> num \<Rightarrow> num \<Rightarrow> bool" where
  "num_between lo hi n \<longleftrightarrow> is_finite n \<and> \<not> num_lt n lo \<and> \<not> num_lt hi n"

definition parse_limit :: "jv \<Rightarrow> (int \<times> int) handler" where
  "parse_limit v =
    (if v = JUndef \<or> v = JNull \<or> v = JStr [] then Inr (0, 0)
     else let price = num_of_jv v
          in if \<not> is_finite price \<or> num_le price (Fin 0) then Inl (BadRequest ''limitPrice must be a positive number'')
             else hbind (lift_js (big_of_num (num_round (num_mul price (Fin 10000000))))) (\<lambda>n. Inr (n, 10000000)))"

definition parse_slice_cap :: "jv \<Rightarrow> int \<Rightarrow> int handler" where
  "parse_slice_cap v amount =
    (let pct = num_of_jv (nullish v (JNum (Fin 10)))
     in if \<not> num_between (Fin 1) (Fin 100) pct then Inl (BadRequest ''maxSlicePct must be 1..100'')
        else hbind (lift_js (big_of_num (num_round (num_mul pct (Fin 100))))) (\<lambda>p.
          hbind (lift_js (big_div (amount * p + 9999) 10000)) (\<lambda>cap. Inr cap)))"

definition parse_gap :: "jv \<Rightarrow> num handler" where
  "parse_gap v =
    (let g = num_of_jv (nullish v (JNum (Fin 60)))
     in if \<not> num_between (Fin (of_int ledger_seconds)) (Fin 86400) g then Inl (BadRequest ''minSliceGapSeconds must be 5..86400'')
        else Inr (num_max (Fin 1) (num_round (num_div g (Fin (of_int ledger_seconds))))))"

definition parse_pace :: "jv \<Rightarrow> int handler" where
  "parse_pace v =
    (case num_int (num_of_jv (nullish v (JNum (Fin 500)))) of
       Some n \<Rightarrow> if n < 0 \<or> n > 5000 then Inl (BadRequest ''paceToleranceBps must be 0..5000'') else Inr n
     | None \<Rightarrow> Inl (BadRequest ''paceToleranceBps must be 0..5000''))"

definition parse_duration :: "jv \<Rightarrow> num handler" where
  "parse_duration v =
    (let m = num_of_jv v
     in if num_between (Fin 5) (Fin 43200) m then Inr m else Inl (BadRequest ''durationMinutes must be between 5 and 43200 (30 days)''))"

definition end_ledger :: "int \<Rightarrow> num \<Rightarrow> num" where
  "end_ledger current minutes =
    num_add (num_of_big current) (num_ceil (num_div (num_mul minutes (Fin 60)) (Fin (of_int ledger_seconds))))"

record twap_plan =
  tp_source :: string
  tp_in :: string
  tp_out :: string
  tp_amount :: int
  tp_end :: int
  tp_limit_num :: int
  tp_limit_den :: int
  tp_slip :: int
  tp_max_slice :: int
  tp_gap :: int
  tp_pace :: int

definition place_twap :: "string \<Rightarrow> twap_plan \<Rightarrow> tx" where
  "place_twap contract p = ContractCall (tp_source p) contract ''place_twap''
     [ScvAddress (tp_source p), ScvAddress (tp_in p), ScvAddress (tp_out p), ScvI128 (tp_amount p), ScvU32 (tp_end p),
      ScvI128 (tp_limit_num p), ScvI128 (tp_limit_den p), ScvU32 (tp_slip p), ScvI128 (tp_max_slice p),
      ScvU32 (tp_gap p), ScvU32 (tp_pace p)]"

definition twap_build :: "twap_env \<Rightarrow> twap_body \<Rightarrow> (tx \<times> twap_plan) handler" where
  "twap_build env b =
    hbind (guard (te_contract env \<noteq> []) ''TWAP not deployed'') (\<lambda>_.
    hbind (parse_stellar_account (tb_source b) ''sourceAddress'') (\<lambda>source.
    hbind (assert_not_blocked (te_blocked env source) source) (\<lambda>_.
    hbind (resolve_token_param (te_tokens env) (te_universe env) (tb_in b) ''tokenIn'') (\<lambda>tin.
    hbind (resolve_token_param (te_tokens env) (te_universe env) (tb_out b) ''tokenOut'') (\<lambda>tout.
    hbind (parse_amount (tb_amount b) ''amountIn'') (\<lambda>amount.
    hbind (guard (tin \<in> set (map at_sac (te_universe env)) \<and> tout \<in> set (map at_sac (te_universe env)))
      ''Both tokens must be in the supported token universe for TWAP orders'') (\<lambda>_.
    hbind (parse_duration (tb_minutes b)) (\<lambda>minutes.
    hbind (parse_limit (tb_limit b)) (\<lambda>(limit_num, limit_den).
    hbind (if limit_num > 0 then Inr 0 else parse_slippage_bps (tb_slip b) 50) (\<lambda>slip.
    hbind (parse_slice_cap (tb_slice_pct b) amount) (\<lambda>cap.
    hbind (parse_gap (tb_gap b)) (\<lambda>gap.
    hbind (parse_pace (tb_pace b)) (\<lambda>pace.
    hbind (lift_js (te_ledger env)) (\<lambda>ledger.
    hbind (int_arg (end_ledger ledger minutes)) (\<lambda>e.
    hbind (int_arg gap) (\<lambda>g.
      let p = \<lparr>tp_source = source, tp_in = tin, tp_out = tout, tp_amount = amount, tp_end = e, tp_limit_num = limit_num,
          tp_limit_den = limit_den, tp_slip = slip, tp_max_slice = cap, tp_gap = g, tp_pace = pace\<rparr>
      in hbind (build_tx (te_sdk env) (place_twap (te_contract env) p)) (\<lambda>t. Inr (t, p))))))))))))))))))"

section \<open>Listing and cancelling\<close>

record twap_listed = twap_raw +
  tr_id :: int
  tr_received :: "int option"
  tr_slip :: "int option"

record twap_row =
  tw_row_id :: int
  tw_row_maker :: string
  tw_row_in :: string
  tw_row_out :: string
  tw_row_symbols :: "string \<times> string"
  tw_row_decimals :: "int \<times> int"
  tw_row_status :: string
  tw_row_filled :: num
  tw_row_elapsed :: num

text \<open>\<open>Number(x)\<close> and \<open>BigInt(x)\<close> of a field that may be missing.\<close>

definition num_field :: "int option \<Rightarrow> num" where
  "num_field x = (case x of None \<Rightarrow> NaN | Some v \<Rightarrow> num_of_big v)"

definition big_field :: "int option \<Rightarrow> int js" where
  "big_field x = (case x of None \<Rightarrow> Inl TypeError | Some v \<Rightarrow> Inr v)"

definition pct_filled :: "int option \<Rightarrow> int option \<Rightarrow> num js" where
  "pct_filled filled tot =
    js_bind (big_field filled) (\<lambda>f. js_bind (big_field tot) (\<lambda>t. js_bind (big_div (f * 10000) t) (\<lambda>q.
      Inr (num_div (num_of_big q) (Fin 100)))))"

definition pct_elapsed :: "int \<Rightarrow> int option \<Rightarrow> int option \<Rightarrow> num" where
  "pct_elapsed current start_l end_l =
    num_min (Fin 100) (num_max (Fin 0)
      (num_mul (num_div (num_sub (num_of_big current) (num_field start_l)) (num_sub (num_field end_l) (num_field start_l))) (Fin 100)))"

definition twap_row_of :: "agg_token list \<Rightarrow> int \<Rightarrow> twap_listed \<Rightarrow> twap_row js" where
  "twap_row_of us current r =
    js_bind (pct_filled (tr_filled_in r) (tr_total_in r)) (\<lambda>filled.
      Inr \<lparr>tw_row_id = tr_id r, tw_row_maker = tr_maker r, tw_row_in = tr_token_in r, tw_row_out = tr_token_out r,
           tw_row_symbols = (symbol_for_sac us (tr_token_in r), symbol_for_sac us (tr_token_out r)),
           tw_row_decimals = (decimals_for_sac us (tr_token_in r), decimals_for_sac us (tr_token_out r)),
           tw_row_status = sc_enum (tr_status r), tw_row_filled = filled,
           tw_row_elapsed = pct_elapsed current (tr_start r) (tr_end r)\<rparr>)"

definition twap_orders :: "bool \<Rightarrow> agg_token list \<Rightarrow> int list option \<Rightarrow> (int \<Rightarrow> twap_listed option) \<Rightarrow> int js \<Rightarrow> string option
    \<Rightarrow> twap_row list handler" where
  "twap_orders deployed us ids order ledger maker =
    (if \<not> deployed \<or> ids = None \<or> ids = Some [] then Inr []
     else hbind (lift_js ledger) (\<lambda>current.
       hbind (lift_js (js_all (twap_row_of us current) (List.map_filter order (the ids)))) (\<lambda>rows.
         Inr (filter (\<lambda>r. \<not> truthy maker \<or> tw_row_maker r = the maker) rows))))"

definition cancel_twap :: "twap_env \<Rightarrow> jv \<Rightarrow> jv \<Rightarrow> tx handler" where
  "cancel_twap env source order_id =
    hbind (guard (te_contract env \<noteq> []) ''TWAP not deployed'') (\<lambda>_.
    hbind (parse_stellar_account source ''sourceAddress'') (\<lambda>s.
    hbind (parse_order_id order_id) (\<lambda>n.
      build_tx (te_sdk env) (ContractCall s (te_contract env) ''cancel_twap'' [ScvU64 n]))))"

section \<open>What the parameters become\<close>

lemma rnd_between:
  assumes "of_int a \<le> x" "x \<le> of_int b" "\<bar>a\<bar> \<le> 2 ^ 53" "\<bar>b\<bar> \<le> 2 ^ 53"
  obtains y where "rnd x = Fin y" "of_int a \<le> y" "y \<le> of_int b"
proof -
  have "Fin (of_int a) \<le> rnd x" "rnd x \<le> Fin (of_int b)"
    using rnd_mono [OF assms(1)] rnd_mono [OF assms(2)] rnd_of_int [OF assms(3)] rnd_of_int [OF assms(4)] by simp_all
  then show ?thesis by (cases "rnd x") (auto intro: that)
qed

lemma num_round_between:
  assumes "of_int a \<le> y" "y \<le> of_int b" "\<bar>a\<bar> \<le> 2 ^ 53" "\<bar>b\<bar> \<le> 2 ^ 53"
  obtains k where "num_round (Fin y) = Fin (of_int k)" "a \<le> k" "k \<le> b"
proof -
  let ?k = "\<lfloor>y + 1 / 2\<rfloor>"
  have "a \<le> ?k" using assms(1) by (simp add: le_floor_iff)
  moreover have "?k \<le> b" using assms(2) by (simp add: floor_le_iff)
  moreover have "\<bar>?k\<bar> \<le> 2 ^ 53" using calculation assms(3,4) by linarith
  ultimately show ?thesis by (intro that [of ?k]) (simp_all add: num_round_def rnd_of_int)
qed

lemma num_betweenE:
  assumes "num_between (Fin lo) (Fin hi) n"
  obtains q where "n = Fin q" "lo \<le> q" "q \<le> hi"
  using assms by (cases n) (auto simp: num_between_def is_finite_def not_less)

lemma num_int_of_int [simp]: "num_int (Fin (of_int k)) = Some k"
  by (simp add: num_int_def)

lemma slice_cap_bounds:
  assumes "parse_slice_cap v amount = Inr cap" "0 < amount"
  shows "1 \<le> cap" "cap \<le> amount"
proof -
  let ?pct = "num_of_jv (nullish v (JNum (Fin 10)))"
  from assms(1) have nb: "num_between (Fin 1) (Fin 100) ?pct"
    by (simp add: parse_slice_cap_def Let_def split: if_split_asm)
  then obtain q where q: "?pct = Fin q" "1 \<le> q" "q \<le> 100" by (rule num_betweenE)
  have q': "of_int 100 \<le> q * 100" "q * 100 \<le> of_int 10000" using q by simp_all
  obtain y where y: "rnd (q * 100) = Fin y" "of_int 100 \<le> y" "y \<le> of_int 10000"
    using rnd_between [OF q'] by auto
  obtain p where p: "num_round (Fin y) = Fin (of_int p)" "100 \<le> p" "p \<le> 10000"
    using num_round_between [OF y(2,3)] by auto
  have "big_of_num (num_round (num_mul ?pct (Fin 100))) = Inr p" by (simp add: q(1) y(1) p(1) big_of_num_def)
  with assms(1) nb have cap: "cap = tdiv (amount * p + 9999) 10000"
    by (simp add: parse_slice_cap_def Let_def lift_js_def)
  have ap: "100 \<le> amount * p" using mult_mono [of 1 amount 100 p] assms(2) p by simp
  have ap': "amount * p \<le> amount * 10000" using assms(2) p by (intro mult_left_mono) auto
  have "cap = (amount * p + 9999) div 10000" using ap by (simp add: cap tdiv_nonneg)
  then show "1 \<le> cap" "cap \<le> amount" using ap ap' by linarith+
qed

lemma gap_bounds:
  assumes "parse_gap v = Inr gap" "int_arg gap = Inr g"
  shows "1 \<le> g \<and> g \<le> 17280"
proof -
  let ?g = "num_of_jv (nullish v (JNum (Fin 60)))"
  from assms(1) have nb: "num_between (Fin 5) (Fin 86400) ?g"
    by (simp add: parse_gap_def Let_def ledger_seconds_def split: if_split_asm)
  then obtain q where q: "?g = Fin q" "5 \<le> q" "q \<le> 86400" by (rule num_betweenE)
  have q': "of_int 1 \<le> q / 5" "q / 5 \<le> of_int 17280" using q by simp_all
  obtain y where y: "rnd (q / 5) = Fin y" "of_int 1 \<le> y" "y \<le> of_int 17280"
    using rnd_between [OF q'] by auto
  obtain k where k: "num_round (Fin y) = Fin (of_int k)" "1 \<le> k" "k \<le> 17280"
    using num_round_between [OF y(2,3)] by auto
  have "num_round (num_div ?g (Fin (of_int ledger_seconds))) = Fin (of_int k)"
    by (simp add: q(1) y(1) k(1) ledger_seconds_def)
  with assms(1) nb have "gap = num_max (Fin 1) (Fin (of_int k))"
    by (simp add: parse_gap_def Let_def ledger_seconds_def)
  then have "gap = Fin (of_int k)" using k(2) by (auto simp: num_max_def)
  with assms(2) k show ?thesis by (simp add: int_arg_def)
qed

lemma pace_bounds: "parse_pace v = Inr n \<Longrightarrow> 0 \<le> n \<and> n \<le> 5000"
  by (auto simp: parse_pace_def split: option.splits if_split_asm)

lemma limit_bounds:
  assumes "parse_limit v = Inr (n, d)"
  shows "0 \<le> n" "n = 0 \<and> d = 0 \<or> d = 10000000"
proof -
  have *: "0 \<le> n \<and> (n = 0 \<and> d = 0 \<or> d = 10000000)"
  proof (cases "v = JUndef \<or> v = JNull \<or> v = JStr []")
    case False
    with assms have fin: "is_finite (num_of_jv v)" "\<not> num_le (num_of_jv v) (Fin 0)"
      and n: "big_of_num (num_round (num_mul (num_of_jv v) (Fin 10000000))) = Inr n" "d = 10000000"
      by (auto simp: parse_limit_def Let_def hbind_Inr lift_js_Inr split: if_split_asm)
    from fin obtain q where q: "num_of_jv v = Fin q" "0 < q"
      by (cases "num_of_jv v") (auto simp: is_finite_def num_le_def)
    have "\<lfloor>1 / 2 :: rat\<rfloor> = 0" by (simp add: floor_eq_iff)
    then have zero: "num_round (Fin 0) = Fin 0" by (simp add: num_round_def)
    have "rnd 0 \<le> rnd (q * 10000000)" using q(2) by (intro rnd_mono) simp
    then have "Fin 0 \<le> rnd (q * 10000000)" by simp
    then have "Fin 0 \<le> num_round (rnd (q * 10000000))"
      using num_round_mono [of "Fin 0" "rnd (q * 10000000)"] zero by simp
    moreover from n(1) obtain k where "num_round (rnd (q * 10000000)) = Fin (of_int n)"
      by (auto simp: q(1) big_of_num_def num_int_def split: option.splits num.splits if_split_asm)
    ultimately show ?thesis using n(2) by simp
  qed (use assms in \<open>auto simp: parse_limit_def\<close>)
  then show "0 \<le> n" "n = 0 \<and> d = 0 \<or> d = 10000000" by auto
qed

lemma end_ledger_bounds:
  assumes "parse_duration v = Inr m" "0 \<le> ledger" "ledger < 2 ^ 32" "int_arg (end_ledger ledger m) = Inr e"
  shows "ledger + 60 \<le> e \<and> e \<le> ledger + 518400"
proof -
  from assms(1) have "num_between (Fin 5) (Fin 43200) m"
    by (simp add: parse_duration_def Let_def split: if_split_asm)
  then obtain q where q: "m = Fin q" "5 \<le> q" "q \<le> 43200" by (rule num_betweenE)
  have q': "of_int 300 \<le> q * 60" "q * 60 \<le> of_int 2592000" using q by simp_all
  obtain y where y: "rnd (q * 60) = Fin y" "of_int 300 \<le> y" "y \<le> of_int 2592000"
    using rnd_between [OF q'] by auto
  have y': "of_int 60 \<le> y / 5" "y / 5 \<le> of_int 518400" using y by simp_all
  obtain z where z: "rnd (y / 5) = Fin z" "of_int 60 \<le> z" "z \<le> of_int 518400"
    using rnd_between [OF y'] by auto
  have c: "60 \<le> \<lceil>z\<rceil>" "\<lceil>z\<rceil> \<le> 518400" using z(2,3) by (simp_all add: le_ceiling_iff ceiling_le_iff)
  have "num_of_big ledger = Fin (of_int ledger)" using assms(2,3) by (intro num_of_big_small) auto
  then have "end_ledger ledger m = rnd (of_int (ledger + \<lceil>z\<rceil>))"
    by (simp add: end_ledger_def q(1) y(1) z(1) num_ceil_def ledger_seconds_def)
  also have "\<dots> = Fin (of_int (ledger + \<lceil>z\<rceil>))"
  proof (rule rnd_of_int)
    from assms(3) have "ledger < 4294967296" by simp
    with assms(2) c have "0 \<le> ledger + \<lceil>z\<rceil>" "ledger + \<lceil>z\<rceil> \<le> 9007199254740992" by linarith+
    then show "\<bar>ledger + \<lceil>z\<rceil>\<bar> \<le> 2 ^ 53" by simp
  qed
  finally have "end_ledger ledger m = Fin (of_int (ledger + \<lceil>z\<rceil>))" .
  with assms(4) have "e = ledger + \<lceil>z\<rceil>" unfolding int_arg_def by (simp only: num_int_of_int option.case sum.inject)
  with c show ?thesis by simp
qed

text \<open>The parameters of a built order, one by one.\<close>

lemma twap_build_parsed:
  assumes "twap_build env b = Inr (t, p)"
  obtains ledger minutes gap where
    "parse_stellar_account (tb_source b) ''sourceAddress'' = Inr (tp_source p)" "\<not> te_blocked env (tp_source p)"
    "tp_in p \<in> set (map at_sac (te_universe env))" "tp_out p \<in> set (map at_sac (te_universe env))"
    "parse_amount (tb_amount b) ''amountIn'' = Inr (tp_amount p)" "parse_duration (tb_minutes b) = Inr minutes"
    "parse_limit (tb_limit b) = Inr (tp_limit_num p, tp_limit_den p)"
    "(if tp_limit_num p > 0 then Inr 0 else parse_slippage_bps (tb_slip b) 50) = Inr (tp_slip p)"
    "parse_slice_cap (tb_slice_pct b) (tp_amount p) = Inr (tp_max_slice p)" "parse_gap (tb_gap b) = Inr gap"
    "parse_pace (tb_pace b) = Inr (tp_pace p)" "te_ledger env = Inr ledger"
    "int_arg (end_ledger ledger minutes) = Inr (tp_end p)" "int_arg gap = Inr (tp_gap p)"
    "t = place_twap (te_contract env) p"
  using assms unfolding twap_build_def
  by (auto simp: hbind_Inr Let_def build_tx_Inr lift_js_Inr assert_not_blocked_def split: if_split_asm intro: that)

text \<open>
  C9. Every TWAP order the server builds is for a screened account and two listed tokens, its window
  is between five minutes and thirty days of ledgers, the per-slice cap is at least one unit and at
  most the whole amount, gap and pace are in range, and it has either a price floor or a slippage
  bound, never both.
\<close>

theorem twap_build_valid:
  assumes "twap_build env b = Inr (t, p)" and "te_ledger env = Inr ledger" "0 \<le> ledger" "ledger < 2 ^ 32"
  shows "t = place_twap (te_contract env) p \<and> \<not> te_blocked env (tp_source p) \<and> strkey (CHR ''G'') (tp_source p) \<and>
    tp_in p \<in> set (map at_sac (te_universe env)) \<and> tp_out p \<in> set (map at_sac (te_universe env)) \<and>
    0 < tp_amount p \<and> 1 \<le> tp_max_slice p \<and> tp_max_slice p \<le> tp_amount p \<and>
    ledger + 60 \<le> tp_end p \<and> tp_end p \<le> ledger + 518400 \<and> 1 \<le> tp_gap p \<and> tp_gap p \<le> 17280 \<and>
    0 \<le> tp_pace p \<and> tp_pace p \<le> 5000 \<and>
    (0 < tp_limit_num p \<and> tp_limit_den p = 10000000 \<and> tp_slip p = 0 \<or>
     tp_limit_num p = 0 \<and> 1 \<le> tp_slip p \<and> tp_slip p \<le> 1000)"
proof -
  from assms(1) obtain l minutes gap where
    p: "parse_stellar_account (tb_source b) ''sourceAddress'' = Inr (tp_source p)" "\<not> te_blocked env (tp_source p)"
      "tp_in p \<in> set (map at_sac (te_universe env))" "tp_out p \<in> set (map at_sac (te_universe env))"
      "parse_amount (tb_amount b) ''amountIn'' = Inr (tp_amount p)" "parse_duration (tb_minutes b) = Inr minutes"
      "parse_limit (tb_limit b) = Inr (tp_limit_num p, tp_limit_den p)"
      "(if tp_limit_num p > 0 then Inr 0 else parse_slippage_bps (tb_slip b) 50) = Inr (tp_slip p)"
      "parse_slice_cap (tb_slice_pct b) (tp_amount p) = Inr (tp_max_slice p)" "parse_gap (tb_gap b) = Inr gap"
      "parse_pace (tb_pace b) = Inr (tp_pace p)" "te_ledger env = Inr l"
      "int_arg (end_ledger l minutes) = Inr (tp_end p)" "int_arg gap = Inr (tp_gap p)"
      "t = place_twap (te_contract env) p" by (rule twap_build_parsed)
  from p(12) assms(2) have l: "l = ledger" by simp
  have amt: "0 < tp_amount p" using parse_amount_bounds [OF p(5)] by simp
  note lim = limit_bounds [OF p(7)]
  have slip: "0 < tp_limit_num p \<and> tp_limit_den p = 10000000 \<and> tp_slip p = 0 \<or>
     tp_limit_num p = 0 \<and> 1 \<le> tp_slip p \<and> tp_slip p \<le> 1000"
  proof (cases "0 < tp_limit_num p")
    case True
    with p(8) lim show ?thesis by simp
  next
    case False
    with p(8) have "parse_slippage_bps (tb_slip b) 50 = Inr (tp_slip p)" by simp
    with False lim(1) show ?thesis using parse_slippage_bounds [of "tb_slip b" 50 "tp_slip p"] by simp
  qed
  show ?thesis
    using p(1-4,15) amt slip slice_cap_bounds [OF p(9) amt] gap_bounds [OF p(10,14)] pace_bounds [OF p(11)]
      end_ledger_bounds [OF p(6) assms(3,4) p(13) [unfolded l]] parse_account_ok [OF p(1)]
    by (intro conjI) simp_all
qed

section \<open>The price floor and the decimals\<close>

lemma one_string: "num_of_string ''1'' = Fin 1"
  by (simp add: num_of_string_def trim_def is_space_def prefixed_def signed_def dec_num_def dec_literal_def exponent_def
      is_digit_def digits_val_def digit_val_def infinity_text_def)

lemma num_round_int: "\<bar>k\<bar> \<le> 2 ^ 53 \<Longrightarrow> num_round (Fin (of_int k)) = Fin (of_int k)"
proof -
  assume k: "\<bar>k\<bar> \<le> 2 ^ 53"
  have "\<lfloor>of_int k + 1 / 2 :: rat\<rfloor> = k" by (simp add: floor_eq_iff)
  with rnd_of_int [OF k] show ?thesis by (simp add: num_round_def)
qed

lemma limit_one: "parse_limit (JStr ''1'') = Inr (10000000, 10000000)"
  using num_round_int [of 10000000] num_int_of_int [of 10000000]
  by (simp add: parse_limit_def one_string is_finite_def num_le_def rnd_numeral big_of_num_def lift_js_def)


section \<open>At a concrete input\<close>

definition demo_listed :: "string \<Rightarrow> int \<Rightarrow> agg_token" where
  "demo_listed sac d = \<lparr>at_symbol = sac, at_name = sac, at_issuer = [], at_sac = sac, at_decimals = d, at_home = None,
     at_live = True, at_source = FromSushi, at_verified = False, at_dup = False, at_volume = Fin 0\<rparr>"

definition demo_twap_env :: twap_env where
  "demo_twap_env = \<lparr>te_tokens = tokens, te_universe = [demo_listed ''CA'' 7, demo_listed ''CB'' 18], te_blocked = (\<lambda>_. False),
     te_ledger = Inr 1000, te_contract = ''TWAP'', te_sdk = (\<lambda>_. Inr ())\<rparr>"

definition demo_twap_body :: twap_body where
  "demo_twap_body = \<lparr>tb_source = JStr demo_account, tb_in = JStr ''CA'', tb_out = JStr ''CB'', tb_amount = JStr ''700'',
     tb_minutes = JNum (Fin 30), tb_limit = JStr ''1'', tb_slip = JUndef, tb_slice_pct = JUndef, tb_gap = JUndef, tb_pace = JUndef\<rparr>"

lemma demo_params:
  "parse_stellar_account (JStr demo_account) ''sourceAddress'' = Inr demo_account"
  "parse_amount (JStr ''700'') ''amountIn'' = Inr 700"
  by code_simp+

lemma demo_listed_fields [simp]: "at_sac (demo_listed s d) = s" "at_symbol (demo_listed s d) = s" "at_decimals (demo_listed s d) = d"
  by (simp_all add: demo_listed_def)

lemma demo_resolved:
  "resolve_token_param tokens [demo_listed ''CA'' 7, demo_listed ''CB'' 18] (JStr ''CA'') ''tokenIn'' = Inr ''CA''"
  "resolve_token_param tokens [demo_listed ''CA'' 7, demo_listed ''CB'' 18] (JStr ''CB'') ''tokenOut'' = Inr ''CB''"
proof -
  have u: "to_upper ''CA'' = ''CA''" "to_upper ''CB'' = ''CB''" by code_simp+
  have "isl (resolve_sac_address tokens ''CA'')" "isl (resolve_sac_address tokens ''CB'')" by code_simp+
  then obtain e e' where e: "resolve_sac_address tokens ''CA'' = Inl e" "resolve_sac_address tokens ''CB'' = Inl e'"
    by (auto simp: isl_def)
  show "resolve_token_param tokens [demo_listed ''CA'' 7, demo_listed ''CB'' 18] (JStr ''CA'') ''tokenIn'' = Inr ''CA''"
    "resolve_token_param tokens [demo_listed ''CA'' 7, demo_listed ''CB'' 18] (JStr ''CB'') ''tokenOut'' = Inr ''CB''"
    by (simp_all add: resolve_token_param_def e u)
qed

lemma demo_numbers:
  "parse_duration (JNum (Fin 30)) = Inr (Fin 30)"
  "parse_slice_cap JUndef 700 = Inr 70"
  "parse_gap JUndef = Inr (Fin 12)"
  "parse_pace JUndef = Inr 500"
  "end_ledger 1000 (Fin 30) = Fin 1360"
proof -
  have round: "num_round (Fin 1000) = Fin 1000" "num_round (Fin 12) = Fin 12"
    using num_round_int [of 1000] num_round_int [of 12] by simp_all
  show "parse_duration (JNum (Fin 30)) = Inr (Fin 30)"
    by (simp add: parse_duration_def num_between_def is_finite_def)
  show "parse_slice_cap JUndef 700 = Inr 70"
    using num_int_of_int [of 1000]
    by (simp add: parse_slice_cap_def nullish_def num_between_def is_finite_def rnd_numeral round big_of_num_def
        lift_js_def tdiv_def)
  show "parse_gap JUndef = Inr (Fin 12)"
    by (simp add: parse_gap_def nullish_def num_between_def is_finite_def ledger_seconds_def rnd_numeral round num_max_def)
  show "parse_pace JUndef = Inr 500"
    using num_int_of_int [of 500] by (simp add: parse_pace_def nullish_def)
  show "end_ledger 1000 (Fin 30) = Fin 1360"
    by (simp add: end_ledger_def rnd_numeral num_of_big_small num_ceil_def ledger_seconds_def)
qed

lemma demo_twap_built: "\<exists>t p. twap_build demo_twap_env demo_twap_body = Inr (t, p) \<and> tp_end p = 1360 \<and> tp_in p = ''CA''"
proof -
  have "num_int (Fin 1360) = Some 1360" "num_int (Fin 12) = Some 12"
    using num_int_of_int [of 1360] num_int_of_int [of 12] by simp_all
  then show ?thesis
    by (simp add: twap_build_def demo_twap_env_def demo_twap_body_def demo_params demo_resolved demo_numbers limit_one guard_def
        assert_not_blocked_def lift_js_def int_arg_def build_tx_def Let_def)
qed

theorem twap_build_valid_witness:
  "\<exists>t p. twap_build demo_twap_env demo_twap_body = Inr (t, p) \<and> tp_end p = 1360 \<and> 1000 + 60 \<le> tp_end p \<and> tp_max_slice p \<le> tp_amount p"
proof -
  obtain t p where p: "twap_build demo_twap_env demo_twap_body = Inr (t, p)" "tp_end p = 1360"
    using demo_twap_built by blast
  have "te_ledger demo_twap_env = Inr 1000" by (simp add: demo_twap_env_def)
  from twap_build_valid [OF p(1) this] p show ?thesis by auto
qed


end
