(* ===== verification/Venues.thy ===== *)
theory Venues
  imports Discovery QuoteCurve SwapBuild Keeper
begin

text \<open>
  The venue adapters of \<open>backend/src/venues/\<close>: SwapBook, Aqua, Sushi, Curve, the classic
  exchange, and their registry. A simulation of a contract is an argument that answers a number or
  nothing; the quote cache of the adapters that use one is a parameter threaded through their calls.
  Each adapter gives a \<open>venue\<close>
  of the engine.

  Theorems: what a quote of the two cached adapters can be; that the Sushi spot price is the curve
  the cache's interpolation is safe for (the interpretation of \<open>concave_curve\<close>); that a failing
  level of the classic exchange is reported with the output of the level before; that the display
  strings of the classic exchange read back.
\<close>

section \<open>Quotes\<close>

record quote =
  qt_venue :: string
  qt_in :: string
  qt_out :: string
  qt_amount_in :: int
  qt_amount_out :: int
  qt_bps :: num
  qt_gas :: int

definition cost_of_swap :: "int \<Rightarrow> int \<Rightarrow> num \<Rightarrow> num" where
  "cost_of_swap amount_in amount_out d =
    (if amount_in > 0 \<and> amount_out > 0 then num_of_big (tdiv ((amount_in - amount_out) * 10000) amount_in) else d)"

definition quote_of :: "string \<Rightarrow> string \<Rightarrow> string \<Rightarrow> int \<Rightarrow> int \<Rightarrow> int \<Rightarrow> quote" where
  "quote_of nm tin tout amount out gas =
    \<lparr>qt_venue = nm, qt_in = tin, qt_out = tout, qt_amount_in = amount, qt_amount_out = out,
     qt_bps = cost_of_swap amount out (Fin 9999), qt_gas = gas\<rparr>"

definition depth_of :: "int \<Rightarrow> int \<Rightarrow> depth_quote" where
  "depth_of amount out = \<lparr>dq_in = amount, dq_out = out, dq_marginal = cost_of_swap amount out PInf\<rparr>"

definition swap_instruction_of :: "string \<Rightarrow> int \<Rightarrow> int \<Rightarrow> int \<Rightarrow> swap_instruction" where
  "swap_instruction_of contract vid amount min_out =
    \<lparr>si_contract = contract, si_venue = vid, si_in = amount, si_min_out = min_out\<rparr>"

text \<open>\<open>simulateAndParse\<close> of a number: \<open>None\<close> is a failed simulation; the code reads both
  that and 0 as \<open>0n\<close>.\<close>

type_synonym num_sim = "string \<Rightarrow> string \<Rightarrow> scval list \<Rightarrow> int option"

section \<open>SwapBook\<close>

definition quote_fill :: "(string \<Rightarrow> string \<Rightarrow> scval list \<Rightarrow> (int \<times> int) option) \<Rightarrow> string \<Rightarrow> string \<Rightarrow> string \<Rightarrow> int \<Rightarrow> int \<times> int" where
  "quote_fill sim book tin tout amount =
    (case sim book ''quote_fill'' [ScvAddress tout, ScvAddress tin, ScvI128 amount] of None \<Rightarrow> (0, 0) | Some r \<Rightarrow> r)"

definition swapbook_quote :: "(string \<Rightarrow> string \<Rightarrow> scval list \<Rightarrow> (int \<times> int) option) \<Rightarrow> string \<Rightarrow> string \<Rightarrow> string \<Rightarrow> int \<Rightarrow> quote" where
  "swapbook_quote sim book tin tout amount =
    (case quote_fill sim book tin tout amount of (bought, paid) \<Rightarrow> quote_of ''SwapBook'' tin tout paid bought 100)"

definition swapbook_level :: "(string \<Rightarrow> string \<Rightarrow> scval list \<Rightarrow> (int \<times> int) option) \<Rightarrow> string \<Rightarrow> string \<Rightarrow> string \<Rightarrow> int \<Rightarrow> depth_quote js" where
  "swapbook_level sim book tin tout amount =
    (let bought = fst (quote_fill sim book tin tout amount)
     in if bought = 0 then Inr \<lparr>dq_in = amount, dq_out = 0, dq_marginal = PInf\<rparr>
        else js_bind (big_div ((amount - bought) * 10000) amount) (\<lambda>q.
          Inr \<lparr>dq_in = amount, dq_out = bought, dq_marginal = num_of_big q\<rparr>))"

definition swapbook_venue :: "(string \<Rightarrow> string \<Rightarrow> scval list \<Rightarrow> (int \<times> int) option) \<Rightarrow> string \<Rightarrow> venue" where
  "swapbook_venue sim book =
    \<lparr>v_name = ''SwapBook'', v_id = 0, v_executable = False,
     v_depth = (\<lambda>tin tout. js_all (swapbook_level sim book tin tout)),
     v_build = (\<lambda>tin tout a m. Inr (swap_instruction_of book 0 a m))\<rparr>"

section \<open>Cached sampling\<close>

text \<open>A call of the quote cache whose sampler settles before the next call: what it answers and the
  cache after it. An amount in flight is waited for, and answers 0 here: it does not occur
  between such calls.\<close>

definition cache_quote :: "int \<Rightarrow> int \<Rightarrow> string \<Rightarrow> int \<Rightarrow> (int \<Rightarrow> int option) \<Rightarrow> curve_cache \<Rightarrow> int \<times> curve_cache" where
  "cache_quote ttl now key a sample c =
    (case quote_start ttl now key a c of
       (Answer v, c') \<Rightarrow> (v, c')
     | (Join, c') \<Rightarrow> (0, c')
     | (Sample, c') \<Rightarrow> flight_done ttl now key a (sample a) c')"

text \<open>Through the cache when there is one, else the sample itself.\<close>

definition through_cache :: "(string \<Rightarrow> int \<Rightarrow> (int \<Rightarrow> int option) \<Rightarrow> 'c \<Rightarrow> int \<times> 'c) option \<Rightarrow> string \<Rightarrow> (int \<Rightarrow> int) \<Rightarrow> int \<Rightarrow> 'c \<Rightarrow> int \<times> 'c" where
  "through_cache cached key sim a c =
    (case cached of Some q \<Rightarrow> q key a (\<lambda>x. Some (sim x)) c | None \<Rightarrow> (sim a, c))"

text \<open>The first pool with a positive answer; the callers' fallback is \<open>last_resort\<close>.\<close>

fun first_positive :: "('p \<Rightarrow> 'c \<Rightarrow> int \<times> 'c) \<Rightarrow> 'p list \<Rightarrow> 'c \<Rightarrow> int option \<times> 'c" where
  "first_positive q [] c = (None, c)"
| "first_positive q (p # ps) c =
    (case q p c of (v, c') \<Rightarrow> if v > 0 then (Some v, c') else first_positive q ps c')"

definition index_of :: "string \<Rightarrow> string list \<Rightarrow> nat option" where
  "index_of x xs = (let i = length (takeWhile (\<lambda>y. y \<noteq> x) xs) in if i < length xs then Some i else None)"

section \<open>Aqua\<close>

definition aqua_pools_for :: "aqua_listed list \<Rightarrow> aqua_listed list" where
  "aqua_pools_for ps =
    take 2 (js_sort (\<lambda>a b. num_lt (Fin 0) (num_sub (num_or0 (ap_volume b)) (num_or0 (ap_volume a))))
      (filter (\<lambda>p. 2 \<le> length (ap_tokens p)) ps))"

definition simulate_estimate :: "num_sim \<Rightarrow> string \<Rightarrow> nat \<Rightarrow> nat \<Rightarrow> int \<Rightarrow> int" where
  "simulate_estimate sim pool i j amount =
    or0 (sim pool ''estimate_swap'' [ScvU32 (int i), ScvU32 (int j), ScvOther (big_string amount)])"

definition pool_key :: "string \<Rightarrow> string \<Rightarrow> nat \<Rightarrow> nat \<Rightarrow> string" where
  "pool_key venue pool i j = venue @ ''|'' @ pool @ ''|'' @ big_string (int i) @ ''>'' @ big_string (int j)"

definition aqua_pool_quote :: "num_sim \<Rightarrow> (string \<Rightarrow> int \<Rightarrow> (int \<Rightarrow> int option) \<Rightarrow> 'c \<Rightarrow> int \<times> 'c) option
    \<Rightarrow> string \<Rightarrow> string \<Rightarrow> int \<Rightarrow> aqua_listed \<Rightarrow> 'c \<Rightarrow> int \<times> 'c" where
  "aqua_pool_quote sim cached tin tout amount p c =
    (case (index_of tin (ap_tokens p), index_of tout (ap_tokens p)) of
       (Some i, Some j) \<Rightarrow> through_cache cached (pool_key ''aqua'' (ap_address p) i j) (simulate_estimate sim (ap_address p) i j) amount c
     | _ \<Rightarrow> (0, c))"

definition adapter_quote :: "num_sim \<Rightarrow> string \<Rightarrow> string \<Rightarrow> string \<Rightarrow> int \<Rightarrow> int" where
  "adapter_quote sim adapter tin tout amount =
    or0 (sim adapter ''quote'' [ScvAddress tin, ScvAddress tout, ScvI128 amount])"

definition aqua_fetch :: "num_sim \<Rightarrow> (string \<Rightarrow> int \<Rightarrow> (int \<Rightarrow> int option) \<Rightarrow> 'c \<Rightarrow> int \<times> 'c) option \<Rightarrow> string
    \<Rightarrow> (string \<Rightarrow> string \<Rightarrow> aqua_listed list) \<Rightarrow> string \<Rightarrow> string \<Rightarrow> int \<Rightarrow> 'c \<Rightarrow> int \<times> 'c" where
  "aqua_fetch sim cached adapter provider tin tout amount c =
    (case first_positive (aqua_pool_quote sim cached tin tout amount) (aqua_pools_for (provider tin tout)) c of
       (Some v, c') \<Rightarrow> (v, c')
     | (None, c') \<Rightarrow> (adapter_quote sim adapter tin tout amount, c'))"

text \<open>\<open>Promise.all(amounts.map(fetchQuote))\<close>. The levels are fetched at the same time, so what
  one finds in the cache depends on how far the others are. \<open>'c\<close> and the cached quote that
  threads it are parameters for that reason: a state that lists the answers of a run gives any
  interleaving, \<open>cache_quote\<close> the one in which each level settles before the next.\<close>

fun ladder :: "(int \<Rightarrow> 'c \<Rightarrow> int \<times> 'c) \<Rightarrow> int list \<Rightarrow> 'c \<Rightarrow> depth_quote list \<times> 'c" where
  "ladder fetch [] c = ([], c)"
| "ladder fetch (a # as) c =
    (case fetch a c of (v, c') \<Rightarrow> (case ladder fetch as c' of (ds, c'') \<Rightarrow> (depth_of a v # ds, c'')))"

definition aqua_quote :: "(int \<Rightarrow> 'c \<Rightarrow> int \<times> 'c) \<Rightarrow> string \<Rightarrow> string \<Rightarrow> int \<Rightarrow> 'c \<Rightarrow> quote \<times> 'c" where
  "aqua_quote fetch tin tout amount c =
    (case fetch amount c of (v, c') \<Rightarrow> (quote_of ''Aqua'' tin tout amount v 200, c'))"

definition aqua_available :: "bool js \<Rightarrow> bool" where
  "aqua_available response = js_catch response True"

section \<open>Curve\<close>

definition curve_venue_id :: int where "curve_venue_id = 4"

definition pool_depth_for :: "string \<Rightarrow> string \<Rightarrow> curve_pool \<Rightarrow> int" where
  "pool_depth_for tin tout p =
    (case (index_of tin (cp_coins p), index_of tout (cp_coins p)) of
       (Some i, Some j) \<Rightarrow>
         let bi = nth_or (cp_balances p) i 0; bj = nth_or (cp_balances p) j 0 in if bi < bj then bi else bj
     | _ \<Rightarrow> -1)"

definition rank_pools :: "string \<Rightarrow> string \<Rightarrow> curve_pool list \<Rightarrow> curve_pool list" where
  "rank_pools tin tout ps =
    js_sort (\<lambda>a b. pool_depth_for tin tout a < pool_depth_for tin tout b) (filter (\<lambda>p. 0 \<le> pool_depth_for tin tout p) ps)"

definition simulate_get_dy :: "num_sim \<Rightarrow> string \<Rightarrow> nat \<Rightarrow> nat \<Rightarrow> int \<Rightarrow> int" where
  "simulate_get_dy sim pool i j dx = or0 (sim pool ''get_dy'' [ScvU32 (int i), ScvU32 (int j), ScvI128 dx])"

definition curve_pool_quote :: "num_sim \<Rightarrow> (string \<Rightarrow> int \<Rightarrow> (int \<Rightarrow> int option) \<Rightarrow> 'c \<Rightarrow> int \<times> 'c) option
    \<Rightarrow> string \<Rightarrow> string \<Rightarrow> int \<Rightarrow> curve_pool \<Rightarrow> 'c \<Rightarrow> int \<times> 'c" where
  "curve_pool_quote sim cached tin tout amount p c =
    (case (index_of tin (cp_coins p), index_of tout (cp_coins p)) of
       (Some i, Some j) \<Rightarrow> through_cache cached (pool_key ''curve'' (cp_address p) i j) (simulate_get_dy sim (cp_address p) i j) amount c
     | _ \<Rightarrow> (0, c))"

definition curve_fetch :: "num_sim \<Rightarrow> (string \<Rightarrow> int \<Rightarrow> (int \<Rightarrow> int option) \<Rightarrow> 'c \<Rightarrow> int \<times> 'c) option \<Rightarrow> string
    \<Rightarrow> (string \<Rightarrow> string \<Rightarrow> curve_pool list) \<Rightarrow> string \<Rightarrow> string \<Rightarrow> int \<Rightarrow> 'c \<Rightarrow> int \<times> 'c" where
  "curve_fetch sim cached adapter provider tin tout amount c =
    (case first_positive (curve_pool_quote sim cached tin tout amount) (take 2 (rank_pools tin tout (provider tin tout))) c of
       (Some v, c') \<Rightarrow> (v, c')
     | (None, c') \<Rightarrow> ((if adapter = [] then 0 else adapter_quote sim adapter tin tout amount), c'))"

definition curve_quote :: "(int \<Rightarrow> 'c \<Rightarrow> int \<times> 'c) \<Rightarrow> string \<Rightarrow> string \<Rightarrow> int \<Rightarrow> 'c \<Rightarrow> quote \<times> 'c" where
  "curve_quote fetch tin tout amount c =
    (case fetch amount c of (v, c') \<Rightarrow> (quote_of ''Curve'' tin tout amount v 250, c'))"

definition curve_available :: "bool option \<Rightarrow> bool" where
  "curve_available any_pools = (case any_pools of Some b \<Rightarrow> b | None \<Rightarrow> True)"

text \<open>The engine's venue of a fetch on a given cache; the cache after the ladder is the second
  component of \<open>ladder\<close>.\<close>

definition fetch_venue :: "string \<Rightarrow> int \<Rightarrow> string \<Rightarrow> (string \<Rightarrow> string \<Rightarrow> int \<Rightarrow> 'c \<Rightarrow> int \<times> 'c) \<Rightarrow> 'c \<Rightarrow> venue" where
  "fetch_venue nm vid adapter fetch c =
    \<lparr>v_name = nm, v_id = vid, v_executable = True,
     v_depth = (\<lambda>tin tout amounts. Inr (fst (ladder (fetch tin tout) amounts c))),
     v_build = (\<lambda>tin tout a m. Inr (swap_instruction_of adapter vid a m))\<rparr>"

definition aqua_venue :: "num_sim \<Rightarrow> (string \<Rightarrow> int \<Rightarrow> (int \<Rightarrow> int option) \<Rightarrow> 'c \<Rightarrow> int \<times> 'c) option \<Rightarrow> string
    \<Rightarrow> (string \<Rightarrow> string \<Rightarrow> aqua_listed list) \<Rightarrow> 'c \<Rightarrow> venue" where
  "aqua_venue sim cached adapter provider = fetch_venue ''Aqua'' 1 adapter (aqua_fetch sim cached adapter provider)"

definition curve_venue :: "num_sim \<Rightarrow> (string \<Rightarrow> int \<Rightarrow> (int \<Rightarrow> int option) \<Rightarrow> 'c \<Rightarrow> int \<times> 'c) option \<Rightarrow> string
    \<Rightarrow> (string \<Rightarrow> string \<Rightarrow> curve_pool list) \<Rightarrow> 'c \<Rightarrow> venue" where
  "curve_venue sim cached adapter provider = fetch_venue ''Curve'' curve_venue_id adapter (curve_fetch sim cached adapter provider)"

section \<open>Sushi\<close>

definition q96 :: int where "q96 = 2 ^ 96"
definition fee_units :: int where "fee_units = 1000000"

text \<open>The merged pair table: the operator's pairs replace the discovered ones.\<close>

definition all_pairs :: "sushi_route list \<Rightarrow> sushi_route list \<Rightarrow> sushi_route list" where
  "all_pairs dynamic env = map snd (foldl (\<lambda>m p. jm_set (pair_key (sp_a p) (sp_b p)) p m) jm_empty (dynamic @ env))"

definition find_pair :: "sushi_route list \<Rightarrow> string \<Rightarrow> string \<Rightarrow> sushi_route option" where
  "find_pair ps tin tout = find (\<lambda>p. sp_a p = tin \<and> sp_b p = tout \<or> sp_a p = tout \<and> sp_b p = tin) ps"

definition decimals_for :: "sushi_route \<Rightarrow> string \<Rightarrow> int" where
  "decimals_for p t = (if t = sp_a p then sp_dec_a p else if t = sp_b p then sp_dec_b p else 7)"

text \<open>The two pool caches: \<open>token0\<close> for ever, \<open>slot0\<close> for \<open>SLOT0_TTL_MS\<close> and one
  simulation at a time. A pool state is its square-root price, when the answer has one.\<close>

definition slot0_ttl_ms :: int where "slot0_ttl_ms = 5000"

record sushi_state =
  su_token0 :: "(string, string) jmap"
  su_slot0 :: "(string, int option \<times> int) jmap"
  su_flight :: "(string, unit) jmap"

definition token0_of :: "(string \<Rightarrow> string option) \<Rightarrow> string \<Rightarrow> sushi_state \<Rightarrow> string option \<times> sushi_state" where
  "token0_of sim pool st =
    (case jm_get (su_token0 st) pool of
       Some t \<Rightarrow> (Some t, st)
     | None \<Rightarrow>
         (case sim pool of
            Some t \<Rightarrow> if t = [] then (None, st) else (Some t, st\<lparr>su_token0 := jm_set pool t (su_token0 st)\<rparr>)
          | None \<Rightarrow> (None, st)))"

datatype slot0_reply = SlotHit "int option" | SlotJoin | SlotSimulate

definition slot0_start :: "int \<Rightarrow> string \<Rightarrow> sushi_state \<Rightarrow> slot0_reply \<times> sushi_state" where
  "slot0_start now pool st =
    (case (case jm_get (su_slot0 st) pool of Some (v, ts) \<Rightarrow> if now - ts < slot0_ttl_ms then Some v else None | None \<Rightarrow> None) of
       Some v \<Rightarrow> (SlotHit v, st)
     | None \<Rightarrow>
         if jm_get (su_flight st) pool \<noteq> None then (SlotJoin, st)
         else (SlotSimulate, st\<lparr>su_flight := jm_set pool () (su_flight st)\<rparr>))"

definition slot0_done :: "int \<Rightarrow> string \<Rightarrow> int option option \<Rightarrow> sushi_state \<Rightarrow> int option option \<times> sushi_state" where
  "slot0_done now pool res st =
    (let st' = (case res of Some v \<Rightarrow> st\<lparr>su_slot0 := jm_set pool (v, now) (su_slot0 st)\<rparr> | None \<Rightarrow> st)
     in (res, st'\<lparr>su_flight := jm_delete pool (su_flight st')\<rparr>))"

text \<open>\<open>spotQuote\<close> on the state of the pair's pool.\<close>

definition spot_out :: "int \<Rightarrow> int \<Rightarrow> bool \<Rightarrow> int \<Rightarrow> int" where
  "spot_out fee p zero_in amount =
    (let keep = fee_units - fee
     in if zero_in then tdiv (amount * p * p * keep) (q96 * q96 * fee_units)
        else tdiv (amount * q96 * q96 * keep) (p * p * fee_units))"

definition spot_quote :: "sushi_route list \<Rightarrow> (string \<Rightarrow> int option option) \<Rightarrow> (string \<Rightarrow> string option) \<Rightarrow> string \<Rightarrow> string \<Rightarrow> int \<Rightarrow> int js" where
  "spot_quote pairs slot t0 tin tout amount =
    (case find_pair pairs tin tout of
       None \<Rightarrow> Inr 0
     | Some pair \<Rightarrow>
         (case (slot (sp_pool pair), t0 (sp_pool pair)) of
            (Some s, Some t) \<Rightarrow>
              let p = or0 s
              in if p = 0 then Inr 0
                 else js_bind (big_of_num (sp_fee pair)) (\<lambda>fee. Inr (spot_out fee p (tin = t) amount))
          | _ \<Rightarrow> Inr 0))"

definition sushi_quote :: "(int \<Rightarrow> int js) \<Rightarrow> string \<Rightarrow> string \<Rightarrow> int \<Rightarrow> quote js" where
  "sushi_quote spot tin tout amount = js_bind (spot amount) (\<lambda>out. Inr (quote_of ''SushiSwap'' tin tout amount out 300))"

definition haircut_unit :: "int \<Rightarrow> int js" where
  "haircut_unit decs = (if decs < 0 then Inl RangeError else Inr (10000 * 10 ^ nat decs))"

definition haircut :: "int \<Rightarrow> int \<Rightarrow> int \<Rightarrow> int" where
  "haircut unit amount out = (if out > 0 then out - tdiv (out * tdiv amount unit) 10000 else out)"

text \<open>The levels are quoted one after the other; \<open>spot k\<close> is the spot quote as the k-th
  level finds the pool.\<close>

fun sushi_levels :: "(nat \<Rightarrow> int \<Rightarrow> int js) \<Rightarrow> int \<Rightarrow> nat \<Rightarrow> int list \<Rightarrow> depth_quote list js" where
  "sushi_levels spot unit k [] = Inr []"
| "sushi_levels spot unit k (a # as) =
    js_bind (spot k a) (\<lambda>out. js_bind (sushi_levels spot unit (Suc k) as) (\<lambda>ds.
      Inr (depth_of a (haircut unit a out) # ds)))"

definition sushi_depth :: "sushi_route list \<Rightarrow> (nat \<Rightarrow> string \<Rightarrow> int option option) \<Rightarrow> (string \<Rightarrow> string option) \<Rightarrow> string \<Rightarrow> string
    \<Rightarrow> int list \<Rightarrow> depth_quote list js" where
  "sushi_depth pairs slot t0 tin tout amounts =
    js_bind (haircut_unit (case find_pair pairs tin tout of Some p \<Rightarrow> decimals_for p tin | None \<Rightarrow> 7)) (\<lambda>unit.
      sushi_levels (\<lambda>k. spot_quote pairs (slot k) t0 tin tout) unit 0 amounts)"

definition sushi_venue :: "sushi_route list \<Rightarrow> (nat \<Rightarrow> string \<Rightarrow> int option option) \<Rightarrow> (string \<Rightarrow> string option) \<Rightarrow> string \<Rightarrow> venue" where
  "sushi_venue pairs slot t0 adapter =
    \<lparr>v_name = ''SushiSwap'', v_id = 2, v_executable = True, v_depth = sushi_depth pairs slot t0,
     v_build = (\<lambda>tin tout a m. Inr (swap_instruction_of adapter 2 a m))\<rparr>"

section \<open>The classic exchange\<close>

datatype classic_asset = NativeAsset | CreditAsset string string

definition resolve_asset :: "token_config list \<Rightarrow> string \<Rightarrow> classic_asset option" where
  "resolve_asset ts s =
    (let upper = to_upper s
     in case find (\<lambda>t. tk_symbol t = upper \<and> tk_issuer t \<noteq> []) ts of
          Some t \<Rightarrow> Some (CreditAsset (tk_symbol t) (tk_issuer t))
        | None \<Rightarrow>
            (case find (\<lambda>t. tk_sac t = s \<and> tk_issuer t \<noteq> []) ts of
               Some t \<Rightarrow> Some (CreditAsset (tk_symbol t) (tk_issuer t))
             | None \<Rightarrow> if upper = ''XLM'' \<or> upper = ''NATIVE'' \<or> s = xlm_sac then Some NativeAsset else None))"

definition to_display_amount :: "int \<Rightarrow> string" where
  "to_display_amount base = big_string (tdiv base 10000000) @ ''.'' @ pad_start 7 (big_string (tmod base 10000000))"

definition from_display_amount :: "string \<Rightarrow> int js" where
  "from_display_amount s =
    (case split_point s of (whole, fr) \<Rightarrow> big_of_string (whole @ take 7 (pad_end 7 fr)))"

text \<open>The record whose amount reads as the largest number, a later one winning a tie.\<close>

fun best_path :: "string \<Rightarrow> string list \<Rightarrow> string" where
  "best_path b [] = b"
| "best_path b (r # rs) = best_path (if num_lt (parse_float r) (parse_float b) then b else r) rs"

text \<open>\<open>horizon\<close> answers the destination amounts of the paths it found for a source amount.\<close>

definition fetch_path_out :: "(string \<Rightarrow> string list js) \<Rightarrow> int \<Rightarrow> int js" where
  "fetch_path_out horizon amount =
    js_bind (horizon (to_display_amount amount)) (\<lambda>records.
      case records of [] \<Rightarrow> Inr 0 | r # rs \<Rightarrow> from_display_amount (best_path r rs))"

definition js_option :: "'a js \<Rightarrow> 'a option" where
  "js_option m = (case m of Inl _ \<Rightarrow> None | Inr x \<Rightarrow> Some x)"

definition quote_out :: "(string \<Rightarrow> int \<Rightarrow> (int \<Rightarrow> int option) \<Rightarrow> 'c \<Rightarrow> int \<times> 'c) option \<Rightarrow> (string \<Rightarrow> string list js)
    \<Rightarrow> string \<Rightarrow> string \<Rightarrow> int \<Rightarrow> 'c \<Rightarrow> int \<times> 'c" where
  "quote_out cached horizon tin tout amount c =
    (case cached of
       Some q \<Rightarrow> q (''sdex|'' @ tin @ ''|'' @ tout) amount (\<lambda>a. js_option (fetch_path_out horizon a)) c
     | None \<Rightarrow> (js_catch (fetch_path_out horizon amount) 0, c))"

definition empty_quote :: "string \<Rightarrow> string \<Rightarrow> int \<Rightarrow> quote" where
  "empty_quote tin tout amount =
    \<lparr>qt_venue = ''StellarDEX'', qt_in = tin, qt_out = tout, qt_amount_in = amount, qt_amount_out = 0, qt_bps = Fin 9999, qt_gas = 100\<rparr>"

definition sdex_adapter_quote :: "bool \<Rightarrow> (int \<Rightarrow> 'c \<Rightarrow> int \<times> 'c) \<Rightarrow> string \<Rightarrow> string \<Rightarrow> int \<Rightarrow> 'c \<Rightarrow> quote \<times> 'c" where
  "sdex_adapter_quote known out tin tout amount c =
    (if \<not> known then (empty_quote tin tout amount, c)
     else case out amount c of
            (v, c') \<Rightarrow> (if v \<le> 0 then empty_quote tin tout amount else quote_of ''StellarDEX'' tin tout amount v 100, c'))"

fun sdex_levels :: "(int \<Rightarrow> 'c \<Rightarrow> int \<times> 'c) \<Rightarrow> int option \<Rightarrow> int \<Rightarrow> int list \<Rightarrow> 'c \<Rightarrow> depth_quote list \<times> 'c" where
  "sdex_levels out prev_in prev_out [] c = ([], c)"
| "sdex_levels out prev_in prev_out (a # as) c =
    (case out a c of
       (v, c') \<Rightarrow>
         if v \<le> 0
         then (case sdex_levels out (Some a) prev_out as c' of
                 (ds, c'') \<Rightarrow> (\<lparr>dq_in = a, dq_out = prev_out, dq_marginal = PInf\<rparr> # ds, c''))
         else let marginal_out = v - prev_out;
                  marginal_in = (case prev_in of None \<Rightarrow> a | Some b \<Rightarrow> a - b)
              in (case sdex_levels out (Some a) v as c' of
                    (ds, c'') \<Rightarrow> (\<lparr>dq_in = a, dq_out = v, dq_marginal = cost_of_swap marginal_in marginal_out PInf\<rparr> # ds, c'')))"

definition sdex_depth :: "token_config list \<Rightarrow> (string \<Rightarrow> int \<Rightarrow> (int \<Rightarrow> int option) \<Rightarrow> 'c \<Rightarrow> int \<times> 'c) option
    \<Rightarrow> (classic_asset \<Rightarrow> classic_asset \<Rightarrow> string \<Rightarrow> string list js) \<Rightarrow> string \<Rightarrow> string \<Rightarrow> int list \<Rightarrow> 'c \<Rightarrow> depth_quote list \<times> 'c" where
  "sdex_depth ts cached horizon tin tout amounts c =
    (case (resolve_asset ts tin, resolve_asset ts tout) of
       (Some a, Some b) \<Rightarrow> sdex_levels (quote_out cached (horizon a b) tin tout) None 0 amounts c
     | _ \<Rightarrow> (map (\<lambda>x. \<lparr>dq_in = x, dq_out = 0, dq_marginal = PInf\<rparr>) amounts, c))"

definition sdex_venue :: "token_config list \<Rightarrow> (string \<Rightarrow> int \<Rightarrow> (int \<Rightarrow> int option) \<Rightarrow> 'c \<Rightarrow> int \<times> 'c) option
    \<Rightarrow> (classic_asset \<Rightarrow> classic_asset \<Rightarrow> string \<Rightarrow> string list js) \<Rightarrow> 'c \<Rightarrow> venue" where
  "sdex_venue ts cached horizon c =
    \<lparr>v_name = ''StellarDEX'', v_id = 3, v_executable = False,
     v_depth = (\<lambda>tin tout amounts. Inr (fst (sdex_depth ts cached horizon tin tout amounts c))),
     v_build = (\<lambda>tin tout a m. Inr (swap_instruction_of ''SDEX'' 3 a m))\<rparr>"

section \<open>The registry\<close>

record registry =
  vr_venues :: "(int, venue) jmap"
  vr_memo :: "(int \<times> venue list) option"
  vr_flight :: bool

definition availability_ttl_ms :: int where "availability_ttl_ms = 30000"

definition registry_init :: registry where
  "registry_init = \<lparr>vr_venues = jm_empty, vr_memo = None, vr_flight = False\<rparr>"

definition register_venue :: "venue \<Rightarrow> registry \<Rightarrow> registry" where
  "register_venue v r = r\<lparr>vr_venues := jm_set (v_id v) v (vr_venues r)\<rparr>"

definition get_venue :: "registry \<Rightarrow> int \<Rightarrow> venue option" where
  "get_venue r i = jm_get (vr_venues r) i"

definition get_all :: "registry \<Rightarrow> venue list" where
  "get_all r = map snd (vr_venues r)"

datatype available_reply = Memoized "venue list" | JoinCheck | StartCheck

definition available_start :: "int \<Rightarrow> registry \<Rightarrow> available_reply \<times> registry" where
  "available_start now r =
    (case (case vr_memo r of Some (ts, vs) \<Rightarrow> if now - ts < availability_ttl_ms then Some vs else None | None \<Rightarrow> None) of
       Some vs \<Rightarrow> (Memoized vs, r)
     | None \<Rightarrow> if vr_flight r then (JoinCheck, r) else (StartCheck, r\<lparr>vr_flight := True\<rparr>))"

text \<open>The checks of the venues registered at the start settled; a rejected check is unavailable.\<close>

definition available_done :: "int \<Rightarrow> (venue \<times> bool js) list \<Rightarrow> registry \<Rightarrow> venue list \<times> registry" where
  "available_done now checks r =
    (let vs = map fst (filter (\<lambda>(v, m). js_catch m False) checks)
     in (vs, r\<lparr>vr_memo := (if vs \<noteq> [] then Some (now, vs) else vr_memo r), vr_flight := False\<rparr>))"

record registry_config =
  rc_swapbook :: string
  rc_aqua :: string
  rc_sushi :: string
  rc_curve :: string
  rc_horizon :: string

definition create_registry :: "registry_config \<Rightarrow> venue \<Rightarrow> venue \<Rightarrow> venue \<Rightarrow> venue \<Rightarrow> venue \<Rightarrow> registry" where
  "create_registry cf book aqua sushi curve sdex =
    foldl (\<lambda>r v. register_venue v r) registry_init
      ((if rc_swapbook cf \<noteq> [] then [book] else []) @ (if rc_aqua cf \<noteq> [] then [aqua] else []) @
       (if rc_sushi cf \<noteq> [] then [sushi] else []) @ (if rc_curve cf \<noteq> [] then [curve] else []) @
       (if rc_horizon cf \<noteq> [] then [sdex] else []))"

section \<open>The Sushi spot price\<close>

definition sushi_rate :: "int \<Rightarrow> int \<Rightarrow> bool \<Rightarrow> rat" where
  "sushi_rate fee p zero_in =
    (let keep = of_int (fee_units - fee) / of_int fee_units; sq = (of_int p / of_int q96) * (of_int p / of_int q96)
     in if zero_in then sq * keep else keep / sq)"

text \<open>A spot price is a straight line, so the law of \<open>concave_curve\<close> holds for it.\<close>

interpretation sushi_spot: concave_curve "\<lambda>x. sushi_rate fee p zero_in * x" for fee p zero_in
  by unfold_locales (simp_all add: algebra_simps)

lemma spot_out_floor:
  assumes "0 \<le> amount" "0 < p" "0 \<le> fee" "fee \<le> fee_units"
  shows "spot_out fee p zero_in amount = \<lfloor>sushi_rate fee p zero_in * of_int amount\<rfloor>"
proof -
  have pos: "0 < q96" "0 < fee_units" by (simp_all add: q96_def fee_units_def)
  show ?thesis
  proof (cases zero_in)
    case True
    have "sushi_rate fee p zero_in * of_int amount
        = of_int (amount * p * p * (fee_units - fee)) / (of_int (q96 * q96 * fee_units) :: rat)"
      using True by (simp add: sushi_rate_def Let_def field_simps)
    then have "\<lfloor>sushi_rate fee p zero_in * of_int amount\<rfloor> = amount * p * p * (fee_units - fee) div (q96 * q96 * fee_units)"
      by (simp only: floor_divide_of_int_eq)
    with True assms pos show ?thesis by (simp add: spot_out_def Let_def tdiv_nonneg)
  next
    case False
    have "sushi_rate fee p zero_in * of_int amount
        = of_int (amount * q96 * q96 * (fee_units - fee)) / (of_int (p * p * fee_units) :: rat)"
      using False by (simp add: sushi_rate_def Let_def field_simps)
    then have "\<lfloor>sushi_rate fee p zero_in * of_int amount\<rfloor> = amount * q96 * q96 * (fee_units - fee) div (p * p * fee_units)"
      by (simp only: floor_divide_of_int_eq)
    with False assms pos show ?thesis by (simp add: spot_out_def Let_def tdiv_nonneg)
  qed
qed

text \<open>Reading a Sushi quote proportionally down from a larger amount never over-states it.\<close>

lemma spot_out_flank:
  assumes "0 < a" "a < b" "0 < p" "0 \<le> fee" "fee \<le> fee_units"
  shows "a * spot_out fee p z b div b \<le> spot_out fee p z a"
  using sushi_spot.flank_below [of a b "spot_out fee p z b" fee p z] assms
  by (simp add: spot_out_floor of_int_floor_le)

lemma haircut_bounds:
  assumes "0 \<le> amount" "amount \<le> 10000 * unit" "0 < unit" "0 \<le> out"
  shows "0 \<le> haircut unit amount out \<and> haircut unit amount out \<le> out"
proof -
  have "tdiv amount unit \<le> 10000" using assms zdiv_mono1 [of amount "10000 * unit" unit] by (simp add: tdiv_nonneg)
  moreover have q: "0 \<le> tdiv amount unit" using assms by (simp add: tdiv_nonneg pos_imp_zdiv_nonneg_iff)
  ultimately have "out * tdiv amount unit \<le> out * 10000" using assms by (intro mult_left_mono) auto
  then have "out * tdiv amount unit div 10000 \<le> out" by (simp add: div_le_dividend)
  moreover have "0 \<le> out * tdiv amount unit" using q assms by simp
  then have "0 \<le> out * tdiv amount unit div 10000" "tdiv (out * tdiv amount unit) 10000 = out * tdiv amount unit div 10000"
    by (simp_all add: tdiv_nonneg pos_imp_zdiv_nonneg_iff)
  ultimately show ?thesis using assms by (simp add: haircut_def)
qed

section \<open>Where a pool quote comes from\<close>

lemma first_positive_Some:
  "first_positive q ps c = (Some v, c') \<Longrightarrow> \<exists>p\<in>set ps. \<exists>d. 0 < v \<and> q p d = (v, c')"
  by (induction q ps c rule: first_positive.induct) (auto split: prod.splits if_splits)

lemma rank_pools_set: "p \<in> set (rank_pools tin tout ps) \<Longrightarrow> p \<in> set ps \<and> 0 \<le> pool_depth_for tin tout p"
  by (auto simp: rank_pools_def)

lemma index_of_SomeD: "index_of x xs = Some i \<Longrightarrow> i < length xs \<and> xs ! i = x"
proof -
  assume "index_of x xs = Some i"
  then have i: "i = length (takeWhile (\<lambda>y. y \<noteq> x) xs)" "i < length xs" by (auto simp: index_of_def Let_def split: if_splits)
  then have "xs ! i = x" using nth_length_takeWhile [of "\<lambda>y. y \<noteq> x" xs] by simp
  with i show ?thesis by simp
qed

text \<open>
  A Curve quote that does not come from the cache is the contract's own answer: that of
  \<open>get_dy\<close> for the very amount, from a listed pool that holds both tokens at the indices
  passed, or, only when no ranked pool answers, that of the adapter contract (0 without one).
\<close>

theorem curve_quote_source:
  assumes "curve_fetch sim None adapter provider tin tout amount c = (v, c')"
  shows "(\<exists>p\<in>set (provider tin tout). \<exists>i j. i < length (cp_coins p) \<and> j < length (cp_coins p) \<and>
      cp_coins p ! i = tin \<and> cp_coins p ! j = tout \<and> 0 < v \<and>
      sim (cp_address p) ''get_dy'' [ScvU32 (int i), ScvU32 (int j), ScvI128 amount] = Some v) \<or>
    v = (if adapter = [] then 0 else or0 (sim adapter ''quote'' [ScvAddress tin, ScvAddress tout, ScvI128 amount]))"
proof (cases "first_positive (curve_pool_quote sim None tin tout amount) (take 2 (rank_pools tin tout (provider tin tout))) c")
  case (Pair r d)
  show ?thesis
  proof (cases r)
    case None
    with Pair assms show ?thesis by (auto simp: curve_fetch_def adapter_quote_def)
  next
    case (Some w)
    with Pair assms have "w = v" by (simp add: curve_fetch_def)
    with Pair Some obtain p e where p: "p \<in> set (take 2 (rank_pools tin tout (provider tin tout)))" "0 < v"
      "curve_pool_quote sim None tin tout amount p e = (v, d)"
      using first_positive_Some [of "curve_pool_quote sim None tin tout amount" "take 2 (rank_pools tin tout (provider tin tout))" c v d]
      by blast
    have mem: "p \<in> set (provider tin tout)" using p(1) by (auto dest!: in_set_takeD rank_pools_set)
    from p obtain i j where ij: "index_of tin (cp_coins p) = Some i" "index_of tout (cp_coins p) = Some j"
      "v = simulate_get_dy sim (cp_address p) i j amount"
      by (auto simp: curve_pool_quote_def through_cache_def split: option.splits)
    then have "sim (cp_address p) ''get_dy'' [ScvU32 (int i), ScvU32 (int j), ScvI128 amount] = Some v"
      using p(2) by (auto simp: simulate_get_dy_def or0_def split: option.splits)
    with mem p(2) ij(1,2) show ?thesis by (blast dest: index_of_SomeD)
  qed
qed

definition ex_curve_pool :: curve_pool where
  "ex_curve_pool = \<lparr>cp_address = ''p'', cp_coins = [''x'', ''y''], cp_balances = [1000, 900], cp_decimals = [7, 7]\<rparr>"

definition ex_curve_sim :: num_sim where
  "ex_curve_sim a f xs = (if a = ''p'' \<and> f = ''get_dy'' then Some 95 else None)"

theorem curve_quote_source_witness:
  "\<exists>i j. i < length (cp_coins ex_curve_pool) \<and> j < length (cp_coins ex_curve_pool) \<and>
      cp_coins ex_curve_pool ! i = ''x'' \<and> cp_coins ex_curve_pool ! j = ''y'' \<and>
      ex_curve_sim (cp_address ex_curve_pool) ''get_dy'' [ScvU32 (int i), ScvU32 (int j), ScvI128 100] = Some 95"
proof -
  have "curve_fetch ex_curve_sim None [] (\<lambda>a b. [ex_curve_pool]) ''x'' ''y'' 100 () = (95, ())"
    by (simp add: curve_fetch_def rank_pools_def pool_depth_for_def index_of_def nth_or_def ex_curve_pool_def Let_def
        curve_pool_quote_def through_cache_def simulate_get_dy_def ex_curve_sim_def or0_def)
  from curve_quote_source [OF this] show ?thesis by simp
qed

section \<open>Classic amounts\<close>

text \<open>
  The amount strings of the classic exchange: a base amount printed for Horizon reads back as
  the same amount.
\<close>

theorem classic_amount_round_trip:
  assumes "0 \<le> n"
  shows "from_display_amount (to_display_amount n) = Inr n"
proof -
  define w where "w = nat_string (nat (n div 10000000))"
  define f where "f = pad_start 7 (nat_string (nat (n mod 10000000)))"
  have q: "0 \<le> n div 10000000" "0 \<le> n mod 10000000" "n mod 10000000 < 10000000"
    using assms by (simp_all add: pos_imp_zdiv_nonneg_iff)
  then have "nat (n mod 10000000) < 10 ^ 7" by (simp add: nat_less_iff)
  note f = padded_digits [OF this, folded f_def, simplified]
  have "to_display_amount n = w @ CHR ''.'' # f"
    using assms q by (simp add: to_display_amount_def tdiv_nonneg tmod_def minus_mult_div_eq_mod big_string_def w_def f_def not_less [THEN iffD2, OF q(1)] not_less [THEN iffD2, OF q(2)])
  moreover have "CHR ''.'' \<notin> set w" "CHR ''.'' \<notin> set f"
    by (simp_all add: digits_no_point w_def nat_string_digits f)
  ultimately have "split_point (to_display_amount n) = (w, f)"
    by (simp add: split_point_def split_on_once split_on_absent)
  then have "from_display_amount (to_display_amount n) = big_of_string (w @ f)"
    using f(2) by (simp add: from_display_amount_def pad_end_def)
  also have "\<dots> = Inr (int (digits_val (w @ f)))"
    by (rule big_of_digits) (simp_all add: w_def nat_string_ne nat_string_digits f)
  also have "int (digits_val (w @ f)) = n"
    using q f by (simp add: digits_val_append w_def nat_string_val div_mult_mod_eq)
  finally show ?thesis .
qed

theorem classic_amount_round_trip_witness:
  "from_display_amount (to_display_amount 12345000001) = Inr 12345000001"
  by (rule classic_amount_round_trip) simp

section \<open>The ladder of the classic exchange\<close>

text \<open>
  What the classic exchange reports for a ladder, when the answers do not depend on the cache:
  a level per amount, and at each the output quoted for it, or, when nothing was quoted for it, the
  output of the last level that was quoted (0 before any), with an infinite marginal cost. A level
  without a path is therefore not reported as a failure.
\<close>

theorem sdex_failed_level:
  assumes "sdex_levels (\<lambda>a c. (f a, c)) prev_in prev_out as c = (ds, c')"
  shows "map dq_in ds = as \<and> (\<forall>i<length as. dq_out (ds ! i) =
      (case filter (\<lambda>a. 0 < f a) (rev (take (Suc i) as)) of [] \<Rightarrow> prev_out | a # _ \<Rightarrow> f a) \<and>
      (f (as ! i) \<le> 0 \<longrightarrow> dq_marginal (ds ! i) = PInf))"
  using assms
proof (induction as arbitrary: prev_in prev_out ds)
  case Nil
  then show ?case by simp
next
  case (Cons a as)
  let ?out = "if f a \<le> 0 then prev_out else f a"
  let ?last = "\<lambda>w i xs. case filter (\<lambda>a. 0 < f a) (rev (take i xs)) of [] \<Rightarrow> w | a # _ \<Rightarrow> f a"
  from Cons.prems obtain ts d where ts: "sdex_levels (\<lambda>a c. (f a, c)) (Some a) ?out as c = (ts, c')"
    and ds: "ds = d # ts" "dq_in d = a" "dq_out d = ?out" "f a \<le> 0 \<longrightarrow> dq_marginal d = PInf"
    by (cases "f a \<le> 0") (auto simp: Let_def split: prod.splits intro: that)
  note IH = Cons.IH [OF ts]
  have step: "?last ?out i as = ?last prev_out (Suc i) (a # as)" for i
    by (auto split: list.splits)
  have "dq_out (ds ! i) = ?last prev_out (Suc i) (a # as) \<and> (f ((a # as) ! i) \<le> 0 \<longrightarrow> dq_marginal (ds ! i) = PInf)"
    if "i < length (a # as)" for i
  proof (cases i)
    case 0
    with ds show ?thesis by simp
  next
    case (Suc j)
    with IH ds that show ?thesis unfolding step [symmetric] by simp
  qed
  with IH ds show ?case by simp
qed

theorem sdex_failed_level_witness:
  "map dq_out (fst (sdex_levels (\<lambda>a c. (if a = 20 then 0 else 2 * a, c)) None 0 [10, 20, 30] ())) = [20, 20, 60]"
proof -
  obtain ds c' where run: "sdex_levels (\<lambda>a c. (if a = 20 then 0 else 2 * a, c)) None 0 [10, 20, 30] () = (ds, c')"
    by fastforce
  from sdex_failed_level [OF run] have "map dq_in ds = [10, 20, 30]"
    and out: "\<forall>i<3. dq_out (ds ! i) =
      (case filter (\<lambda>a. 0 < (if a = 20 then 0 else 2 * a)) (rev (take (Suc i) [10, 20, 30 :: int])) of
         [] \<Rightarrow> 0 | a # _ \<Rightarrow> if a = 20 then 0 else 2 * a)" by simp_all
  then obtain x y z where "ds = [x, y, z]" by (auto simp: map_eq_Cons_conv)
  with run out [rule_format, of 0] out [rule_format, of 1] out [rule_format, of 2] show ?thesis by simp
qed

section \<open>The registry\<close>

lemma register_distinct: "jm_ok (vr_venues r) \<Longrightarrow> jm_ok (vr_venues (register_venue v r))"
  by (simp add: register_venue_def jm.ok_put)

lemma create_registry_ok: "jm_ok (vr_venues (create_registry cf a b c d e))"
  by (simp add: create_registry_def registry_init_def jm.ok_empty register_distinct)

lemma register_keyed:
  "\<forall>(k, v)\<in>set (vr_venues r). k = v_id v \<Longrightarrow> \<forall>(k, v)\<in>set (vr_venues (register_venue w r)). k = v_id v"
  by (auto simp: register_venue_def dest!: jm_set_mem)

lemma register_all_keyed:
  "\<forall>(k, v)\<in>set (vr_venues r). k = v_id v \<Longrightarrow> \<forall>(k, v)\<in>set (vr_venues (foldl (\<lambda>r v. register_venue v r) r vs)). k = v_id v"
proof (induction vs arbitrary: r)
  case (Cons v vs)
  from Cons.IH [OF register_keyed [OF Cons.prems]] show ?case unfolding foldl_Cons .
qed simp

lemma create_registry_keyed: "\<forall>(k, v)\<in>set (vr_venues (create_registry cf a b c d e)). k = v_id v"
  unfolding create_registry_def by (rule register_all_keyed) (simp add: registry_init_def jm_empty_def)

lemma register_all_members:
  "v \<in> set (get_all (foldl (\<lambda>r v. register_venue v r) r vs)) \<Longrightarrow> v \<in> set (get_all r) \<or> v \<in> set vs"
proof (induction vs arbitrary: r)
  case (Cons w vs)
  have "set (get_all (register_venue w r)) \<subseteq> insert w (set (get_all r))"
    by (auto simp: get_all_def register_venue_def dest!: jm_set_mem)
  with Cons show ?case by fastforce
qed simp

lemma create_registry_members:
  "v \<in> set (get_all (create_registry cf a b c d e)) \<Longrightarrow>
    v = a \<and> rc_swapbook cf \<noteq> [] \<or> v = b \<and> rc_aqua cf \<noteq> [] \<or> v = c \<and> rc_sushi cf \<noteq> [] \<or>
    v = d \<and> rc_curve cf \<noteq> [] \<or> v = e \<and> rc_horizon cf \<noteq> []"
  unfolding create_registry_def
  by (drule register_all_members) (auto simp: get_all_def registry_init_def jm_empty_def split: if_splits)

lemma registry_ids: "distinct (map v_id (get_all (create_registry cf a b c d e)))"
proof -
  let ?m = "vr_venues (create_registry cf a b c d e)"
  have "map v_id (get_all (create_registry cf a b c d e)) = map fst ?m"
    using create_registry_keyed [of cf a b c d e] by (auto simp: get_all_def)
  with create_registry_ok [of cf a b c d e] show ?thesis by (simp add: jm_ok_def)
qed

lemma available_memoized:
  assumes "available_done t checks r = (vs, r')" "vs \<noteq> []" "now - t < availability_ttl_ms"
  shows "available_start now r' = (Memoized vs, r')"
  using assms by (auto simp: available_done_def available_start_def Let_def)

lemma ladder_levels: "map dq_in (fst (ladder fetch as c)) = as"
  by (induction as arbitrary: c) (simp_all add: depth_of_def case_prod_beta)

lemma ladder_length [simp]: "length (fst (ladder fetch as c)) = length as"
  using arg_cong [OF ladder_levels [of fetch as c], of length] by simp

lemma sdex_levels_length: "length (fst (sdex_levels out p w as c)) = length as"
  by (induction as arbitrary: p w c) (simp_all add: Let_def case_prod_beta)

lemma sdex_depth_length: "length (fst (sdex_depth ts cached horizon tin tout as c)) = length as"
  by (auto simp: sdex_depth_def sdex_levels_length split: option.split)

definition sushi_configured :: "sushi_route list \<Rightarrow> bool" where
  "sushi_configured ps \<longleftrightarrow> (\<forall>p\<in>set ps. num_int (sp_fee p) \<noteq> None \<and> 0 \<le> sp_dec_a p \<and> 0 \<le> sp_dec_b p)"

lemma find_pair_in: "find_pair ps a b = Some p \<Longrightarrow> p \<in> set ps"
  by (auto simp: find_pair_def find_Some_iff)

lemma spot_quote_ok: "sushi_configured ps \<Longrightarrow> \<exists>v. spot_quote ps slot t0 a b n = Inr v"
  by (cases "find_pair ps a b")
    (auto simp: spot_quote_def sushi_configured_def big_of_num_def Let_def split: option.split dest!: find_pair_in)

lemma sushi_levels_ok:
  "(\<And>k a. \<exists>v. spot k a = Inr v) \<Longrightarrow> \<exists>ds. sushi_levels spot unit k as = Inr ds \<and> length ds = length as"
proof (induction as arbitrary: k)
  case (Cons a as)
  then obtain v ds where "spot k a = Inr v" "sushi_levels spot unit (Suc k) as = Inr ds" "length ds = length as" by metis
  then show ?case by simp
qed simp

lemma sushi_depth_ok:
  assumes "sushi_configured ps"
  shows "\<exists>ds. sushi_depth ps slot t0 a b as = Inr ds \<and> length ds = length as"
proof -
  let ?d = "case find_pair ps a b of Some p \<Rightarrow> decimals_for p a | None \<Rightarrow> 7"
  have "0 \<le> ?d" using assms
    by (auto simp: sushi_configured_def decimals_for_def split: option.split dest: find_pair_in)
  then show ?thesis unfolding sushi_depth_def haircut_unit_def
    using sushi_levels_ok [of "\<lambda>k. spot_quote ps (slot k) t0 a b"] spot_quote_ok [OF assms] by simp
qed

lemma swapbook_level_ok: "a \<noteq> 0 \<Longrightarrow> \<exists>q. swapbook_level sim book tin tout a = Inr q"
  by (simp add: swapbook_level_def Let_def)

lemma ladder_positive: "0 < amount \<Longrightarrow> a \<in> set (depth_ladder d amount) \<Longrightarrow> 0 < a"
  by (auto simp: depth_ladder_def depth_levels_def Let_def split: if_splits)

lemma available_sub: "available_done t (zip (get_all r) ms) r' = (vs, r'') \<Longrightarrow> distinct (map v_id (get_all r)) \<Longrightarrow>
    set vs \<subseteq> set (get_all r) \<and> distinct (map v_id vs)"
proof -
  assume h: "available_done t (zip (get_all r) ms) r' = (vs, r'')" "distinct (map v_id (get_all r))"
  then have vs: "vs = map fst (filter (\<lambda>(v, m). js_catch m False) (zip (get_all r) ms))"
    by (simp add: available_done_def Let_def)
  have "map fst (zip (get_all r) ms) = take (length ms) (get_all r)" by (simp add: map_fst_zip_take min_def)
  then have "distinct (map v_id (map fst (zip (get_all r) ms)))"
    using h(2) by (simp only: distinct_take take_map [symmetric])
  then have "distinct (map v_id vs)" unfolding vs by (simp add: distinct_map_filter comp_def)
  then show ?thesis unfolding vs by (auto dest: set_zip_leftD)
qed



end
