(* ===== verification/TxBuild.thy ===== *)
theory TxBuild
  imports Venues Params
begin

text \<open>
  The transactions the server builds, and the relay that submits signed ones: the builders of
  \<open>backend/src/stellar/client.ts\<close>, and of \<open>backend/src/server.ts\<close> the trustline
  endpoint, \<open>classicAssetFor\<close>, \<open>buildClassicSwap\<close>, \<open>assertRelayable\<close> and the two
  submit endpoints. A transaction is its decoded form; the SDK's assembly and its conversion to and
  from XDR are arguments, and so are the answers of the servers and of the screening.

  Theorems: the relay accepts exactly the listed shapes; whatever a builder returns it accepts once
  signed; it also accepts a payment the server never builds; a fee-bump is answered as a failure of
  the network by one endpoint and as a bad request by the other.
\<close>

section \<open>Transactions\<close>

datatype op_body =
    InvokeContract string string "scval list" "string list"
  | OtherHostFunction
  | PathPaymentStrictSend classic_asset string string classic_asset string "classic_asset list"
  | Payment string classic_asset string
  | ChangeTrust classic_asset
  | RestoreFootprint
  | ExtendFootprintTtl
  | OtherOperation string

record operation =
  op_source :: "string option"
  op_body :: op_body

record transaction =
  tx_source :: string
  tx_fee :: num
  tx_timeout :: int
  tx_ops :: "operation list"

text \<open>What decoding a signed envelope answers: not an envelope, a fee-bump, or a transaction.\<close>

datatype envelope = Malformed | FeeBump | Signed transaction

definition own_op :: "op_body \<Rightarrow> operation" where
  "own_op b = \<lparr>op_source = None, op_body = b\<rparr>"

section \<open>Builders\<close>

text \<open>A builder reads the account and the fee through \<open>rpc\<close>; \<open>inclusionFee\<close> never
  rejects.\<close>

definition rpc_bind :: "rpc_error + 'a \<Rightarrow> ('a \<Rightarrow> rpc_error + 'b) \<Rightarrow> rpc_error + 'b" where
  "rpc_bind m f = (case m of Inl e \<Rightarrow> Inl e | Inr x \<Rightarrow> f x)"

lemma rpc_bind_simps [simp]: "rpc_bind (Inl e) f = Inl e" "rpc_bind (Inr x) f = f x"
  by (simp_all add: rpc_bind_def)

lemma rpc_bind_Inr: "rpc_bind m f = Inr y \<longleftrightarrow> (\<exists>x. m = Inr x \<and> f x = Inr y)"
  by (cases m) auto

definition plain_error :: "string \<Rightarrow> rpc_error" where
  "plain_error m = \<lparr>re_name = ''Error'', re_status = None, re_message = m\<rparr>"

text \<open>A simulation: its recorded entries on success, else the error text when there is one.\<close>

datatype 'r invocation_sim = InvSuccess 'r | InvFailure "string option"

definition invocation_error :: "string option \<Rightarrow> rpc_error" where
  "invocation_error detail =
    plain_error (''Transaction simulation failed'' @ (case detail of None \<Rightarrow> [] | Some d \<Rightarrow> '' - '' @ d))"

definition simulate_invocation :: "rpc_error + unit \<Rightarrow> num \<Rightarrow> (transaction \<Rightarrow> bool \<Rightarrow> rpc_error + 'r invocation_sim)
    \<Rightarrow> string \<Rightarrow> string \<Rightarrow> string \<Rightarrow> scval list \<Rightarrow> string list \<Rightarrow> rpc_error + transaction \<times> 'r" where
  "simulate_invocation account fee sim source contract fn args auth =
    rpc_bind account (\<lambda>_.
      let t = \<lparr>tx_source = source, tx_fee = fee, tx_timeout = 300, tx_ops = [own_op (InvokeContract contract fn args auth)]\<rparr>
      in rpc_bind (sim t (auth \<noteq> [])) (\<lambda>r.
           case r of InvSuccess x \<Rightarrow> Inr (t, x) | InvFailure d \<Rightarrow> Inl (invocation_error d)))"

definition build_transaction :: "rpc_error + unit \<Rightarrow> num \<Rightarrow> (transaction \<Rightarrow> bool \<Rightarrow> rpc_error + 'r invocation_sim)
    \<Rightarrow> (transaction \<Rightarrow> 'r \<Rightarrow> rpc_error + transaction)
    \<Rightarrow> string \<Rightarrow> string \<Rightarrow> string \<Rightarrow> scval list \<Rightarrow> string list \<Rightarrow> rpc_error + transaction" where
  "build_transaction account fee sim assemble source contract fn args auth =
    rpc_bind (simulate_invocation account fee sim source contract fn args auth) (\<lambda>(t, r). assemble t r)"

definition simulate_auth_entries :: "rpc_error + unit \<Rightarrow> num \<Rightarrow> (transaction \<Rightarrow> bool \<Rightarrow> rpc_error + 'r invocation_sim)
    \<Rightarrow> ('r \<Rightarrow> string list option) \<Rightarrow> string \<Rightarrow> string \<Rightarrow> string \<Rightarrow> scval list \<Rightarrow> rpc_error + string list" where
  "simulate_auth_entries account fee sim recorded source contract fn args =
    rpc_bind (simulate_invocation account fee sim source contract fn args []) (\<lambda>(t, r).
      Inr (case recorded r of Some es \<Rightarrow> es | None \<Rightarrow> []))"

record path_payment =
  pp_source :: string
  pp_send :: classic_asset
  pp_amount :: string
  pp_dest :: classic_asset
  pp_min :: string
  pp_path :: "classic_asset list"
  pp_partner :: "(string \<times> string) option"

definition build_classic_path_payment :: "rpc_error + unit \<Rightarrow> num \<Rightarrow> path_payment \<Rightarrow> rpc_error + transaction" where
  "build_classic_path_payment account fee p =
    rpc_bind account (\<lambda>_. Inr
      \<lparr>tx_source = pp_source p, tx_fee = fee, tx_timeout = 300,
       tx_ops = own_op (PathPaymentStrictSend (pp_send p) (pp_amount p) (pp_source p) (pp_dest p) (pp_min p) (pp_path p)) #
         (case pp_partner p of None \<Rightarrow> [] | Some (dest, amount) \<Rightarrow> [own_op (Payment dest (pp_dest p) amount)])\<rparr>)"

definition build_change_trust :: "rpc_error + unit \<Rightarrow> num \<Rightarrow> string \<Rightarrow> classic_asset \<Rightarrow> rpc_error + transaction" where
  "build_change_trust account fee source asset =
    rpc_bind account (\<lambda>_. Inr \<lparr>tx_source = source, tx_fee = fee, tx_timeout = 300, tx_ops = [own_op (ChangeTrust asset)]\<rparr>)"

text \<open>Building and submitting from a service account; \<open>submit\<close> is \<open>submitTransaction\<close>.\<close>

definition submit_with_signer :: "rpc_error + transaction \<Rightarrow> (transaction \<Rightarrow> submit_error + 'tx) \<Rightarrow> submit_error + 'tx" where
  "submit_with_signer built submit = (case built of Inl e \<Rightarrow> Inl (RpcFailed e) | Inr t \<Rightarrow> submit t)"

section \<open>Classic swaps\<close>

definition classic_asset_for :: "token_config list \<Rightarrow> string \<Rightarrow> classic_asset handler" where
  "classic_asset_for ts s =
    (if s = xlm_sac \<or> to_upper s = ''XLM'' then Inr NativeAsset
     else case resolve_token ts s of
            Some t \<Rightarrow> if tk_issuer t \<noteq> [] then Inr (CreditAsset (tk_symbol t) (tk_issuer t))
                      else Inl (BadRequest (''No classic asset known for '' @ s))
          | None \<Rightarrow> Inl (BadRequest (''No classic asset known for '' @ s)))"

record path_query =
  pq_amount :: string
  pq_source_type :: string
  pq_source :: "(string \<times> string) option"
  pq_dest :: string

definition path_query_of :: "classic_asset \<Rightarrow> classic_asset \<Rightarrow> int \<Rightarrow> path_query" where
  "path_query_of send dest amount =
    \<lparr>pq_amount = to_display7 amount,
     pq_source_type = (case send of NativeAsset \<Rightarrow> ''native''
       | CreditAsset code i \<Rightarrow> if length code \<le> 4 then ''credit_alphanum4'' else ''credit_alphanum12''),
     pq_source = (case send of NativeAsset \<Rightarrow> None | CreditAsset code i \<Rightarrow> Some (code, i)),
     pq_dest = (case dest of NativeAsset \<Rightarrow> ''native'' | CreditAsset code i \<Rightarrow> code @ '':'' @ i)\<rparr>"

text \<open>Horizon's answer: a status that is not ok, or the hops of its records.\<close>

datatype paths_reply = PathsFailed int | PathRecords "classic_asset list list"

definition lift_rpc :: "rpc_error + 'a \<Rightarrow> 'a handler" where
  "lift_rpc m = (case m of Inl e \<Rightarrow> Inl (OtherError (re_message e)) | Inr x \<Rightarrow> Inr x)"

definition build_classic_swap :: "token_config list \<Rightarrow> (path_query \<Rightarrow> paths_reply) \<Rightarrow> rpc_error + unit \<Rightarrow> num
    \<Rightarrow> string \<Rightarrow> string \<Rightarrow> string \<Rightarrow> int \<Rightarrow> int \<Rightarrow> int \<Rightarrow> (string \<times> int) option \<Rightarrow> transaction handler" where
  "build_classic_swap ts horizon account fee source tin tout amount expected slip partner =
    hbind (classic_asset_for ts tin) (\<lambda>send.
    hbind (classic_asset_for ts tout) (\<lambda>dest.
      case horizon (path_query_of send dest amount) of
        PathsFailed st \<Rightarrow> Inl (OtherError (''Horizon path lookup failed: '' @ big_string st))
      | PathRecords [] \<Rightarrow> Inl (BadRequest ''No classic path available for this pair'')
      | PathRecords (path # _) \<Rightarrow>
          let dest_min = slip_min expected slip
          in lift_rpc (build_classic_path_payment account fee
               \<lparr>pp_source = source, pp_send = send, pp_amount = to_display7 amount, pp_dest = dest,
                pp_min = to_display7 (if dest_min > 0 then dest_min else 1), pp_path = path,
                pp_partner = (case partner of None \<Rightarrow> None
                  | Some (d, n) \<Rightarrow> if n > 0 then Some (d, to_display7 n) else None)\<rparr>)))"

section \<open>Trustlines\<close>

text \<open>\<open>String(v ?? '')\<close>; \<open>num_text\<close> is the text of a number that is not a small
  integer.\<close>

fun text_of_jv :: "(num \<Rightarrow> string) \<Rightarrow> jv \<Rightarrow> string" where
  "text_of_jv nt JUndef = []"
| "text_of_jv nt JNull = []"
| "text_of_jv nt (JBool b) = (if b then ''true'' else ''false'')"
| "text_of_jv nt (JNum n) =
    (case num_int n of Some k \<Rightarrow> if \<bar>k\<bar> < 10 ^ 21 then big_string k else nt n | None \<Rightarrow> nt n)"
| "text_of_jv nt (JStr s) = s"
| "text_of_jv nt (JArr []) = []"
| "text_of_jv nt (JArr [v]) = text_of_jv nt v"
| "text_of_jv nt (JArr (v # w # vs)) = text_of_jv nt v @ '','' @ text_of_jv nt (JArr (w # vs))"
| "text_of_jv nt JObj = ''[object Object]''"

definition alnum :: "char \<Rightarrow> bool" where
  "alnum c \<longleftrightarrow> is_digit c \<or> (65 \<le> (of_char c :: nat) \<and> (of_char c :: nat) \<le> 90) \<or> (97 \<le> (of_char c :: nat) \<and> (of_char c :: nat) \<le> 122)"

definition asset_code_ok :: "string \<Rightarrow> bool" where
  "asset_code_ok s \<longleftrightarrow> 1 \<le> length s \<and> length s \<le> 12 \<and> list_all alnum s"

definition trustline_build :: "(num \<Rightarrow> string) \<Rightarrow> agg_token list \<Rightarrow> rpc_error + unit \<Rightarrow> num \<Rightarrow> jv \<Rightarrow> jv \<Rightarrow> jv \<Rightarrow> transaction handler" where
  "trustline_build nt us account fee source_v issuer_v code_v =
    hbind (parse_stellar_account source_v ''sourceAddress'') (\<lambda>source.
    hbind (parse_stellar_account issuer_v ''issuer'') (\<lambda>issuer.
      let code = text_of_jv nt code_v
      in hbind (guard (asset_code_ok code) ''assetCode must be 1-12 alphanumeric characters'') (\<lambda>_.
         hbind (guard (\<exists>t\<in>set us. at_symbol t = code \<and> at_issuer t = issuer) ''Asset is not in the listed token universe'') (\<lambda>_.
           lift_rpc (build_change_trust account fee source (CreditAsset code issuer))))))"

section \<open>The relay\<close>

definition relay_max_ops :: nat where "relay_max_ops = 10"

record contract_ids =
  ci_router :: string
  ci_swapbook :: string
  ci_twap :: string
  ci_aqua :: string
  ci_sushi :: string
  ci_curve :: string
  ci_rfq :: string

definition allowed_contracts :: "contract_ids \<Rightarrow> string list" where
  "allowed_contracts c = filter (\<lambda>s. s \<noteq> [])
    [ci_router c, ci_swapbook c, ci_twap c, ci_aqua c, ci_sushi c, ci_curve c, ci_rfq c]"

text \<open>\<open>screen\<close> is \<open>assertNotBlocked\<close>.\<close>

definition relay_op :: "(string \<Rightarrow> unit handler) \<Rightarrow> string list \<Rightarrow> string \<Rightarrow> operation \<Rightarrow> unit handler" where
  "relay_op screen allowed source p =
    (if (case op_source p of Some s \<Rightarrow> s \<noteq> [] \<and> s \<noteq> source | None \<Rightarrow> False)
     then Inl (BadRequest ''operation source must match the transaction source'')
     else case op_body p of
            InvokeContract c fn args auth \<Rightarrow> guard (c \<in> set allowed) ''transaction invokes a contract outside the ufama set''
          | OtherHostFunction \<Rightarrow> Inl (BadRequest ''only contract invocations are relayed'')
          | PathPaymentStrictSend sa amt dest da mn path \<Rightarrow> screen dest
          | Payment dest a amt \<Rightarrow> screen dest
          | ChangeTrust a \<Rightarrow> Inr ()
          | RestoreFootprint \<Rightarrow> Inr ()
          | ExtendFootprintTtl \<Rightarrow> Inr ()
          | OtherOperation ty \<Rightarrow> Inl (BadRequest (''operation type '' @ ty @ '' is not relayed by this server'')))"

fun relay_ops :: "(string \<Rightarrow> unit handler) \<Rightarrow> string list \<Rightarrow> string \<Rightarrow> operation list \<Rightarrow> unit handler" where
  "relay_ops screen allowed source [] = Inr ()"
| "relay_ops screen allowed source (p # ps) = hbind (relay_op screen allowed source p) (\<lambda>_. relay_ops screen allowed source ps)"

definition assert_relayable :: "('x \<Rightarrow> envelope) \<Rightarrow> (string \<Rightarrow> unit handler) \<Rightarrow> contract_ids \<Rightarrow> 'x \<Rightarrow> unit handler" where
  "assert_relayable decode screen ids xdr =
    (case decode xdr of
       Malformed \<Rightarrow> Inl (BadRequest ''xdr is not a valid transaction envelope for this network'')
     | FeeBump \<Rightarrow> Inl (BadRequest ''fee-bump transactions are not accepted'')
     | Signed t \<Rightarrow>
         hbind (screen (tx_source t)) (\<lambda>_.
         hbind (guard (tx_ops t \<noteq> [] \<and> length (tx_ops t) \<le> relay_max_ops) ''transaction must have 1-10 operations'') (\<lambda>_.
           relay_ops screen (allowed_contracts ids) (tx_source t) (tx_ops t))))"

section \<open>Submission endpoints\<close>

definition submit_error_text :: "string \<Rightarrow> submit_error \<Rightarrow> string" where
  "submit_error_text hash e =
    (case e of
       RpcFailed r \<Rightarrow> re_message r
     | RejectedAtSend c \<Rightarrow> ''Transaction rejected at send: '' @ c
     | NotAccepted c \<Rightarrow> ''Transaction not accepted ('' @ c @ '') - wait a few seconds and retry''
     | FailedOnLedger c \<Rightarrow> ''Transaction failed on-ledger: '' @ c @ '' ('' @ hash @ '')''
     | NotConfirmed \<Rightarrow> ''Transaction '' @ hash @ '' not confirmed after 30s - check the explorer before retrying'')"

definition lift_submit :: "string \<Rightarrow> submit_error + 'tx \<Rightarrow> 'tx handler" where
  "lift_submit hash m = (case m of Inl e \<Rightarrow> Inl (OtherError (submit_error_text hash e)) | Inr t \<Rightarrow> Inr t)"

definition signed_text :: "jv \<Rightarrow> string \<Rightarrow> string handler" where
  "signed_text v msg =
    (case v of
       JStr s \<Rightarrow> if s = [] \<or> length s > 100000 then Inl (BadRequest msg) else Inr s
     | _ \<Rightarrow> Inl (BadRequest msg))"

text \<open>\<open>submit\<close> sends the envelope and polls; \<open>hash\<close> is that of the envelope.\<close>

definition relay_submit :: "string \<Rightarrow> (string \<Rightarrow> envelope) \<Rightarrow> (string \<Rightarrow> unit handler) \<Rightarrow> contract_ids
    \<Rightarrow> (string \<Rightarrow> submit_error + 'tx) \<Rightarrow> (string \<Rightarrow> string) \<Rightarrow> jv \<Rightarrow> (string \<times> 'tx) handler" where
  "relay_submit msg decode screen ids submit hash v =
    hbind (signed_text v msg) (\<lambda>xdr.
    hbind (assert_relayable decode screen ids xdr) (\<lambda>_.
    hbind (lift_submit (hash xdr) (submit xdr)) (\<lambda>t. Inr (hash xdr, t))))"

definition error_text :: "http_error \<Rightarrow> string" where
  "error_text e =
    (case e of BadRequest m \<Rightarrow> m | BlockedAddress a \<Rightarrow> ''Address '' @ a @ ''... failed compliance screening'' | OtherError m \<Rightarrow> m)"

definition submit_patterns :: "pattern list" where
  "submit_patterns = map lit [''rejected at send'', ''failed on-ledger'', ''not accepted'', ''not confirmed'']"

definition submit_error_reply :: "http_error \<Rightarrow> int \<times> reply_text" where
  "submit_error_reply e =
    (if list_ex (\<lambda>p. search p (error_text e)) submit_patterns then (502, Said (error_text e)) else handle_error e)"

definition swap_submit :: "(string \<Rightarrow> envelope) \<Rightarrow> (string \<Rightarrow> unit handler) \<Rightarrow> contract_ids
    \<Rightarrow> (string \<Rightarrow> submit_error + 'tx) \<Rightarrow> (string \<Rightarrow> string) \<Rightarrow> jv \<Rightarrow> (int \<times> reply_text) + (string \<times> 'tx)" where
  "swap_submit decode screen ids submit hash v =
    (case relay_submit ''signedXdr must be a transaction XDR string'' decode screen ids submit hash v of
       Inl e \<Rightarrow> Inl (submit_error_reply e)
     | Inr r \<Rightarrow> Inr r)"

definition v1_send :: "(string \<Rightarrow> envelope) \<Rightarrow> (string \<Rightarrow> unit handler) \<Rightarrow> contract_ids
    \<Rightarrow> (string \<Rightarrow> submit_error + 'tx) \<Rightarrow> (string \<Rightarrow> string) \<Rightarrow> jv \<Rightarrow> (int \<times> reply_text) + 'tx" where
  "v1_send decode screen ids submit hash v =
    (case relay_submit ''xdr must be a signed transaction XDR string'' decode screen ids submit hash v of
       Inl e \<Rightarrow> Inl (handle_error e)
     | Inr r \<Rightarrow> Inr (snd r))"

section \<open>What the relay accepts\<close>

definition op_relayable :: "(string \<Rightarrow> unit handler) \<Rightarrow> contract_ids \<Rightarrow> string \<Rightarrow> operation \<Rightarrow> bool" where
  "op_relayable screen ids source p \<longleftrightarrow>
    (op_source p = None \<or> op_source p = Some [] \<or> op_source p = Some source) \<and>
    (case op_body p of
       InvokeContract c _ _ _ \<Rightarrow> c \<in> {ci_router ids, ci_swapbook ids, ci_twap ids, ci_aqua ids, ci_sushi ids, ci_curve ids, ci_rfq ids} \<and> c \<noteq> []
     | PathPaymentStrictSend _ _ dest _ _ _ \<Rightarrow> screen dest = Inr ()
     | Payment dest _ _ \<Rightarrow> screen dest = Inr ()
     | OtherHostFunction \<Rightarrow> False
     | OtherOperation _ \<Rightarrow> False
     | _ \<Rightarrow> True)"

lemma allowed_set: "c \<in> set (allowed_contracts ids) \<longleftrightarrow>
    c \<in> {ci_router ids, ci_swapbook ids, ci_twap ids, ci_aqua ids, ci_sushi ids, ci_curve ids, ci_rfq ids} \<and> c \<noteq> []"
  unfolding allowed_contracts_def set_filter by auto

lemma relay_op_iff: "relay_op screen (allowed_contracts ids) source p = Inr () \<longleftrightarrow> op_relayable screen ids source p"
  by (auto simp: relay_op_def op_relayable_def allowed_set split: op_body.split option.split)

lemma relay_ops_iff:
  "relay_ops screen (allowed_contracts ids) source ps = Inr () \<longleftrightarrow> (\<forall>p\<in>set ps. op_relayable screen ids source p)"
  by (induction ps) (auto simp: hbind_Inr relay_op_iff)


text \<open>A builder's transaction for a screened source is relayable once signed.\<close>

lemma relayable_signed:
  assumes "decode xdr = Signed t" "screen (tx_source t) = Inr ()" "tx_ops t \<noteq> []" "length (tx_ops t) \<le> 10"
    and "\<And>p. p \<in> set (tx_ops t) \<Longrightarrow> op_relayable screen ids (tx_source t) p"
  shows "assert_relayable decode screen ids xdr = Inr ()"
  using assms by (simp add: assert_relayable_def relay_ops_iff relay_max_ops_def guard_def)

lemma invocation_ops:
  assumes "simulate_invocation account fee sim source contract fn args auth = Inr (u, r)"
  shows "tx_source u = source \<and> tx_ops u = [own_op (InvokeContract contract fn args auth)]"
proof -
  from assms obtain x where "(case x of InvSuccess y \<Rightarrow> Inr (\<lparr>tx_source = source, tx_fee = fee, tx_timeout = 300,
      tx_ops = [own_op (InvokeContract contract fn args auth)]\<rparr>, y) | InvFailure d \<Rightarrow> Inl (invocation_error d)) = Inr (u, r)"
    by (auto simp: simulate_invocation_def rpc_bind_Inr Let_def)
  then show ?thesis by (cases x) auto
qed

lemma lift_rpc_Inr: "lift_rpc m = Inr x \<longleftrightarrow> m = Inr x"
  by (cases m) (simp_all add: lift_rpc_def)

lemma classic_swap_payment:
  assumes "build_classic_swap ts horizon account fee source tin tout amount expected slip partner = Inr t"
  obtains q where "build_classic_path_payment account fee q = Inr t" "pp_source q = source"
    "pp_partner q = None \<or> (\<exists>d n s. partner = Some (d, n) \<and> pp_partner q = Some (d, s))"
    "classic_asset_for ts tin = Inr (pp_send q)" "pp_amount q = to_display7 amount"
    "pp_min q = to_display7 (max 1 (slip_min expected slip))"
proof -
  from assms obtain send dest where a: "classic_asset_for ts tin = Inr send" "classic_asset_for ts tout = Inr dest"
    by (auto simp: build_classic_swap_def hbind_Inr)
  show ?thesis
  proof (cases "horizon (path_query_of send dest amount)")
    case (PathRecords paths)
    show ?thesis
    proof (cases paths)
      case (Cons path rest)
      let ?q = "\<lparr>pp_source = source, pp_send = send, pp_amount = to_display7 amount, pp_dest = dest,
          pp_min = to_display7 (if slip_min expected slip > 0 then slip_min expected slip else 1), pp_path = path,
          pp_partner = (case partner of None \<Rightarrow> None | Some (d, n) \<Rightarrow> if n > 0 then Some (d, to_display7 n) else None)\<rparr>"
      from assms a PathRecords Cons have "lift_rpc (build_classic_path_payment account fee ?q) = Inr t"
        by (simp add: build_classic_swap_def Let_def)
      then have "build_classic_path_payment account fee ?q = Inr t" by (simp only: lift_rpc_Inr)
      then show ?thesis by (rule that) (auto simp: a max_def split: option.split)
    qed (use assms a PathRecords in \<open>simp add: build_classic_swap_def\<close>)
  qed (use assms a in \<open>simp add: build_classic_swap_def\<close>)
qed


text \<open>
  The relay is wider than the builders: a transaction whose only operation pays any asset to any
  address that is not blocked is accepted, although the server builds payments only as the partner's
  part of a swap.
\<close>

theorem relay_any_payment:
  assumes "screen source = Inr ()" "screen dest = Inr ()"
  shows "assert_relayable (\<lambda>_. Signed \<lparr>tx_source = source, tx_fee = fee, tx_timeout = ti,
      tx_ops = [own_op (Payment dest asset amount)]\<rparr>) screen ids xdr = Inr ()"
  by (rule relayable_signed, rule refl) (use assms in \<open>auto simp: op_relayable_def own_op_def\<close>)

text \<open>
  A fee-bump envelope is refused before anything is sent, but the two submit endpoints disagree
  on what that is: the message of the refusal contains the words \<open>not accepted\<close>, so
  \<open>/api/swap/submit\<close> takes it for a failure of the network and answers 502, where
  \<open>/v1/send\<close> answers 400.
\<close>

theorem fee_bump_status:
  assumes "decode xdr = FeeBump" "xdr \<noteq> []" "length xdr \<le> 100000"
  shows "swap_submit decode screen ids submit hash (JStr xdr) = Inl (502, Said ''fee-bump transactions are not accepted'') \<and>
    v1_send decode screen ids submit hash (JStr xdr) = Inl (400, Said ''fee-bump transactions are not accepted'')"
proof -
  have r: "relay_submit m decode screen ids submit hash (JStr xdr) = Inl (BadRequest ''fee-bump transactions are not accepted'')" for m
    using assms by (simp add: relay_submit_def signed_text_def assert_relayable_def)
  have "list_ex (\<lambda>p. search p ''fee-bump transactions are not accepted'') submit_patterns" by code_simp
  with r show ?thesis
    by (simp add: swap_submit_def v1_send_def submit_error_reply_def error_text_def handle_error_def)
qed

definition ex_ids :: contract_ids where
  "ex_ids = \<lparr>ci_router = ''R'', ci_swapbook = [], ci_twap = [], ci_aqua = [], ci_sushi = [], ci_curve = [], ci_rfq = []\<rparr>"

definition ex_call :: transaction where
  "ex_call = \<lparr>tx_source = ''GA'', tx_fee = Fin 200, tx_timeout = 300, tx_ops = [own_op (InvokeContract ''R'' ''execute_route'' [] [])]\<rparr>"

theorem fee_bump_status_witness:
  "swap_submit (\<lambda>_. FeeBump) (\<lambda>_. Inr ()) ex_ids (\<lambda>_. Inr ()) (\<lambda>x. x) (JStr ''AAAA'')
    = Inl (502, Said ''fee-bump transactions are not accepted'')"
  using fee_bump_status [of "\<lambda>_. FeeBump" "''AAAA''" "\<lambda>_. Inr ()" ex_ids "\<lambda>_. Inr ()" "\<lambda>x. x"] by simp

theorem relay_any_payment_witness:
  "assert_relayable (\<lambda>_. Signed \<lparr>tx_source = ''GA'', tx_fee = Fin 100, tx_timeout = 300,
      tx_ops = [own_op (Payment ''GB'' NativeAsset ''5.0000000'')]\<rparr>) (\<lambda>a. Inr ()) ex_ids ''x'' = Inr ()"
  by (rule relay_any_payment) simp_all



end
