(* ===== verification/PartnerApi.thy ===== *)
theory PartnerApi
  imports TxBuild
begin

text \<open>
  The integrator API of \<open>backend/src/server.ts\<close>: the keys and the limiter in front of it, the
  partner fee, \<open>/v1/tokens\<close>, \<open>/v1/quote\<close>, \<open>/v1/quote/build\<close>. The best execution
  (\<open>computeBestExecution\<close>) and the builders are arguments.

  Theorems: the limiter lets at most twice its limit through in any minute; a quote adds up; a
  built swap takes the partner's fee on top and keeps a positive floor; where the quote's claim on
  the fee and the build's differ.
\<close>

section \<open>Keys\<close>

text \<open>\<open>name:key\<close> pairs, a key of at least 16 characters; a later pair with the same key wins.\<close>

definition add_key :: "(string, string) jmap \<Rightarrow> string \<Rightarrow> (string, string) jmap" where
  "add_key m pair =
    (let idx = length (takeWhile (\<lambda>c. c \<noteq> CHR '':'') pair);
         name = trim (take idx pair);
         key = trim (drop (Suc idx) pair)
     in if idx = length pair \<or> idx = 0 then m
        else if name \<noteq> [] \<and> 16 \<le> length key then jm_set key name m else m)"

definition load_keys :: "string option \<Rightarrow> (string, string) jmap" where
  "load_keys env = foldl add_key jm_empty (split_on (CHR '','') (env_or env []))"

text \<open>\<open>String(header).replace(/^Bearer\s+/i, '').trim()\<close>\<close>

definition strip_bearer :: "string \<Rightarrow> string" where
  "strip_bearer s =
    (if lower (take 6 s) = ''bearer'' \<and> takeWhile is_space (drop 6 s) \<noteq> [] then dropWhile is_space (drop 6 s) else s)"

definition header_key :: "string option \<Rightarrow> string option \<Rightarrow> string" where
  "header_key api_key authorization =
    trim (strip_bearer (case api_key of Some k \<Rightarrow> k | None \<Rightarrow> env_or authorization []))"

definition maker_auth :: "(string, string) jmap \<Rightarrow> string option \<Rightarrow> string option \<Rightarrow> string option" where
  "maker_auth keys api_key authorization =
    (case jm_get keys (header_key api_key authorization) of Some l \<Rightarrow> if l = [] then None else Some l | None \<Rightarrow> None)"

section \<open>The limiter\<close>

definition v1_rate_limit :: int where "v1_rate_limit = 120"
definition v1_window_ms :: int where "v1_window_ms = 60000"

record bucket =
  bk_count :: int
  bk_start :: int

type_synonym buckets = "(string, bucket) jmap"

datatype auth_reply = Unauthorized | RateLimited int | Granted string

text \<open>The bucket the request is counted in, a new one when the window is over.\<close>

definition bucket_for :: "int \<Rightarrow> string \<Rightarrow> buckets \<Rightarrow> bucket" where
  "bucket_for now key bs =
    (case jm_get bs key of
       Some b \<Rightarrow> if now - bk_start b \<ge> v1_window_ms then \<lparr>bk_count = 0, bk_start = now\<rparr> else b
     | None \<Rightarrow> \<lparr>bk_count = 0, bk_start = now\<rparr>)"

definition v1_auth :: "(string, string) jmap \<Rightarrow> int \<Rightarrow> int \<Rightarrow> string \<Rightarrow> buckets \<Rightarrow> auth_reply \<times> buckets" where
  "v1_auth keys limit now key bs =
    (case jm_get keys key of
       None \<Rightarrow> (Unauthorized, bs)
     | Some partner \<Rightarrow>
         if partner = [] then (Unauthorized, bs)
         else let b = bucket_for now key bs;
                  b' = b\<lparr>bk_count := bk_count b + 1\<rparr>;
                  bs' = jm_set key b' bs
              in if bk_count b' > limit then (RateLimited (cdiv (bk_start b + v1_window_ms - now) 1000), bs')
                 else (Granted partner, bs'))"

section \<open>The partner fee\<close>

definition max_partner_fee_bps :: int where "max_partner_fee_bps = 100"

definition parse_partner_fee :: "jv \<Rightarrow> jv \<Rightarrow> (int \<times> string option) handler" where
  "parse_partner_fee fee_v ref_v =
    (case (if fee_v = JUndef then Some 0 else num_int (num_of_jv fee_v)) of
       None \<Rightarrow> Inl (BadRequest ''feeBps must be an integer 0..100'')
     | Some fee \<Rightarrow>
         if fee < 0 \<or> fee > max_partner_fee_bps then Inl (BadRequest ''feeBps must be an integer 0..100'')
         else if fee > 0 then hbind (parse_stellar_account ref_v ''referralAddress'') (\<lambda>r. Inr (fee, Some r))
         else Inr (fee, None))"

section \<open>Tokens\<close>

record v1_token =
  vt_symbol :: string
  vt_name :: string
  vt_contract :: string
  vt_issuer :: string
  vt_decimals :: int
  vt_verified :: bool
  vt_volume :: num

definition v1_tokens :: "agg_token list \<Rightarrow> v1_token list" where
  "v1_tokens us = map (\<lambda>t. \<lparr>vt_symbol = at_symbol t, vt_name = at_name t, vt_contract = at_sac t, vt_issuer = at_issuer t,
      vt_decimals = at_decimals t, vt_verified = at_verified t, vt_volume = at_volume t\<rparr>) us"

section \<open>Quotes\<close>

record v1_body =
  vb_from :: jv
  vb_in :: jv
  vb_out :: jv
  vb_amount :: jv
  vb_slip :: jv
  vb_fee :: jv
  vb_ref :: jv

record v1_request =
  vq_in :: string
  vq_out :: string
  vq_amount :: int
  vq_slip :: int
  vq_fee :: int
  vq_ref :: "string option"

definition v1_parse :: "token_config list \<Rightarrow> agg_token list \<Rightarrow> v1_body \<Rightarrow> v1_request handler" where
  "v1_parse ts us b =
    hbind (resolve_token_param ts us (vb_in b) ''assetIn'') (\<lambda>a.
    hbind (resolve_token_param ts us (vb_out b) ''assetOut'') (\<lambda>o1.
    hbind (parse_amount (vb_amount b) ''amount'') (\<lambda>n.
    hbind (parse_slippage_bps (vb_slip b) 50) (\<lambda>s.
    hbind (parse_partner_fee (vb_fee b) (vb_ref b)) (\<lambda>(f, r).
      Inr \<lparr>vq_in = a, vq_out = o1, vq_amount = n, vq_slip = s, vq_fee = f, vq_ref = r\<rparr>)))))"

record v1_quote_reply =
  vr_out :: int
  vr_partner_fee :: int
  vr_collected :: bool
  vr_min :: int
  vr_kind :: exec_kind
  vr_impact :: "impact_flags option"
  vr_segments :: "(int \<times> int) list"

definition gross_of :: "execution \<Rightarrow> int" where
  "gross_of ex =
    (if ex_single ex = Classic then ex_sdex_out ex else case ex_route ex of Some r \<Rightarrow> rt_net_out r | None \<Rightarrow> 0)"

definition v1_quote :: "bool \<Rightarrow> v1_request \<Rightarrow> execution \<Rightarrow> v1_quote_reply handler" where
  "v1_quote v11 q ex =
    (let gross = gross_of ex
     in if gross \<le> 0 then Inl (BadRequest ''No liquidity for this pair'')
        else let fee = tdiv (gross * vq_fee q) 10000; net = gross - fee; classic = (ex_single ex = Classic)
             in Inr \<lparr>vr_out = net, vr_partner_fee = fee,
                     vr_collected = (classic \<or> vq_fee q = 0 \<or> v11 \<and> vq_ref q \<noteq> None),
                     vr_min = slip_min net (vq_slip q), vr_kind = ex_single ex,
                     vr_impact = (if classic then None else map_option (\<lambda>r. impact_flags (Some (rt_impact_bps r))) (ex_route ex)),
                     vr_segments = (if classic then [(vq_amount q, ex_sdex_out ex)]
                       else case ex_route ex of Some r \<Rightarrow> map (\<lambda>s. (sg_in s, sg_out s)) (rt_segments r) | None \<Rightarrow> [])\<rparr>)"

definition v1_quote_handler :: "token_config list \<Rightarrow> agg_token list \<Rightarrow> bool \<Rightarrow> (v1_request \<Rightarrow> execution handler) \<Rightarrow> v1_body \<Rightarrow> v1_quote_reply handler" where
  "v1_quote_handler ts us v11 best b = hbind (v1_parse ts us b) (\<lambda>q. hbind (best q) (v1_quote v11 q))"

section \<open>Builds\<close>

record v1_build_reply =
  vd_tx :: transaction
  vd_kind :: exec_kind
  vd_partner_fee :: int
  vd_collected :: bool
  vd_out :: int

text \<open>\<open>classic\<close> is \<open>buildClassicSwap\<close> for the request's source and pair, of the amount, the
  expected output, the slippage and the partner's part; \<open>invoke\<close> is
  \<open>stellar.buildTransaction\<close> on the router.\<close>

definition v1_classic :: "(int \<Rightarrow> int \<Rightarrow> int \<Rightarrow> (string \<times> int) option \<Rightarrow> transaction handler) \<Rightarrow> v1_request \<Rightarrow> execution \<Rightarrow> v1_build_reply handler" where
  "v1_classic classic q ex =
    (let fee = tdiv (ex_sdex_out ex * vq_fee q) 10000
     in hbind (classic (vq_amount q) (ex_sdex_out ex) (vq_slip q)
          (case vq_ref q of Some r \<Rightarrow> if fee > 0 then Some (r, fee) else None | None \<Rightarrow> None)) (\<lambda>t.
        Inr \<lparr>vd_tx = t, vd_kind = Classic, vd_partner_fee = fee, vd_collected = (fee > 0), vd_out = ex_sdex_out ex - fee\<rparr>))"

definition v1_split :: "bool \<Rightarrow> v1_request \<Rightarrow> string option" where
  "v1_split v11 q = (if v11 \<and> vq_fee q > 0 then vq_ref q else None)"

definition v1_args :: "string \<Rightarrow> v1_request \<Rightarrow> route \<Rightarrow> int \<Rightarrow> scval list" where
  "v1_args from q rt min_total =
    [ScvAddress from, ScvAddress (vq_in q), ScvAddress (vq_out q), ScvI128 (rt_in rt), ScvI128 min_total,
     to_route_segments (rt_instructions rt)]"

definition v1_fee :: "bool \<Rightarrow> v1_request \<Rightarrow> route \<Rightarrow> int" where
  "v1_fee v11 q rt =
    (case v1_split v11 q of None \<Rightarrow> 0 | Some _ \<Rightarrow> tdiv (rt_net_out rt * (vq_fee q * 10) + 100000 - 1) 100000)"

definition v1_router :: "swap_config \<Rightarrow> bool \<Rightarrow> (string \<Rightarrow> scval list \<Rightarrow> transaction handler) \<Rightarrow> string \<Rightarrow> v1_request \<Rightarrow> route \<Rightarrow> v1_build_reply handler" where
  "v1_router cf v11 invoke from q rt =
    (let net = rt_net_out rt - v1_fee v11 q rt; min_total = slip_min net (vq_slip q)
     in if min_total \<le> 0 then Inl (BadRequest ''Route output too small'')
        else hbind (case v1_split v11 q of
                 Some ref \<Rightarrow> invoke ''execute_route_partner''
                   (v1_args from q rt min_total @ [ScvAddress ref, ScvI128 (vq_fee q * 10)] @ surplus_arg cf (rt_total_out rt))
               | None \<Rightarrow> invoke ''execute_route'' (v1_args from q rt min_total @ surplus_arg cf (rt_total_out rt))) (\<lambda>t.
             Inr \<lparr>vd_tx = t, vd_kind = Soroban, vd_partner_fee = v1_fee v11 q rt, vd_collected = (v1_split v11 q \<noteq> None), vd_out = net\<rparr>))"

definition v1_soroban :: "swap_config \<Rightarrow> bool \<Rightarrow> (string \<Rightarrow> scval list \<Rightarrow> transaction handler) \<Rightarrow> string \<Rightarrow> v1_request \<Rightarrow> execution \<Rightarrow> v1_build_reply handler" where
  "v1_soroban cf v11 invoke from q ex =
    (case ex_route ex of
       None \<Rightarrow> Inl (BadRequest ''No executable venue liquidity for this pair'')
     | Some rt \<Rightarrow>
         if rt_instructions rt = [] then Inl (BadRequest ''No executable venue liquidity for this pair'')
         else if impact_violation (Some (rt_impact_bps rt)) \<noteq> None then Inl (BadRequest ''price impact'')
         else v1_router cf v11 invoke from q rt)"

definition v1_build :: "swap_config \<Rightarrow> bool \<Rightarrow> (string \<Rightarrow> int \<Rightarrow> int \<Rightarrow> int \<Rightarrow> (string \<times> int) option \<Rightarrow> transaction handler)
    \<Rightarrow> (string \<Rightarrow> string \<Rightarrow> scval list \<Rightarrow> transaction handler) \<Rightarrow> string \<Rightarrow> v1_request \<Rightarrow> execution \<Rightarrow> v1_build_reply handler" where
  "v1_build cf v11 classic invoke from q ex =
    (if ex_single ex = Classic then v1_classic (classic from) q ex else v1_soroban cf v11 (invoke from) from q ex)"

definition v1_build_handler :: "token_config list \<Rightarrow> agg_token list \<Rightarrow> swap_config \<Rightarrow> bool \<Rightarrow> (string \<Rightarrow> unit handler) \<Rightarrow> (v1_request \<Rightarrow> execution handler)
    \<Rightarrow> (v1_request \<Rightarrow> string \<Rightarrow> int \<Rightarrow> int \<Rightarrow> int \<Rightarrow> (string \<times> int) option \<Rightarrow> transaction handler)
    \<Rightarrow> (string \<Rightarrow> string \<Rightarrow> scval list \<Rightarrow> transaction handler) \<Rightarrow> v1_body \<Rightarrow> v1_build_reply handler" where
  "v1_build_handler ts us cf v11 screen best classic invoke b =
    hbind (parse_stellar_account (vb_from b) ''from'') (\<lambda>from.
    hbind (screen from) (\<lambda>_.
    hbind (v1_parse ts us b) (\<lambda>q.
    hbind (best q) (\<lambda>ex. v1_build cf v11 (classic q) invoke from q ex))))"

section \<open>How many requests the limiter lets through\<close>

text \<open>The requests served so far, newest first; the clock does not go back.\<close>

type_synonym auth_trace = "(int \<times> string \<times> auth_reply) list"

inductive v1_reach :: "(string, string) jmap \<Rightarrow> int \<Rightarrow> auth_trace \<Rightarrow> buckets \<Rightarrow> bool" for keys limit where
  init: "v1_reach keys limit [] jm_empty"
| serve: "v1_reach keys limit tr bs \<Longrightarrow> (\<forall>e\<in>set tr. fst e \<le> now) \<Longrightarrow> v1_auth keys limit now key bs = (r, bs')
    \<Longrightarrow> v1_reach keys limit ((now, key, r) # tr) bs'"

definition is_granted :: "auth_reply \<Rightarrow> bool" where
  "is_granted r = (case r of Granted _ \<Rightarrow> True | _ \<Rightarrow> False)"

text \<open>Requests with the key granted in the minute that starts at \<open>a\<close>.\<close>

definition granted_in :: "string \<Rightarrow> int \<Rightarrow> auth_trace \<Rightarrow> int" where
  "granted_in key a tr = int (length (filter (\<lambda>(t, k, r). k = key \<and> a \<le> t \<and> t < a + v1_window_ms \<and> is_granted r) tr))"

lemma granted_Nil: "granted_in key a [] = 0"
  by (simp add: granted_in_def)

lemma granted_Cons: "granted_in key a ((t, k, r) # tr) =
    granted_in key a tr + (if k = key \<and> a \<le> t \<and> t < a + v1_window_ms \<and> is_granted r then 1 else 0)"
  by (simp add: granted_in_def)

lemma granted_before: "\<forall>e\<in>set tr. fst e < a \<Longrightarrow> granted_in key a tr = 0"
  by (auto simp: granted_in_def filter_empty_conv)

lemma granted_nonneg: "0 \<le> granted_in key a tr"
  by (simp add: granted_in_def)

text \<open>The count of a bucket bounds what was granted since it began; a minute meets at most two.\<close>

definition window_inv :: "int \<Rightarrow> string \<Rightarrow> int \<Rightarrow> auth_trace \<Rightarrow> buckets \<Rightarrow> bool" where
  "window_inv limit key a tr bs \<longleftrightarrow>
    (case jm_get bs key of
       None \<Rightarrow> granted_in key a tr = 0
     | Some b \<Rightarrow> 0 \<le> bk_count b \<and> (\<exists>e\<in>set tr. fst e = bk_start b) \<and>
         granted_in key a tr \<le>
           (if bk_start b < a then min (bk_count b) limit
            else if bk_start b < a + v1_window_ms then limit + min (bk_count b) limit
            else 2 * limit))"

lemma bucket_for_inv:
  assumes "window_inv limit key a tr bs" "\<forall>e\<in>set tr. fst e \<le> now" "0 \<le> limit"
    and "b = bucket_for now key bs"
  shows "0 \<le> bk_count b" "bk_start b \<le> now" "bk_start b = now \<or> (\<exists>e\<in>set tr. fst e = bk_start b)"
    and "granted_in key a tr \<le>
       (if bk_start b < a then min (bk_count b) limit
        else if bk_start b < a + v1_window_ms then limit + min (bk_count b) limit else 2 * limit)"
proof -
  have W: "0 < v1_window_ms" by (simp add: v1_window_ms_def)
  have early: "granted_in key a tr = 0" if "now < a"
    using assms(2) that by (intro granted_before) force
  show "0 \<le> bk_count b" "bk_start b = now \<or> (\<exists>e\<in>set tr. fst e = bk_start b)"
    using assms(1,4) by (auto simp: bucket_for_def window_inv_def split: option.splits if_splits)
  then show "bk_start b \<le> now" using assms(2) by auto
  show "granted_in key a tr \<le>
       (if bk_start b < a then min (bk_count b) limit
        else if bk_start b < a + v1_window_ms then limit + min (bk_count b) limit else 2 * limit)"
  proof (cases "jm_get bs key")
    case None
    then show ?thesis using assms W early by (auto simp: bucket_for_def window_inv_def)
  next
    case (Some old)
    then have s: "bk_start old \<le> now" using assms(1,2) by (auto simp: window_inv_def)
    show ?thesis
    proof (cases "now - bk_start old \<ge> v1_window_ms")
      case True
      then have b: "b = \<lparr>bk_count = 0, bk_start = now\<rparr>" using Some assms(4) by (simp add: bucket_for_def)
      show ?thesis
      proof (cases "now < a")
        case True
        with early b assms(3) show ?thesis by simp
      next
        case False
        with True b Some assms(1,3) s W show ?thesis by (auto simp: window_inv_def min_def split: if_splits)
      qed
    next
      case False
      with Some assms(4) have "b = old" by (simp add: bucket_for_def)
      with Some assms(1) show ?thesis by (simp only: window_inv_def option.case)
    qed
  qed
qed

lemma v1_auth_inv:
  assumes inv: "window_inv limit key a tr bs" and clock: "\<forall>e\<in>set tr. fst e \<le> now" and "0 \<le> limit"
    and auth: "v1_auth keys limit now k bs = (r, bs')"
  shows "window_inv limit key a ((now, k, r) # tr) bs'"
proof (cases "k = key \<and> jm_get bs' key \<noteq> jm_get bs key \<or> is_granted r \<and> k = key")
  case False
  then have "granted_in key a ((now, k, r) # tr) = granted_in key a tr" by (auto simp: granted_Cons)
  moreover have "jm_get bs' key = jm_get bs key"
    using auth False by (cases "k = key") (auto simp: v1_auth_def Let_def jm.get_put split: option.splits if_splits)
  ultimately show ?thesis using inv by (auto simp: window_inv_def split: option.splits)
next
  case True
  then have k: "k = key" by auto
  let ?b = "bucket_for now key bs"
  let ?c = "?b\<lparr>bk_count := bk_count ?b + 1\<rparr>"
  note b = bucket_for_inv [OF inv clock assms(3) refl]
  from True auth k have bs': "bs' = jm_set key ?c bs" and r: "is_granted r \<Longrightarrow> bk_count ?b + 1 \<le> limit"
    by (auto simp: v1_auth_def Let_def is_granted_def split: option.splits if_splits)
  have "granted_in key a ((now, key, r) # tr) \<le>
       (if bk_start ?c < a then min (bk_count ?c) limit
        else if bk_start ?c < a + v1_window_ms then limit + min (bk_count ?c) limit else 2 * limit)"
    using b(4,2) r assms(3) unfolding granted_Cons by (auto simp: min_def split: if_splits)
  moreover have "\<exists>e\<in>set ((now, key, r) # tr). fst e = bk_start ?c" using b(3) by auto
  ultimately show ?thesis using b(1) by (auto simp: window_inv_def k bs' jm.get_put)
qed

lemma v1_reach_inv: "v1_reach keys limit tr bs \<Longrightarrow> 0 \<le> limit \<Longrightarrow> window_inv limit key a tr bs"
proof (induction rule: v1_reach.induct)
  case init
  then show ?case by (simp add: window_inv_def jm.get_empty granted_Nil)
next
  case (serve tr bs now k r bs')
  then show ?case by (intro v1_auth_inv) auto
qed

text \<open>
  C24. The limiter of the integrator API: in every run of requests with a clock that does not go back,
  no key is granted more than twice its limit in any minute, whenever the minute starts.
\<close>

theorem v1_limit_holds:
  assumes "v1_reach keys limit tr bs" "0 \<le> limit"
  shows "granted_in key a tr \<le> 2 * limit"
  using v1_reach_inv [OF assms, of key a] assms(2)
  by (auto simp: window_inv_def split: option.splits if_splits)

text \<open>A key that has been quiet for a minute is granted, and an unknown one never is.\<close>

lemma v1_quiet_granted:
  assumes "jm_get keys key = Some p" "p \<noteq> []" "1 \<le> limit"
    and "case jm_get bs key of None \<Rightarrow> True | Some b \<Rightarrow> v1_window_ms \<le> now - bk_start b"
  shows "fst (v1_auth keys limit now key bs) = Granted p"
  using assms by (auto simp: v1_auth_def bucket_for_def Let_def split: option.splits)

lemma v1_unknown: "jm_get keys key = None \<Longrightarrow> v1_auth keys limit now key bs = (Unauthorized, bs)"
  by (simp add: v1_auth_def)

theorem v1_limit_holds_witness:
  "granted_in ''k'' 0 [(30000, ''k'', RateLimited 30), (0, ''k'', Granted ''acme'')] \<le> 2"
proof -
  let ?keys = "[(''k'', ''acme'')]"
  define b1 where "b1 = snd (v1_auth ?keys 1 0 ''k'' jm_empty)"
  have 1: "v1_auth ?keys 1 0 ''k'' jm_empty = (Granted ''acme'', b1)" unfolding b1_def by code_simp
  define b2 where "b2 = snd (v1_auth ?keys 1 30000 ''k'' b1)"
  have 2: "v1_auth ?keys 1 30000 ''k'' b1 = (RateLimited 30, b2)" unfolding b2_def b1_def by code_simp
  have "v1_reach ?keys 1 [(30000, ''k'', RateLimited 30), (0, ''k'', Granted ''acme'')] b2"
    by (rule v1_reach.serve [OF v1_reach.serve [OF v1_reach.init _ 1] _ 2]) auto
  from v1_limit_holds [OF this, of "''k''" 0] show ?thesis by simp
qed

section \<open>Quotes and builds\<close>

lemma parse_partner_fee_ok:
  "parse_partner_fee fv rv = Inr (fee, r) \<Longrightarrow> 0 \<le> fee \<and> fee \<le> 100 \<and> (r = None \<longleftrightarrow> fee = 0)"
  by (auto simp: parse_partner_fee_def max_partner_fee_bps_def hbind_Inr split: option.splits if_splits)

lemma v1_parse_ok:
  assumes "v1_parse ts us b = Inr q"
  shows "0 < vq_amount q \<and> 1 \<le> vq_slip q \<and> vq_slip q \<le> 1000 \<and> 0 \<le> vq_fee q \<and> vq_fee q \<le> 100 \<and>
    (vq_ref q = None \<longleftrightarrow> vq_fee q = 0)"
proof -
  from assms obtain n s f r where q: "parse_amount (vb_amount b) ''amount'' = Inr n" "parse_slippage_bps (vb_slip b) 50 = Inr s"
    "parse_partner_fee (vb_fee b) (vb_ref b) = Inr (f, r)" "vq_amount q = n" "vq_slip q = s" "vq_fee q = f" "vq_ref q = r"
    by (auto simp: v1_parse_def hbind_Inr)
  with parse_amount_bounds [OF q(1)] parse_slippage_bounds [OF q(2)] parse_partner_fee_ok [OF q(3)] show ?thesis by simp
qed

lemma slip_min_bounds:
  assumes "1 \<le> s" "s \<le> 1000"
  shows "0 \<le> n \<Longrightarrow> 0 \<le> slip_min n s \<and> slip_min n s \<le> n" and "0 < slip_min n s \<Longrightarrow> 0 < n"
proof -
  have pos: "0 < 10000 - s" using assms by simp
  show "0 \<le> slip_min n s \<and> slip_min n s \<le> n" if "0 \<le> n"
  proof -
    have nn: "0 \<le> n * (10000 - s)" using that pos by simp
    have "n * (10000 - s) \<le> n * 10000" using that assms by (intro mult_left_mono) auto
    then have "n * (10000 - s) div 10000 \<le> n * 10000 div 10000" by (intro zdiv_mono1) auto
    with nn show ?thesis by (simp add: slip_min_def tdiv_nonneg pos_imp_zdiv_nonneg_iff)
  qed
  show "0 < n" if "0 < slip_min n s"
  proof (rule ccontr)
    assume "\<not> 0 < n"
    then have "n * (10000 - s) \<le> 0" using pos by (simp add: mult_nonpos_nonneg)
    then have "slip_min n s \<le> 0" unfolding slip_min_def by (intro tdiv_sign) auto
    with that show False by simp
  qed
qed

lemma share_bounds:
  assumes "0 \<le> g" "0 \<le> fee" "fee \<le> 100"
  shows "0 \<le> tdiv (g * fee) 10000" "tdiv (g * fee) 10000 * 100 \<le> g"
proof -
  have nn: "0 \<le> g * fee" using assms by simp
  then show "0 \<le> tdiv (g * fee) 10000" by (simp add: tdiv_nonneg pos_imp_zdiv_nonneg_iff)
  have "g * fee \<le> g * 100" using assms by (intro mult_left_mono) auto
  moreover have "tdiv (g * fee) 10000 * 10000 \<le> g * fee" using nn by (rule tdiv_mult_le) simp
  ultimately show "tdiv (g * fee) 10000 * 100 \<le> g" by linarith
qed

text \<open>
  An integrator quote adds up: the amount out and the partner's fee are exactly the gross output
  of the best single execution, the fee is at most one percent of it, and the minimum is between 0
  and the amount out.
\<close>

theorem v1_quote_adds_up:
  assumes "v1_quote_handler ts us v11 best b = Inr r"
  shows "\<exists>q ex. v1_parse ts us b = Inr q \<and> best q = Inr ex \<and> 0 < gross_of ex \<and>
    vr_out r + vr_partner_fee r = gross_of ex \<and> 0 \<le> vr_partner_fee r \<and> vr_partner_fee r * 100 \<le> gross_of ex \<and>
    0 \<le> vr_min r \<and> vr_min r \<le> vr_out r"
proof -
  from assms obtain q ex where q: "v1_parse ts us b = Inr q" "best q = Inr ex" "v1_quote v11 q ex = Inr r"
    by (auto simp: v1_quote_handler_def hbind_Inr)
  note ok = v1_parse_ok [OF q(1)]
  from q(3) have g: "0 < gross_of ex" and fee: "vr_partner_fee r = tdiv (gross_of ex * vq_fee q) 10000"
    and out: "vr_out r = gross_of ex - vr_partner_fee r" and mn: "vr_min r = slip_min (vr_out r) (vq_slip q)"
    by (auto simp: v1_quote_def Let_def split: if_splits)
  have sb: "0 \<le> vr_partner_fee r" "vr_partner_fee r * 100 \<le> gross_of ex"
    unfolding fee using share_bounds [of "gross_of ex" "vq_fee q"] g ok by auto
  then have "0 \<le> vr_out r" using g out by simp
  with slip_min_bounds(1) [of "vq_slip q" "vr_out r"] ok mn have "0 \<le> vr_min r \<and> vr_min r \<le> vr_out r" by simp
  with q g sb out show ?thesis by (intro exI [of _ q] exI [of _ ex]) simp
qed

lemma tdiv_above: "0 < b \<Longrightarrow> a - b < tdiv a b * b"
proof (cases "0 \<le> a")
  case True
  assume "0 < b"
  with pos_mod_bound [of b a] div_mult_mod_eq [of a b] have "a - b < a div b * b" by linarith
  with True \<open>0 < b\<close> show ?thesis by (simp add: tdiv_nonneg)
next
  case False
  assume "0 < b"
  with False have "(- a) div b * b \<le> - a" "tdiv a b = - ((- a) div b)" using div_mult_below by (auto simp: tdiv_neg)
  with \<open>0 < b\<close> show ?thesis by simp
qed

lemma v1_fee_net:
  assumes "0 < rt_net_out rt - v1_fee v11 q rt" "0 \<le> vq_fee q" "vq_fee q \<le> 100"
  shows "0 < rt_net_out rt" "v1_fee v11 q rt = (if v1_split v11 q = None then 0 else cdiv (rt_net_out rt * vq_fee q) 10000)"
proof -
  let ?n = "rt_net_out rt" and ?k = "tdiv (rt_net_out rt * (vq_fee q * 10) + 100000 - 1) 100000"
  show n: "0 < ?n"
  proof (cases "v1_split v11 q")
    case (Some x)
    show ?thesis
    proof (rule ccontr)
      assume neg: "\<not> 0 < ?n"
      then have "?n * (vq_fee q * 10) \<ge> ?n * 1000" using assms(2,3) by (intro mult_left_mono_neg) auto
      moreover have "?n * (vq_fee q * 10) - 1 < ?k * 100000"
        using tdiv_above [of 100000 "?n * (vq_fee q * 10) + 100000 - 1"] by simp
      moreover have "?k < ?n" using assms(1) Some by (simp add: v1_fee_def)
      ultimately show False using neg by linarith
    qed
  qed (use assms in \<open>simp add: v1_fee_def\<close>)
  have "cdiv (?n * (vq_fee q * 10)) 100000 = cdiv (?n * vq_fee q) 10000"
  proof -
    have "cdiv (?n * (vq_fee q * 10)) 100000 \<le> x \<longleftrightarrow> cdiv (?n * vq_fee q) 10000 \<le> x" for x
      by (simp add: cdiv_le_iff) linarith
    then show ?thesis by (meson order_antisym order_refl)
  qed
  moreover have "?k = cdiv (?n * (vq_fee q * 10)) 100000"
    using n assms(2) muldiv_ceil_eq [of ?n "vq_fee q * 10" 100000] by (simp add: muldiv_ceil_def)
  ultimately show "v1_fee v11 q rt = (if v1_split v11 q = None then 0 else cdiv (?n * vq_fee q) 10000)"
    by (auto simp: v1_fee_def split: option.split)
qed

lemma v1_soroban_Inr:
  assumes "v1_soroban cf v11 invoke from q ex = Inr r"
  obtains rt where "ex_route ex = Some rt" "rt_instructions rt \<noteq> []"
    "v1_router cf v11 invoke from q rt = Inr r"
proof (cases "ex_route ex")
  case (Some rt)
  with assms show ?thesis by (intro that [OF Some]) (auto simp: v1_soroban_def split: if_splits)
qed (use assms in \<open>simp add: v1_soroban_def\<close>)

lemma v1_router_Inr:
  assumes "v1_router cf v11 invoke from q rt = Inr r"
  shows "vd_kind r = Soroban \<and> vd_partner_fee r = v1_fee v11 q rt \<and> (vd_collected r \<longleftrightarrow> v1_split v11 q \<noteq> None) \<and>
    vd_out r + vd_partner_fee r = rt_net_out rt \<and> 0 < slip_min (vd_out r) (vq_slip q) \<and>
    (case v1_split v11 q of
       Some ref \<Rightarrow> invoke ''execute_route_partner'' (v1_args from q rt (slip_min (vd_out r) (vq_slip q)) @
         [ScvAddress ref, ScvI128 (vq_fee q * 10)] @ surplus_arg cf (rt_total_out rt)) = Inr (vd_tx r)
     | None \<Rightarrow> invoke ''execute_route'' (v1_args from q rt (slip_min (vd_out r) (vq_slip q)) @ surplus_arg cf (rt_total_out rt)) = Inr (vd_tx r))"
  using assms by (cases "v1_split v11 q") (auto simp: v1_router_def Let_def hbind_Inr split: if_splits)


text \<open>
  Where a quote and the build of the same request and execution differ. Classic routes agree on
  the amount and the fee. On a router route with the split the build takes at most one unit more.
  Without it the quote deducts a fee that the build never takes. And a request without a fee is
  quoted as collected but built as not collected.
\<close>

theorem v1_quote_and_build:
  assumes "v1_parse ts us b = Inr q" "v1_quote v11 q ex = Inr quoted" "v1_build cf v11 classic invoke src q ex = Inr built"
  shows "(if ex_single ex = Classic then vr_out quoted = vd_out built \<and> vr_partner_fee quoted = vd_partner_fee built
     else if v11 then vd_out built \<le> vr_out quoted \<and> vr_out quoted \<le> vd_out built + 1
     else vd_partner_fee built = 0 \<and> vd_out built = vr_out quoted + vr_partner_fee quoted) \<and>
    (vq_fee q = 0 \<longrightarrow> vr_collected quoted \<and> \<not> vd_collected built)"
proof -
  note ok = v1_parse_ok [OF assms(1)]
  from assms(2) have g: "0 < gross_of ex" and fee: "vr_partner_fee quoted = tdiv (gross_of ex * vq_fee q) 10000"
    and out: "vr_out quoted = gross_of ex - vr_partner_fee quoted"
    and coll: "vr_collected quoted = (ex_single ex = Classic \<or> vq_fee q = 0 \<or> v11 \<and> vq_ref q \<noteq> None)"
    by (auto simp: v1_quote_def Let_def split: if_splits)
  show ?thesis
  proof (cases "ex_single ex = Classic")
    case True
    with assms(3) fee out coll g show ?thesis
      by (auto simp: v1_build_def v1_classic_def hbind_Inr Let_def gross_of_def)
  next
    case False
    with assms(3) obtain rt where rt: "ex_route ex = Some rt" "v1_router cf v11 (invoke src) src q rt = Inr built"
      by (auto simp: v1_build_def elim: v1_soroban_Inr)
    note w = v1_router_Inr [OF rt(2)]
    have pos: "0 < vd_out built" using slip_min_bounds(2) ok w by blast
    then have bf: "v1_fee v11 q rt = (if v1_split v11 q = None then 0 else cdiv (rt_net_out rt * vq_fee q) 10000)"
      using w ok by (intro v1_fee_net) auto
    have gross: "gross_of ex = rt_net_out rt" using False rt(1) by (simp add: gross_of_def)
    then have nn: "0 \<le> rt_net_out rt * vq_fee q" using g ok by simp
    have "tdiv (rt_net_out rt * vq_fee q) 10000 \<le> cdiv (rt_net_out rt * vq_fee q) 10000 \<and>
        cdiv (rt_net_out rt * vq_fee q) 10000 \<le> tdiv (rt_net_out rt * vq_fee q) 10000 + 1"
      using nn tdiv_above [of 10000 "rt_net_out rt * vq_fee q"] tdiv_mult_le [OF nn, of 10000] cdiv_ge [of 10000 "rt_net_out rt * vq_fee q"]
      by (auto simp: cdiv_le_iff)
    moreover have "v1_split v11 q = None \<longleftrightarrow> \<not> v11 \<or> vq_fee q = 0" using ok by (auto simp: v1_split_def)
    ultimately show ?thesis using False w bf fee out coll gross by auto
  qed
qed

section \<open>Witnesses\<close>

definition ex_body :: v1_body where
  "ex_body = \<lparr>vb_from = JStr (CHR ''G'' # replicate 55 (CHR ''A'')), vb_in = JStr (CHR ''C'' # replicate 55 (CHR ''A'')),
     vb_out = JStr (CHR ''C'' # replicate 55 (CHR ''B'')), vb_amount = JStr ''10000'', vb_slip = JUndef,
     vb_fee = JNum (Fin 10), vb_ref = JStr (CHR ''G'' # replicate 55 (CHR ''B''))\<rparr>"

definition ex_req :: v1_request where
  "ex_req = \<lparr>vq_in = CHR ''C'' # replicate 55 (CHR ''A''), vq_out = CHR ''C'' # replicate 55 (CHR ''B''), vq_amount = 10000,
     vq_slip = 50, vq_fee = 10, vq_ref = Some (CHR ''G'' # replicate 55 (CHR ''B''))\<rparr>"

definition ex_exec :: execution where
  "ex_exec = \<lparr>ex_kind = Classic, ex_single = Classic, ex_route = None, ex_sdex_out = 20000, ex_blend = None\<rparr>"

lemma ex_v1_parse: "v1_parse [] [] ex_body = Inr ex_req"
  by code_simp

lemma ex_v1_from: "parse_stellar_account (vb_from ex_body) ''from'' = Inr (CHR ''G'' # replicate 55 (CHR ''A''))"
  by code_simp

lemma ex_v1_quote: "\<exists>r. v1_quote False ex_req ex_exec = Inr r"
  by (simp add: v1_quote_def ex_exec_def gross_of_def Let_def)

lemma ex_v1_build: "\<exists>r. v1_build cf False (\<lambda>f a e s p. Inr ex_call) (\<lambda>f fn args. Inr ex_call) src ex_req ex_exec = Inr r"
  by (simp add: v1_build_def v1_classic_def ex_exec_def Let_def)

theorem v1_quote_adds_up_witness:
  "\<exists>r. v1_quote_handler [] [] False (\<lambda>q. Inr ex_exec) ex_body = Inr r \<and> vr_out r + vr_partner_fee r = 20000"
proof -
  obtain r where "v1_quote_handler [] [] False (\<lambda>q. Inr ex_exec) ex_body = Inr r"
    using ex_v1_quote by (auto simp: v1_quote_handler_def ex_v1_parse)
  with v1_quote_adds_up [OF this] show ?thesis by (auto simp: gross_of_def ex_exec_def)
qed


theorem v1_quote_and_build_witness:
  "\<exists>a b. v1_quote False ex_req ex_exec = Inr a \<and> v1_build \<lparr>cf_router = ''R'', cf_v12 = True, cf_surplus = False\<rparr> False
      (\<lambda>f a e s p. Inr ex_call) (\<lambda>f fn args. Inr ex_call) ''GA'' ex_req ex_exec = Inr b \<and> vr_out a = vd_out b"
proof -
  let ?cf = "\<lparr>cf_router = ''R'', cf_v12 = True, cf_surplus = False\<rparr>"
  obtain a b where "v1_quote False ex_req ex_exec = Inr a"
    "v1_build ?cf False (\<lambda>f a e s p. Inr ex_call) (\<lambda>f fn args. Inr ex_call) ''GA'' ex_req ex_exec = Inr b"
    using ex_v1_quote ex_v1_build by blast
  with v1_quote_and_build [OF ex_v1_parse this] show ?thesis by (auto simp: ex_exec_def)
qed

end
