(* ===== verification/RfqReference.thy ===== *)
theory RfqReference
  imports RfqSafety FairValue BookFill PartnerApi
begin

text \<open>
  The reference of a request for quotes, \<open>backend/src/rfq/service.ts\<close>: the fair value the
  quotes are labelled against (\<open>buildReference\<close>), the preview of it with its cache, the
  contract's own check of a quote and the explanation of a failed settlement; and the sources
  \<open>server.ts\<close> hands the service. The seven reads that run in parallel are one record of
  answers. The lemmas: every deviation shown is against a positive fair value that is shown too,
  the fair value is exact to one unit, a partial fill of the book is compared pro rata, and the
  cache never answers one preview with the reference of another.
\<close>

section \<open>Fair value of a request\<close>

record issuer_price =
  ip_usd :: num
  ip_source :: string
  ip_ts :: num

record ref_reads =
  rd_usd_in :: "usd_quote option js"
  rd_usd_out :: "usd_quote option js"
  rd_on_chain :: "bool js"
  rd_amm :: "(int \<times> string list) option js"
  rd_book :: "(nat \<times> int \<times> int) js"
  rd_iss_in :: "issuer_price option js"
  rd_iss_out :: "issuer_price option js"

text \<open>The pair: amount, decimals on both sides, the two clock readings of the handler.\<close>

record ref_pair =
  rp_amount :: int
  rp_dec_in :: int
  rp_dec_out :: int
  rp_now :: int
  rp_later :: int

record anchor =
  an_out :: int
  an_price :: "num option"
  an_source :: string
  an_age :: "num option"

text \<open>\<open>BigInt(Math.round(price * 1e12))\<close>, and \<open>10n ** BigInt(decimals)\<close>.\<close>

definition scaled_price :: "num \<Rightarrow> int js" where
  "scaled_price p = big_of_num (num_round (num_mul p (Fin 1000000000000)))"

definition big_pow10 :: "int \<Rightarrow> int js" where
  "big_pow10 d = (if d < 0 then Inl RangeError else Inr (10 ^ nat d))"

definition convert :: "ref_pair \<Rightarrow> int \<Rightarrow> int \<Rightarrow> int js" where
  "convert pr p q =
    js_bind (big_pow10 (rp_dec_out pr)) (\<lambda>a. js_bind (big_pow10 (rp_dec_in pr)) (\<lambda>b.
      big_div (rp_amount pr * p * a) (q * b)))"

fun source_name :: "usd_source \<Rightarrow> string" where
  "source_name Redstone = ''redstone''"
| "source_name Reflector = ''reflector''"

definition joined_source :: "usd_source \<Rightarrow> usd_source \<Rightarrow> string" where
  "joined_source a b = (if a = b then source_name a else source_name a @ ''+'' @ source_name b)"

definition seconds_of :: "int \<Rightarrow> num" where
  "seconds_of ms = num_floor (num_div (num_of_big ms) (Fin 1000))"

text \<open>\<open>Math.max(...xs)\<close> of a list that is not empty\<close>

definition max_of :: "num list \<Rightarrow> num" where
  "max_of xs = foldl num_max (hd xs) (tl xs)"

definition oldest :: "int \<Rightarrow> num list \<Rightarrow> num option" where
  "oldest ms stamps = (if stamps = [] then None else Some (max_of (map (num_sub (seconds_of ms)) stamps)))"

definition oracle_nav :: "ref_pair \<Rightarrow> usd_quote option \<Rightarrow> usd_quote option \<Rightarrow> anchor option js" where
  "oracle_nav pr usd_in usd_out =
    (case (usd_in, usd_out) of
       (Some u, Some v) \<Rightarrow>
         js_bind (scaled_price (uq_price u)) (\<lambda>p. js_bind (scaled_price (uq_price v)) (\<lambda>q.
           if 0 < p \<and> 0 < q
           then js_bind (convert pr p q) (\<lambda>n.
             Inr (Some \<lparr>an_out = n, an_price = Some (num_div (uq_price u) (uq_price v)),
               an_source = joined_source (uq_source u) (uq_source v),
               an_age = oldest (rp_now pr) (filter (num_lt (Fin 0)) [uq_ts u, uq_ts v])\<rparr>))
           else Inr None))
     | _ \<Rightarrow> Inr None)"

text \<open>The contract's own fair value, asked only when the pair has a feed on chain.\<close>

definition chain_nav :: "ref_pair \<Rightarrow> int option js \<Rightarrow> anchor option js" where
  "chain_nav pr fair =
    js_bind fair (\<lambda>f. case f of
        None \<Rightarrow> Inr None
      | Some n \<Rightarrow> Inr (if n \<le> 0 then None
          else Some \<lparr>an_out = n, an_price = Some (num_div (units n (rp_dec_out pr)) (units (rp_amount pr) (rp_dec_in pr))),
                 an_source = ''swapbook'', an_age = None\<rparr>))"

definition nav_of :: "ref_pair \<Rightarrow> bool \<Rightarrow> int option js \<Rightarrow> usd_quote option \<Rightarrow> usd_quote option \<Rightarrow> anchor option js" where
  "nav_of pr on_chain fair u v =
    js_bind (oracle_nav pr u v) (\<lambda>a.
      if a = None \<and> on_chain then chain_nav pr fair else Inr a)"

text \<open>The issuer's price for the side it prices, the oracle's for the other one.\<close>

definition side_price :: "issuer_price option \<Rightarrow> usd_quote option \<Rightarrow> num option" where
  "side_price i u = (case i of Some x \<Rightarrow> Some (ip_usd x) | None \<Rightarrow> map_option uq_price u)"

definition issuer_source :: "issuer_price option \<Rightarrow> issuer_price option \<Rightarrow> string" where
  "issuer_source i j = (case i of Some x \<Rightarrow> ip_source x | None \<Rightarrow> (case j of Some y \<Rightarrow> ip_source y | None \<Rightarrow> []))"

definition issuer_nav :: "ref_pair \<Rightarrow> usd_quote option \<Rightarrow> usd_quote option \<Rightarrow> issuer_price option \<Rightarrow> issuer_price option \<Rightarrow> anchor option js" where
  "issuer_nav pr u v i j =
    (if i = None \<and> j = None \<or> falsy (side_price i u) \<or> falsy (side_price j v) then Inr None
     else js_bind (scaled_price (the (side_price i u))) (\<lambda>p. js_bind (scaled_price (the (side_price j v))) (\<lambda>q.
       if 0 < p \<and> 0 < q
       then js_bind (convert pr p q) (\<lambda>n.
         Inr (Some \<lparr>an_out = n, an_price = None, an_source = issuer_source i j,
           an_age = oldest (rp_later pr) (map ip_ts (List.map_filter (\<lambda>x. x) [i, j]))\<rparr>))
       else Inr None)))"

text \<open>A fill of the book that uses only part of the budget is compared pro rata.\<close>

definition book_vs_nav :: "int \<Rightarrow> int option \<Rightarrow> int \<Rightarrow> int \<Rightarrow> num option js" where
  "book_vs_nav amount nav out used =
    (case nav of
       Some n \<Rightarrow>
         if n \<noteq> 0 \<and> 0 < used \<and> 0 < out
         then js_bind (big_div (n * used) amount) (\<lambda>part. Inr (vs_fair_bps part out))
         else Inr None
     | None \<Rightarrow> Inr None)"

text \<open>\<open>a && b ? vsFairBps(a, b) : null\<close> for amounts that may be absent or zero\<close>

definition deviation :: "int option \<Rightarrow> int option \<Rightarrow> num option" where
  "deviation fair out =
    (case (fair, out) of
       (Some f, Some n) \<Rightarrow> if f \<noteq> 0 \<and> n \<noteq> 0 then vs_fair_bps f n else None
     | _ \<Rightarrow> None)"

definition some_if :: "bool \<Rightarrow> 'a \<Rightarrow> 'a option" where
  "some_if b x = (if b then Some x else None)"

definition build_reference :: "ref_reads \<Rightarrow> int option js \<Rightarrow> ref_pair \<Rightarrow> rfq_reference js" where
  "build_reference rd fair pr =
    js_bind (rd_usd_in rd) (\<lambda>u. js_bind (rd_usd_out rd) (\<lambda>v.
      let on_chain = js_catch (rd_on_chain rd) False;
          amm = js_catch (rd_amm rd) None;
          (fills, book_out, used) = js_catch (rd_book rd) (0, 0, 0);
          i = js_catch (rd_iss_in rd) None;
          j = js_catch (rd_iss_out rd) None
      in js_bind (nav_of pr on_chain fair u v) (\<lambda>nav.
         js_bind (issuer_nav pr u v i j) (\<lambda>iss.
         let nav_out = map_option an_out nav; iss_out = map_option an_out iss
         in js_bind (book_vs_nav (rp_amount pr) nav_out book_out used) (\<lambda>book_bps.
            Inr \<lparr>rr_nav_out = nav_out, rr_nav_price = Option.bind nav an_price, rr_nav_source = map_option an_source nav,
              rr_nav_age = Option.bind nav an_age, rr_oracle_on_chain = on_chain,
              rr_issuer_out = iss_out, rr_issuer_source = map_option an_source iss, rr_issuer_age = Option.bind iss an_age,
              rr_issuer_vs_oracle = deviation iss_out nav_out,
              rr_amm_out = Option.bind amm (\<lambda>(n, _). some_if (n \<noteq> 0) n),
              rr_amm_vs_nav = deviation nav_out (map_option fst amm),
              rr_amm_venues = (case amm of None \<Rightarrow> [] | Some (_, vs) \<Rightarrow> vs),
              rr_book_out = some_if (0 < book_out) book_out, rr_book_in_used = some_if (0 < used) used,
              rr_book_vs_nav = book_bps, rr_book_fills = fills\<rparr>)))))"

section \<open>The preview and its cache\<close>

definition preview_ttl_ms :: int where "preview_ttl_ms = 8000"

definition preview_taker :: string where
  "preview_taker = ''GAAAAAAAAAAAAAAAAAAAAAAAAAAAAAAAAAAAAAAAAAAAAAAAAAAAAWHF''"

record preview_input =
  pv_taker :: "string option"
  pv_in :: string
  pv_out :: string
  pv_amount :: int

record preview_value =
  vv_reference :: rfq_reference
  vv_in :: "string \<times> int"
  vv_out :: "string \<times> int"

type_synonym preview_cache = "(string, preview_value \<times> int) jmap"

definition taker_text :: "preview_input \<Rightarrow> string" where
  "taker_text inp = (case pv_taker inp of None \<Rightarrow> [] | Some t \<Rightarrow> t)"

definition preview_key :: "preview_input \<Rightarrow> string" where
  "preview_key inp =
    taker_text inp @ CHR ''|'' # pv_in inp @ CHR ''|'' # pv_out inp @ CHR ''|'' # big_string (pv_amount inp)"

definition preview_begin :: "string \<Rightarrow> preview_cache \<Rightarrow> preview_input \<Rightarrow> int \<Rightarrow> refusal + preview_value option" where
  "preview_begin contract cache inp now =
    (if contract = [] then Inl Disabled
     else if pv_in inp = pv_out inp then Inl SameToken
     else if pv_amount inp \<le> 0 then Inl AmountNotPositive
     else Inr (case jm_get cache (preview_key inp) of
         Some (v, since) \<Rightarrow> if now - since < preview_ttl_ms then Some v else None
       | None \<Rightarrow> None))"

text \<open>Whose book orders a preview skips: the taker's own.\<close>

definition book_taker :: "preview_input \<Rightarrow> string" where
  "book_taker inp = (case pv_taker inp of None \<Rightarrow> preview_taker | Some t \<Rightarrow> t)"

definition preview_pair :: "(string \<Rightarrow> string \<times> int) \<Rightarrow> preview_input \<Rightarrow> int \<Rightarrow> int \<Rightarrow> ref_pair" where
  "preview_pair meta inp now later =
    \<lparr>rp_amount = pv_amount inp, rp_dec_in = snd (meta (pv_in inp)), rp_dec_out = snd (meta (pv_out inp)),
     rp_now = now, rp_later = later\<rparr>"

definition preview_value_of :: "(string \<Rightarrow> string \<times> int) \<Rightarrow> preview_input \<Rightarrow> rfq_reference \<Rightarrow> preview_value" where
  "preview_value_of meta inp reference = \<lparr>vv_reference = reference, vv_in = meta (pv_in inp), vv_out = meta (pv_out inp)\<rparr>"

definition preview_store :: "preview_cache \<Rightarrow> preview_input \<Rightarrow> preview_value \<Rightarrow> int \<Rightarrow> preview_cache" where
  "preview_store cache inp v now =
    jm_set (preview_key inp) (v, now) (if length cache > 500 then jm_empty else cache)"

definition preview_finish :: "(string \<Rightarrow> string \<times> int) \<Rightarrow> preview_cache \<Rightarrow> preview_input \<Rightarrow> rfq_reference js \<Rightarrow> int
    \<Rightarrow> preview_cache \<times> (refusal + preview_value)" where
  "preview_finish meta cache inp reference now =
    (case reference of
       Inl e \<Rightarrow> (cache, Inl (Failed e))
     | Inr rr \<Rightarrow> let v = preview_value_of meta inp rr in (preview_store cache inp v now, Inr v))"

section \<open>The contract's check and failed settlements\<close>

record check_answer =
  ck_fair :: int
  ck_deviation :: int
  ck_fee :: int
  ck_receives :: int

record check_reply =
  cy_fee :: int
  cy_receives :: int
  cy_fair :: "int option"
  cy_vs_nav :: "num option"

definition check_on_chain :: "check_answer option \<Rightarrow> refusal + check_reply" where
  "check_on_chain res =
    (case res of
       None \<Rightarrow> Inl ContractRefused
     | Some c \<Rightarrow> Inr \<lparr>cy_fee = ck_fee c, cy_receives = ck_receives c,
         cy_fair = some_if (0 < ck_fair c) (ck_fair c),
         cy_vs_nav = some_if (0 < ck_fair c) (num_of_big (ck_deviation c))\<rparr>)"

definition refused_text :: "int \<Rightarrow> string" where
  "refused_text band =
    (if band > 0 then ''contract refused the quote (outside the NAV band, or the NAV feed is stale)''
     else ''contract refused the quote'')"

definition balance_patterns :: "pattern list" where
  "balance_patterns = [lit ''resulting balance is not within the allowed range'', lit ''balance'', lit ''underflow'', lit ''insufficient'']"

definition trust_patterns :: "pattern list" where
  "trust_patterns = [lit ''trustline'', lit ''not authorized'']"

definition rpc_patterns :: "pattern list" where
  "rpc_patterns = [lit ''status code 5'' @ [digit_char, digit_char], lit ''econnreset'', lit ''etimedout'', lit ''timed out'']"

definition auth_patterns :: "pattern list" where
  "auth_patterns = [lit ''auth'', lit ''signature'', lit ''nonce'', lit ''invalidaction'', lit ''recording'', lit ''enforc'']"

definition contract_error_name :: "string \<Rightarrow> string" where
  "contract_error_name c =
    (case map_of [(''3'', ''InvalidAmount''), (''4'', ''SameToken''), (''5'', ''SameParty''), (''6'', ''Expired''),
       (''7'', ''ExpiryTooFar''), (''8'', ''AlreadyUsed (nonce already settled)''), (''9'', ''NavBandTooWide''),
       (''10'', ''NavBandExceeded (quote is outside its NAV band)''),
       (''11'', ''OracleUnavailable (no fresh NAV feed for this pair)''),
       (''15'', ''OracleStale (NAV price older than 1,000 ledgers; the pushed price has not been updated)'')] c of
       Some n \<Rightarrow> n
     | None \<Rightarrow> ''contract error #'' @ c)"

definition explain_failure :: "string \<Rightarrow> string" where
  "explain_failure m =
    (if matches_any balance_patterns m then ''insufficient balance (maker or taker)''
     else if matches_any trust_patterns m then ''missing trustline or unauthorized recipient''
     else if matches_any rpc_patterns m then ''RPC unavailable: retry in a moment''
     else (case contract_code m of
          Some c \<Rightarrow> contract_error_name c
        | None \<Rightarrow> if matches_any auth_patterns m then ''authorization failed (signature, nonce or expiry)''
               else take 300 m))"

section \<open>What the server hands the service\<close>

text \<open>\<open>tokenMeta\<close>, \<open>oracleOnChain\<close>, \<open>ammQuote\<close>, \<open>bookPlan\<close> and
  \<open>issuerUsd\<close>: the answers of the best execution, of the book and of the issuer's price list
  are arguments.\<close>

definition token_meta :: "agg_token list \<Rightarrow> string \<Rightarrow> string \<times> int" where
  "token_meta us sac = (symbol_for_sac us sac, decimals_for_sac us sac)"

definition oracle_on_chain :: "(string \<Rightarrow> string \<Rightarrow> 'v option) \<Rightarrow> string \<Rightarrow> string \<Rightarrow> bool js" where
  "oracle_on_chain price a b =
    (if is_address a \<and> is_address b then Inr (price a b \<noteq> None) else Inl (Thrown ''Unsupported address type''))"

text \<open>\<open>[...new Set(xs)]\<close>: the first occurrences, in order\<close>

definition uniq :: "'a list \<Rightarrow> 'a list" where
  "uniq xs = rev (remdups (rev xs))"

definition amm_quote :: "execution \<Rightarrow> (int \<times> string list) option" where
  "amm_quote ex =
    (if ex_single ex = Classic \<and> 0 < ex_sdex_out ex then Some (ex_sdex_out ex, [''Stellar DEX''])
     else case ex_route ex of
        Some r \<Rightarrow> if 0 < rt_net_out r then Some (rt_net_out r, uniq (map sg_name (rt_segments r))) else None
      | None \<Rightarrow> None)"

definition book_quote :: "book_plan \<Rightarrow> nat \<times> int \<times> int" where
  "book_quote p = (length (bp_fills p), bp_bought p, bp_paid p)"

definition issuer_of :: "agg_token list \<Rightarrow> string \<Rightarrow> string option" where
  "issuer_of us sac = map_option at_issuer (find (\<lambda>t. at_sac t = sac) us)"

section \<open>What the reference promises\<close>

lemma max_of_single [simp]: "max_of [x] = x"
  by (simp add: max_of_def)

lemma big_pow10_Inr: "big_pow10 d = Inr k \<longleftrightarrow> 0 \<le> d \<and> k = 10 ^ nat d"
  by (auto simp: big_pow10_def)

lemma convert_exact:
  assumes "convert pr p q = Inr n" "0 < rp_amount pr" "0 < p" "0 < q"
  shows "0 \<le> n \<and> n * (q * 10 ^ nat (rp_dec_in pr)) \<le> rp_amount pr * p * 10 ^ nat (rp_dec_out pr) \<and>
    rp_amount pr * p * 10 ^ nat (rp_dec_out pr) < (n + 1) * (q * 10 ^ nat (rp_dec_in pr))"
proof -
  have den: "0 < q * 10 ^ nat (rp_dec_in pr)" using assms(4) by simp
  have num: "0 \<le> rp_amount pr * p * 10 ^ nat (rp_dec_out pr)" using assms(2,3) by simp
  from assms(1) have n: "n = tdiv (rp_amount pr * p * 10 ^ nat (rp_dec_out pr)) (q * 10 ^ nat (rp_dec_in pr))"
    using den by (auto simp: convert_def js_bind_Inr_iff big_pow10_Inr simp del: mult_eq_0_iff)
  have "tdiv (rp_amount pr * p * 10 ^ nat (rp_dec_out pr)) (q * 10 ^ nat (rp_dec_in pr)) < n + 1" using n by simp
  with tdiv_less_iff [OF num den, of "n + 1"] tdiv_mult_le [OF num den] n num den show ?thesis
    by (simp add: tdiv_nonneg pos_imp_zdiv_nonneg_iff)
qed

lemma joined_not_swapbook: "joined_source a b \<noteq> ''swapbook''"
  by (cases a; cases b) (simp_all add: joined_source_def)

lemma oracle_nav_Some:
  assumes "oracle_nav pr u v = Inr (Some a)"
  obtains x y p q where "u = Some x" "v = Some y" "scaled_price (uq_price x) = Inr p" "scaled_price (uq_price y) = Inr q"
    "0 < p" "0 < q" "convert pr p q = Inr (an_out a)" "an_price a \<noteq> None" "an_source a \<noteq> ''swapbook''"
proof -
  from assms obtain x y where xy: "u = Some x" "v = Some y" by (auto simp: oracle_nav_def split: option.split_asm)
  with assms obtain p q where pq: "scaled_price (uq_price x) = Inr p" "scaled_price (uq_price y) = Inr q"
    by (auto simp: oracle_nav_def js_bind_Inr_iff)
  with assms xy have pos: "0 < p \<and> 0 < q" by (auto simp: oracle_nav_def split: if_split_asm)
  with assms xy pq have a: "convert pr p q = Inr (an_out a)" "an_price a \<noteq> None"
    "an_source a = joined_source (uq_source x) (uq_source y)"
    by (auto simp: oracle_nav_def js_bind_Inr_iff simp del: filter.simps)
  have "an_source a \<noteq> ''swapbook''" unfolding a(3) by (rule joined_not_swapbook)
  with that [OF xy pq] pos a show thesis by blast
qed

lemma chain_nav_Some:
  "chain_nav pr fair = Inr (Some a) \<Longrightarrow> 0 < an_out a \<and> an_price a \<noteq> None \<and> an_source a = ''swapbook''"
  by (cases fair) (simp_all add: chain_nav_def split: option.split_asm if_split_asm, clarsimp)

lemma nav_of_Some:
  assumes "nav_of pr oc fair u v = Inr (Some a)" "0 < rp_amount pr"
  shows "0 \<le> an_out a \<and> an_price a \<noteq> None \<and> (an_source a = ''swapbook'' \<longrightarrow> oc \<and> oracle_nav pr u v = Inr None)"
proof -
  from assms(1) obtain b where b: "oracle_nav pr u v = Inr b" "(if b = None \<and> oc then chain_nav pr fair else Inr b) = Inr (Some a)"
    by (auto simp: nav_of_def js_bind_Inr_iff)
  show ?thesis
  proof (cases "b = None \<and> oc")
    case True
    with b chain_nav_Some [of pr fair a] show ?thesis by auto
  next
    case False
    with b have "oracle_nav pr u v = Inr (Some a)" by auto
    from oracle_nav_Some [OF this] convert_exact [OF _ assms(2)] show ?thesis by metis
  qed
qed

lemma vs_fair_Some: "vs_fair_bps f n = Some d \<Longrightarrow> 0 < f"
  by (simp add: vs_fair_bps_def split: if_split_asm)

lemma deviation_Some: "deviation f n = Some d \<Longrightarrow> \<exists>x y. f = Some x \<and> n = Some y \<and> 0 < x \<and> y \<noteq> 0"
  by (auto simp: deviation_def dest: vs_fair_Some split: option.split_asm if_split_asm)

lemma book_vs_nav_Some:
  assumes "book_vs_nav amount nav out used = Inr (Some d)" "0 < amount"
  obtains n where "nav = Some n" "0 < n" "0 < used" "0 < out" "vs_fair_bps (n * used div amount) out = Some d"
    "0 < n * used div amount"
proof -
  from assms obtain n where n: "nav = Some n" "n \<noteq> 0" "0 < used" "0 < out" "vs_fair_bps (tdiv (n * used) amount) out = Some d"
    by (auto simp: book_vs_nav_def js_bind_Inr_iff split: option.split_asm if_split_asm)
  from vs_fair_Some [OF n(5)] have part: "0 < tdiv (n * used) amount" .
  have "0 < n"
  proof (rule ccontr)
    assume "\<not> 0 < n"
    then have "n * used < 0" using n(2,3) by (simp add: mult_neg_pos)
    then have "tdiv (n * used) amount \<le> 0" using assms(2) by (simp add: tdiv_neg pos_imp_zdiv_nonneg_iff)
    with part show False by simp
  qed
  then have "tdiv (n * used) amount = n * used div amount" using n(3) assms(2) by (simp add: tdiv_nonneg)
  with that n \<open>0 < n\<close> part show thesis by metis
qed

text \<open>The pieces of a reference that was built.\<close>

lemma build_reference_Inr:
  assumes "build_reference rd fair pr = Inr rr"
  obtains u v nav iss fills out used where "rd_usd_in rd = Inr u" "rd_usd_out rd = Inr v"
    "nav_of pr (rr_oracle_on_chain rr) fair u v = Inr nav" "rr_nav_out rr = map_option an_out nav"
    "rr_nav_source rr = map_option an_source nav" "rr_nav_price rr = Option.bind nav an_price"
    "rr_issuer_vs_oracle rr = deviation iss (rr_nav_out rr)" "rr_issuer_out rr = iss"
    "rr_amm_vs_nav rr = deviation (rr_nav_out rr) (map_option fst (js_catch (rd_amm rd) None))"
    "rr_amm_out rr = Option.bind (js_catch (rd_amm rd) None) (\<lambda>(n, _). some_if (n \<noteq> 0) n)"
    "js_catch (rd_book rd) (0, 0, 0) = (fills, out, used)"
    "book_vs_nav (rp_amount pr) (rr_nav_out rr) out used = Inr (rr_book_vs_nav rr)"
    "rr_book_out rr = some_if (0 < out) out" "rr_book_in_used rr = some_if (0 < used) used"
proof -
  obtain fills out used where b: "js_catch (rd_book rd) (0, 0, 0) = (fills, out, used)" by (metis prod_cases3)
  from assms obtain u v where uv: "rd_usd_in rd = Inr u" "rd_usd_out rd = Inr v"
    by (auto simp: build_reference_def js_bind_Inr_iff)
  define oc where "oc = js_catch (rd_on_chain rd) False"
  from assms uv b obtain nav where nav: "nav_of pr oc fair u v = Inr nav"
    by (auto simp: build_reference_def js_bind_Inr_iff Let_def oc_def)
  with assms uv b obtain iss where iss: "issuer_nav pr u v (js_catch (rd_iss_in rd) None) (js_catch (rd_iss_out rd) None) = Inr iss"
    by (auto simp: build_reference_def js_bind_Inr_iff Let_def oc_def)
  with nav assms uv b obtain bps where bps: "book_vs_nav (rp_amount pr) (map_option an_out nav) out used = Inr bps"
    by (auto simp: build_reference_def js_bind_Inr_iff Let_def oc_def)
  from assms have "rr = \<lparr>rr_nav_out = map_option an_out nav, rr_nav_price = Option.bind nav an_price, rr_nav_source = map_option an_source nav,
      rr_nav_age = Option.bind nav an_age, rr_oracle_on_chain = oc,
      rr_issuer_out = map_option an_out iss, rr_issuer_source = map_option an_source iss, rr_issuer_age = Option.bind iss an_age,
      rr_issuer_vs_oracle = deviation (map_option an_out iss) (map_option an_out nav),
      rr_amm_out = Option.bind (js_catch (rd_amm rd) None) (\<lambda>(n, _). some_if (n \<noteq> 0) n),
      rr_amm_vs_nav = deviation (map_option an_out nav) (map_option fst (js_catch (rd_amm rd) None)),
      rr_amm_venues = (case js_catch (rd_amm rd) None of None \<Rightarrow> [] | Some (_, vs) \<Rightarrow> vs),
      rr_book_out = some_if (0 < out) out, rr_book_in_used = some_if (0 < used) used,
      rr_book_vs_nav = bps, rr_book_fills = fills\<rparr>"
    using uv b nav iss bps by (simp add: build_reference_def Let_def oc_def)
  then show thesis
    using that [of u v nav "map_option an_out iss" fills out used] uv b nav bps by simp
qed


text \<open>
  When both sides have an oracle reading whose price is positive at twelve decimals, the fair
  value is the amount times the price of one over the price of the other, brought to the decimals of
  the output and rounded down: exact to one unit, however many decimals the tokens have.
\<close>

theorem reference_nav_exact:
  assumes "build_reference rd fair pr = Inr rr" "0 < rp_amount pr"
    and "rd_usd_in rd = Inr (Some u)" "rd_usd_out rd = Inr (Some v)"
    and "scaled_price (uq_price u) = Inr p" "scaled_price (uq_price v) = Inr q" "0 < p" "0 < q"
  shows "\<exists>n. rr_nav_out rr = Some n \<and> rr_nav_source rr = Some (joined_source (uq_source u) (uq_source v)) \<and>
    n * (q * 10 ^ nat (rp_dec_in pr)) \<le> rp_amount pr * p * 10 ^ nat (rp_dec_out pr) \<and>
    rp_amount pr * p * 10 ^ nat (rp_dec_out pr) < (n + 1) * (q * 10 ^ nat (rp_dec_in pr))"
proof -
  from assms(1) obtain u' v' nav where r: "rd_usd_in rd = Inr u'" "rd_usd_out rd = Inr v'"
    "nav_of pr (rr_oracle_on_chain rr) fair u' v' = Inr nav" "rr_nav_out rr = map_option an_out nav"
    "rr_nav_source rr = map_option an_source nav"
    by (rule build_reference_Inr)
  with assms(3,4) have uv: "u' = Some u" "v' = Some v" by simp_all
  from r(3) uv assms(5-8) obtain n where n: "convert pr p q = Inr n" "nav \<noteq> None" "an_out (the nav) = n"
    "an_source (the nav) = joined_source (uq_source u) (uq_source v)"
    by (auto simp: nav_of_def oracle_nav_def js_bind_Inr_iff simp del: filter.simps)
  with r(4,5) convert_exact [OF n(1) assms(2,7,8)] show ?thesis by (cases nav) auto
qed

section \<open>What the preview cache serves\<close>

text \<open>What the handlers of a preview leave behind, in the order they end: the log remembers for
  which input, when and what.\<close>

inductive preview_runs :: "(preview_input \<times> preview_value \<times> int) list \<Rightarrow> preview_cache \<Rightarrow> bool" where
  runs_start: "preview_runs [] jm_empty"
| runs_finish: "preview_runs hist c \<Longrightarrow> preview_runs ((inp, v, now) # hist) (preview_store c inp v now)"

definition plain_input :: "preview_input \<Rightarrow> bool" where
  "plain_input inp \<longleftrightarrow> CHR ''|'' \<notin> set (taker_text inp) \<and> CHR ''|'' \<notin> set (pv_in inp) \<and> CHR ''|'' \<notin> set (pv_out inp) \<and>
    pv_taker inp \<noteq> Some []"

lemma sep_inj:
  assumes "a @ c # b = a' @ c # b'" "c \<notin> set a" "c \<notin> set a'"
  shows "a = a' \<and> b = b'"
  using assms
proof (induction a arbitrary: a')
  case (Cons x a)
  then show ?case by (cases a') auto
qed (metis append_Nil list.sel(1,3) list.set_intros(1) append_eq_Cons_conv)

lemma big_string_inj: "big_string m = big_string n \<Longrightarrow> m = n"
  by (metis big_string_round_trip sum.inject(2))

lemma preview_key_inj:
  assumes "preview_key a = preview_key b" "plain_input a" "plain_input b"
  shows "a = b"
proof -
  from assms have t: "taker_text a = taker_text b" and
    "pv_in a @ CHR ''|'' # pv_out a @ CHR ''|'' # big_string (pv_amount a) = pv_in b @ CHR ''|'' # pv_out b @ CHR ''|'' # big_string (pv_amount b)"
    by (auto simp: preview_key_def plain_input_def dest!: sep_inj)
  from sep_inj [OF this(2)] assms(2,3) have i: "pv_in a = pv_in b" and
    "pv_out a @ CHR ''|'' # big_string (pv_amount a) = pv_out b @ CHR ''|'' # big_string (pv_amount b)"
    by (auto simp: plain_input_def)
  from sep_inj [OF this(2)] assms(2,3) have o: "pv_out a = pv_out b" "pv_amount a = pv_amount b"
    by (auto simp: plain_input_def big_string_inj)
  from t assms(2,3) have "pv_taker a = pv_taker b"
    by (auto simp: taker_text_def plain_input_def split: option.splits)
  with i o show ?thesis by (intro preview_input.equality) simp_all
qed

lemma runs_length: "preview_runs hist c \<Longrightarrow> length c \<le> 501"
proof (induction rule: preview_runs.induct)
  case (runs_finish hist c inp v now)
  define m where "m = (if length c > 500 then jm_empty else c)"
  have "length m \<le> 500" by (simp add: m_def jm_empty_def)
  then have "length (jm_set (preview_key inp) (v, now) m) \<le> 501" by (simp add: jm_set_length)
  then show ?case by (simp add: preview_store_def m_def)
qed (simp add: jm_empty_def)

lemma runs_logged:
  assumes "preview_runs hist c" "jm_get c k = Some (v, since)"
  shows "\<exists>inp. (inp, v, since) \<in> set hist \<and> preview_key inp = k"
  using assms
proof (induction rule: preview_runs.induct)
  case (runs_finish hist c inp v' now)
  show ?case
  proof (cases "k = preview_key inp")
    case True
    with runs_finish.prems show ?thesis by (auto simp: preview_store_def jm.get_put_same)
  next
    case False
    with runs_finish.prems have "jm_get (if length c > 500 then jm_empty else c) k = Some (v, since)"
      by (simp add: preview_store_def jm.get_put_other)
    then have "jm_get c k = Some (v, since)" by (auto simp: jm_get_def jm_empty_def split: if_split_asm)
    with runs_finish.IH show ?thesis by auto
  qed
qed (simp add: jm_get_def jm_empty_def)

text \<open>
  However many previews ran before and in whatever order they ended, a preview answered from the
  cache gets the reference that was built for its own taker, tokens and amount, less than eight
  seconds ago; and the cache never holds more than 501 entries. The separator of the keys must not
  occur in the addresses, which it does not in any the endpoint lets through.
\<close>

theorem preview_hit_own:
  assumes "preview_runs hist c" "preview_begin contract c inp now = Inr (Some v)" "plain_input inp"
    and "\<forall>(other, _, _)\<in>set hist. plain_input other"
  shows "length c \<le> 501 \<and> (\<exists>since. (inp, v, since) \<in> set hist \<and> now - since < preview_ttl_ms)"
proof -
  from assms(2) obtain since where hit: "jm_get c (preview_key inp) = Some (v, since)" "now - since < preview_ttl_ms"
    by (auto simp: preview_begin_def split: if_split_asm option.split_asm)
  from runs_logged [OF assms(1) hit(1)] obtain other where o: "(other, v, since) \<in> set hist" "preview_key other = preview_key inp"
    by blast
  with assms(3,4) have "other = inp" by (intro preview_key_inj) auto
  with o hit runs_length [OF assms(1)] show ?thesis by blast
qed

section \<open>The properties at concrete inputs\<close>

definition demo_usd :: "num \<Rightarrow> usd_source \<Rightarrow> usd_quote" where
  "demo_usd p s = \<lparr>uq_price = p, uq_source = s, uq_ts = Fin 1000\<rparr>"

definition demo_reads :: ref_reads where
  "demo_reads = \<lparr>rd_usd_in = Inr None, rd_usd_out = Inr None, rd_on_chain = Inr True, rd_amm = Inr None,
     rd_book = Inr (1, 120, 50), rd_iss_in = Inr None, rd_iss_out = Inr None\<rparr>"

definition demo_pair :: ref_pair where
  "demo_pair = \<lparr>rp_amount = 100, rp_dec_in = 7, rp_dec_out = 7, rp_now = 0, rp_later = 0\<rparr>"


lemma scaled_two: "scaled_price (Fin 2) = Inr 2000000000000" "scaled_price (Fin 4) = Inr 4000000000000"
proof -
  have "\<lfloor>2000000000000 + 1 / 2 :: rat\<rfloor> = 2000000000000" "\<lfloor>4000000000000 + 1 / 2 :: rat\<rfloor> = 4000000000000"
    by (simp_all add: floor_eq_iff)
  then show "scaled_price (Fin 2) = Inr 2000000000000" "scaled_price (Fin 4) = Inr 4000000000000"
    by (simp_all add: scaled_price_def num_round_def rnd_numeral big_of_num_def num_int_def)
qed

theorem reference_nav_exact_witness:
  "\<exists>rr. build_reference (demo_reads\<lparr>rd_usd_in := Inr (Some (demo_usd (Fin 2) Redstone)),
      rd_usd_out := Inr (Some (demo_usd (Fin 4) Reflector))\<rparr>) (Inr None) demo_pair = Inr rr \<and>
    rr_nav_out rr = Some 50 \<and> rr_nav_source rr = Some ''redstone+reflector''"
proof -
  let ?rd = "demo_reads\<lparr>rd_usd_in := Inr (Some (demo_usd (Fin 2) Redstone)), rd_usd_out := Inr (Some (demo_usd (Fin 4) Reflector))\<rparr>"
  obtain rr where rr: "build_reference ?rd (Inr None) demo_pair = Inr rr"
    by (auto simp: build_reference_def demo_reads_def demo_pair_def demo_usd_def nav_of_def oracle_nav_def issuer_nav_def
        book_vs_nav_def convert_def big_pow10_def tdiv_def Let_def scaled_two simp del: filter.simps)
  have "\<exists>n. rr_nav_out rr = Some n \<and> rr_nav_source rr = Some (joined_source Redstone Reflector) \<and>
      n * (4000000000000 * 10 ^ 7) \<le> 100 * 2000000000000 * 10 ^ 7 \<and> 100 * 2000000000000 * 10 ^ 7 < (n + 1) * (4000000000000 * 10 ^ 7)"
    using reference_nav_exact [OF rr, of "demo_usd (Fin 2) Redstone" "demo_usd (Fin 4) Reflector" 2000000000000 4000000000000]
    by (simp add: demo_reads_def demo_pair_def demo_usd_def scaled_two)
  then obtain n where "rr_nav_out rr = Some n" "rr_nav_source rr = Some ''redstone+reflector''" "n \<le> 50" "50 < n + 1"
    by (auto simp: joined_source_def)
  with rr show ?thesis by auto
qed

theorem preview_hit_own_witness:
  "\<exists>v c. preview_runs [(\<lparr>pv_taker = None, pv_in = ''A'', pv_out = ''B'', pv_amount = 5\<rparr>, v, 1000)] c \<and>
    preview_begin ''C'' c \<lparr>pv_taker = None, pv_in = ''A'', pv_out = ''B'', pv_amount = 5\<rparr> 2000 = Inr (Some v) \<and> length c \<le> 501"
proof -
  let ?i = "\<lparr>pv_taker = None, pv_in = ''A'', pv_out = ''B'', pv_amount = 5\<rparr>"
  let ?v = "preview_value_of (\<lambda>_. ([], 7)) ?i no_reference"
  let ?c = "preview_store jm_empty ?i ?v 1000"
  have runs: "preview_runs [(?i, ?v, 1000)] ?c" by (rule runs_finish [OF runs_start])
  have hit: "preview_begin ''C'' ?c ?i 2000 = Inr (Some ?v)"
    by (simp add: preview_begin_def preview_store_def jm_get_def preview_ttl_ms_def jm_empty_def)
  have plain: "plain_input ?i" by (simp add: plain_input_def taker_text_def)
  from preview_hit_own [OF runs hit plain] plain runs hit show ?thesis by auto
qed

end
