(* ===== verification/RfqApi.thy ===== *)
theory RfqApi
  imports RfqReference
begin

text \<open>
  The RFQ endpoints of \<open>backend/src/server.ts\<close>: what each reads from a request before it
  calls the service, the replies to a refusal, and the event stream of the makers. The lemmas: what
  a request opened over HTTP looks like, that every maker endpoint needs a key, which replies an
  error gives, and what a reported settlement records.
\<close>

section \<open>Errors\<close>

text \<open>The service refuses with its own error class; everything else goes to the common
  handler.\<close>

datatype api_error = Http http_error | Refused refusal

type_synonym 'a api = "api_error + 'a"

definition lift_http :: "'a handler \<Rightarrow> 'a api" where
  "lift_http m = (case m of Inl e \<Rightarrow> Inl (Http e) | Inr x \<Rightarrow> Inr x)"

definition lift_refusal :: "refusal + 'a \<Rightarrow> 'a api" where
  "lift_refusal m = (case m of Inl (Failed e) \<Rightarrow> Inl (Http (OtherError (exn_message e)))
     | Inl r \<Rightarrow> Inl (Refused r) | Inr x \<Rightarrow> Inr x)"

definition abind :: "'a api \<Rightarrow> ('a \<Rightarrow> 'b api) \<Rightarrow> 'b api" where
  "abind m f = (case m of Inl e \<Rightarrow> Inl e | Inr x \<Rightarrow> f x)"

definition handle_rfq_error :: "api_error \<Rightarrow> int" where
  "handle_rfq_error e = (case e of Refused r \<Rightarrow> int (rfq_status r) | Http h \<Rightarrow> fst (handle_error h))"

definition require_key :: "string option \<Rightarrow> (string \<Rightarrow> 'a api) \<Rightarrow> int + 'a api" where
  "require_key label f = (case label of None \<Rightarrow> Inl 401 | Some l \<Rightarrow> Inr (f l))"

section \<open>Taker endpoints\<close>

record request_body =
  rb_taker :: jv
  rb_in :: jv
  rb_out :: jv
  rb_amount :: jv
  rb_ttl :: jv

definition parse_ttl :: "jv \<Rightarrow> int option handler" where
  "parse_ttl v =
    (if v = JUndef then Inr None
     else case num_of_jv v of
       Fin q \<Rightarrow> Inr (Some \<lfloor>q\<rfloor>)
     | _ \<Rightarrow> Inl (BadRequest ''ttlSec must be a number''))"

definition request_params :: "token_config list \<Rightarrow> agg_token list \<Rightarrow> (string \<Rightarrow> unit handler) \<Rightarrow> request_body \<Rightarrow> create_input handler" where
  "request_params ts us screen b =
    hbind (parse_stellar_account (rb_taker b) ''taker'') (\<lambda>taker.
    hbind (screen taker) (\<lambda>_.
    hbind (resolve_token_param ts us (rb_in b) ''tokenIn'') (\<lambda>tin.
    hbind (resolve_token_param ts us (rb_out b) ''tokenOut'') (\<lambda>tout.
    hbind (parse_amount (rb_amount b) ''amountIn'') (\<lambda>amount.
    hbind (parse_ttl (rb_ttl b)) (\<lambda>ttl.
      Inr \<lparr>ci_taker = taker, ci_token_in = tin, ci_token_out = tout, ci_amount = amount, ci_ttl = ttl\<rparr>))))))"

text \<open>\<open>POST /api/rfq/request\<close> up to the service's reads, and what it inserts after them.\<close>

definition request_begin :: "token_config list \<Rightarrow> agg_token list \<Rightarrow> (string \<Rightarrow> unit handler) \<Rightarrow> string \<Rightarrow> rfq_store \<Rightarrow> int \<Rightarrow> int
    \<Rightarrow> request_body \<Rightarrow> (create_input \<times> int) api" where
  "request_begin ts us screen contract s now now' b =
    abind (lift_http (request_params ts us screen b)) (\<lambda>inp.
    abind (lift_refusal (create_check contract s inp now now')) (\<lambda>ttl. Inr (inp, ttl)))"

definition request_end :: "(string \<Rightarrow> string \<times> int) \<Rightarrow> rfq_store \<Rightarrow> create_input \<times> int \<Rightarrow> int js \<Rightarrow> rfq_reference js \<Rightarrow> int \<Rightarrow> string
    \<Rightarrow> rfq_store \<times> public_request api" where
  "request_end meta s call ledger reference now i =
    (case js_bind ledger (\<lambda>l. js_bind reference (\<lambda>rr. Inr (l, rr))) of
       Inl e \<Rightarrow> (s, Inl (Http (OtherError (exn_message e))))
     | Inr (l, rr) \<Rightarrow>
         let r = new_request meta (fst call) (snd call) l rr now i
         in (store_insert r s, Inr (to_public r)))"

record reference_query =
  fq_taker :: jv
  fq_in :: jv
  fq_out :: jv
  fq_amount :: jv

definition reference_params :: "token_config list \<Rightarrow> agg_token list \<Rightarrow> reference_query \<Rightarrow> preview_input handler" where
  "reference_params ts us q =
    hbind (resolve_token_param ts us (fq_in q) ''tokenIn'') (\<lambda>tin.
    hbind (resolve_token_param ts us (fq_out q) ''tokenOut'') (\<lambda>tout.
    hbind (parse_amount (fq_amount q) ''amountIn'') (\<lambda>amount.
    hbind (case fq_taker q of
             JStr t \<Rightarrow> if t = [] then Inr None else hbind (parse_stellar_account (JStr t) ''taker'') (\<lambda>a. Inr (Some a))
           | _ \<Rightarrow> Inr None) (\<lambda>taker.
      Inr \<lparr>pv_taker = taker, pv_in = tin, pv_out = tout, pv_amount = amount\<rparr>))))"

definition reference_begin :: "token_config list \<Rightarrow> agg_token list \<Rightarrow> string \<Rightarrow> preview_cache \<Rightarrow> int \<Rightarrow> reference_query
    \<Rightarrow> (preview_input \<times> preview_value option) api" where
  "reference_begin ts us contract cache now q =
    abind (lift_http (reference_params ts us q)) (\<lambda>inp.
    abind (lift_refusal (preview_begin contract cache inp now)) (\<lambda>hit. Inr (inp, hit)))"

definition get_endpoint :: "string \<Rightarrow> rfq_store \<Rightarrow> string \<Rightarrow> int \<Rightarrow> rfq_store \<times> public_request api" where
  "get_endpoint contract s i now = (case rfq_get contract s i now of (s', r) \<Rightarrow> (s', lift_refusal r))"

definition accept_params :: "jv \<Rightarrow> string handler" where
  "accept_params v = (case v of
      JStr q \<Rightarrow> if q = [] then Inl (BadRequest ''quoteId is required'') else Inr q
    | _ \<Rightarrow> Inl (BadRequest ''quoteId is required''))"

definition accept_endpoint_begin :: "string \<Rightarrow> rfq_store \<Rightarrow> string \<Rightarrow> jv \<Rightarrow> string api" where
  "accept_endpoint_begin contract s i v =
    abind (lift_http (accept_params v)) (\<lambda>qid. abind (lift_refusal (accept_begin contract s i qid)) (\<lambda>_. Inr qid))"

definition cancel_endpoint :: "string \<Rightarrow> rfq_store \<Rightarrow> string \<Rightarrow> rfq_store \<times> public_request api" where
  "cancel_endpoint contract s i = (case rfq_cancel contract s i of (s', r) \<Rightarrow> (s', lift_refusal r))"

definition hex_char :: "char \<Rightarrow> bool" where
  "hex_char c \<longleftrightarrow> is_digit c \<or> (97 \<le> (of_char (lower_char c) :: nat) \<and> (of_char (lower_char c) :: nat) \<le> 102)"

definition hash_text :: "string \<Rightarrow> bool" where
  "hash_text h \<longleftrightarrow> length h = 64 \<and> list_all hex_char h"

definition settled_endpoint :: "(num \<Rightarrow> string) \<Rightarrow> string \<Rightarrow> rfq_store \<Rightarrow> string \<Rightarrow> jv \<Rightarrow> rfq_store \<times> public_request api" where
  "settled_endpoint nt contract s i v =
    (let h = text_of_jv nt v
     in if \<not> hash_text h then (s, Inl (Http (BadRequest ''hash must be a 64-hex transaction hash'')))
        else (case rfq_mark_settled contract s i (lower h) of (s', r) \<Rightarrow> (s', lift_refusal r)))"

section \<open>Maker endpoints\<close>

record prepare_body =
  pb_maker :: jv
  pb_out :: jv
  pb_ttl :: jv
  pb_band :: jv

definition number_or_none :: "jv \<Rightarrow> num option" where
  "number_or_none v = (if v = JUndef then None else Some (num_of_jv v))"

definition prepare_params :: "(string \<Rightarrow> unit handler) \<Rightarrow> prepare_body \<Rightarrow> (string \<times> int \<times> num option \<times> num option) handler" where
  "prepare_params screen b =
    hbind (parse_stellar_account (pb_maker b) ''maker'') (\<lambda>maker.
    hbind (screen maker) (\<lambda>_.
    hbind (parse_amount (pb_out b) ''amountOut'') (\<lambda>out.
      Inr (maker, out, number_or_none (pb_ttl b), number_or_none (pb_band b)))))"

text \<open>The life asked for, floored and clamped: an infinite number is a bound of the clamp. NaN
  passes the clamp unchanged and is refused only by the encoder of the SDK, so it has no input of the
  service here.\<close>

definition ledgers_of :: "num \<Rightarrow> int option" where
  "ledgers_of n = (case n of NaN \<Rightarrow> None | NInf \<Rightarrow> Some min_quote_ttl | PInf \<Rightarrow> Some max_quote_ttl | Fin q \<Rightarrow> Some \<lfloor>q\<rfloor>)"

definition prepare_input_of :: "string \<times> int \<times> num option \<times> num option \<Rightarrow> prepare_input option" where
  "prepare_input_of p =
    (case p of (maker, out, ttl, band) \<Rightarrow>
       (case ttl of
          None \<Rightarrow> Some \<lparr>pi_maker = maker, pi_out = out, pi_ttl = None, pi_band = band\<rparr>
        | Some n \<Rightarrow> (case ledgers_of n of None \<Rightarrow> None
            | Some k \<Rightarrow> Some \<lparr>pi_maker = maker, pi_out = out, pi_ttl = Some k, pi_band = band\<rparr>)))"

definition open_endpoint :: "string option \<Rightarrow> rfq_store \<Rightarrow> int \<Rightarrow> int + public_request list api" where
  "open_endpoint label s now = require_key label (\<lambda>_. Inr (rfq_list_open s now))"

definition prepare_endpoint_begin :: "string option \<Rightarrow> (string \<Rightarrow> unit handler) \<Rightarrow> string \<Rightarrow> rfq_store \<Rightarrow> string \<Rightarrow> int \<Rightarrow> prepare_body
    \<Rightarrow> int + (rfq_request \<times> prepare_input option) api" where
  "prepare_endpoint_begin label screen contract s i now b = require_key label (\<lambda>_.
    abind (lift_http (prepare_params screen b)) (\<lambda>p.
    abind (lift_refusal (prepare_check contract s i \<lparr>pi_maker = fst p, pi_out = fst (snd p), pi_ttl = None, pi_band = None\<rparr> now)) (\<lambda>r.
      Inr (r, prepare_input_of p))))"

definition quote_params :: "jv \<Rightarrow> string handler" where
  "quote_params v = (case v of JStr x \<Rightarrow> Inr x | _ \<Rightarrow> Inl (BadRequest ''signedAuthXdr is required''))"

definition quote_endpoint_begin :: "string option \<Rightarrow> string \<Rightarrow> (string \<Rightarrow> decoded_entry js) \<Rightarrow> rfq_store \<Rightarrow> string \<Rightarrow> int \<Rightarrow> jv
    \<Rightarrow> int + (string \<times> string \<times> quote_fields) api" where
  "quote_endpoint_begin label contract decode s i now v = require_key label (\<lambda>l.
    abind (lift_http (quote_params v)) (\<lambda>x.
    abind (lift_refusal (submit_begin contract decode s i x now)) (\<lambda>f. Inr (l, x, f))))"

section \<open>The event stream\<close>

definition sse_frame :: "string \<Rightarrow> string \<Rightarrow> string" where
  "sse_frame event data = ''event: '' @ event @ CHR 0x0A # ''data: '' @ data @ [CHR 0x0A, CHR 0x0A]"

definition heartbeat :: string where
  "heartbeat = '': hb'' @ [CHR 0x0A, CHR 0x0A]"

fun event_type :: "rfq_event \<Rightarrow> string" where
  "event_type (RequestCreated _) = ''request.created''"
| "event_type (RequestClosed _ _) = ''request.closed''"

text \<open>What is written to a listener: the greeting with the open requests, then one frame for each
  event and a comment for each heartbeat. \<open>json\<close> is \<open>JSON.stringify\<close>.\<close>

datatype stream_item = Event rfq_event | Heartbeat

definition stream_item_text :: "(rfq_event \<Rightarrow> string) \<Rightarrow> stream_item \<Rightarrow> string" where
  "stream_item_text json it = (case it of Event ev \<Rightarrow> sse_frame (event_type ev) (json ev) | Heartbeat \<Rightarrow> heartbeat)"

definition stream_endpoint :: "string option \<Rightarrow> string \<Rightarrow> (string \<Rightarrow> public_request list \<Rightarrow> string) \<Rightarrow> (rfq_event \<Rightarrow> string) \<Rightarrow> rfq_store \<Rightarrow> int
    \<Rightarrow> stream_item list \<Rightarrow> int + string" where
  "stream_endpoint label contract hello json s now items =
    (case label of
       None \<Rightarrow> Inl 401
     | Some l \<Rightarrow> if contract = [] then Inl 503
         else Inr (sse_frame ''hello'' (hello l (rfq_list_open s now)) @ concat (map (stream_item_text json) items)))"

section \<open>What the endpoints guarantee\<close>

lemma lift_http_Inr [simp]: "lift_http m = Inr x \<longleftrightarrow> m = Inr x"
  by (simp add: lift_http_def split: sum.split)

lemma lift_refusal_Inr [simp]: "lift_refusal m = Inr x \<longleftrightarrow> m = Inr x"
  by (simp add: lift_refusal_def split: sum.split refusal.split)

lemma abind_Inr: "abind m f = Inr y \<longleftrightarrow> (\<exists>x. m = Inr x \<and> f x = Inr y)"
  by (cases m) (auto simp: abind_def)

lemma clamp_ttl_bounds: "5 \<le> clamp_ttl t \<and> clamp_ttl t \<le> 120"
  by (simp add: clamp_ttl_def max_request_ttl_def)

lemma request_params_Inr:
  assumes "request_params ts us screen b = Inr inp"
  shows "strkey (CHR ''G'') (ci_taker inp) \<and> screen (ci_taker inp) = Inr () \<and> 0 < ci_amount inp \<and> ci_amount inp \<le> max_amount \<and>
    resolve_token_param ts us (rb_in b) ''tokenIn'' = Inr (ci_token_in inp) \<and>
    resolve_token_param ts us (rb_out b) ''tokenOut'' = Inr (ci_token_out inp)"
proof -
  from assms obtain taker tin tout amount ttl where r:
    "parse_stellar_account (rb_taker b) ''taker'' = Inr taker" "screen taker = Inr ()"
    "resolve_token_param ts us (rb_in b) ''tokenIn'' = Inr tin" "resolve_token_param ts us (rb_out b) ''tokenOut'' = Inr tout"
    "parse_amount (rb_amount b) ''amountIn'' = Inr amount"
    "inp = \<lparr>ci_taker = taker, ci_token_in = tin, ci_token_out = tout, ci_amount = amount, ci_ttl = ttl\<rparr>"
    by (auto simp: request_params_def hbind_Inr)
  from parse_account_ok [OF r(1)] parse_amount_bounds [OF r(5)] r(2-4,6) show ?thesis by simp
qed

text \<open>
  A request opened over HTTP: the taker is a well-formed account that passed screening, the two
  tokens differ, the amount is positive and plausible, it lives between 5 and 120 seconds, it is open,
  has no quotes and is announced to the makers as stored; and when the taker holds three open
  requests already, nothing is opened.
\<close>

theorem rfq_request_terms:
  assumes "request_begin ts us screen contract s now now' b = Inr call"
    and "request_end meta s' call (Inr l) (Inr rr) later i = (s'', Inr pub)"
  shows "\<exists>r. s'' = store_insert r s' \<and> pub = to_public r \<and> r_id r = i \<and>
    strkey (CHR ''G'') (r_taker r) \<and> screen (r_taker r) = Inr () \<and> r_token_in r \<noteq> r_token_out r \<and>
    0 < r_amount_in r \<and> r_amount_in r \<le> 10 ^ 26 \<and> r_created r + 5000 \<le> r_expires r \<and> r_expires r \<le> r_created r + 120000 \<and>
    r_status r = Open \<and> r_quotes r = [] \<and> r_reference r = rr \<and> length (taker_open s (r_taker r) now) < 3"
proof -
  from assms(1) obtain inp ttl where call: "call = (inp, ttl)" "request_params ts us screen b = Inr inp"
    "create_check contract s inp now now' = Inr ttl"
    by (auto simp: request_begin_def abind_Inr)
  from call(3) have chk: "ci_token_in inp \<noteq> ci_token_out inp" "length (taker_open s (ci_taker inp) now) < 3"
    "ttl = clamp_ttl (ci_ttl inp)"
    by (auto simp: create_check_def Let_def max_open_per_taker_def split: if_split_asm)
  from clamp_ttl_bounds [of "ci_ttl inp"] chk(3) have t: "5 \<le> ttl" "ttl \<le> 120" by simp_all
  define r where "r = new_request meta inp ttl l rr later i"
  have "s'' = store_insert r s'" "pub = to_public r"
    using assms(2) by (simp_all add: request_end_def call(1) r_def Let_def)
  moreover have "r_id r = i" "r_taker r = ci_taker inp" "r_token_in r = ci_token_in inp" "r_token_out r = ci_token_out inp"
    "r_amount_in r = ci_amount inp" "r_expires r = r_created r + ttl * 1000" "r_status r = Open" "r_quotes r = []" "r_reference r = rr"
    by (simp_all add: r_def new_request_def)
  ultimately show ?thesis
    using request_params_Inr [OF call(2)] chk(1,2) t
    by (intro exI [of _ r]) (simp add: max_amount_def)
qed

lemma of_char_lower: "of_char (lower_char c) = (if 65 \<le> (of_char c :: nat) \<and> of_char c \<le> (90::nat) then of_char c + 32 else (of_char c :: nat))"
  by (simp add: lower_char_def)

definition lower_hex :: "char \<Rightarrow> bool" where
  "lower_hex c \<longleftrightarrow> is_digit c \<or> (97 \<le> (of_char c :: nat) \<and> (of_char c :: nat) \<le> 102)"

lemma lower_char_hex: "hex_char c \<Longrightarrow> lower_hex (lower_char c)"
  unfolding hex_char_def lower_hex_def is_digit_def of_char_lower by (auto split: if_splits)

text \<open>
  A settlement that is reported and accepted: the text was a 64-digit hexadecimal hash, the
  request named by the id exists and now carries that hash in lower case, an open or accepted request
  becomes settled, a cancelled or expired one keeps its status, and nothing else changes in any
  request. The reply shows the request after the change.
\<close>

theorem settled_report:
  assumes "store_ok s" "settled_endpoint nt contract s i v = (s', Inr pub)"
  shows "\<exists>r h. obj s i = Some r \<and> length h = 64 \<and> list_all lower_hex h \<and>
    obj s' = (obj s)(i \<mapsto> r\<lparr>r_status := (if r_status r \<in> {request_status.Open, request_status.Accepted} then request_status.Settled else r_status r), r_hash := Some h\<rparr>) \<and>
    pub = to_public (the (obj s' i))"
proof -
  define t where "t = text_of_jv nt v"
  from assms(2) have t: "hash_text t" "rfq_mark_settled contract s i (lower t) = (s', Inr pub)"
    by (auto simp: settled_endpoint_def t_def Let_def split: if_split_asm prod.split_asm)
  then obtain r where r: "require_request contract s i = Inr r"
    by (auto simp: rfq_mark_settled_def split: sum.split_asm)
  then have g: "store_get s i = Some r" by (auto simp: require_request_def split: if_split_asm option.split_asm)
  then have o: "obj s i = Some r" by (simp add: store_get_def split: if_split_asm)
  with assms(1) have id: "r_id r = i" by (simp add: store_ok_def)
  have h: "length (lower t) = 64" "list_all lower_hex (lower t)"
    using t(1) by (auto simp: hash_text_def lower_def list_all_iff lower_char_hex)
  let ?r' = "r\<lparr>r_status := (if r_status r \<in> {request_status.Open, request_status.Accepted} then request_status.Settled else r_status r), r_hash := Some (lower t)\<rparr>"
  have same: "r\<lparr>r_status := st, r_hash := x\<rparr> = r\<lparr>r_hash := x\<rparr>" if "r_status r = st" for st x
    using that by (cases r) simp
  have "obj s' = (obj s)(i \<mapsto> ?r') \<and> pub = to_public ?r'"
    using t(2) r g o id
    by (cases "r_status r") (auto simp: rfq_mark_settled_def store_close_def Let_def fun_eq_iff same)
  with o h show ?thesis by auto
qed

section \<open>The properties at concrete inputs\<close>

definition demo_body :: request_body where
  "demo_body = \<lparr>rb_taker = JStr (CHR ''G'' # replicate 55 (CHR ''A'')), rb_in = JStr (CHR ''C'' # replicate 55 (CHR ''A'')),
     rb_out = JStr (CHR ''C'' # replicate 55 (CHR ''B'')), rb_amount = JStr ''10000'', rb_ttl = JUndef\<rparr>"

definition demo_call :: create_input where
  "demo_call = \<lparr>ci_taker = CHR ''G'' # replicate 55 (CHR ''A''), ci_token_in = CHR ''C'' # replicate 55 (CHR ''A''),
     ci_token_out = CHR ''C'' # replicate 55 (CHR ''B''), ci_amount = 10000, ci_ttl = None\<rparr>"

lemma demo_request_params: "request_params [] [] (\<lambda>_. Inr ()) demo_body = Inr demo_call"
  by code_simp

lemma demo_begin: "request_begin [] [] (\<lambda>_. Inr ()) ''C'' store_init 5000 5000 demo_body = Inr (demo_call, 20)"
  by (simp add: request_begin_def demo_request_params abind_def lift_http_def lift_refusal_def create_check_def taker_open_def store_open_def
      store_values_def store_init_def Let_def max_open_per_taker_def min_request_spacing_def clamp_ttl_def) (simp add: demo_call_def
      default_request_ttl_def max_request_ttl_def)

theorem rfq_request_terms_witness:
  "\<exists>s pub. request_end (\<lambda>_. ([], 7)) store_init (demo_call, 20) (Inr 50) (Inr no_reference) 5000 ''r'' = (s, Inr pub) \<and>
    (\<exists>r. pub = to_public r \<and> r_status r = Open \<and> r_amount_in r \<le> 10 ^ 26)"
proof -
  obtain s pub where e: "request_end (\<lambda>_. ([], 7)) store_init (demo_call, 20) (Inr 50) (Inr no_reference) 5000 ''r'' = (s, Inr pub)"
    by (simp add: request_end_def Let_def)
  from rfq_request_terms [OF demo_begin e] e show ?thesis by blast
qed

theorem settled_report_witness:
  "\<exists>s' pub. settled_endpoint (\<lambda>_. []) ''C'' (store_insert (demo_request ''r1'') store_init) ''r1'' (JStr (replicate 64 CHR ''A'')) = (s', Inr pub) \<and>
    (\<exists>r. obj s' ''r1'' = Some r \<and> r_status r = request_status.Settled)"
proof -
  let ?s = "store_insert (demo_request ''r1'') store_init"
  have live: "store_get ?s ''r1'' = Some (demo_request ''r1'')"
    using demo_store_live by (simp add: store_get_def store_insert_ok(2) [OF store_init_ok] demo_request_def)
  have hex: "hash_text (replicate 64 CHR ''A'')" by (simp add: hash_text_def list_all_iff hex_char_def of_char_lower)
  obtain s' pub where e: "settled_endpoint (\<lambda>_. []) ''C'' ?s ''r1'' (JStr (replicate 64 CHR ''A'')) = (s', Inr pub)"
    using live by (simp add: settled_endpoint_def hex rfq_mark_settled_def require_request_def lift_refusal_def Let_def)
  from settled_report [OF demo_store_ok e] live obtain r h where "obj ?s ''r1'' = Some r"
    "obj s' ''r1'' = Some (r\<lparr>r_status := (if r_status r \<in> {request_status.Open, request_status.Accepted} then request_status.Settled else r_status r), r_hash := Some h\<rparr>)"
    by auto
  moreover from this(1) live have "r_status r = Open" by (auto simp: store_get_def demo_request_def split: if_split_asm)
  ultimately show ?thesis using e by auto
qed

end
