(* ===== verification/SdkStream.thy ===== *)
theory SdkStream
  imports RfqApi
begin

text \<open>
  The SDK's reader of the makers' event stream, \<open>sdk/src/sse.ts\<close> and the method
  \<open>rfq.stream\<close> of \<open>sdk/src/client.ts\<close>. The body arrives in pieces of decoded text,
  cut anywhere. The lemmas: how the text is cut makes no difference, and what the server writes is
  read back frame by frame, heartbeats skipped.
\<close>

section \<open>Parser\<close>

definition lf :: char where "lf = CHR 0x0A"

record stream_frame =
  fr_event :: string
  fr_data :: string

text \<open>\<open>buf.indexOf('\n\n')\<close> with what stands before and behind it\<close>

fun cut_frame :: "string \<Rightarrow> (string \<times> string) option" where
  "cut_frame (c # d # cs) =
    (if c = lf \<and> d = lf then Some ([], cs)
     else case cut_frame (d # cs) of None \<Rightarrow> None | Some (raw, rest) \<Rightarrow> Some (c # raw, rest))"
| "cut_frame _ = None"

definition starts_with :: "string \<Rightarrow> string \<Rightarrow> bool" where
  "starts_with p s \<longleftrightarrow> take (length p) s = p"

definition trim_start :: "string \<Rightarrow> string" where
  "trim_start = dropWhile is_space"

definition frame_line :: "string \<times> string list \<Rightarrow> string \<Rightarrow> string \<times> string list" where
  "frame_line acc line =
    (if starts_with '':'' line then acc
     else if starts_with ''event:'' line then (trim (drop 6 line), snd acc)
     else if starts_with ''data:'' line then (fst acc, snd acc @ [trim_start (drop 5 line)])
     else acc)"

fun join_lines :: "string list \<Rightarrow> string" where
  "join_lines [] = []"
| "join_lines [x] = x"
| "join_lines (x # y # xs) = x @ lf # join_lines (y # xs)"

definition to_frame :: "string \<Rightarrow> stream_frame option" where
  "to_frame raw =
    (let (event, data) = foldl frame_line (''message'', []) (split_on lf raw)
     in if data = [] then None else Some \<lparr>fr_event = event, fr_data = join_lines data\<rparr>)"

lemma cut_frame_shorter: "cut_frame s = Some (raw, rest) \<Longrightarrow> length rest < length s"
  by (induction s arbitrary: raw rule: cut_frame.induct) (force split: if_split_asm option.split_asm prod.split_asm)+

text \<open>The inner loop: the frames that are complete in the buffer, and what is left of it.\<close>

function drain :: "string \<Rightarrow> stream_frame list \<times> string" where
  "drain buf =
    (case cut_frame buf of
       None \<Rightarrow> ([], buf)
     | Some (raw, rest) \<Rightarrow>
         (case drain rest of (fs, left) \<Rightarrow>
            ((case to_frame raw of None \<Rightarrow> fs | Some f \<Rightarrow> f # fs), left)))"
  by pat_completeness auto
termination by (relation "measure length") (auto dest: cut_frame_shorter)

declare drain.simps [simp del]

fun parse_sse :: "string \<Rightarrow> string list \<Rightarrow> stream_frame list" where
  "parse_sse buf [] = []"
| "parse_sse buf (piece # pieces) = (case drain (buf @ piece) of (fs, left) \<Rightarrow> fs @ parse_sse left pieces)"

section \<open>Events of the client\<close>

text \<open>\<open>parse\<close> is \<open>JSON.parse\<close>, which may throw; a frame that is no JSON is skipped.\<close>

datatype 'j client_event = Hello 'j | Passed 'j

definition frame_event :: "(string \<Rightarrow> 'j option) \<Rightarrow> stream_frame \<Rightarrow> 'j client_event option" where
  "frame_event parse f =
    (case parse (fr_data f) of
       None \<Rightarrow> None
     | Some j \<Rightarrow>
         if fr_event f = ''hello'' then Some (Hello j)
         else if fr_event f = ''request.created'' \<or> fr_event f = ''request.closed'' then Some (Passed j)
         else None)"

definition client_stream :: "(string \<Rightarrow> 'j option) \<Rightarrow> string list \<Rightarrow> 'j client_event list" where
  "client_stream parse pieces = List.map_filter (frame_event parse) (parse_sse [] pieces)"

section \<open>The cuts make no difference\<close>

lemma cut_frame_append: "cut_frame a = Some (raw, rest) \<Longrightarrow> cut_frame (a @ b) = Some (raw, rest @ b)"
proof (induction a arbitrary: raw rule: cut_frame.induct)
  case (1 c d cs)
  then show ?case by (auto split: if_split_asm option.split_asm prod.split_asm)
qed auto

lemma drain_append:
  assumes "drain a = (fs, left)"
  shows "drain (a @ b) = (fs @ fst (drain (left @ b)), snd (drain (left @ b)))"
  using assms
proof (induction a arbitrary: fs left rule: drain.induct)
  case (1 buf)
  show ?case
  proof (cases "cut_frame buf")
    case None
    with 1(2) have "fs = []" "left = buf" by (simp_all add: drain.simps [of buf])
    then show ?thesis by simp
  next
    case (Some p)
    obtain raw rest where p: "p = (raw, rest)" by (cases p)
    obtain gs l where g: "drain rest = (gs, l)" by (cases "drain rest")
    with 1(2) Some p have fs: "fs = (case to_frame raw of None \<Rightarrow> gs | Some f \<Rightarrow> f # gs)" "left = l"
      by (simp_all add: drain.simps [of buf])
    from 1(1) [OF Some p [symmetric] g] have "drain (rest @ b) = (gs @ fst (drain (l @ b)), snd (drain (l @ b)))" by simp
    with fs cut_frame_append [OF Some [unfolded p], of b] show ?thesis
      by (simp add: drain.simps [of "buf @ b"] split: option.split)
  qed
qed

lemma parse_sse_concat: "parse_sse buf pieces = fst (drain (buf @ concat pieces)) \<or> cut_frame buf \<noteq> None"
proof (induction pieces arbitrary: buf)
  case Nil
  show ?case by (simp add: drain.simps [of buf] split: option.split)
next
  case (Cons piece pieces)
  obtain fs left where d: "drain (buf @ piece) = (fs, left)" by (cases "drain (buf @ piece)")
  have none: "cut_frame l = None" if "drain s = (gs, l)" for s gs l
    using that
  proof (induction s arbitrary: gs l rule: drain.induct)
    case (1 s)
    then show ?case by (auto simp: drain.simps [of s] split: option.split_asm prod.split_asm)
  qed
  from none [OF d] Cons [of left] have "parse_sse left pieces = fst (drain (left @ concat pieces))" by blast
  with d drain_append [OF d, of "concat pieces"] show ?case by simp
qed

lemma parse_sse_whole: "parse_sse [] pieces = fst (drain (concat pieces))"
  using parse_sse_concat [of "[]" pieces] by simp

text \<open>
  C21. However the transport cuts the stream, inside a line, between the two line feeds that end a
  frame, with empty pieces: the frames are those of the whole text read at once.
\<close>

theorem sse_cuts_irrelevant:
  assumes "concat pieces = concat pieces'"
  shows "parse_sse [] pieces = parse_sse [] pieces' \<and> parse_sse [] pieces = parse_sse [] [concat pieces]"
  using assms by (simp add: parse_sse_whole del: parse_sse.simps)

section \<open>What the server writes is read back\<close>

text \<open>What \<open>JSON.stringify\<close> gives for an object: one line that starts with a brace.\<close>

definition json_line :: "string \<Rightarrow> bool" where
  "json_line s \<longleftrightarrow> lf \<notin> set s \<and> (\<exists>t. s = CHR 0x7B # t)"

lemma cut_one_line: "lf \<notin> set a \<Longrightarrow> cut_frame (a @ lf # lf # rest) = Some (a, rest)"
proof (induction a)
  case (Cons c a)
  then show ?case by (cases a) auto
qed simp

lemma cut_two_lines:
  assumes "lf \<notin> set a" "lf \<notin> set b" "b \<noteq> []"
  shows "cut_frame (a @ lf # b @ lf # lf # rest) = Some (a @ lf # b, rest)"
  using assms(1)
proof (induction a)
  case Nil
  from assms(3) obtain d b' where b: "b = d # b'" by (cases b) auto
  with assms(2) cut_one_line [OF assms(2), of rest] show ?case by auto
next
  case (Cons c a)
  then show ?case by (cases a) auto
qed

lemma drain_frame:
  assumes "cut_frame (a @ rest) = Some (raw, rest)"
  shows "fst (drain (a @ rest)) = (case to_frame raw of None \<Rightarrow> fst (drain rest) | Some f \<Rightarrow> f # fst (drain rest))"
  using assms by (cases "drain rest") (simp add: drain.simps [of "a @ rest"] split: option.split)

lemma to_frame_event:
  assumes "lf \<notin> set e" "trim (CHR '' '' # e) = e" "json_line j"
  shows "to_frame (''event: '' @ e @ lf # ''data: '' @ j) = Some \<lparr>fr_event = e, fr_data = j\<rparr>"
proof -
  from assms(3) have j: "lf \<notin> set j" "trim_start (CHR '' '' # j) = j"
    by (auto simp: json_line_def trim_start_def is_space_def)
  have "split_on lf (''event: '' @ e @ lf # ''data: '' @ j) = [''event: '' @ e, ''data: '' @ j]"
    using split_on_once [of lf "''event: '' @ e" "''data: '' @ j"] split_on_absent [of lf "''data: '' @ j"] assms(1) j(1)
    by (simp add: lf_def)
  with assms(2) j(2) show ?thesis by (simp add: to_frame_def frame_line_def starts_with_def)
qed

lemma drain_sse_frame:
  assumes "lf \<notin> set e" "trim (CHR '' '' # e) = e" "json_line j"
  shows "fst (drain (sse_frame e j @ rest)) = \<lparr>fr_event = e, fr_data = j\<rparr> # fst (drain rest)"
proof -
  have "cut_frame ((''event: '' @ e) @ lf # (''data: '' @ j) @ lf # lf # rest) = Some ((''event: '' @ e) @ lf # (''data: '' @ j), rest)"
    using assms(1,3) by (intro cut_two_lines) (auto simp: json_line_def lf_def)
  moreover have "sse_frame e j @ rest = (''event: '' @ e) @ lf # (''data: '' @ j) @ lf # lf # rest"
    by (simp add: sse_frame_def lf_def)
  ultimately have "cut_frame (sse_frame e j @ rest) = Some (''event: '' @ e @ lf # ''data: '' @ j, rest)" by simp
  from drain_frame [OF this] to_frame_event [OF assms] show ?thesis by simp
qed

lemma drain_heartbeat: "fst (drain (heartbeat @ rest)) = fst (drain rest)"
proof -
  have "cut_frame ('': hb'' @ lf # lf # rest) = Some ('': hb'', rest)" by (rule cut_one_line) (simp add: lf_def)
  then have "cut_frame (heartbeat @ rest) = Some ('': hb'', rest)" by (simp add: heartbeat_def lf_def)
  from drain_frame [OF this] show ?thesis by (simp add: to_frame_def frame_line_def starts_with_def lf_def)
qed

lemma event_names: "lf \<notin> set (event_type ev) \<and> trim (CHR '' '' # event_type ev) = event_type ev"
  by (cases ev) (simp_all add: lf_def trim_def is_space_def)

lemma hello_name: "lf \<notin> set ''hello'' \<and> trim (CHR '' '' # ''hello'') = ''hello''"
  by (simp add: lf_def trim_def is_space_def)

lemma drain_items:
  assumes "\<forall>ev. json_line (json ev)"
  shows "fst (drain (concat (map (stream_item_text json) items))) =
    List.map_filter (\<lambda>it. case it of Event ev \<Rightarrow> Some \<lparr>fr_event = event_type ev, fr_data = json ev\<rparr> | Heartbeat \<Rightarrow> None) items"
proof (induction items)
  case Nil
  show ?case by (simp add: drain.simps List.map_filter_def)
next
  case (Cons it items)
  show ?case
  proof (cases it)
    case (Event ev)
    with Cons assms event_names [of ev] show ?thesis
      by (simp add: stream_item_text_def drain_sse_frame List.map_filter_def)
  next
    case Heartbeat
    with Cons show ?thesis by (simp add: stream_item_text_def drain_heartbeat List.map_filter_def)
  qed
qed

definition events_of :: "stream_item list \<Rightarrow> rfq_event list" where
  "events_of items = List.map_filter (\<lambda>it. case it of Event ev \<Rightarrow> Some ev | Heartbeat \<Rightarrow> None) items"

text \<open>
  C20. The event stream end to end: whatever the server writes to an authorised maker (the greeting
  with the open requests, then events with heartbeats between them) and however it is cut on the
  way, the client of the SDK hands its listener the greeting and then every event, once and in
  order, and nothing else. The JSON text of a value is one line and parses back to it.
\<close>

theorem stream_delivers:
  assumes "stream_endpoint (Some label) contract hello json s now items = Inr (concat pieces)"
    and "\<forall>ev. json_line (json ev) \<and> parse (json ev) = Some (view ev)"
    and "json_line (hello label (rfq_list_open s now))" "parse (hello label (rfq_list_open s now)) = Some greeting"
  shows "client_stream parse pieces = Hello greeting # map (\<lambda>ev. Passed (view ev)) (events_of items)"
proof -
  let ?h = "hello label (rfq_list_open s now)"
  have whole: "concat pieces = sse_frame ''hello'' ?h @ concat (map (stream_item_text json) items)"
    using assms(1) by (simp add: stream_endpoint_def split: if_split_asm)
  have "parse_sse [] pieces = \<lparr>fr_event = ''hello'', fr_data = ?h\<rparr> #
      List.map_filter (\<lambda>it. case it of Event ev \<Rightarrow> Some \<lparr>fr_event = event_type ev, fr_data = json ev\<rparr> | Heartbeat \<Rightarrow> None) items"
    using drain_sse_frame [of "''hello''" ?h] hello_name assms(3) drain_items [of json items] assms(2)
    by (simp add: parse_sse_whole whole)
  moreover have "List.map_filter (frame_event parse)
      (List.map_filter (\<lambda>it. case it of Event ev \<Rightarrow> Some \<lparr>fr_event = event_type ev, fr_data = json ev\<rparr> | Heartbeat \<Rightarrow> None) items)
    = map (\<lambda>ev. Passed (view ev)) (events_of items)"
  proof (induction items)
    case (Cons it items)
    have "frame_event parse \<lparr>fr_event = event_type ev, fr_data = json ev\<rparr> = Some (Passed (view ev))" for ev
      using assms(2) by (cases ev) (simp_all add: frame_event_def)
    with Cons show ?case by (cases it) (simp_all add: List.map_filter_def events_of_def)
  qed (simp add: List.map_filter_def events_of_def)
  ultimately show ?thesis using assms(4) by (simp add: client_stream_def frame_event_def List.map_filter_def)
qed

section \<open>The properties at concrete inputs\<close>

theorem sse_cuts_irrelevant_witness:
  "parse_sse [] [''data: a'', [lf], [lf] @ ''data''] = parse_sse [] [''da'', ''ta: a'' @ [lf, lf] @ ''data'']"
proof -
  have "concat [''data: a'', [lf], [lf] @ ''data''] = concat [''da'', ''ta: a'' @ [lf, lf] @ ''data'']" by simp
  from sse_cuts_irrelevant [OF this] show ?thesis by blast
qed

definition demo_json :: "rfq_event \<Rightarrow> string" where
  "demo_json ev = (case ev of RequestCreated _ \<Rightarrow> ''{}'' | RequestClosed i st \<Rightarrow> ''{x}'')"

theorem stream_delivers_witness:
  "\<exists>a b. stream_endpoint (Some ''m'') ''C'' (\<lambda>l os. ''{h}'') demo_json store_init 0
      [Event (RequestClosed ''r'' request_status.Expired), Heartbeat] = Inr (a @ b) \<and> length a = 9 \<and>
    client_stream Some [a, b] = [Hello ''{h}'', Passed ''{x}'']"
proof -
  let ?items = "[Event (RequestClosed ''r'' request_status.Expired), Heartbeat]"
  define t where "t = sse_frame ''hello'' ''{h}'' @ concat (map (stream_item_text demo_json) ?items)"
  have e: "stream_endpoint (Some ''m'') ''C'' (\<lambda>l os. ''{h}'') demo_json store_init 0 ?items = Inr (concat [take 9 t, drop 9 t])"
    by (simp add: stream_endpoint_def t_def [symmetric]) (simp add: t_def)
  have j: "\<forall>ev. json_line (demo_json ev) \<and> Some (demo_json ev) = Some (demo_json ev)"
    by (simp add: demo_json_def json_line_def lf_def split: rfq_event.split)
  have "client_stream Some [take 9 t, drop 9 t] = Hello ''{h}'' # map (\<lambda>ev. Passed (demo_json ev)) (events_of ?items)"
    by (rule stream_delivers [OF e j]) (simp_all add: json_line_def lf_def)
  moreover have "map (\<lambda>ev. Passed (demo_json ev)) (events_of ?items) = [Passed ''{x}'']"
    by (simp add: events_of_def List.map_filter_def demo_json_def)
  moreover have "length (take 9 t) = 9" by (simp add: t_def sse_frame_def)
  ultimately show ?thesis using e by (intro exI [of _ "take 9 t"] exI [of _ "drop 9 t"]) simp
qed

end
