(* ===== verification/SdkFlows.thy ===== *)
theory SdkFlows
  imports SdkStream
begin

text \<open>
  The SDK, \<open>sdk/src/client.ts\<close>, \<open>sdk/src/flows.ts\<close> and \<open>sdk/src/signing.ts\<close>: the
  calls of the client (their paths, which of them carry the key, how a reply becomes a value or an
  error), the flow of a taker who waits for quotes and settles the best one, and the loop of a maker.
  The transport, the wallet and the signer are arguments. The lemmas: an id cannot change the route a
  call takes, the key goes only to the endpoints that need it, the quote a taker settles pays most,
  waiting ends with the window, and a maker quotes a request once.
\<close>

section \<open>Percent encoding\<close>

text \<open>A character is a code unit below 256, one or two bytes of UTF-8.\<close>

definition code_of :: "char \<Rightarrow> nat" where
  "code_of c = of_char c"

definition utf8 :: "char \<Rightarrow> nat list" where
  "utf8 c = (if code_of c < 128 then [code_of c] else [192 + code_of c div 64, 128 + code_of c mod 64])"

definition hex_digit :: "nat \<Rightarrow> char" where
  "hex_digit n = (if n < 10 then char_of (48 + n) else char_of (55 + n))"

definition percent :: "nat \<Rightarrow> string" where
  "percent b = [CHR ''%'', hex_digit (b div 16), hex_digit (b mod 16)]"

definition unreserved :: "char \<Rightarrow> bool" where
  "unreserved c \<longleftrightarrow> alnum c \<or> c \<in> set ''-_.!~*()'' \<or> c = CHR 0x27"

definition encode_component :: "string \<Rightarrow> string" where
  "encode_component s = concat (map (\<lambda>c. if unreserved c then [c] else concat (map percent (utf8 c))) s)"

definition form_text :: "string \<Rightarrow> string" where
  "form_text s = concat (map (\<lambda>c. if alnum c \<or> c \<in> set ''*-._'' then [c] else if c = CHR '' '' then ''+''
     else concat (map percent (utf8 c))) s)"

text \<open>\<open>qs\<close>: the parameters that are present and not empty, in order.\<close>

definition query_string :: "(string \<times> string option) list \<Rightarrow> string" where
  "query_string ps =
    (let present = List.map_filter (\<lambda>(k, v). case v of None \<Rightarrow> None | Some x \<Rightarrow> if x = [] then None else Some (k, x)) ps
     in case map (\<lambda>(k, v). form_text k @ CHR ''='' # form_text v) present of
          [] \<Rightarrow> []
        | p # rest \<Rightarrow> p @ concat (map (\<lambda>q. CHR ''&'' # q) rest))"

section \<open>Calls\<close>

datatype sdk_op =
    Assets
  | Health
  | Submit
  | V1Health
  | V1Tokens
  | V1Quote
  | V1Build
  | V1Send
  | RfqReference "(string \<times> string option) list"
  | RfqRequest
  | RfqGet string
  | RfqAccept string
  | RfqCancel string
  | RfqSettled string
  | RfqOpen
  | RfqPrepare string
  | RfqSubmit string

definition rfq_path :: "string \<Rightarrow> string \<Rightarrow> string" where
  "rfq_path i verb = ''/api/rfq/'' @ encode_component i @ (if verb = [] then [] else CHR ''/'' # verb)"

fun op_path :: "sdk_op \<Rightarrow> string" where
  "op_path Assets = ''/api/assets''"
| "op_path Health = ''/api/health''"
| "op_path Submit = ''/api/swap/submit''"
| "op_path V1Health = ''/v1/health''"
| "op_path V1Tokens = ''/v1/tokens''"
| "op_path V1Quote = ''/v1/quote''"
| "op_path V1Build = ''/v1/quote/build''"
| "op_path V1Send = ''/v1/send''"
| "op_path (RfqReference ps) = ''/api/rfq/reference?'' @ query_string ps"
| "op_path RfqRequest = ''/api/rfq/request''"
| "op_path (RfqGet i) = rfq_path i []"
| "op_path (RfqAccept i) = rfq_path i ''accept''"
| "op_path (RfqCancel i) = rfq_path i ''cancel''"
| "op_path (RfqSettled i) = rfq_path i ''settled''"
| "op_path RfqOpen = ''/api/rfq/open''"
| "op_path (RfqPrepare i) = rfq_path i ''prepare''"
| "op_path (RfqSubmit i) = rfq_path i ''quote''"

fun op_keyed :: "sdk_op \<Rightarrow> bool" where
  "op_keyed V1Health = True"
| "op_keyed V1Tokens = True"
| "op_keyed V1Quote = True"
| "op_keyed V1Build = True"
| "op_keyed V1Send = True"
| "op_keyed RfqOpen = True"
| "op_keyed (RfqPrepare _) = True"
| "op_keyed (RfqSubmit _) = True"
| "op_keyed _ = False"

fun op_reads :: "sdk_op \<Rightarrow> bool" where
  "op_reads Assets = True"
| "op_reads Health = True"
| "op_reads V1Health = True"
| "op_reads V1Tokens = True"
| "op_reads (RfqReference _) = True"
| "op_reads (RfqGet _) = True"
| "op_reads RfqOpen = True"
| "op_reads _ = False"

definition production_url :: string where
  "production_url = ''https://atomicswap-aggregator-production.up.railway.app''"

record sdk_client =
  sc_base :: string
  sc_key :: "string option"

text \<open>\<open>replace(/\/$/, '')\<close>\<close>

definition strip_slash :: "string \<Rightarrow> string" where
  "strip_slash s = (if s \<noteq> [] \<and> last s = CHR ''/'' then butlast s else s)"

definition new_client :: "string option \<Rightarrow> string option \<Rightarrow> sdk_client" where
  "new_client base key = \<lparr>sc_base = strip_slash (case base of None \<Rightarrow> production_url | Some b \<Rightarrow> b), sc_key = key\<rparr>"

record http_request =
  hq_method :: string
  hq_url :: string
  hq_key :: "string option"
  hq_body :: "string option"

record http_answer =
  ha_ok :: bool
  ha_status :: int
  ha_reason :: string
  ha_text :: string

text \<open>What a call ends with: the parsed body (\<open>{}\<close> for an empty one, an object with the first
  300 characters for one that is no JSON), an API error with status and path, or an exception.\<close>

datatype 'j body_data = Parsed 'j | EmptyBody | NotJson string

datatype sdk_error = ApiError string int string | SdkThrew js_exn

definition sdk_headers :: "sdk_client \<Rightarrow> bool \<Rightarrow> string option js" where
  "sdk_headers c keyed =
    (if \<not> keyed then Inr None
     else if truthy (sc_key c) then Inr (sc_key c) else Inl (Thrown ''This endpoint needs an API key: new UfamaClient({ apiKey })''))"

definition read_body :: "(string \<Rightarrow> 'j option) \<Rightarrow> string \<Rightarrow> 'j body_data" where
  "read_body parse t =
    (if t = [] then EmptyBody else case parse t of Some j \<Rightarrow> Parsed j | None \<Rightarrow> NotJson (take 300 t))"

definition body_error :: "('j \<Rightarrow> string option) \<Rightarrow> 'j body_data \<Rightarrow> string option" where
  "body_error error_of d = (case d of Parsed j \<Rightarrow> error_of j | EmptyBody \<Rightarrow> None | NotJson t \<Rightarrow> Some t)"

definition sdk_call :: "(string \<Rightarrow> 'j option) \<Rightarrow> ('j \<Rightarrow> string option) \<Rightarrow> (http_request \<Rightarrow> http_answer js) \<Rightarrow> sdk_client
    \<Rightarrow> sdk_op \<Rightarrow> string \<Rightarrow> sdk_error + 'j body_data" where
  "sdk_call parse error_of fetch c oper body =
    (case sdk_headers c (op_keyed oper) of
       Inl e \<Rightarrow> Inl (SdkThrew e)
     | Inr key \<Rightarrow>
         (case fetch \<lparr>hq_method = (if op_reads oper then ''GET'' else ''POST''), hq_url = sc_base c @ op_path oper, hq_key = key,
                      hq_body = (if op_reads oper then None else Some body)\<rparr> of
            Inl e \<Rightarrow> Inl (SdkThrew e)
          | Inr a \<Rightarrow>
              let d = read_body parse (ha_text a)
              in if ha_ok a then Inr d
                 else Inl (ApiError (case body_error error_of d of Some m \<Rightarrow> m
                        | None \<Rightarrow> big_string (ha_status a) @ CHR '' '' # ha_reason a) (ha_status a) (op_path oper))))"

section \<open>Signing\<close>

definition sign_quote_entry :: "(string \<Rightarrow> 'e option) \<Rightarrow> ('e \<Rightarrow> 'k \<Rightarrow> int \<Rightarrow> string \<Rightarrow> 'e js) \<Rightarrow> ('e \<Rightarrow> string) \<Rightarrow> string \<Rightarrow> 'k \<Rightarrow> int \<Rightarrow> string \<Rightarrow> string js" where
  "sign_quote_entry from_xdr authorize to_xdr x signer expiry passphrase =
    (case from_xdr x of
       None \<Rightarrow> Inl (Thrown ''XDR Read Error'')
     | Some e \<Rightarrow> js_bind (authorize e signer expiry passphrase) (\<lambda>e'. Inr (to_xdr e')))"

definition entry_signer :: "(string \<Rightarrow> auth_entry option) \<Rightarrow> string \<Rightarrow> string option js" where
  "entry_signer from_xdr x =
    (case from_xdr x of None \<Rightarrow> Inl (Thrown ''XDR Read Error'') | Some e \<Rightarrow> Inr (entry_address e))"

section \<open>The taker's flow\<close>

text \<open>Live quotes that stay so for three more seconds, the largest first; equal ones in their
  order.\<close>

definition acceptable :: "int \<Rightarrow> public_quote \<Rightarrow> bool" where
  "acceptable now q \<longleftrightarrow> q_status q = QLive \<and> q_expires_at q > now + 3000"

definition acceptable_quotes :: "int \<Rightarrow> public_request \<Rightarrow> public_quote list" where
  "acceptable_quotes now r = js_sort (\<lambda>a b. q_out a < q_out b) (filter (acceptable now) (r_quotes r))"

record settle_opts =
  so_min_quotes :: int
  so_wait :: int

definition default_opts :: settle_opts where
  "default_opts = \<lparr>so_min_quotes = 1, so_wait = 3000\<rparr>"

datatype poll_outcome = Stop | NoQuotes | Gone request_status | Again "int option"

text \<open>One round of the loop, with one reading of the clock for its synchronous statements.\<close>

definition poll_step :: "settle_opts \<Rightarrow> int option \<Rightarrow> int \<times> public_request \<Rightarrow> poll_outcome" where
  "poll_step opts first obs =
    (case obs of (now, latest) \<Rightarrow>
       let live = acceptable_quotes now latest;
           first' = (if live \<noteq> [] \<and> first = None then Some now else first);
           window_over = (now \<ge> r_expires latest);
           enough = (int (length live) \<ge> so_min_quotes opts \<and>
             (window_over \<or> now - (case first' of None \<Rightarrow> 0 | Some t \<Rightarrow> t) \<ge> so_wait opts))
       in if enough then Stop
          else if window_over \<and> live = [] then NoQuotes
          else if r_status latest \<noteq> request_status.Open \<and> live = [] then Gone (r_status latest)
          else Again first')"

text \<open>The rounds, one observation each: how it ends and with which request, or none when the
  observations are used up.\<close>

fun wait_loop :: "settle_opts \<Rightarrow> int option \<Rightarrow> (int \<times> public_request) list \<Rightarrow> (poll_outcome \<times> public_request) option" where
  "wait_loop opts first [] = None"
| "wait_loop opts first (obs # rest) =
    (case poll_step opts first obs of
       Again first' \<Rightarrow> wait_loop opts first' rest
     | outcome \<Rightarrow> Some (outcome, snd obs))"

record sent =
  st_status :: string
  st_hash :: "string option"

text \<open>After the loop: the best quote at that moment (\<open>undefined\<close> when all went stale), its
  settlement transaction, the wallet's signature, the relay; a report that fails is ignored.\<close>

definition settle_best :: "int \<Rightarrow> public_request \<Rightarrow> (string \<Rightarrow> string \<Rightarrow> (string \<times> public_quote) js) \<Rightarrow> (string \<Rightarrow> string js)
    \<Rightarrow> (string \<Rightarrow> sent js) \<Rightarrow> (string \<times> public_quote) js" where
  "settle_best now latest accept sign submit =
    (case acceptable_quotes now latest of
       [] \<Rightarrow> Inl TypeError
     | best # _ \<Rightarrow>
         js_bind (accept (r_id latest) (q_id best)) (\<lambda>(tx, quote).
         js_bind (sign tx) (\<lambda>sx.
         js_bind (submit sx) (\<lambda>s.
           if truthy (st_hash s) then Inr (the (st_hash s), quote)
           else Inl (Thrown (''submit returned no hash ('' @ st_status s @ '')''))))))"

section \<open>The maker's loop\<close>

definition seen_limit :: nat where "seen_limit = 5000"

text \<open>Which requests are quoted: not seen, not its own, open. The set is emptied when it grows too
  large, the id just added with it.\<close>

definition takes_up :: "string \<Rightarrow> string list \<Rightarrow> public_request \<Rightarrow> string list \<times> bool" where
  "takes_up me seen r =
    (if r_id r \<in> set seen \<or> r_taker r = me \<or> r_status r \<noteq> request_status.Open then (seen, False)
     else let seen' = r_id r # seen in (if length seen' > seen_limit then [] else seen', True))"

fun takes_up_all :: "string \<Rightarrow> string list \<Rightarrow> public_request list \<Rightarrow> public_request list" where
  "takes_up_all me seen [] = []"
| "takes_up_all me seen (r # rs) =
    (case takes_up me seen r of (seen', yes) \<Rightarrow> (if yes then r # takes_up_all me seen' rs else takes_up_all me seen' rs))"

datatype maker_outcome = Skipped string | Quoted public_quote | Failed_quote sdk_error

definition report_error :: "sdk_error \<Rightarrow> maker_outcome" where
  "report_error e = (case e of ApiError m st _ \<Rightarrow> if st < 500 then Skipped m else Failed_quote e | _ \<Rightarrow> Failed_quote e)"

text \<open>Pricing, preparing, signing and posting one quote: \<open>prepare\<close> answers the unsigned entry
  and the ledger the quote expires at.\<close>

definition maker_quote :: "int option js \<Rightarrow> (string \<Rightarrow> sdk_error + string \<times> int) \<Rightarrow> (string \<Rightarrow> int \<Rightarrow> string js) \<Rightarrow> (string \<Rightarrow> sdk_error + public_quote)
    \<Rightarrow> maker_outcome" where
  "maker_quote price prepare sign submit =
    (case price of
       Inl e \<Rightarrow> Failed_quote (SdkThrew e)
     | Inr None \<Rightarrow> Skipped ''price() returned null''
     | Inr (Some out) \<Rightarrow>
         if out \<le> 0 then Skipped ''price() returned null''
         else (case prepare (big_string out) of
            Inl e \<Rightarrow> report_error e
          | Inr (entry, expiry) \<Rightarrow>
              (case sign entry expiry of
                 Inl e \<Rightarrow> Failed_quote (SdkThrew e)
               | Inr sx \<Rightarrow> (case submit sx of Inl e \<Rightarrow> report_error e | Inr q \<Rightarrow> Quoted q))))"

definition backoff_min :: int where "backoff_min = 1000"
definition backoff_max :: int where "backoff_max = 30000"

text \<open>The pauses between connections: a stream that ended resets the pause before it is slept.\<close>

fun backoffs :: "int \<Rightarrow> bool list \<Rightarrow> int list" where
  "backoffs b [] = []"
| "backoffs b (ended # rest) =
    (let b' = (if ended then backoff_min else b) in b' # backoffs (min (b' * 2) backoff_max) rest)"

definition price_at_nav_minus :: "public_request \<Rightarrow> num \<Rightarrow> int option js" where
  "price_at_nav_minus r spread =
    (case rr_nav_out (r_reference r) of
       None \<Rightarrow> Inr None
     | Some nav \<Rightarrow> js_bind (big_of_num (num_sub (Fin 10000) spread)) (\<lambda>k. Inr (Some (tdiv (nav * k) 10000))))"

section \<open>Calls go where they should\<close>

lemma hex_digit_alnum: "n < 16 \<Longrightarrow> alnum (hex_digit n)"
  by (auto simp: hex_digit_def alnum_def is_digit_def)

lemma percent_set:
  assumes "b < 256" "x \<in> set (percent b)"
  shows "x = CHR ''%'' \<or> alnum x"
  using assms by (auto simp: percent_def intro!: hex_digit_alnum)

lemma utf8_bytes:
  assumes "b \<in> set (utf8 c)"
  shows "b < 256"
proof -
  have "(of_char c :: nat) div 64 < 4" using nat_of_char_less_256 [of c] by (intro less_mult_imp_div_less) simp
  moreover have "(of_char c :: nat) mod 64 < 64" by simp
  ultimately show ?thesis using assms by (auto simp: utf8_def code_of_def split: if_split_asm)
qed

lemma encode_component_set: "x \<in> set (encode_component s) \<Longrightarrow> x = CHR ''%'' \<or> unreserved x"
  by (auto simp: encode_component_def unreserved_def dest!: percent_set [OF utf8_bytes] split: if_split_asm)

lemma encode_component_plain:
  "CHR ''/'' \<notin> set (encode_component s) \<and> CHR ''?'' \<notin> set (encode_component s) \<and> CHR ''#'' \<notin> set (encode_component s)"
  by (auto dest!: encode_component_set simp: unreserved_def alnum_def is_digit_def)

text \<open>
  Whatever text an id is, the call for it goes to the route of its verb: the path has exactly the
  five segments of that endpoint, the fourth being the id, and no query or fragment. A key goes with a
  request exactly when the endpoint needs it: what a call does depends on the transport only at its
  own address with that key, and without a key nothing is sent to an endpoint that needs one.
\<close>

theorem sdk_calls_scoped:
  "split_on (CHR ''/'') (rfq_path i verb) = [[], ''api'', ''rfq'', encode_component i] @ (if verb = [] then [] else split_on (CHR ''/'') verb)
   \<and> CHR ''?'' \<notin> set (rfq_path i []) \<and> CHR ''#'' \<notin> set (rfq_path i [])
   \<and> ((\<forall>q. hq_url q = sc_base c @ op_path oper \<and> hq_key q = (if op_keyed oper then sc_key c else None) \<longrightarrow> fetch q = fetch' q)
      \<longrightarrow> sdk_call parse error_of fetch c oper body = sdk_call parse error_of fetch' c oper body)
   \<and> (op_keyed oper \<longrightarrow> sc_key c = None \<longrightarrow> (\<exists>e. sdk_call parse error_of fetch c oper body = Inl (SdkThrew e)))"
proof -
  have enc: "CHR ''/'' \<notin> set (encode_component i)" using encode_component_plain by blast
  have "split_on (CHR ''/'') (encode_component i @ CHR ''/'' # verb) = encode_component i # split_on (CHR ''/'') verb"
    using enc by (rule split_on_once)
  then have path: "split_on (CHR ''/'') (rfq_path i verb) = [[], ''api'', ''rfq'', encode_component i] @ (if verb = [] then [] else split_on (CHR ''/'') verb)"
    using split_on_absent [OF enc] by (simp add: rfq_path_def)
  have plain: "CHR ''?'' \<notin> set (rfq_path i []) \<and> CHR ''#'' \<notin> set (rfq_path i [])"
    using encode_component_plain [of i] by (simp add: rfq_path_def)
  have keys: "key = (if op_keyed oper then sc_key c else None)" if "sdk_headers c (op_keyed oper) = Inr key" for key
    using that by (auto simp: sdk_headers_def split: if_split_asm)
  have same: "sdk_call parse error_of fetch c oper body = sdk_call parse error_of fetch' c oper body"
    if "\<forall>q. hq_url q = sc_base c @ op_path oper \<and> hq_key q = (if op_keyed oper then sc_key c else None) \<longrightarrow> fetch q = fetch' q"
    using that keys by (cases "sdk_headers c (op_keyed oper)") (simp_all add: sdk_call_def)
  have "\<exists>e. sdk_call parse error_of fetch c oper body = Inl (SdkThrew e)" if "op_keyed oper" "sc_key c = None"
    using that by (simp add: sdk_call_def sdk_headers_def truthy_def)
  with path plain same show ?thesis by blast
qed

section \<open>The taker gets the best quote\<close>

lemma acceptable_quotes_set: "set (acceptable_quotes now r) = {q \<in> set (r_quotes r). acceptable now q}"
  by (simp add: acceptable_quotes_def)

lemma acceptable_quotes_sorted: "sorted (map (\<lambda>q. - q_out q) (acceptable_quotes now r))"
  using js_sort_sorted [of "\<lambda>q. - q_out q" "filter (acceptable now) (r_quotes r)"] by (simp add: acceptable_quotes_def)

lemma best_pays_most:
  assumes "acceptable_quotes now r = best # rest"
  shows "best \<in> set (r_quotes r) \<and> acceptable now best \<and> (\<forall>q\<in>set (r_quotes r). acceptable now q \<longrightarrow> q_out q \<le> q_out best)"
proof -
  have "best \<in> set (acceptable_quotes now r)" using assms by simp
  then have "best \<in> set (r_quotes r) \<and> acceptable now best" by (simp add: acceptable_quotes_set)
  moreover have "q_out q \<le> q_out best" if "q \<in> set (r_quotes r)" "acceptable now q" for q
  proof -
    from that have "q \<in> set (acceptable_quotes now r)" by (simp add: acceptable_quotes_set)
    then show ?thesis using assms acceptable_quotes_sorted [of now r] by auto
  qed
  ultimately show ?thesis by blast
qed

text \<open>
  C39. The quote a taker's flow settles: it is one of the request's, live with more than three seconds
  left, no other such quote pays more, its settlement transaction is the one the wallet signed and the
  relay took, and the hash reported is the relay's.
\<close>

theorem flow_settles_best:
  assumes "settle_best now latest accept sign submit = Inr (h, quote)"
  shows "\<exists>best tx sx s. best \<in> set (r_quotes latest) \<and> q_status best = QLive \<and> q_expires_at best > now + 3000 \<and>
    (\<forall>q\<in>set (r_quotes latest). q_status q = QLive \<and> q_expires_at q > now + 3000 \<longrightarrow> q_out q \<le> q_out best) \<and>
    accept (r_id latest) (q_id best) = Inr (tx, quote) \<and> sign tx = Inr sx \<and> submit sx = Inr s \<and> st_hash s = Some h \<and> h \<noteq> []"
proof -
  from assms obtain best rest where b: "acceptable_quotes now latest = best # rest"
    by (cases "acceptable_quotes now latest") (simp_all add: settle_best_def)
  from assms b obtain tx sx s where "accept (r_id latest) (q_id best) = Inr (tx, quote)" "sign tx = Inr sx"
    "submit sx = Inr s" "st_hash s = Some h" "h \<noteq> []"
    by (auto simp: settle_best_def js_bind_Inr_iff truthy_def split: if_split_asm option.split_asm list.split_asm)
  with best_pays_most [OF b] show ?thesis unfolding acceptable_def by blast
qed

lemma poll_at_end:
  assumes "fst obs \<ge> r_expires (snd obs)"
  shows "poll_step default_opts first obs = (if acceptable_quotes (fst obs) (snd obs) = [] then NoQuotes else Stop)"
  using assms
  by (cases obs; cases "acceptable_quotes (fst obs) (snd obs)") (simp_all add: poll_step_def default_opts_def Let_def)


text \<open>
  With more than one quote asked for, waiting does not end with the window: while one acceptable
  quote is there the loop goes on, past the deadline too, and when that quote has gone stale it fails
  with \<open>no quotes\<close> although one could have been settled all the time.
\<close>

theorem min_quotes_starves:
  assumes "\<forall>obs\<in>set rounds. length (acceptable_quotes (fst obs) (snd obs)) = 1" "1 < so_min_quotes opts"
    and "now \<ge> r_expires r" "acceptable_quotes now r = []"
  shows "wait_loop opts first (rounds @ [(now, r)]) = Some (NoQuotes, r)"
  using assms(1)
proof (induction rounds arbitrary: first)
  case Nil
  show ?case using assms(2-4) by (simp add: poll_step_def Let_def)
next
  case (Cons obs rounds)
  obtain n q where obs: "obs = (n, q)" by (cases obs)
  with Cons.prems have one: "length (acceptable_quotes n q) = 1" by simp
  then have "acceptable_quotes n q \<noteq> []" by auto
  then have "\<exists>f. poll_step opts first obs = Again f" using one assms(2) by (simp add: obs poll_step_def Let_def)
  with Cons show ?case by auto
qed

section \<open>The maker quotes a request once\<close>

lemma takes_up_all_mem:
  "r \<in> set (takes_up_all me seen rs) \<Longrightarrow> r \<in> set rs \<and> r_taker r \<noteq> me \<and> r_status r = request_status.Open"
  by (induction rs arbitrary: seen) (auto simp: takes_up_def Let_def split: prod.split_asm if_split_asm)

lemma takes_up_all_distinct:
  assumes "length seen + length (takes_up_all me seen rs) \<le> seen_limit"
  shows "distinct (map r_id (takes_up_all me seen rs)) \<and> set (map r_id (takes_up_all me seen rs)) \<inter> set seen = {} \<and>
    (\<forall>r\<in>set rs. r_taker r \<noteq> me \<and> r_status r = request_status.Open \<longrightarrow> r_id r \<in> set seen \<union> set (map r_id (takes_up_all me seen rs)))"
  using assms
proof (induction rs arbitrary: seen)
  case (Cons r rs)
  show ?case
  proof (cases "r_id r \<in> set seen \<or> r_taker r = me \<or> r_status r \<noteq> request_status.Open")
    case True
    then have e: "takes_up_all me seen (r # rs) = takes_up_all me seen rs" by (simp add: takes_up_def)
    with Cons.IH [of seen] Cons.prems True show ?thesis by auto
  next
    case False
    have room: "length seen < seen_limit"
      using Cons.prems False by (simp add: takes_up_def Let_def split: if_split_asm)
    with False have e: "takes_up_all me seen (r # rs) = r # takes_up_all me (r_id r # seen) rs"
      by (simp add: takes_up_def Let_def)
    with Cons.IH [of "r_id r # seen"] Cons.prems show ?thesis using False by auto
  qed
qed simp

text \<open>
  Over any sequence of announcements, repeated ones included (the greeting after a reconnect
  lists the open requests again), a maker quotes each open request of somebody else exactly once as
  long as it has quoted no more than 5000.
\<close>

theorem maker_quotes_once:
  assumes "length (takes_up_all me [] rs) \<le> 5000"
  shows "distinct (map r_id (takes_up_all me [] rs)) \<and>
    set (map r_id (takes_up_all me [] rs)) = {r_id r | r. r \<in> set rs \<and> r_taker r \<noteq> me \<and> r_status r = request_status.Open}"
  using takes_up_all_distinct [of "[]" me rs] takes_up_all_mem [of _ me "[]" rs] assms by (auto simp: seen_limit_def)

text \<open>
  The request that makes the set overflow is forgotten together with the old ones: announced
  again at once, it is quoted a second time.
\<close>

theorem maker_forgets_current:
  assumes "length seen = 5000" "r_id r \<notin> set seen" "r_taker r \<noteq> me" "r_status r = request_status.Open"
  shows "takes_up_all me seen [r, r] = [r, r]"
  using assms by (simp add: takes_up_def Let_def seen_limit_def)

lemma backoffs_bounded: "0 \<le> b \<Longrightarrow> b \<le> backoff_max \<Longrightarrow> p \<in> set (backoffs b es) \<Longrightarrow> p \<le> backoff_max"
  proof (induction es arbitrary: b)
  case (Cons e es)
  define c where "c = (if e then backoff_min else b)"
  have "0 \<le> c" "c \<le> backoff_max" using Cons.prems by (simp_all add: c_def backoff_min_def backoff_max_def)
  moreover from this have "0 \<le> min (c * 2) backoff_max" "min (c * 2) backoff_max \<le> backoff_max" by (simp_all add: backoff_max_def)
  moreover have "p = c \<or> p \<in> set (backoffs (min (c * 2) backoff_max) es)" using Cons.prems(3) by (simp add: c_def Let_def)
  ultimately show ?case using Cons.IH by blast
qed simp

section \<open>The properties at concrete inputs\<close>

definition demo_quote_of :: "int \<Rightarrow> int \<Rightarrow> public_quote" where
  "demo_quote_of out expires = \<lparr>q_id = ''q'', q_request = ''r'', q_maker = ''M'', q_label = ''m'', q_out = out, q_expiry_ledger = 70,
     q_expires_at = expires, q_nonce = 1, q_nav_dev = 0, q_vs_nav = None, q_status = QLive, q_received = 0\<rparr>"

definition demo_open :: "public_quote list \<Rightarrow> public_request" where
  "demo_open qs = (to_public (demo_request ''r''))\<lparr>r_quotes := qs\<rparr>"

lemma demo_open_simps [simp]: "r_quotes (demo_open qs) = qs" "r_expires (demo_open qs) = 20000" "r_status (demo_open qs) = request_status.Open"
  "r_id (demo_open qs) = ''r''" "r_taker (demo_open qs) = ''T''"
  by (simp_all add: demo_open_def to_public_def demo_request_def)

theorem flow_settles_best_witness:
  "\<exists>best. best \<in> set (r_quotes (demo_open [demo_quote_of 5 90000, demo_quote_of 8 90000])) \<and> q_out best = 8"
proof -
  let ?r = "demo_open [demo_quote_of 5 90000, demo_quote_of 8 90000]"
  let ?accept = "\<lambda>i q. Inr (''X'', demo_quote_of 8 90000) :: (string \<times> public_quote) js"
  have "settle_best 1000 ?r ?accept Inr (\<lambda>x. Inr \<lparr>st_status = [], st_hash = Some ''H''\<rparr>) = Inr (''H'', demo_quote_of 8 90000)"
    by (simp add: settle_best_def acceptable_quotes_def acceptable_def demo_quote_of_def truthy_def)
  from flow_settles_best [OF this] obtain best where b: "best \<in> set (r_quotes ?r)"
    "\<forall>q\<in>set (r_quotes ?r). q_status q = QLive \<and> q_expires_at q > 1000 + 3000 \<longrightarrow> q_out q \<le> q_out best" by blast
  from b(2) have "8 \<le> q_out best" by (simp add: demo_quote_of_def)
  with b(1) show ?thesis by (intro exI [of _ best]) (auto simp: demo_quote_of_def)
qed


theorem min_quotes_starves_witness:
  "wait_loop \<lparr>so_min_quotes = 2, so_wait = 3000\<rparr> None [(25000, demo_open [demo_quote_of 5 90000]), (95000, demo_open [demo_quote_of 5 90000])]
    = Some (NoQuotes, demo_open [demo_quote_of 5 90000])"
  using min_quotes_starves [of "[(25000, demo_open [demo_quote_of 5 90000])]" "\<lparr>so_min_quotes = 2, so_wait = 3000\<rparr>"
      "demo_open [demo_quote_of 5 90000]" 95000 None]
  by (simp add: acceptable_quotes_def acceptable_def demo_quote_of_def)

theorem maker_quotes_once_witness:
  "map r_id (takes_up_all ''M'' [] [demo_open [], demo_open []]) = [''r'']"
proof -
  have "takes_up_all ''M'' [] [demo_open [], demo_open []] = [demo_open []]" by (simp add: takes_up_def Let_def seen_limit_def)
  with maker_quotes_once [of "''M''" "[demo_open [], demo_open []]"] show ?thesis by simp
qed

theorem maker_forgets_current_witness:
  "takes_up_all ''M'' (replicate 5000 ''x'') [demo_open [], demo_open []] = [demo_open [], demo_open []]"
  by (rule maker_forgets_current) simp_all

theorem sdk_calls_scoped_witness:
  "split_on (CHR ''/'') (rfq_path ''a/b'' ''accept'') = [[], ''api'', ''rfq'', ''a%2Fb'', ''accept''] \<and>
   (\<exists>e. sdk_call Some (\<lambda>_. None) (\<lambda>q. Inl TypeError) \<lparr>sc_base = ''b'', sc_key = None\<rparr> V1Quote [] = Inl (SdkThrew e)) \<and>
   sdk_call Some (\<lambda>_. None) (\<lambda>q. Inl TypeError) \<lparr>sc_base = ''b'', sc_key = Some ''k''\<rparr> Assets []
     = sdk_call Some (\<lambda>_. None) (\<lambda>q. if hq_key q = None then Inl TypeError else Inl RangeError) \<lparr>sc_base = ''b'', sc_key = Some ''k''\<rparr> Assets []"
proof -
  have e: "encode_component ''a/b'' = ''a%2Fb''" by code_simp
  have "split_on (CHR ''/'') (rfq_path ''a/b'' ''accept'') = [[], ''api'', ''rfq'', ''a%2Fb'', ''accept'']"
    using sdk_calls_scoped [THEN conjunct1, of "''a/b''" "''accept''"] e by simp
  moreover have "\<exists>e. sdk_call Some (\<lambda>_. None) (\<lambda>q. Inl TypeError) \<lparr>sc_base = ''b'', sc_key = None\<rparr> V1Quote [] = Inl (SdkThrew e)"
    using sdk_calls_scoped [where c = "\<lparr>sc_base = ''b'', sc_key = None\<rparr>" and oper = V1Quote and i = "[]" and verb = "[]"
        and parse = Some and error_of = "\<lambda>_. None" and fetch = "\<lambda>q. Inl TypeError" and fetch' = "\<lambda>q. Inl TypeError" and body = "[]"] by simp
  moreover have "sdk_call Some (\<lambda>_. None) (\<lambda>q. Inl TypeError) \<lparr>sc_base = ''b'', sc_key = Some ''k''\<rparr> Assets []
     = sdk_call Some (\<lambda>_. None) (\<lambda>q. if hq_key q = None then Inl TypeError else Inl RangeError) \<lparr>sc_base = ''b'', sc_key = Some ''k''\<rparr> Assets []"
    using sdk_calls_scoped [where c = "\<lparr>sc_base = ''b'', sc_key = Some ''k''\<rparr>" and oper = Assets and i = "[]" and verb = "[]"
        and parse = Some and error_of = "\<lambda>_. None" and fetch = "\<lambda>q. Inl TypeError"
        and fetch' = "\<lambda>q. if hq_key q = None then Inl TypeError else Inl RangeError" and body = "[]"] by simp
  ultimately show ?thesis by blast
qed

end
