(* ===== verification/Units.thy ===== *)
theory Units
  imports FairValue
begin

text \<open>
  Conversion of amounts in the pages, \<open>frontend/src/lib/units.ts\<close>: what a user types to base
  units, base units to a number and to the text shown. Locale formatting and \<open>Math.log10\<close> are
  arguments. The lemmas: what a user types is read exactly as the backend reads a displayed amount,
  what the backend displays is read back, and which amounts cannot be shown.
\<close>

section \<open>From text to base units\<close>

text \<open>\<open>replace(/^0+(?=\d)/, '')\<close>\<close>

fun strip_leading :: "string \<Rightarrow> string" where
  "strip_leading (c # d # cs) = (if c = CHR ''0'' \<and> is_digit d then strip_leading (d # cs) else c # d # cs)"
| "strip_leading s = s"

text \<open>\<open>/^\d*(\.\d*)?$/\<close>\<close>

definition amount_shape :: "string \<Rightarrow> bool" where
  "amount_shape s =
    (case dropWhile is_digit s of [] \<Rightarrow> True | c # rest \<Rightarrow> c = CHR ''.'' \<and> list_all is_digit rest)"

definition typed_amount :: "string \<Rightarrow> bool" where
  "typed_amount s \<longleftrightarrow> amount_shape s \<and> s \<noteq> [] \<and> s \<noteq> ''.''"

text \<open>\<open>'0'.repeat(decimals)\<close> throws for a negative number.\<close>

definition to_base_units :: "string \<Rightarrow> int \<Rightarrow> string js" where
  "to_base_units amount decs =
    (let clean = trim amount
     in if \<not> typed_amount clean then Inr ''0''
        else if decs < 0 then Inl RangeError
        else let (whole, fr) = split_point clean;
                 combined = strip_leading (whole @ take (nat decs) (fr @ replicate (nat decs) (CHR ''0'')))
             in Inr (if combined = [] then ''0'' else combined))"

section \<open>From base units to numbers and text\<close>

text \<open>\<open>BigInt(raw)\<close> may throw; every exception gives 0.\<close>

definition from_base_units :: "int js \<Rightarrow> int \<Rightarrow> num" where
  "from_base_units raw decs =
    js_catch
      (js_bind raw (\<lambda>v.
        if decs < 0 then Inl RangeError
        else let b = 10 ^ nat decs; whole = tdiv v b; rest = tmod v b
             in Inr (num_add (num_of_big whole) (num_div (num_of_big (tdiv (rest * 1000000000000) b)) (Fin 1000000000000)))))
      (Fin 0)"

definition num_abs :: "num \<Rightarrow> num" where
  "num_abs x = (if num_lt x (Fin 0) then num_neg x else x)"

text \<open>\<open>toLocaleString\<close> with its fraction digits throws when the smallest number asked for
  exceeds the largest; \<open>locale\<close> formats otherwise.\<close>

definition locale_text :: "(num \<Rightarrow> num \<Rightarrow> num \<Rightarrow> string) \<Rightarrow> num \<Rightarrow> num \<Rightarrow> num \<Rightarrow> string js" where
  "locale_text format v mn mx = (if num_lt mx mn then Inl RangeError else Inr (format v mn mx))"

definition fraction_digits :: "(num \<Rightarrow> num) \<Rightarrow> num \<Rightarrow> int \<Rightarrow> num" where
  "fraction_digits log10 a decs =
    (let e = num_floor (log10 a);
         sig = (if num_le (Fin 1) a then num_sub (Fin 6) (num_add e (Fin 1)) else num_add (num_neg e) (Fin 5))
     in num_min (num_min (num_max (Fin 2) sig) (Fin (of_int decs))) (Fin 12))"

definition format_units :: "(num \<Rightarrow> num \<Rightarrow> num \<Rightarrow> string) \<Rightarrow> (num \<Rightarrow> num) \<Rightarrow> int js \<Rightarrow> int \<Rightarrow> num option \<Rightarrow> string js" where
  "format_units format log10 raw decs digits =
    (let v = from_base_units raw decs
     in case digits of
          Some d \<Rightarrow> locale_text format v d d
        | None \<Rightarrow>
            if num_abs v = Fin 0 then Inr ''0.00''
            else locale_text format v (Fin 2) (fraction_digits log10 (num_abs v) decs))"

section \<open>Reading is exact\<close>

lemma strip_leading_digits: "list_all is_digit s \<Longrightarrow> list_all is_digit (strip_leading s) \<and> digits_val (strip_leading s) = digits_val s"
proof (induction s rule: strip_leading.induct)
  case (1 c d cs)
  have "digits_val (CHR ''0'' # d # cs) = digits_val (d # cs)"
    using digits_val_zeros [of 1 "d # cs"] by simp
  with 1 show ?case by auto
qed auto

lemma strip_leading_canonical: "list_all is_digit s \<Longrightarrow> s \<noteq> [] \<Longrightarrow> strip_leading s \<noteq> [] \<and> (hd (strip_leading s) = CHR ''0'' \<longrightarrow> length (strip_leading s) = 1)"
  by (induction s rule: strip_leading.induct) auto

lemma digit_of_val: "is_digit c \<Longrightarrow> digit_of (digit_val c) = c"
  by (auto simp: is_digit_def digit_of_def digit_val_def)

lemma digit_val_less: "is_digit c \<Longrightarrow> digit_val c < 10"
  by (auto simp: is_digit_def digit_val_def)

lemma digits_val_pos: "list_all is_digit s \<Longrightarrow> s \<noteq> [] \<Longrightarrow> hd s \<noteq> CHR ''0'' \<Longrightarrow> 0 < digits_val s"
proof (induction s rule: rev_induct)
  case (snoc c s)
  show ?case
  proof (cases "s = []")
    case True
    with snoc.prems have "is_digit c" "c \<noteq> CHR ''0''" by simp_all
    have "digit_of 0 = CHR ''0''" by code_simp
    with \<open>is_digit c\<close> \<open>c \<noteq> CHR ''0''\<close> have "digit_val c \<noteq> 0" using digit_of_val [of c] by metis
    with True show ?thesis by (simp add: digits_val_snoc [of "[]", simplified])
  next
    case False
    with snoc show ?thesis by (simp add: digits_val_snoc)
  qed
qed simp

lemma nat_string_canonical:
  assumes "list_all is_digit s" "s \<noteq> []" "hd s = CHR ''0'' \<longrightarrow> length s = 1"
  shows "nat_string (digits_val s) = s"
  using assms
proof (induction s rule: rev_induct)
  case (snoc c s)
  have c: "is_digit c" "digit_val c < 10" using snoc.prems(1) digit_val_less by simp_all
  show ?case
  proof (cases "s = []")
    case True
    have "digits_val [] = 0" by (simp add: digits_val_def)
    with c True show ?thesis by (simp add: digits_val_snoc [of "[]", simplified] digit_of_val nat_string.simps)
  next
    case False
    with snoc.prems have h: "hd s \<noteq> CHR ''0''" by auto
    with snoc False have ih: "nat_string (digits_val s) = s" by simp
    have "0 < digits_val s" using snoc.prems(1) False h by (intro digits_val_pos) simp_all
    then have "\<not> digits_val (s @ [c]) < 10" by (simp add: digits_val_snoc)
    moreover have "digits_val (s @ [c]) div 10 = digits_val s" "digits_val (s @ [c]) mod 10 = digit_val c"
      using c(2) by (simp_all add: digits_val_snoc)
    ultimately show ?thesis using ih c(1) by (subst nat_string.simps) (simp add: digit_of_val)
  qed
qed simp

lemma shape_split:
  assumes "amount_shape s"
  obtains w f where "split_point s = (w, f)" "list_all is_digit w" "list_all is_digit f" "s = w \<or> s = w @ ''.'' @ f" "s = w \<Longrightarrow> f = []"
proof -
  define w where "w = takeWhile is_digit s"
  have w: "list_all is_digit w" "s = w @ dropWhile is_digit s"
    by (auto simp: w_def list_all_iff dest: set_takeWhileD)
  show thesis
  proof (cases "dropWhile is_digit s")
    case Nil
    with w have "s = w" by simp
    with split_on_absent [OF digits_no_point [OF w(1)]] w(1) show thesis by (intro that [of w "[]"]) (simp_all add: split_point_def)
  next
    case (Cons c f)
    with assms have c: "c = CHR ''.''" "list_all is_digit f" by (simp_all add: amount_shape_def)
    with w(2) Cons have s: "s = w @ CHR ''.'' # f" by simp
    have "split_point s = (w, f)"
      using split_on_once [OF digits_no_point [OF w(1)], of f] split_on_absent [OF digits_no_point [OF c(2)]]
      by (simp add: s split_point_def)
    with w(1) c(2) s show thesis by (intro that [of w f]) simp_all
  qed
qed

lemma take_pad: "take d (fr @ replicate d (CHR ''0'')) = take d (pad_end d fr)"
  by (simp add: pad_end_def min_def)

lemma trim_shape:
  assumes "amount_shape s"
  shows "trim s = s"
proof -
  have plain: "\<forall>c\<in>set s. \<not> is_space c"
  proof -
    obtain w f where "split_point s = (w, f)" "list_all is_digit w" "list_all is_digit f" "s = w \<or> s = w @ ''.'' @ f"
      using shape_split [OF assms] by metis
    then show ?thesis by (auto simp: list_all_iff digit_not_space is_space_def dest!: bspec dest: digit_not_space)
  qed
  then show ?thesis by (intro trim_id) (auto dest: hd_in_set last_in_set)
qed

lemma typed_amount_read:
  assumes t: "typed_amount (trim s)" and "0 \<le> decs"
  shows "\<exists>n. parse_display (trim s) (nat decs) = Inr n \<and> 0 \<le> n \<and> to_base_units s decs = Inr (big_string n)"
proof -
  from t have "amount_shape (trim s)" by (simp add: typed_amount_def)
  then obtain w f where wf: "split_point (trim s) = (w, f)" "list_all is_digit w" "list_all is_digit f" by (rule shape_split)
  define ds where "ds = w @ take (nat decs) (f @ replicate (nat decs) (CHR ''0''))"
  have digits: "list_all is_digit ds"
    using wf(2,3) by (auto simp: ds_def list_all_iff is_digit_def dest!: in_set_takeD)
  have page: "to_base_units s decs = Inr (if strip_leading ds = [] then ''0'' else strip_leading ds)"
    using t assms(2) by (simp add: to_base_units_def wf(1) ds_def Let_def)
  have server: "parse_display (trim s) (nat decs) = big_of_string ds"
    unfolding parse_display_def wf(1) ds_def take_pad prod.case ..
  show ?thesis
  proof (cases "ds = []")
    case True
    have "big_of_string [] = Inr 0" "big_string 0 = ''0''" by code_simp+
    with page server True show ?thesis by simp
  next
    case False
    from strip_leading_digits [OF digits] strip_leading_canonical [OF digits False]
    have "nat_string (digits_val ds) = strip_leading ds" "strip_leading ds \<noteq> []"
      using nat_string_canonical [of "strip_leading ds"] by simp_all
    then have "to_base_units s decs = Inr (big_string (int (digits_val ds)))" using page by (simp add: big_string_def)
    moreover have "big_of_string ds = Inr (int (digits_val ds))" using digits False by (intro big_of_digits)
    ultimately show ?thesis using server by simp
  qed
qed

text \<open>
  What a user types and what the backend parses is one language: an amount of digits with at most
  one point gives, in the page, the decimal text of exactly the integer the backend's parser reads
  from it, digits beyond the token's decimals cut off in both; anything else gives \<open>0\<close>.
\<close>

theorem typed_amount_agrees:
  assumes "0 \<le> decs"
  shows "(typed_amount (trim s) \<longrightarrow> (\<exists>n. parse_display (trim s) (nat decs) = Inr n \<and> 0 \<le> n \<and> to_base_units s decs = Inr (big_string n))) \<and>
    (\<not> typed_amount (trim s) \<longrightarrow> to_base_units s decs = Inr ''0'')"
  using typed_amount_read [OF _ assms] by (simp add: to_base_units_def Let_def)

text \<open>
  A token with fewer than two decimals cannot be shown: every amount that is not zero makes the
  formatter throw, because two digits are asked for at least and the token's decimals at most.
\<close>

theorem few_decimals_throw:
  assumes "decs < 2" "num_abs (from_base_units raw decs) \<noteq> Fin 0" "\<forall>x. log10 x \<noteq> NaN"
  shows "format_units format log10 raw decs None = Inl RangeError"
proof -
  define sig where "sig = (let e = num_floor (log10 (num_abs (from_base_units raw decs))) in
    if num_le (Fin 1) (num_abs (from_base_units raw decs)) then num_sub (Fin 6) (num_add e (Fin 1)) else num_add (num_neg e) (Fin 5))"
  have "sig \<noteq> NaN"
  proof -
    have "num_floor (log10 x) \<noteq> NaN" for x using assms(3) by (auto simp: num_floor_def split: num.split)
    moreover have "num_sub (Fin 6) (num_add e (Fin 1)) \<noteq> NaN" "num_add (num_neg e) (Fin 5) \<noteq> NaN" if "e \<noteq> NaN" for e
      using that rnd_not_NaN by (cases e; simp add: num_sub_def; metis rnd_not_NaN num_neg.simps num_add.simps num.exhaust)+
    ultimately show ?thesis by (simp add: sig_def Let_def)
  qed
  then have "num_lt (num_min (num_min (num_max (Fin 2) sig) (Fin (of_int decs))) (Fin 12)) (Fin 2)"
    using assms(1) by (cases sig) (auto simp: num_min_def num_max_def)
  with assms(2) show ?thesis
    by (simp add: format_units_def locale_text_def fraction_digits_def sig_def Let_def)
qed

section \<open>The properties at concrete inputs\<close>

theorem typed_amount_agrees_witness:
  "\<exists>n. parse_display ''1.5'' 7 = Inr n \<and> 0 \<le> n \<and> to_base_units '' 1.5 '' 7 = Inr (big_string n)"
proof -
  have "trim '' 1.5 '' = ''1.5''" "typed_amount ''1.5''" by code_simp+
  with typed_amount_agrees [of 7 "'' 1.5 ''"] show ?thesis by simp
qed

theorem few_decimals_throw_witness:
  "format_units (\<lambda>v a b. ''x'') (\<lambda>x. Fin 0) (Inr 5) 0 None = Inl RangeError"
proof -
  have "num_of_big 5 = Fin 5" using num_of_big_small [of 5] by simp
  then have "num_abs (from_base_units (Inr 5) 0) \<noteq> Fin 0"
    using rnd_numeral [of "num.Bit1 (num.Bit0 num.One)"]
    by (simp add: from_base_units_def num_abs_def tdiv_def tmod_def Let_def num_of_big_def)
  then show ?thesis by (intro few_decimals_throw) simp_all
qed

end
