(* ===== verification/RfqHook.thy ===== *)
theory RfqHook
  imports SdkFlows
begin

text \<open>
  The state machine of a taker in the pages, the hook \<open>useRfq\<close> of
  \<open>frontend/src/lib/rfq.ts\<close>: previews while the taker types, opening, polling, cancelling and
  accepting. Every callback is cut at its awaits; timers and answers in flight are part of the state,
  and a run is any sequence of the pieces. The lemmas: a preview that is shown is the answer for the
  last input, the request shown is the active one, and a request cancelled while it is being opened
  comes back.
\<close>

section \<open>State\<close>

datatype rfq_phase = Idle | Requesting | PhaseOpen | Closed | Accepting | DonePhase | ErrorPhase

record hook =
  hk_seq :: nat
  hk_timer :: "(nat \<times> preview_input) option"
  hk_asked :: "(nat \<times> preview_input) list"
  hk_preview :: "preview_value option"
  hk_loading :: bool
  hk_request :: "public_request option"
  hk_phase :: rfq_phase
  hk_error :: "string option"
  hk_active :: "string option"
  hk_poll :: "string option"
  hk_ticking :: "string list"
  hk_starting :: nat
  hk_accepting :: "string list"

definition hook_init :: hook where
  "hook_init = \<lparr>hk_seq = 0, hk_timer = None, hk_asked = [], hk_preview = None, hk_loading = False, hk_request = None, hk_phase = Idle,
     hk_error = None, hk_active = None, hk_poll = None, hk_ticking = [], hk_starting = 0, hk_accepting = []\<rparr>"

section \<open>Callbacks\<close>

text \<open>\<open>previewFor\<close>: the timer is replaced; its firing sends the request; the answer counts only
  when no later input came.\<close>

definition preview_for :: "preview_input option \<Rightarrow> hook \<Rightarrow> hook" where
  "preview_for params h =
    (let n = Suc (hk_seq h); h1 = h\<lparr>hk_seq := n, hk_timer := None\<rparr>
     in case params of
          None \<Rightarrow> h1\<lparr>hk_preview := None, hk_loading := False\<rparr>
        | Some p \<Rightarrow> h1\<lparr>hk_loading := True, hk_timer := Some (n, p)\<rparr>)"

definition preview_fire :: "hook \<Rightarrow> hook" where
  "preview_fire h =
    (case hk_timer h of None \<Rightarrow> h | Some a \<Rightarrow> h\<lparr>hk_timer := None, hk_asked := a # hk_asked h\<rparr>)"

definition preview_answer :: "nat \<times> preview_input \<Rightarrow> preview_value option \<Rightarrow> hook \<Rightarrow> hook" where
  "preview_answer a v h =
    (let h1 = h\<lparr>hk_asked := remove1 a (hk_asked h)\<rparr>
     in if fst a = hk_seq h then h1\<lparr>hk_preview := v, hk_loading := False\<rparr> else h1)"

definition stop_polling :: "hook \<Rightarrow> hook" where
  "stop_polling h =
    (case hk_poll h of None \<Rightarrow> h | Some i \<Rightarrow> h\<lparr>hk_poll := None, hk_ticking := remove1 i (hk_ticking h)\<rparr>)"

definition hook_reset :: "hook \<Rightarrow> hook" where
  "hook_reset h = (stop_polling h)\<lparr>hk_active := None, hk_request := None, hk_phase := Idle, hk_error := None\<rparr>"

definition hook_start :: "hook \<Rightarrow> hook" where
  "hook_start h = (stop_polling h)\<lparr>hk_error := None, hk_phase := Requesting, hk_starting := Suc (hk_starting h)\<rparr>"

definition hook_opened :: "string + public_request \<Rightarrow> hook \<Rightarrow> hook" where
  "hook_opened answer h =
    (let h1 = h\<lparr>hk_starting := hk_starting h - 1\<rparr>
     in case answer of
          Inl m \<Rightarrow> h1\<lparr>hk_error := Some (if m = [] then ''Could not open the request'' else m), hk_phase := ErrorPhase\<rparr>
        | Inr r \<Rightarrow> h1\<lparr>hk_active := Some (r_id r), hk_request := Some r, hk_phase := PhaseOpen, hk_poll := Some (r_id r),
                     hk_ticking := r_id r # hk_ticking h\<rparr>)"

text \<open>An answer of the poll: both tests of the active id bracket the request, the second is the one
  that counts.\<close>

definition hook_polled :: "string \<Rightarrow> public_request option \<Rightarrow> int \<Rightarrow> hook \<Rightarrow> hook" where
  "hook_polled i answer now h =
    (if hk_active h \<noteq> Some i then h
     else case answer of
       None \<Rightarrow> h
     | Some nxt \<Rightarrow>
         let h1 = h\<lparr>hk_request := Some nxt\<rparr>;
             h2 = (if now > r_expires nxt + 60000 \<or> r_status nxt = request_status.Accepted \<or> r_status nxt = request_status.Settled
                   then stop_polling h1 else h1)
         in if r_status nxt \<noteq> request_status.Open \<and> hk_phase h2 = PhaseOpen then h2\<lparr>hk_phase := Closed\<rparr> else h2)"

definition hook_cancel :: "hook \<Rightarrow> hook" where
  "hook_cancel h = hook_reset (stop_polling h)"

definition hook_accept :: "string \<Rightarrow> hook \<Rightarrow> string + hook" where
  "hook_accept qid h =
    (case hk_request h of
       None \<Rightarrow> Inl ''No open request''
     | Some r \<Rightarrow> Inr ((stop_polling h)\<lparr>hk_phase := Accepting, hk_error := None, hk_accepting := qid # hk_accepting h\<rparr>))"

definition hook_accepted :: "string \<Rightarrow> string + string option \<Rightarrow> hook \<Rightarrow> hook" where
  "hook_accepted qid answer h =
    (let h1 = h\<lparr>hk_accepting := remove1 qid (hk_accepting h)\<rparr>
     in case answer of
          Inl m \<Rightarrow> h1\<lparr>hk_error := Some (if m = [] then ''Settlement failed'' else m), hk_phase := ErrorPhase\<rparr>
        | Inr hash \<Rightarrow> h1\<lparr>hk_request := map_option (\<lambda>r. r\<lparr>r_status := request_status.Settled, r_hash := hash, r_accepted := Some qid\<rparr>) (hk_request h),
                        hk_phase := DonePhase\<rparr>)"

text \<open>What the panel derives: the quotes and the countdown.\<close>

definition shown_quotes :: "int \<Rightarrow> hook \<Rightarrow> public_quote list" where
  "shown_quotes now h = (case hk_request h of None \<Rightarrow> [] | Some r \<Rightarrow> acceptable_quotes now r)"

definition seconds_left :: "int \<Rightarrow> hook \<Rightarrow> int" where
  "seconds_left now h = (case hk_request h of None \<Rightarrow> 0 | Some r \<Rightarrow> max 0 (- ((now - r_expires r) div 1000)))"

section \<open>Runs\<close>

datatype hook_event =
    Typed "preview_input option"
  | Fired
  | Previewed "nat \<times> preview_input" "preview_value option"
  | Started
  | Opened "string + public_request"
  | Polled string "public_request option" int
  | Cancelled_by_user
  | ResetByUser
  | AcceptClicked string
  | AcceptEnded string "string + string option"

text \<open>An answer to a poll is about the request that was polled.\<close>

fun event_enabled :: "hook \<Rightarrow> hook_event \<Rightarrow> bool" where
  "event_enabled h (Previewed a v) \<longleftrightarrow> a \<in> set (hk_asked h)"
| "event_enabled h (Opened _) \<longleftrightarrow> 0 < hk_starting h"
| "event_enabled h (Polled i answer _) \<longleftrightarrow> (case answer of None \<Rightarrow> True | Some r \<Rightarrow> r_id r = i)"
| "event_enabled h (AcceptEnded qid _) \<longleftrightarrow> qid \<in> set (hk_accepting h)"
| "event_enabled h _ \<longleftrightarrow> True"

fun hook_exec :: "hook_event \<Rightarrow> hook \<Rightarrow> hook" where
  "hook_exec (Typed p) h = preview_for p h"
| "hook_exec Fired h = preview_fire h"
| "hook_exec (Previewed a v) h = preview_answer a v h"
| "hook_exec Started h = hook_start h"
| "hook_exec (Opened answer) h = hook_opened answer h"
| "hook_exec (Polled i answer now) h = hook_polled i answer now h"
| "hook_exec Cancelled_by_user h = hook_cancel h"
| "hook_exec ResetByUser h = hook_reset h"
| "hook_exec (AcceptClicked qid) h = (case hook_accept qid h of Inl _ \<Rightarrow> h | Inr h' \<Rightarrow> h')"
| "hook_exec (AcceptEnded qid answer) h = hook_accepted qid answer h"

inductive hook_runs :: "hook_event list \<Rightarrow> hook \<Rightarrow> bool" where
  hook_runs_start: "hook_runs [] hook_init"
| hook_runs_step: "hook_runs evs h \<Longrightarrow> event_enabled h ev \<Longrightarrow> hook_runs (ev # evs) (hook_exec ev h)"

text \<open>The last input of the taker in a run, newest event first.\<close>

fun last_typed :: "hook_event list \<Rightarrow> preview_input option" where
  "last_typed [] = None"
| "last_typed (Typed p # evs) = p"
| "last_typed (_ # evs) = last_typed evs"

section \<open>What the panel shows\<close>

lemma stop_polling_simps [simp]:
  "hk_seq (stop_polling h) = hk_seq h" "hk_timer (stop_polling h) = hk_timer h" "hk_asked (stop_polling h) = hk_asked h"
  "hk_preview (stop_polling h) = hk_preview h" "hk_loading (stop_polling h) = hk_loading h" "hk_request (stop_polling h) = hk_request h"
  "hk_phase (stop_polling h) = hk_phase h" "hk_active (stop_polling h) = hk_active h" "hk_starting (stop_polling h) = hk_starting h"
  "hk_accepting (stop_polling h) = hk_accepting h"
  by (simp_all add: stop_polling_def split: option.split)

definition preview_inv :: "hook_event list \<Rightarrow> hook \<Rightarrow> bool" where
  "preview_inv evs h \<longleftrightarrow>
    (\<forall>n p. (n, p) \<in> set (hk_asked h) \<or> hk_timer h = Some (n, p) \<longrightarrow> n \<le> hk_seq h) \<and>
    (\<forall>p. (hk_seq h, p) \<in> set (hk_asked h) \<or> hk_timer h = Some (hk_seq h, p) \<longrightarrow> last_typed evs = Some p) \<and>
    (\<not> hk_loading h \<longrightarrow> (\<forall>v. hk_preview h = Some v \<longrightarrow> (\<exists>p n. last_typed evs = Some p \<and> Previewed (n, p) (Some v) \<in> set evs)))"

text \<open>Only the three preview events touch the preview part of the state.\<close>

lemma other_events:
  assumes "\<nexists>p. ev = Typed p" "ev \<noteq> Fired" "\<nexists>a v. ev = Previewed a v"
  shows "hk_seq (hook_exec ev h) = hk_seq h \<and> hk_timer (hook_exec ev h) = hk_timer h \<and> hk_asked (hook_exec ev h) = hk_asked h \<and>
    hk_preview (hook_exec ev h) = hk_preview h \<and> hk_loading (hook_exec ev h) = hk_loading h \<and> last_typed (ev # evs) = last_typed evs"
  using assms
  by (cases ev) (auto simp: hook_start_def hook_opened_def hook_polled_def hook_cancel_def hook_reset_def hook_accept_def hook_accepted_def
      Let_def split: sum.split option.split)

lemma preview_inv_step:
  assumes "preview_inv evs h" "event_enabled h ev"
  shows "preview_inv (ev # evs) (hook_exec ev h)"
proof (cases ev)
  case (Typed p)
  with assms(1) show ?thesis
    by (cases p) (fastforce simp: preview_inv_def preview_for_def Let_def intro: le_SucI)+
next
  case Fired
  with assms(1) show ?thesis
    by (cases "hk_timer h") (auto simp: preview_inv_def preview_fire_def)
next
  case (Previewed a v)
  obtain n p where a: "a = (n, p)" by (cases a)
  with assms(2) Previewed have asked: "(n, p) \<in> set (hk_asked h)" by simp
  show ?thesis
  proof (cases "n = hk_seq h")
    case True
    with assms(1) asked have "last_typed evs = Some p" by (auto simp: preview_inv_def)
    with assms(1) True show ?thesis
      by (auto simp: Previewed a preview_inv_def preview_answer_def Let_def dest: notin_set_remove1 [THEN notE, rotated] set_remove1_subset [THEN subsetD])
  next
    case False
    with assms(1) show ?thesis
      by (fastforce simp: Previewed a preview_inv_def preview_answer_def Let_def dest: set_remove1_subset [THEN subsetD])
  qed
qed (use assms other_events [of ev h evs] in \<open>auto simp: preview_inv_def\<close>)

lemma preview_inv_runs: "hook_runs evs h \<Longrightarrow> preview_inv evs h"
  by (induction rule: hook_runs.induct) (auto simp: preview_inv_step, simp add: preview_inv_def hook_init_def)

definition active_inv :: "hook \<Rightarrow> bool" where
  "active_inv h \<longleftrightarrow> (\<forall>r. hk_request h = Some r \<longrightarrow> hk_active h = Some (r_id r))"

lemma active_inv_runs: "hook_runs evs h \<Longrightarrow> active_inv h"
proof (induction rule: hook_runs.induct)
  case (hook_runs_step evs h ev)
  then show ?case
    by (cases ev) (auto simp: active_inv_def preview_for_def preview_fire_def preview_answer_def hook_start_def hook_opened_def hook_polled_def
        hook_cancel_def hook_reset_def hook_accept_def hook_accepted_def Let_def split: sum.split option.splits)
qed (simp add: active_inv_def hook_init_def)


text \<open>
  Cancelling while the request is being opened does not cancel it: the answer that arrives
  afterwards puts the panel back to open, with that request active and polled, and no cancellation of
  it was ever sent, for at the time of the click no id was known.
\<close>

theorem cancel_while_opening:
  assumes "hook_runs evs h" "hk_starting h = 1" "hk_active h = None"
  shows "hook_runs (Opened (Inr r) # Cancelled_by_user # evs) (hook_opened (Inr r) (hook_cancel h)) \<and>
    hk_phase (hook_opened (Inr r) (hook_cancel h)) = PhaseOpen \<and> hk_active (hook_opened (Inr r) (hook_cancel h)) = Some (r_id r) \<and>
    hk_poll (hook_opened (Inr r) (hook_cancel h)) = Some (r_id r) \<and> hk_phase (hook_cancel h) = Idle \<and> hk_active (hook_cancel h) = None"
proof -
  have "hook_runs (Cancelled_by_user # evs) (hook_cancel h)"
    using hook_runs_step [OF assms(1), of Cancelled_by_user] by simp
  moreover have "0 < hk_starting (hook_cancel h)" using assms(2) by (simp add: hook_cancel_def hook_reset_def)
  ultimately have "hook_runs (Opened (Inr r) # Cancelled_by_user # evs) (hook_opened (Inr r) (hook_cancel h))"
    using hook_runs_step [of "Cancelled_by_user # evs" "hook_cancel h" "Opened (Inr r)"] by simp
  then show ?thesis by (simp add: hook_opened_def hook_cancel_def hook_reset_def Let_def)
qed

section \<open>The properties at concrete inputs\<close>

definition demo_preview :: "int \<Rightarrow> preview_input" where
  "demo_preview n = \<lparr>pv_taker = None, pv_in = ''A'', pv_out = ''B'', pv_amount = n\<rparr>"

definition demo_shown :: preview_value where
  "demo_shown = \<lparr>vv_reference = no_reference, vv_in = ([], 7), vv_out = ([], 7)\<rparr>"

definition demo_typing :: "hook_event list" where
  "demo_typing = [Previewed (2, demo_preview 15) (Some demo_shown), Fired, Typed (Some (demo_preview 15)), Fired, Typed (Some (demo_preview 1))]"

lemma demo_typing_runs:
  "\<exists>h. hook_runs demo_typing h \<and> \<not> hk_loading h \<and> hk_preview h = Some demo_shown"
proof -
  have 1: "hook_runs [Typed (Some (demo_preview 1))] (preview_for (Some (demo_preview 1)) hook_init)"
    using hook_runs_step [OF hook_runs_start, of "Typed (Some (demo_preview 1))"] by simp
  have 2: "hook_runs [Fired, Typed (Some (demo_preview 1))] (preview_fire (preview_for (Some (demo_preview 1)) hook_init))"
    using hook_runs_step [OF 1, of Fired] by simp
  have 3: "hook_runs [Typed (Some (demo_preview 15)), Fired, Typed (Some (demo_preview 1))]
      (preview_for (Some (demo_preview 15)) (preview_fire (preview_for (Some (demo_preview 1)) hook_init)))"
    using hook_runs_step [OF 2, of "Typed (Some (demo_preview 15))"] by simp
  have 4: "hook_runs [Fired, Typed (Some (demo_preview 15)), Fired, Typed (Some (demo_preview 1))]
      (preview_fire (preview_for (Some (demo_preview 15)) (preview_fire (preview_for (Some (demo_preview 1)) hook_init))))" (is "hook_runs _ ?h")
    using hook_runs_step [OF 3, of Fired] by simp
  have h: "?h = hook_init\<lparr>hk_seq := 2, hk_loading := True, hk_asked := [(2, demo_preview 15), (1, demo_preview 1)]\<rparr>"
    by (simp add: preview_for_def preview_fire_def hook_init_def Let_def)
  from hook_runs_step [OF 4, of "Previewed (2, demo_preview 15) (Some demo_shown)"]
  have "hook_runs demo_typing (preview_answer (2, demo_preview 15) (Some demo_shown) ?h)" by (simp add: demo_typing_def h)
  moreover have "\<not> hk_loading (preview_answer (2, demo_preview 15) (Some demo_shown) ?h)"
    "hk_preview (preview_answer (2, demo_preview 15) (Some demo_shown) ?h) = Some demo_shown"
    unfolding h by (simp_all add: preview_answer_def hook_init_def Let_def)
  ultimately show ?thesis by blast
qed


theorem cancel_while_opening_witness:
  "\<exists>evs h. hook_runs (Opened (Inr (demo_open [])) # Cancelled_by_user # evs) h \<and> hk_phase h = PhaseOpen"
proof -
  have "hook_runs [Started] (hook_start hook_init)" using hook_runs_step [OF hook_runs_start, of Started] by simp
  from cancel_while_opening [OF this, of "demo_open []"]
  show ?thesis by (auto simp: hook_start_def hook_init_def stop_polling_def)
qed

end
