(* ===== verification/Nav.thy ===== *)
theory Nav
  imports RfqReference
begin

text \<open>
  The issuer's own prices, \<open>backend/src/services/etherfuse-nav.ts\<close>: the table built from the two
  price lists, its cache with one refresh at a time, and the lookup by symbol and issuer. The HTTP
  answers and \<open>Date.parse\<close> are arguments. The lemmas: what a lookup answers is a positive price
  of that very symbol, bound to that very issuer when the list binds it; a failed refresh keeps the
  last table; at most one refresh is under way.
\<close>

section \<open>The table\<close>

record issuer_nav =
  nv_symbol :: string
  nv_usd :: num
  nv_fiat :: num
  nv_currency :: string
  nv_yield :: "num option"
  nv_time :: num
  nv_issuer :: "string option"

type_synonym nav_table = "(string, issuer_nav) jmap"

text \<open>One entry of the cost list, and one bond with its blockchains and identifiers there.\<close>

record cost_entry =
  ce_usd :: jv
  ce_fiat :: jv
  ce_currency :: jv
  ce_bps :: jv
  ce_time :: jv
  ce_symbol :: jv

record bond =
  bd_symbol :: jv
  bd_chains :: "(jv \<times> jv) list"

text \<open>\<open>String(v)\<close>\<close>

definition js_text :: "(num \<Rightarrow> string) \<Rightarrow> jv \<Rightarrow> string" where
  "js_text nt v = (case v of JUndef \<Rightarrow> ''undefined'' | JNull \<Rightarrow> ''null'' | _ \<Rightarrow> text_of_jv nt v)"

definition or_text :: "jv \<Rightarrow> jv \<Rightarrow> jv" where
  "or_text v d = (if v = JUndef \<or> v = JNull then d else v)"

text \<open>\<open>/^([A-Za-z0-9]{1,12})-(G[A-Z2-7]{55})$/\<close>\<close>

definition bound_issuer :: "string \<Rightarrow> string option" where
  "bound_issuer s =
    (let code = takeWhile (\<lambda>c. c \<noteq> CHR ''-'') s; rest = drop (Suc (length code)) s
     in if asset_code_ok code \<and> strkey (CHR ''G'') rest then Some rest else None)"

definition bond_issuer :: "(num \<Rightarrow> string) \<Rightarrow> bond \<Rightarrow> string option" where
  "bond_issuer nt b =
    (case find (\<lambda>c. fst c = JStr ''stellar'') (bd_chains b) of
       None \<Rightarrow> bound_issuer []
     | Some c \<Rightarrow> bound_issuer (js_text nt (or_text (snd c) (JStr []))))"

definition bond_issuers :: "(num \<Rightarrow> string) \<Rightarrow> bond list \<Rightarrow> (string, string) jmap" where
  "bond_issuers nt bonds =
    foldl (\<lambda>m b. case bond_issuer nt b of None \<Rightarrow> m | Some i \<Rightarrow> jm_set (to_upper (js_text nt (bd_symbol b))) i m) jm_empty bonds"

definition nav_of_entry :: "(num \<Rightarrow> string) \<Rightarrow> (string \<Rightarrow> num) \<Rightarrow> int \<Rightarrow> (string, string) jmap \<Rightarrow> string \<times> cost_entry option \<Rightarrow> issuer_nav option" where
  "nav_of_entry nt parse_date now issuers e =
    (case snd e of
       None \<Rightarrow> None
     | Some v \<Rightarrow>
         let usd = num_of_jv (ce_usd v)
         in if \<not> num_lt (Fin 0) usd then None
            else let sy = to_upper (js_text nt (or_text (ce_symbol v) (JStr (fst e))));
                     ts = parse_date (js_text nt (or_text (ce_time v) (JStr [])));
                     fiat = num_of_jv (ce_fiat v);
                     bps = num_of_jv (ce_bps v)
                 in Some \<lparr>nv_symbol = sy, nv_usd = usd, nv_fiat = (if falsy (Some fiat) then usd else fiat),
                      nv_currency = js_text nt (or_text (ce_currency v) (JStr ''USD'')),
                      nv_yield = (if is_finite bps then Some bps else None),
                      nv_time = (if is_finite ts then num_floor (num_div ts (Fin 1000)) else seconds_of now),
                      nv_issuer = jm_get issuers sy\<rparr>)"

text \<open>\<open>refresh\<close>: the cost list must answer; without the bond list no issuer is bound.\<close>

definition nav_refresh :: "(num \<Rightarrow> string) \<Rightarrow> (string \<Rightarrow> num) \<Rightarrow> int \<Rightarrow> (string \<times> cost_entry option) list js \<Rightarrow> bond list js \<Rightarrow> nav_table js" where
  "nav_refresh nt parse_date now cost bonds =
    js_bind cost (\<lambda>entries.
      let issuers = bond_issuers nt (js_catch bonds [])
      in Inr (foldl (\<lambda>t e. case nav_of_entry nt parse_date now issuers e of None \<Rightarrow> t | Some n \<Rightarrow> jm_set (nv_symbol n) n t) jm_empty entries))"

section \<open>Cache\<close>

definition nav_ttl_ms :: int where "nav_ttl_ms = 5 * 60000"

record nav_state =
  ns_cache :: "(int \<times> nav_table) option"
  ns_inflight :: nat

text \<open>\<open>table()\<close>: the cached table while it is fresh, the refresh under way, or a new one.\<close>

datatype nav_answer = Ready nav_table | Joined | Fetching

definition nav_begin :: "int \<Rightarrow> nav_state \<Rightarrow> nav_answer \<times> nav_state" where
  "nav_begin now s =
    (case ns_cache s of
       Some (since, t) \<Rightarrow>
         if now - since < nav_ttl_ms then (Ready t, s)
         else if 0 < ns_inflight s then (Joined, s) else (Fetching, s\<lparr>ns_inflight := Suc (ns_inflight s)\<rparr>)
     | None \<Rightarrow> if 0 < ns_inflight s then (Joined, s) else (Fetching, s\<lparr>ns_inflight := Suc (ns_inflight s)\<rparr>))"

text \<open>The end of a refresh: what everybody who waits gets.\<close>

definition nav_end :: "nav_table js \<Rightarrow> int \<Rightarrow> nav_state \<Rightarrow> nav_table \<times> nav_state" where
  "nav_end answer now s =
    (case answer of
       Inr t \<Rightarrow> (t, s\<lparr>ns_cache := Some (now, t), ns_inflight := ns_inflight s - 1\<rparr>)
     | Inl _ \<Rightarrow> ((case ns_cache s of Some (_, t) \<Rightarrow> t | None \<Rightarrow> jm_empty), s\<lparr>ns_inflight := ns_inflight s - 1\<rparr>))"

definition nav_symbols :: "nav_state \<Rightarrow> string list" where
  "nav_symbols s = (case ns_cache s of Some (_, t) \<Rightarrow> map fst t | None \<Rightarrow> [])"

text \<open>\<open>lookup\<close> in a table: the issuer, when given, must be the one the list binds.\<close>

definition nav_lookup :: "nav_table \<Rightarrow> string \<Rightarrow> string option \<Rightarrow> issuer_nav option" where
  "nav_lookup t sy issuer =
    (case jm_get t (to_upper sy) of
       None \<Rightarrow> None
     | Some hit \<Rightarrow>
         if truthy issuer \<and> truthy (nv_issuer hit) \<and> nv_issuer hit \<noteq> issuer then None else Some hit)"

text \<open>What the server hands the RFQ service.\<close>

definition issuer_usd :: "agg_token list \<Rightarrow> nav_table \<Rightarrow> string \<Rightarrow> string \<Rightarrow> issuer_price option" where
  "issuer_usd us t sy sac =
    (if sy = [] then None
     else map_option (\<lambda>n. \<lparr>ip_usd = nv_usd n, ip_source = ''etherfuse'', ip_ts = nv_time n\<rparr>) (nav_lookup t sy (issuer_of us sac)))"

section \<open>What a lookup answers\<close>

definition nav_ok :: "(string, string) jmap \<Rightarrow> string \<Rightarrow> issuer_nav \<Rightarrow> bool" where
  "nav_ok issuers k n \<longleftrightarrow> nv_symbol n = k \<and> num_lt (Fin 0) (nv_usd n) \<and> nv_issuer n = jm_get issuers k"

lemma nav_of_entry_ok: "nav_of_entry nt pd now issuers e = Some n \<Longrightarrow> nav_ok issuers (nv_symbol n) n"
  by (auto simp: nav_of_entry_def nav_ok_def Let_def split: option.split_asm if_split_asm)

lemma nav_table_ok:
  assumes "\<forall>k n. jm_get t k = Some n \<longrightarrow> nav_ok issuers k n"
  shows "jm_get (foldl (\<lambda>t e. case nav_of_entry nt pd now issuers e of None \<Rightarrow> t | Some n \<Rightarrow> jm_set (nv_symbol n) n t) t es) k = Some n
    \<Longrightarrow> nav_ok issuers k n"
  using assms
proof (induction es arbitrary: t)
  case (Cons e es)
  show ?case
  proof (cases "nav_of_entry nt pd now issuers e")
    case None
    with Cons show ?thesis by simp
  next
    case (Some m)
    have "\<forall>k n. jm_get (jm_set (nv_symbol m) m t) k = Some n \<longrightarrow> nav_ok issuers k n"
      using Cons.prems(2) nav_of_entry_ok [OF Some] by (auto simp: jm.get_put)
    with Cons Some show ?thesis by simp
  qed
qed auto

lemma bound_issuer_strkey: "bound_issuer s = Some i \<Longrightarrow> strkey (CHR ''G'') i"
  by (auto simp: bound_issuer_def Let_def split: if_split_asm)

lemma bond_issuer_strkey: "bond_issuer nt b = Some i \<Longrightarrow> strkey (CHR ''G'') i"
  by (auto simp: bond_issuer_def dest: bound_issuer_strkey split: option.split_asm)

lemma bonds_fold_strkey:
  assumes "\<forall>k i. jm_get m k = Some i \<longrightarrow> strkey (CHR ''G'') i"
  shows "\<forall>k i. jm_get (foldl (\<lambda>m b. case bond_issuer nt b of None \<Rightarrow> m
      | Some i \<Rightarrow> jm_set (to_upper (js_text nt (bd_symbol b))) i m) m bonds) k = Some i \<longrightarrow> strkey (CHR ''G'') i"
  using assms
proof (induction bonds arbitrary: m)
  case (Cons b bonds)
  have "\<forall>k i. jm_get (case bond_issuer nt b of None \<Rightarrow> m | Some i \<Rightarrow> jm_set (to_upper (js_text nt (bd_symbol b))) i m) k = Some i
      \<longrightarrow> strkey (CHR ''G'') i"
    using Cons.prems by (auto simp: jm.get_put bond_issuer_strkey split: option.split)
  from Cons.IH [OF this] show ?case by simp
qed simp

lemma bond_issuers_strkey: "jm_get (bond_issuers nt bonds) k = Some i \<Longrightarrow> strkey (CHR ''G'') i"
  using bonds_fold_strkey [of jm_empty nt bonds] by (simp add: bond_issuers_def jm.get_empty)

text \<open>
  The issuer's price of a token, as the RFQ service gets it: positive, of the symbol asked for,
  and when the bond list binds that symbol to an issuing account and the token names its issuer, the
  two are the same account. So a look-alike token under a listed symbol never gets the issuer's price.
\<close>

theorem issuer_price_bound:
  assumes "nav_refresh nt pd now cost bonds = Inr t" "issuer_usd us t sy sac = Some p"
  shows "num_lt (Fin 0) (ip_usd p) \<and> (\<exists>n. jm_get t (to_upper sy) = Some n \<and> nv_symbol n = to_upper sy \<and> ip_usd p = nv_usd n) \<and>
    (\<forall>i j. jm_get (bond_issuers nt (js_catch bonds [])) (to_upper sy) = Some i \<longrightarrow> issuer_of us sac = Some j \<longrightarrow> j \<noteq> [] \<longrightarrow> i = j)"
proof -
  let ?is = "bond_issuers nt (js_catch bonds [])"
  from assms(1) obtain es where
    t: "t = foldl (\<lambda>t e. case nav_of_entry nt pd now ?is e of None \<Rightarrow> t | Some n \<Rightarrow> jm_set (nv_symbol n) n t) jm_empty es"
    by (auto simp: nav_refresh_def js_bind_Inr_iff Let_def)
  from assms(2) obtain n where n: "nav_lookup t sy (issuer_of us sac) = Some n" "ip_usd p = nv_usd n"
    by (auto simp: issuer_usd_def split: if_split_asm)
  then have g: "jm_get t (to_upper sy) = Some n"
    and same: "truthy (issuer_of us sac) \<Longrightarrow> truthy (nv_issuer n) \<Longrightarrow> nv_issuer n = issuer_of us sac"
    by (auto simp: nav_lookup_def split: option.split_asm if_split_asm)
  from nav_table_ok [of jm_empty ?is nt pd now es "to_upper sy" n] g t have ok: "nav_ok ?is (to_upper sy) n"
    by (simp add: jm.get_empty)
  have "i = j" if i: "jm_get ?is (to_upper sy) = Some i" and j: "issuer_of us sac = Some j" "j \<noteq> []" for i j
  proof -
    have "i \<noteq> []" using bond_issuers_strkey [OF i] by (auto simp: strkey_def)
    with ok i have "truthy (nv_issuer n)" "nv_issuer n = Some i" by (auto simp: nav_ok_def truthy_def split: list.split)
    with same j show ?thesis by (cases j) (auto simp: truthy_def)
  qed
  with ok g n(2) show ?thesis by (auto simp: nav_ok_def)
qed

section \<open>One refresh at a time\<close>

inductive nav_runs :: "nav_state \<Rightarrow> bool" where
  nav_start: "nav_runs \<lparr>ns_cache = None, ns_inflight = 0\<rparr>"
| nav_ask: "nav_runs s \<Longrightarrow> nav_runs (snd (nav_begin now s))"
| nav_done: "nav_runs s \<Longrightarrow> 0 < ns_inflight s \<Longrightarrow> nav_runs (snd (nav_end answer now s))"

lemma nav_single: "nav_runs s \<Longrightarrow> ns_inflight s \<le> 1"
  by (induction rule: nav_runs.induct) (auto simp: nav_begin_def nav_end_def split: option.split sum.split prod.split)

text \<open>A refresh that fails leaves the table as it was, and everybody who waits gets that table.\<close>

lemma nav_stale_kept:
  "ns_cache s = Some (since, t) \<Longrightarrow> fst (nav_end (Inl e) now s) = t \<and> ns_cache (snd (nav_end (Inl e) now s)) = Some (since, t)"
  by (simp add: nav_end_def)

section \<open>The property at a concrete input\<close>

definition demo_cost :: "(string \<times> cost_entry option) list" where
  "demo_cost = [(''USTRY'', Some \<lparr>ce_usd = JNum (Fin 2), ce_fiat = JNull, ce_currency = JUndef, ce_bps = JNum (Fin 400), ce_time = JStr [], ce_symbol = JUndef\<rparr>)]"

definition demo_bonds :: "bond list" where
  "demo_bonds = [\<lparr>bd_symbol = JStr ''USTRY'', bd_chains = [(JStr ''stellar'', JStr (''USTRY-G'' @ replicate 55 (CHR ''A'')))]\<rparr>]"

lemma demo_nav: "\<exists>t. nav_refresh (\<lambda>_. []) (\<lambda>_. NaN) 0 (Inr demo_cost) (Inr demo_bonds) = Inr t \<and> issuer_usd [] t ''ustry'' ''S'' \<noteq> None"
proof -
  have up: "to_upper ''ustry'' = ''USTRY''" "to_upper ''USTRY'' = ''USTRY''" by code_simp+
  show ?thesis
    by (simp add: nav_refresh_def demo_cost_def nav_of_entry_def js_text_def or_text_def Let_def up issuer_usd_def
        nav_lookup_def issuer_of_def truthy_def jm.get_put)
qed

theorem issuer_price_bound_witness:
  "\<exists>t p. nav_refresh (\<lambda>_. []) (\<lambda>_. NaN) 0 (Inr demo_cost) (Inr demo_bonds) = Inr t \<and> issuer_usd [] t ''ustry'' ''S'' = Some p \<and>
    num_lt (Fin 0) (ip_usd p)"
proof -
  from demo_nav obtain t p where tp: "nav_refresh (\<lambda>_. []) (\<lambda>_. NaN) 0 (Inr demo_cost) (Inr demo_bonds) = Inr t" "issuer_usd [] t ''ustry'' ''S'' = Some p"
    by blast
  from issuer_price_bound [OF tp] tp show ?thesis by blast
qed

end
