(* ===== verification/PriceOracle.thy ===== *)
theory PriceOracle
  imports FairValue TxBuild
begin

text \<open>
  The price pusher, \<open>backend/src/services/oracle.ts\<close>: one pass over the tracked pairs, the
  local cache of prices, and the calls it makes on chain. The answer of the price service is an
  argument; the calls are collected in the order they are made, and what they answer does not matter
  to the pass. The lemmas: a cached price is a positive fraction over ten million next to the number
  it came from, a pass without an answer changes nothing, and with the registry of this repository no
  price is ever pushed.
\<close>

section \<open>Pairs and prices\<close>

record oracle_pair =
  op_in :: string
  op_out :: string
  op_coin :: string

definition oracle_pairs :: "oracle_pair list" where
  "oracle_pairs =
    [\<lparr>op_in = ''SolvBTC'', op_out = ''USDC'', op_coin = ''bitcoin''\<rparr>,
     \<lparr>op_in = ''SolvBTC'', op_out = ''PYUSD'', op_coin = ''bitcoin''\<rparr>,
     \<lparr>op_in = ''SolvBTC'', op_out = ''USDY'', op_coin = ''bitcoin''\<rparr>]"

record price_data =
  pd_pair :: string
  pd_num :: int
  pd_den :: int
  pd_human :: num
  pd_at :: int

record oracle_service =
  os_contract :: string
  os_key :: bool
  os_prices :: "(string, price_data) jmap"

text \<open>The constructor: an invalid secret only disables pushing.\<close>

definition new_oracle :: "string \<Rightarrow> string option \<Rightarrow> (string \<Rightarrow> bool) \<Rightarrow> oracle_service" where
  "new_oracle contract secret secret_ok =
    \<lparr>os_contract = contract, os_key = (truthy secret \<and> secret_ok (the secret)), os_prices = jm_empty\<rparr>"

definition pair_name :: "string \<Rightarrow> string \<Rightarrow> string" where
  "pair_name a b = a @ CHR ''/'' # b"

definition oracle_get_price :: "oracle_service \<Rightarrow> string \<Rightarrow> string \<Rightarrow> price_data option" where
  "oracle_get_price s a b = jm_get (os_prices s) (pair_name a b)"

section \<open>Pushing\<close>

record contract_call =
  cc_contract :: string
  cc_fn :: string
  cc_args :: "scval list"

definition registry_sac :: "token_config list \<Rightarrow> string \<Rightarrow> string option" where
  "registry_sac ts sy = map_option tk_sac (find (\<lambda>t. tk_symbol t = sy) ts)"

definition push_price :: "token_config list \<Rightarrow> oracle_service \<Rightarrow> oracle_pair \<Rightarrow> int \<Rightarrow> int \<Rightarrow> contract_call list" where
  "push_price ts s p n d =
    (if \<not> os_key s \<or> os_contract s = [] then []
     else let a = registry_sac ts (op_in p); b = registry_sac ts (op_out p)
          in if \<not> truthy a \<or> \<not> truthy b then []
             else [\<lparr>cc_contract = os_contract s, cc_fn = ''update_oracle_price'',
                    cc_args = [ScvAddress (the a), ScvAddress (the b), ScvI128 n, ScvI128 d]\<rparr>])"

section \<open>One pass\<close>

definition price_scale :: int where "price_scale = 10000000"

definition scaled_usd :: "num \<Rightarrow> int js" where
  "scaled_usd usd = big_of_num (num_round (num_mul usd (Fin 10000000)))"

text \<open>The loop body; a price that is no finite number ends the pass. Besides the state and the
  calls, whether the pass failed.\<close>

fun update_pairs :: "token_config list \<Rightarrow> (string \<Rightarrow> num option) \<Rightarrow> int \<Rightarrow> oracle_pair list \<Rightarrow> oracle_service \<Rightarrow> oracle_service \<times> contract_call list \<times> unit js" where
  "update_pairs ts prices now [] s = (s, [], Inr ())"
| "update_pairs ts prices now (p # ps) s =
    (let usd = prices (op_coin p)
     in if falsy usd \<or> num_le (the usd) (Fin 0) then update_pairs ts prices now ps s
        else case scaled_usd (the usd) of
          Inl e \<Rightarrow> (s, [], Inl e)
        | Inr n \<Rightarrow>
            if n \<le> 0 then update_pairs ts prices now ps s
            else let name = pair_name (op_in p) (op_out p);
                     s1 = s\<lparr>os_prices := jm_set name \<lparr>pd_pair = name, pd_num = n, pd_den = price_scale, pd_human = the usd, pd_at = now\<rparr> (os_prices s)\<rparr>;
                     (s2, calls, r) = update_pairs ts prices now ps s1
                 in (s2, push_price ts s p n price_scale @ calls, r))"

text \<open>\<open>fetchCoinGeckoPrices\<close>: a status that is not ok or an exception is null.\<close>

definition fetched_prices :: "(bool \<times> (string \<Rightarrow> num option)) js \<Rightarrow> (string \<Rightarrow> num option) option" where
  "fetched_prices reply = (case reply of Inr (True, f) \<Rightarrow> Some f | _ \<Rightarrow> None)"

definition update_all_prices :: "token_config list \<Rightarrow> (bool \<times> (string \<Rightarrow> num option)) js \<Rightarrow> int \<Rightarrow> oracle_service
    \<Rightarrow> oracle_service \<times> contract_call list \<times> unit js" where
  "update_all_prices ts reply now s =
    (case fetched_prices reply of
       None \<Rightarrow> (s, [], Inr ())
     | Some prices \<Rightarrow> update_pairs ts prices now oracle_pairs s)"

section \<open>What is cached and pushed\<close>

definition price_ok :: "string \<Rightarrow> price_data \<Rightarrow> bool" where
  "price_ok k d \<longleftrightarrow> pd_pair d = k \<and> 0 < pd_num d \<and> pd_den d = 10000000 \<and> num_lt (Fin 0) (pd_human d) \<and>
    scaled_usd (pd_human d) = Inr (pd_num d)"

lemma usable_price: "\<not> (falsy usd \<or> num_le (the usd) (Fin 0)) \<Longrightarrow> num_lt (Fin 0) (the usd)"
  by (cases usd; cases "the usd") (auto simp: falsy_def num_le_def)

lemma update_pairs_ok:
  assumes "\<forall>k d. jm_get (os_prices s) k = Some d \<longrightarrow> price_ok k d"
  shows "\<forall>k d. jm_get (os_prices (fst (update_pairs ts prices now ps s))) k = Some d \<longrightarrow> price_ok k d"
  using assms
proof (induction ps arbitrary: s)
  case (Cons p ps)
  show ?case
  proof (cases "falsy (prices (op_coin p)) \<or> num_le (the (prices (op_coin p))) (Fin 0)")
    case True
    with Cons show ?thesis by simp
  next
    case False
    show ?thesis
    proof (cases "scaled_usd (the (prices (op_coin p)))")
      case (Inl e)
      with False Cons.prems show ?thesis by simp
    next
      case (Inr n)
      show ?thesis
      proof (cases "n \<le> 0")
        case True
        with False Inr Cons show ?thesis by simp
      next
        case pos: False
        let ?name = "pair_name (op_in p) (op_out p)"
        let ?d = "\<lparr>pd_pair = ?name, pd_num = n, pd_den = price_scale, pd_human = the (prices (op_coin p)), pd_at = now\<rparr>"
        let ?s = "s\<lparr>os_prices := jm_set ?name ?d (os_prices s)\<rparr>"
        have "price_ok ?name ?d" using pos Inr usable_price [OF False] by (simp add: price_ok_def price_scale_def)
        with Cons.prems have "\<forall>k d. jm_get (os_prices ?s) k = Some d \<longrightarrow> price_ok k d" by (simp add: jm.get_put)
        from Cons.IH [OF this] False Inr pos show ?thesis by (simp add: Let_def split: prod.split_asm prod.split)
      qed
    qed
  qed
qed simp

inductive oracle_runs :: "token_config list \<Rightarrow> oracle_service \<Rightarrow> contract_call list \<Rightarrow> bool" for ts where
  oracle_started: "oracle_runs ts (new_oracle contract secret secret_ok) []"
| oracle_pass: "oracle_runs ts s calls \<Longrightarrow> update_all_prices ts reply now s = (s', added, r) \<Longrightarrow> oracle_runs ts s' (calls @ added)"

text \<open>
  After any number of passes, successful, failing or cut short: a price that is served is a
  positive whole number over ten million, the nearest one to the number the price service gave for
  the pair; a pass whose fetch failed leaves every price as it was.
\<close>

theorem oracle_prices_scaled:
  assumes "oracle_runs ts s calls" "oracle_get_price s a b = Some d"
  shows "pd_pair d = a @ CHR ''/'' # b \<and> 0 < pd_num d \<and> pd_den d = 10000000 \<and> scaled_usd (pd_human d) = Inr (pd_num d) \<and>
    (fetched_prices reply = None \<longrightarrow> update_all_prices ts reply now s = (s, [], Inr ()))"
proof -
  have "\<forall>k d. jm_get (os_prices s) k = Some d \<longrightarrow> price_ok k d"
    using assms(1)
  proof (induction rule: oracle_runs.induct)
    case (oracle_pass s calls reply now s' added r)
    from update_pairs_ok [OF oracle_pass.IH, of ts _ now oracle_pairs] oracle_pass.hyps(2) oracle_pass.IH show ?case
      by (cases "fetched_prices reply") (simp_all add: update_all_prices_def, metis fst_conv)
  qed (simp add: new_oracle_def jm.get_empty)
  with assms(2) have "price_ok (pair_name a b) d" by (simp add: oracle_get_price_def)
  then show ?thesis by (simp add: price_ok_def pair_name_def update_all_prices_def)
qed

lemma solvbtc_unregistered: "registry_sac (load_tokens env) ''SolvBTC'' = None"
proof -
  have "tk_symbol (override_token env t) = tk_symbol t" for t
    by (simp add: override_token_def Let_def)
  then have "tk_symbol t \<noteq> ''SolvBTC''" if "t \<in> set (load_tokens env)" for t
    using that by (auto simp: load_tokens_def tokens_def)
  then show ?thesis by (auto simp: registry_sac_def find_None_iff)
qed

text \<open>
  Nothing is ever pushed: every tracked pair is one of SolvBTC, which the token registry does not
  hold under any environment, so with a valid key and a configured contract, too, no pass makes a call.
\<close>

theorem oracle_never_pushes:
  assumes "oracle_runs (load_tokens env) s calls"
  shows "calls = []"
  using assms
proof (induction rule: oracle_runs.induct)
  case (oracle_pass s calls reply now s' added r)
  have none: "push_price (load_tokens env) s p n d = []" if "p \<in> set oracle_pairs" for s p n d
    using that by (auto simp: push_price_def oracle_pairs_def solvbtc_unregistered truthy_def)
  have "fst (snd (update_pairs (load_tokens env) prices now ps s)) = []" if "set ps \<subseteq> set oracle_pairs" for prices ps s
    using that
  proof (induction ps arbitrary: s)
    case (Cons p ps)
    then show ?case using none [of p]
      by (auto simp: Let_def split: sum.split prod.split)
  qed simp
  from this [of oracle_pairs] oracle_pass have "added = []"
    by (cases "fetched_prices reply") (simp_all add: update_all_prices_def, metis fst_conv snd_conv)
  with oracle_pass.IH show ?case by simp
qed simp

section \<open>The properties at concrete inputs\<close>

lemma demo_pass:
  "\<exists>s. oracle_runs (load_tokens (\<lambda>_. None)) s [] \<and> os_key s \<and> (\<exists>d. oracle_get_price s ''SolvBTC'' ''USDC'' = Some d)"
proof -
  let ?ts = "load_tokens (\<lambda>_. None)"
  let ?s = "new_oracle ''CB'' (Some ''S'') (\<lambda>_. True)"
  have "\<lfloor>20000000 + 1 / 2 :: rat\<rfloor> = 20000000" by (simp add: floor_eq_iff)
  then have two: "scaled_usd (Fin 2) = Inr 20000000"
    by (simp add: scaled_usd_def num_round_def rnd_numeral big_of_num_def num_int_def)
  obtain s' added r where u: "update_all_prices ?ts (Inr (True, \<lambda>_. Some (Fin 2))) 0 ?s = (s', added, r)" by (metis prod_cases3)
  have runs: "oracle_runs ?ts s' added" using oracle_pass [OF oracle_started u] by simp
  have "os_key s' \<and> (\<exists>d. oracle_get_price s' ''SolvBTC'' ''USDC'' = Some d) \<and> added = []"
    using u by (auto simp: update_all_prices_def fetched_prices_def oracle_pairs_def falsy_def num_le_def two Let_def new_oracle_def truthy_def
        oracle_get_price_def pair_name_def jm.get_put push_price_def solvbtc_unregistered)
  with runs show ?thesis by blast
qed

theorem oracle_prices_scaled_witness:
  "\<exists>s d. oracle_runs (load_tokens (\<lambda>_. None)) s [] \<and> oracle_get_price s ''SolvBTC'' ''USDC'' = Some d \<and> 0 < pd_num d"
proof -
  from demo_pass obtain s d where sd: "oracle_runs (load_tokens (\<lambda>_. None)) s []" "oracle_get_price s ''SolvBTC'' ''USDC'' = Some d" by blast
  from oracle_prices_scaled [OF sd] sd show ?thesis by blast
qed

theorem oracle_never_pushes_witness:
  "\<exists>s calls. oracle_runs (load_tokens (\<lambda>_. None)) s calls \<and> os_key s \<and> calls = []"
proof -
  from demo_pass obtain s where s: "oracle_runs (load_tokens (\<lambda>_. None)) s []" "os_key s" by blast
  from oracle_never_pushes [OF s(1)] s show ?thesis by blast
qed

end
