(* ===== verification/Sep1.thy ===== *)
theory Sep1
  imports PartnerApi
begin

text \<open>
  The check of an issuer's own claim, \<open>backend/src/services/sep1-verify.ts\<close>: the home domain the
  issuing account names, the file that domain serves, the search of the file for the asset, and the
  cache of verdicts with its sweep. Horizon's answer and the file are arguments. The lemmas: a domain
  is answered only when both sides vouch for the asset, verdicts are remembered either way, and which
  names pass for public ones.
\<close>

section \<open>Host names\<close>

definition host_end :: "char \<Rightarrow> bool" where
  "host_end c \<longleftrightarrow> is_digit c \<or> (97 \<le> (of_char c :: nat) \<and> (of_char c :: nat) \<le> 122)"

definition host_char :: "char \<Rightarrow> bool" where
  "host_char c \<longleftrightarrow> host_end c \<or> c = CHR ''.'' \<or> c = CHR ''-''"

text \<open>\<open>/^[a-z0-9]([a-z0-9.-]*[a-z0-9])?$/\<close> and \<open>/^\d+\.\d+\.\d+\.\d+$/\<close>\<close>

definition host_shape :: "string \<Rightarrow> bool" where
  "host_shape s \<longleftrightarrow> s \<noteq> [] \<and> host_end (hd s) \<and> host_end (last s) \<and> list_all host_char s"

definition dotted_quad :: "string \<Rightarrow> bool" where
  "dotted_quad s \<longleftrightarrow> length (split_on (CHR ''.'') s) = 4 \<and> list_all (\<lambda>p. p \<noteq> [] \<and> list_all is_digit p) (split_on (CHR ''.'') s)"

definition ends_with :: "string \<Rightarrow> string \<Rightarrow> bool" where
  "ends_with suf s \<longleftrightarrow> take (length suf) (rev s) = rev suf"

definition public_domain :: "string \<Rightarrow> bool" where
  "public_domain d \<longleftrightarrow> host_shape d \<and> CHR ''.'' \<in> set d \<and> \<not> dotted_quad d \<and> \<not> ends_with ''.local'' d \<and> \<not> ends_with ''.internal'' d"

section \<open>The file\<close>

definition line_end :: "char \<Rightarrow> bool" where
  "line_end c \<longleftrightarrow> c = CHR 0x0A \<or> c = CHR 0x0D"

definition starts_ci :: "string \<Rightarrow> string \<Rightarrow> bool" where
  "starts_ci p s \<longleftrightarrow> lower (take (length p) s) = p"

text \<open>\<open>text.split(/\[\[CURRENCIES\]\]/i)\<close>\<close>

fun split_currencies :: "string \<Rightarrow> string list" where
  "split_currencies [] = [[]]"
| "split_currencies (c # cs) =
    (if starts_ci ''[[currencies]]'' (c # cs) then [] # split_currencies (drop 13 cs)
     else case split_currencies cs of [] \<Rightarrow> [[c]] | w # ws \<Rightarrow> (c # w) # ws)"

definition currency_blocks :: "string \<Rightarrow> string list" where
  "currency_blocks t = tl (split_currencies t)"

text \<open>\<open>block.split(/\n\s*\[/)[0]\<close>: up to the next table header\<close>

fun block_body :: "string \<Rightarrow> string" where
  "block_body [] = []"
| "block_body (c # cs) =
    (if c = CHR 0x0A \<and> take 1 (dropWhile is_space cs) = ''['' then [] else c # block_body cs)"

text \<open>\<open>/^\s*key\s*=\s*"([^"]+)"/im\<close> at one place, and at the first line where it matches\<close>

definition field_here :: "string \<Rightarrow> string \<Rightarrow> string option" where
  "field_here key s =
    (let a = dropWhile is_space s;
         b = dropWhile is_space (drop (length key) a);
         d = dropWhile is_space (drop 1 b);
         v = takeWhile (\<lambda>c. c \<noteq> CHR 0x22) (drop 1 d)
     in if starts_ci key a \<and> take 1 b = ''='' \<and> take 1 d = [CHR 0x22] \<and> v \<noteq> [] \<and> length v < length (drop 1 d) then Some v else None)"

fun find_field :: "string \<Rightarrow> bool \<Rightarrow> string \<Rightarrow> string option" where
  "find_field key bol [] = None"
| "find_field key bol (c # cs) =
    (case (if bol then field_here key (c # cs) else None) of
       Some v \<Rightarrow> Some v
     | None \<Rightarrow> find_field key (line_end c) cs)"

definition block_declares :: "string \<Rightarrow> string \<Rightarrow> string \<Rightarrow> bool" where
  "block_declares code issuer block =
    (let body = block_body block
     in case (find_field ''code'' True body, find_field ''issuer'' True body) of
          (Some c, Some i) \<Rightarrow> to_upper c = to_upper code \<and> i = issuer
        | _ \<Rightarrow> False)"

section \<open>The handshake\<close>

definition max_toml :: nat where "max_toml = 300000"

text \<open>\<open>account\<close> is Horizon's answer for an issuer: whether it is ok, and the home domain;
  \<open>toml\<close> is what a domain serves.\<close>

definition handshake :: "(string \<Rightarrow> (bool \<times> string option) js) \<Rightarrow> (string \<Rightarrow> (bool \<times> string) js) \<Rightarrow> string \<Rightarrow> string \<Rightarrow> string option js" where
  "handshake account toml code issuer =
    js_bind (account issuer) (\<lambda>(ok, home).
      if \<not> ok then Inr None
      else let d = lower (trim (env_or home []))
           in if \<not> public_domain d then Inr None
              else js_bind (toml d) (\<lambda>(ok', t).
                if \<not> ok' \<or> length t > max_toml then Inr None
                else Inr (if list_ex (block_declares code issuer) (currency_blocks t) then Some d else None)))"

section \<open>Verdicts\<close>

definition sep1_ttl_ms :: int where "sep1_ttl_ms = 24 * 60 * 60 * 1000"

type_synonym verdicts = "(string, string option \<times> int) jmap"

definition verdict_key :: "string \<Rightarrow> string \<Rightarrow> string" where
  "verdict_key code issuer = code @ CHR ''|'' # issuer"

definition fresh_verdict :: "verdicts \<Rightarrow> int \<Rightarrow> string \<Rightarrow> string \<Rightarrow> string option option" where
  "fresh_verdict vs now code issuer =
    (case jm_get vs (verdict_key code issuer) of
       Some (d, ts) \<Rightarrow> if now - ts < sep1_ttl_ms then Some d else None
     | None \<Rightarrow> None)"

definition get_domain :: "verdicts \<Rightarrow> int \<Rightarrow> string \<Rightarrow> string \<Rightarrow> string option" where
  "get_domain vs now code issuer = (case fresh_verdict vs now code issuer of Some d \<Rightarrow> d | None \<Rightarrow> None)"

text \<open>\<open>verify\<close>: the fresh verdict, or what the handshake answers, a failure being no domain.\<close>

definition verify_end :: "(string \<Rightarrow> (bool \<times> string option) js) \<Rightarrow> (string \<Rightarrow> (bool \<times> string) js) \<Rightarrow> string \<Rightarrow> string \<Rightarrow> int \<Rightarrow> verdicts
    \<Rightarrow> string option \<times> verdicts" where
  "verify_end account toml code issuer now vs =
    (let d = js_catch (handshake account toml code issuer) None
     in (d, jm_set (verdict_key code issuer) (d, now) vs))"

definition verify :: "(string \<Rightarrow> (bool \<times> string option) js) \<Rightarrow> (string \<Rightarrow> (bool \<times> string) js) \<Rightarrow> int \<Rightarrow> int \<Rightarrow> string \<Rightarrow> string \<Rightarrow> verdicts
    \<Rightarrow> string option \<times> verdicts" where
  "verify account toml now later code issuer vs =
    (case fresh_verdict vs now code issuer of
       Some d \<Rightarrow> (d, vs)
     | None \<Rightarrow> verify_end account toml code issuer later vs)"

text \<open>\<open>sweep\<close>: batches of three, each awaited before the next.\<close>

definition sweep_concurrency :: nat where "sweep_concurrency = 3"

function batches :: "'a list \<Rightarrow> 'a list list" where
  "batches xs = (if xs = [] then [] else take sweep_concurrency xs # batches (drop sweep_concurrency xs))"
  by pat_completeness auto
termination by (relation "measure length") (auto simp: sweep_concurrency_def)

declare batches.simps [simp del]

definition sweep_count :: "((string \<times> string) \<Rightarrow> string option) \<Rightarrow> (string \<times> string) list \<Rightarrow> nat" where
  "sweep_count answer ts = sum_list (map (\<lambda>b. length (filter (\<lambda>t. truthy (answer t)) b)) (batches ts))"

section \<open>Both sides vouch\<close>

text \<open>What the two documents say: the account names the domain, the domain's file declares the
  asset.\<close>

definition vouched :: "(string \<Rightarrow> (bool \<times> string option) js) \<Rightarrow> (string \<Rightarrow> (bool \<times> string) js) \<Rightarrow> string \<Rightarrow> string \<Rightarrow> string \<Rightarrow> bool" where
  "vouched account toml code issuer d \<longleftrightarrow>
    (\<exists>home. account issuer = Inr (True, Some home) \<and> d = lower (trim home)) \<and> public_domain d \<and>
    (\<exists>t block c. toml d = Inr (True, t) \<and> length t \<le> max_toml \<and> block \<in> set (currency_blocks t) \<and>
       find_field ''code'' True (block_body block) = Some c \<and> to_upper c = to_upper code \<and>
       find_field ''issuer'' True (block_body block) = Some issuer)"

lemma block_declares_iff: "block_declares code issuer block \<longleftrightarrow>
    (\<exists>c. find_field ''code'' True (block_body block) = Some c \<and> to_upper c = to_upper code \<and>
      find_field ''issuer'' True (block_body block) = Some issuer)"
  by (auto simp: block_declares_def Let_def split: option.split)

lemma empty_not_public: "\<not> public_domain []"
  by (simp add: public_domain_def host_shape_def)

lemma handshake_iff: "handshake account toml code issuer = Inr (Some d) \<longleftrightarrow> vouched account toml code issuer d"
proof
  assume "handshake account toml code issuer = Inr (Some d)"
  then obtain ok home where a: "account issuer = Inr (ok, home)" and rest: "(if \<not> ok then Inr None
      else let d = lower (trim (env_or home []))
           in if \<not> public_domain d then Inr None
              else js_bind (toml d) (\<lambda>(ok', t). if \<not> ok' \<or> length t > max_toml then Inr None
                else Inr (if list_ex (block_declares code issuer) (currency_blocks t) then Some d else None))) = Inr (Some d)"
    by (auto simp: handshake_def js_bind_Inr_iff)
  have ok: "ok" using rest by (cases ok) simp_all
  define e where "e = lower (trim (env_or home []))"
  have e: "public_domain e" using rest ok by (cases "public_domain e") (simp_all add: e_def Let_def)
  then obtain h where h: "home = Some h" using empty_not_public by (cases home) (auto simp: e_def env_or_def trim_def lower_def)
  from rest ok e obtain t where t: "toml e = Inr (True, t)" "length t \<le> max_toml" "list_ex (block_declares code issuer) (currency_blocks t)" "d = e"
    by (auto simp: e_def [symmetric] Let_def js_bind_Inr_iff split: if_split_asm)
  with a ok e h show "vouched account toml code issuer d"
    by (auto simp: vouched_def e_def env_or_def list_ex_iff block_declares_iff)
next
  assume "vouched account toml code issuer d"
  then show "handshake account toml code issuer = Inr (Some d)"
    by (auto simp: vouched_def handshake_def env_or_def Let_def list_ex_iff block_declares_iff) blast
qed

inductive sep1_runs :: "verdicts \<Rightarrow> bool" where
  sep1_start: "sep1_runs jm_empty"
| sep1_verify: "sep1_runs vs \<Longrightarrow> CHR ''|'' \<notin> set code \<Longrightarrow> sep1_runs (snd (verify_end account toml code issuer now vs))"

lemma verdict_key_inj: "verdict_key c i = verdict_key c' i' \<Longrightarrow> CHR ''|'' \<notin> set c \<Longrightarrow> CHR ''|'' \<notin> set c' \<Longrightarrow> c = c' \<and> i = i'"
proof (induction c arbitrary: c')
  case Nil
  then show ?case by (cases c') (auto simp: verdict_key_def)
next
  case (Cons x c)
  then show ?case by (cases c') (auto simp: verdict_key_def)
qed

lemma sep1_runs_vouched:
  assumes "sep1_runs vs" "jm_get vs (verdict_key code issuer) = Some (Some d, ts)" "CHR ''|'' \<notin> set code"
  shows "\<exists>account toml. vouched account toml code issuer d"
  using assms
proof (induction rule: sep1_runs.induct)
  case (sep1_verify vs code' account toml issuer' now)
  show ?case
  proof (cases "verdict_key code issuer = verdict_key code' issuer'")
    case True
    with verdict_key_inj sep1_verify.hyps(2) sep1_verify.prems(2) have same: "code' = code" "issuer' = issuer" by blast+
    with sep1_verify.prems(1) have "handshake account toml code issuer = Inr (Some d)"
      by (cases "handshake account toml code issuer") (auto simp: verify_end_def Let_def jm.get_put_same)
    then show ?thesis by (auto simp: handshake_iff)
  next
    case False
    with sep1_verify show ?thesis by (auto simp: verify_end_def Let_def jm.get_put_other)
  qed
qed (simp add: jm.get_empty)

text \<open>
  A domain is shown for an asset only when both sides vouched for it: Horizon said the issuing
  account names that domain, the domain has the shape of a public name, and the file it served has a
  currency block with the asset's code and issuer. That held at a handshake for this very asset whose
  verdict is less than a day old; failures and refusals are remembered the same way and show nothing.
\<close>

theorem domain_vouched:
  assumes "sep1_runs vs" "get_domain vs now code issuer = Some d" "CHR ''|'' \<notin> set code"
  shows "(\<exists>account toml. vouched account toml code issuer d) \<and>
    (\<exists>ts. jm_get vs (verdict_key code issuer) = Some (Some d, ts) \<and> now - ts < 24 * 60 * 60 * 1000)"
proof -
  from assms(2) obtain ts where "jm_get vs (verdict_key code issuer) = Some (Some d, ts)" "now - ts < sep1_ttl_ms"
    by (auto simp: get_domain_def fresh_verdict_def split: option.split_asm if_split_asm)
  with sep1_runs_vouched [OF assms(1) _ assms(3)] show ?thesis by (auto simp: sep1_ttl_ms_def)
qed

definition demo_toml :: string where
  "demo_toml = ''[[CURRENCIES]]'' @ [CHR 0x0A] @ ''code = '' @ [CHR 0x22] @ ''ab'' @ [CHR 0x22, CHR 0x0A] @ ''issuer = '' @ [CHR 0x22] @ ''GA'' @ [CHR 0x22]"

lemma demo_toml_ok: "list_ex (block_declares ''AB'' ''GA'') (currency_blocks demo_toml)" "length demo_toml = 40"
  by code_simp+

text \<open>
  The test for public names stops a dotted quad but not the shorter spellings of an address that
  an HTTP client reads as one: an issuer that names \<open>127.1\<close> has the server fetch from itself and
  gets that name shown when the answer vouches for its asset.
\<close>

theorem loopback_passes:
  "\<not> public_domain ''127.0.0.1'' \<and> public_domain ''127.1'' \<and> public_domain ''10.1'' \<and> public_domain ''0x7f.1'' \<and>
   handshake (\<lambda>_. Inr (True, Some ''127.1'')) (\<lambda>h. if h = ''127.1'' then Inr (True, demo_toml) else Inl TypeError)
     ''AB'' ''GA'' = Inr (Some ''127.1'')"
proof -
  have 1: "\<not> public_domain ''127.0.0.1''" "public_domain ''127.1''" "public_domain ''10.1''" "public_domain ''0x7f.1''" by code_simp+
  moreover have "lower (trim ''127.1'') = ''127.1''" by code_simp
  ultimately show ?thesis by (simp add: handshake_def env_or_def demo_toml_ok max_toml_def)
qed

lemma batches_concat: "concat (batches xs) = xs \<and> (\<forall>b\<in>set (batches xs). b \<noteq> [] \<and> length b \<le> 3)"
proof (induction xs rule: batches.induct)
  case (1 xs)
  show ?case
  proof (cases "xs = []")
    case False
    with 1 show ?thesis by (subst (1 2) batches.simps) (auto simp: sweep_concurrency_def)
  qed (simp add: batches.simps)
qed

lemma sweep_counts: "sweep_count answer ts = length (filter (\<lambda>t. truthy (answer t)) ts)"
proof -
  have "length (filter (\<lambda>t. truthy (answer t)) (concat bs)) = sum_list (map (\<lambda>b. length (filter (\<lambda>t. truthy (answer t)) b)) bs)" for bs
    by (induction bs) auto
  from this [of "batches ts"] batches_concat [of ts] show ?thesis by (simp add: sweep_count_def)
qed

section \<open>The property at a concrete input\<close>

theorem domain_vouched_witness:
  "\<exists>vs d. sep1_runs vs \<and> get_domain vs 1000 ''AB'' ''GA'' = Some d \<and> public_domain d"
proof -
  let ?a = "\<lambda>i :: string. Inr (True, Some ''Ex.org '') :: (bool \<times> string option) js"
  let ?t = "\<lambda>d :: string. Inr (True, demo_toml) :: (bool \<times> string) js"
  have h: "handshake ?a ?t ''AB'' ''GA'' = Inr (Some ''ex.org'')"
  proof -
    have "public_domain ''ex.org''" "lower (trim ''Ex.org '') = ''ex.org''" by code_simp+
    then show ?thesis by (simp add: handshake_def env_or_def demo_toml_ok max_toml_def)
  qed
  define vs where "vs = snd (verify_end ?a ?t ''AB'' ''GA'' 0 jm_empty)"
  have runs: "sep1_runs vs" unfolding vs_def by (rule sep1_verify [OF sep1_start]) simp
  have g: "get_domain vs 1000 ''AB'' ''GA'' = Some ''ex.org''"
    by (simp add: vs_def verify_end_def h Let_def get_domain_def fresh_verdict_def jm.get_put_same sep1_ttl_ms_def)
  from domain_vouched [OF runs g] have "public_domain ''ex.org''" by (auto simp: vouched_def)
  with runs g show ?thesis by blast
qed

end
