(* ===== verification/Restock.thy ===== *)
theory Restock
  imports SdkFlows
begin

text \<open>
  The inventory loop of the maker, \<open>backend/src/rfq/restock.ts\<close>: one order at a time per bond
  with the issuer, funded by signing the transaction the issuer prepares. The issuer's answers and
  the wallet are arguments; a number tells apart the calls of one kind within a pass. Beside its
  result a pass yields the calls it made. The lemmas: at most one order and two signatures for it per
  pass, none while an order is under way, and what becomes of an order whose pass failed.
\<close>

section \<open>Orders\<close>

datatype order_status = OCreated | OFunded | OSourcing | OClaimable | OCompleted | OFailed | OCanceled | ORefunded

record issuer_order =
  io_id :: string
  io_status :: order_status
  io_tx :: "string option"

record issuer_quote =
  iq_id :: string
  iq_fee_bps :: num

record restock_target =
  tg_symbol :: string
  tg_asset :: string
  tg_min :: num
  tg_spend :: string

record restock_io =
  ri_order :: "nat \<Rightarrow> string \<Rightarrow> issuer_order js"
  ri_quote :: "restock_target \<Rightarrow> issuer_quote js"
  ri_create :: "string \<Rightarrow> issuer_order js"
  ri_refresh :: "string \<Rightarrow> issuer_order js"
  ri_sign :: "nat \<Rightarrow> string \<Rightarrow> string js"
  ri_balances :: "(string, num) jmap js"

type_synonym pending_orders = "(string, string \<times> int) jmap"

datatype restock_call = QuoteCall | CreateCall string | SignCall string string

datatype restock_result =
    RSkipped "string option"
  | ROrdered string
  | RFunded string string
  | RFailed string

definition final_status :: "order_status \<Rightarrow> bool" where
  "final_status st \<longleftrightarrow> st = OCompleted \<or> st = OFailed \<or> st = OCanceled \<or> st = ORefunded"

definition max_fee_bps :: num where "max_fee_bps = Fin 25"

definition prepared_tx :: "issuer_order \<Rightarrow> string option" where
  "prepared_tx o1 = (if truthy (io_tx o1) then io_tx o1 else None)"

section \<open>One target\<close>

definition bad_sequence :: "js_exn \<Rightarrow> bool" where
  "bad_sequence e = matches_any [lit ''tx_bad_seq'', lit ''bad_seq''] (exn_message e)"

text \<open>\<open>fund\<close>: sign and submit; a stale sequence number is retried once with a refreshed
  transaction.\<close>

definition fund :: "restock_io \<Rightarrow> int \<Rightarrow> pending_orders \<Rightarrow> string \<Rightarrow> string \<Rightarrow> string \<Rightarrow> pending_orders \<times> restock_call list \<times> restock_result js" where
  "fund x now pend sy oid tx =
    (let noted = jm_set sy (oid, now) pend
     in case ri_sign x 0 tx of
          Inr h \<Rightarrow> (noted, [SignCall oid tx], Inr (RFunded oid h))
        | Inl e \<Rightarrow>
            if \<not> bad_sequence e then (noted, [SignCall oid tx], Inr (RFailed oid))
            else (case ri_refresh x oid of
                    Inl e' \<Rightarrow> (pend, [SignCall oid tx], Inl e')
                  | Inr o2 \<Rightarrow> (case prepared_tx o2 of
                        None \<Rightarrow> (noted, [SignCall oid tx], Inr (RFailed oid))
                      | Some tx2 \<Rightarrow> (case ri_sign x 1 tx2 of
                            Inl e' \<Rightarrow> (pend, [SignCall oid tx, SignCall oid tx2], Inl e')
                          | Inr h \<Rightarrow> (noted, [SignCall oid tx, SignCall oid tx2], Inr (RFunded oid h))))))"

text \<open>Quoting, ordering, funding: the part below the balance test.\<close>

definition buy :: "restock_io \<Rightarrow> int \<Rightarrow> pending_orders \<Rightarrow> restock_target \<Rightarrow> pending_orders \<times> restock_call list \<times> restock_result js" where
  "buy x now pend t =
    (case ri_quote x t of
       Inl e \<Rightarrow> (pend, [QuoteCall], Inl e)
     | Inr q \<Rightarrow>
         if num_lt max_fee_bps (iq_fee_bps q) then (pend, [QuoteCall], Inr (RSkipped None))
         else (case ri_create x (iq_id q) of
            Inl e \<Rightarrow> (pend, [QuoteCall], Inl e)
          | Inr o1 \<Rightarrow>
              (case prepared_tx o1 of
                 Some tx \<Rightarrow> (case fund x now pend (tg_symbol t) (io_id o1) tx of
                     (p, cs, r) \<Rightarrow> (p, QuoteCall # CreateCall (io_id o1) # cs, r))
               | None \<Rightarrow>
                   (case ri_order x 1 (io_id o1) of
                      Inl e \<Rightarrow> (pend, [QuoteCall, CreateCall (io_id o1)], Inl e)
                    | Inr o2 \<Rightarrow>
                        (case prepared_tx o2 of
                           None \<Rightarrow> (jm_set (tg_symbol t) (io_id o1, now) pend, [QuoteCall, CreateCall (io_id o1)], Inr (ROrdered (io_id o1)))
                         | Some tx2 \<Rightarrow> (case fund x now pend (tg_symbol t) (io_id o1) tx2 of
                             (p, cs, r) \<Rightarrow> (p, QuoteCall # CreateCall (io_id o1) # cs, r)))))))"

definition restock_one :: "restock_io \<Rightarrow> int \<Rightarrow> pending_orders \<Rightarrow> restock_target \<Rightarrow> num \<Rightarrow> pending_orders \<times> restock_call list \<times> restock_result js" where
  "restock_one x now pend t held =
    (let enough = num_le (tg_min t) held
     in case jm_get pend (tg_symbol t) of
          None \<Rightarrow> if enough then (pend, [], Inr (RSkipped None)) else buy x now pend t
        | Some (oid, _) \<Rightarrow>
            (case ri_order x 0 oid of
               Inl e \<Rightarrow> (pend, [], Inl e)
             | Inr o1 \<Rightarrow>
                 if \<not> final_status (io_status o1) then (pend, [], Inr (RSkipped (Some (io_id o1))))
                 else let pend' = jm_delete (tg_symbol t) pend
                      in if io_status o1 \<noteq> OCompleted then (pend', [], Inr (RFailed (io_id o1)))
                         else if enough then (pend', [], Inr (RSkipped None)) else buy x now pend' t))"

section \<open>One pass\<close>

definition held_of :: "(string, num) jmap \<Rightarrow> string \<Rightarrow> num" where
  "held_of b sy = (case jm_get b sy of Some n \<Rightarrow> n | None \<Rightarrow> (case jm_get b (to_upper sy) of Some n \<Rightarrow> n | None \<Rightarrow> Fin 0))"

text \<open>The targets in order; the first exception ends the pass.\<close>

fun restock_targets :: "(restock_target \<Rightarrow> restock_io) \<Rightarrow> int \<Rightarrow> (string, num) jmap \<Rightarrow> restock_target list \<Rightarrow> pending_orders
    \<Rightarrow> pending_orders \<times> restock_call list \<times> restock_result list js" where
  "restock_targets x now b [] pend = (pend, [], Inr [])"
| "restock_targets x now b (t # ts) pend =
    (case restock_one (x t) now pend t (held_of b (tg_symbol t)) of
       (p, cs, Inl e) \<Rightarrow> (p, cs, Inl e)
     | (p, cs, Inr r) \<Rightarrow>
         (case restock_targets x now b ts p of
            (p', cs', rest) \<Rightarrow> (p', cs @ cs', js_bind rest (\<lambda>rs. Inr (r # rs)))))"

definition restock_tick :: "(restock_target \<Rightarrow> restock_io) \<Rightarrow> int \<Rightarrow> (string, num) jmap js \<Rightarrow> restock_target list \<Rightarrow> pending_orders
    \<Rightarrow> pending_orders \<times> restock_call list \<times> restock_result list js" where
  "restock_tick x now balances ts pend =
    (case balances of Inl e \<Rightarrow> (pend, [], Inl e) | Inr b \<Rightarrow> restock_targets x now b ts pend)"

section \<open>Calls of a pass\<close>

lemma fund_calls:
  assumes "fund x now pend sy oid tx = (p, cs, r)"
  shows "(cs = [SignCall oid tx] \<or> (\<exists>y. cs = [SignCall oid tx, SignCall oid y])) \<and>
    (p = jm_set sy (oid, now) pend \<and> (\<exists>v. r = Inr v) \<or> p = pend \<and> (\<exists>e. r = Inl e))"
  using assms
  by (auto simp: fund_def Let_def split: sum.split_asm if_split_asm option.split_asm)

definition created :: "restock_call list \<Rightarrow> string list" where
  "created cs = List.map_filter (\<lambda>c. case c of CreateCall i \<Rightarrow> Some i | _ \<Rightarrow> None) cs"

definition signed_for :: "restock_call list \<Rightarrow> string list" where
  "signed_for cs = List.map_filter (\<lambda>c. case c of SignCall i _ \<Rightarrow> Some i | _ \<Rightarrow> None) cs"

lemma created_simps [simp]:
  "created [] = []" "created (QuoteCall # cs) = created cs" "created (CreateCall i # cs) = i # created cs"
  "created (SignCall i y # cs) = created cs"
  by (simp_all add: created_def List.map_filter_def)

lemma signed_simps [simp]:
  "signed_for [] = []" "signed_for (QuoteCall # cs) = signed_for cs" "signed_for (CreateCall i # cs) = signed_for cs"
  "signed_for (SignCall i y # cs) = i # signed_for cs"
  by (simp_all add: signed_for_def List.map_filter_def)

text \<open>What buying leaves: nothing ordered and the map as it was, or one order; then the map holds
  it, or the pass failed and the map is as it was.\<close>

lemma buy_calls:
  assumes "buy x now pend t = (p, cs, r)"
  shows "created cs = [] \<and> signed_for cs = [] \<and> p = pend \<or>
    (\<exists>i. created cs = [i] \<and> set (signed_for cs) \<subseteq> {i} \<and> length (signed_for cs) \<le> 2 \<and>
       (p = jm_set (tg_symbol t) (i, now) pend \<and> (\<exists>v. r = Inr v) \<or> p = pend \<and> (\<exists>e. r = Inl e)))"
proof (cases "ri_quote x t")
  case (Inl e)
  with assms show ?thesis by (auto simp: buy_def)
next
  case (Inr q)
  show ?thesis
  proof (cases "num_lt max_fee_bps (iq_fee_bps q)")
    case True
    with assms Inr show ?thesis by (auto simp: buy_def)
  next
    case cheap: False
    show ?thesis
    proof (cases "ri_create x (iq_id q)")
      case (Inl e)
      with assms Inr cheap show ?thesis by (auto simp: buy_def)
    next
      case o1: (Inr o1)
      have funded: ?thesis if "fund x now pend (tg_symbol t) (io_id o1) tx = (p, cs', r)" "cs = QuoteCall # CreateCall (io_id o1) # cs'" for tx cs'
        using fund_calls [OF that(1)] that(2) by auto
      show ?thesis
      proof (cases "prepared_tx o1")
        case (Some tx)
        with assms Inr cheap o1 funded show ?thesis by (auto simp: buy_def split: prod.split_asm)
      next
        case None
        show ?thesis
        proof (cases "ri_order x 1 (io_id o1)")
          case (Inl e)
          with assms Inr cheap o1 None show ?thesis by (auto simp: buy_def)
        next
          case o2: (Inr o2)
          with assms Inr cheap o1 None funded show ?thesis by (cases "prepared_tx o2") (auto simp: buy_def split: prod.split_asm)
        qed
      qed
    qed
  qed
qed

text \<open>
  One pass over a bond orders at most once, signs at most twice and only for the order it just
  made; and while the order it remembers is under way it orders and signs nothing and forgets
  nothing. (So an order whose transaction came too late is never paid by a later pass.)
\<close>

theorem one_order_at_a_time:
  assumes "restock_one x now pend t held = (p, cs, r)"
  shows "length (created cs) \<le> 1 \<and> length (signed_for cs) \<le> 2 \<and> set (signed_for cs) \<subseteq> set (created cs) \<and>
    (\<forall>oid since o1. jm_get pend (tg_symbol t) = Some (oid, since) \<and> ri_order x 0 oid = Inr o1 \<and> \<not> final_status (io_status o1)
      \<longrightarrow> cs = [] \<and> p = pend)"
proof -
  have buys: "length (created cs) \<le> 1 \<and> length (signed_for cs) \<le> 2 \<and> set (signed_for cs) \<subseteq> set (created cs)"
    if "buy x now m t = (p, cs, r)" for m
    using buy_calls [OF that] by auto
  have "cs = [] \<or> (\<exists>m. buy x now m t = (p, cs, r))"
    using assms by (auto simp: restock_one_def Let_def split: option.split_asm sum.split_asm if_split_asm prod.split_asm)
  then have "length (created cs) \<le> 1 \<and> length (signed_for cs) \<le> 2 \<and> set (signed_for cs) \<subseteq> set (created cs)"
    using buys by auto
  moreover have "cs = [] \<and> p = pend"
    if "jm_get pend (tg_symbol t) = Some (oid, since)" "ri_order x 0 oid = Inr o1" "\<not> final_status (io_status o1)" for oid since o1
    using assms that by (simp add: restock_one_def Let_def)
  ultimately show ?thesis by blast
qed

text \<open>
  An order made in a pass that then failed is forgotten: the map of pending orders does not hold
  it, so the next pass, finding the balance still low, orders again. When the pass did not fail, the
  order is remembered.
\<close>

theorem failed_pass_forgets_order:
  assumes "restock_one x now pend t held = (p, cs, r)" "oid \<in> set (created cs)" "jm_get pend (tg_symbol t) = None"
  shows "(\<forall>e. r = Inl e \<longrightarrow> jm_get p (tg_symbol t) = None \<and>
      (\<forall>y now'. restock_one y now' p t held = buy y now' p t)) \<and>
    (\<forall>v. r = Inr v \<longrightarrow> jm_get p (tg_symbol t) = Some (oid, now))"
proof -
  have low: "\<not> num_le (tg_min t) held"
    using assms by (auto simp: restock_one_def Let_def split: if_split_asm)
  with assms(1,3) have "buy x now pend t = (p, cs, r)" by (simp add: restock_one_def)
  from buy_calls [OF this] assms(2) have "p = jm_set (tg_symbol t) (oid, now) pend \<and> (\<exists>v. r = Inr v) \<or> p = pend \<and> (\<exists>e. r = Inl e)"
    by auto
  with assms(3) low show ?thesis by (auto simp: jm.get_put_same restock_one_def)
qed

text \<open>An exception for one target leaves the later ones without their turn.\<close>

lemma failing_target_ends_pass:
  "restock_one (x t) now pend t (held_of b (tg_symbol t)) = (p, cs, Inl e) \<Longrightarrow> restock_targets x now b (t # ts) pend = (p, cs, Inl e)"
  by simp

section \<open>The properties at concrete inputs\<close>

definition demo_io :: "js_exn option \<Rightarrow> restock_io" where
  "demo_io failure = \<lparr>ri_order = (\<lambda>k i. case failure of Some e \<Rightarrow> Inl e | None \<Rightarrow> Inr \<lparr>io_id = i, io_status = OCreated, io_tx = None\<rparr>),
     ri_quote = (\<lambda>_. Inr \<lparr>iq_id = ''q'', iq_fee_bps = Fin 10\<rparr>), ri_create = (\<lambda>_. Inr \<lparr>io_id = ''o'', io_status = OCreated, io_tx = None\<rparr>),
     ri_refresh = (\<lambda>_. Inl TypeError), ri_sign = (\<lambda>_ _. Inr ''H''), ri_balances = Inr jm_empty\<rparr>"

definition demo_target :: restock_target where
  "demo_target = \<lparr>tg_symbol = ''USTRY'', tg_asset = ''USTRY:G'', tg_min = Fin 50, tg_spend = ''100''\<rparr>"

lemma demo_forgotten: "restock_one (demo_io (Some TypeError)) 0 jm_empty demo_target (Fin 1) = (jm_empty, [QuoteCall, CreateCall ''o''], Inl TypeError)"
  by (simp add: restock_one_def demo_io_def demo_target_def buy_def jm.get_empty num_le_def max_fee_bps_def prepared_tx_def truthy_def)

theorem failed_pass_forgets_order_witness:
  "\<exists>p cs e. restock_one (demo_io (Some TypeError)) 0 jm_empty demo_target (Fin 1) = (p, cs, Inl e) \<and> created cs = [''o''] \<and>
    created (fst (snd (restock_one (demo_io None) 1 p demo_target (Fin 1)))) = [''o'']"
proof -
  have "restock_one (demo_io None) 1 jm_empty demo_target (Fin 1) = buy (demo_io None) 1 jm_empty demo_target"
    using failed_pass_forgets_order [OF demo_forgotten, of "''o''"] by (simp add: jm.get_empty)
  moreover have "created (fst (snd (buy (demo_io None) 1 jm_empty demo_target))) = [''o'']"
    by (simp add: demo_io_def demo_target_def buy_def max_fee_bps_def prepared_tx_def truthy_def)
  ultimately show ?thesis using demo_forgotten by simp
qed

theorem one_order_at_a_time_witness:
  "\<exists>p cs r. restock_one (demo_io None) 0 (jm_set ''USTRY'' (''o'', 0) jm_empty) demo_target (Fin 1) = (p, cs, r) \<and> cs = [] \<and>
    jm_get p ''USTRY'' = Some (''o'', 0)"
proof -
  let ?pend = "jm_set ''USTRY'' (''o'', 0) jm_empty :: pending_orders"
  obtain p cs r where o1: "restock_one (demo_io None) 0 ?pend demo_target (Fin 1) = (p, cs, r)" by (metis prod_cases3)
  have "jm_get ?pend (tg_symbol demo_target) = Some (''o'', 0)" "\<not> final_status OCreated"
    by (simp_all add: demo_target_def jm.get_put_same final_status_def)
  with one_order_at_a_time [OF o1] have "cs = [] \<and> p = ?pend" by (simp add: demo_io_def)
  with o1 show ?thesis by (simp add: jm.get_put_same)
qed

end
