(* ===== verification/MakerBot.thy ===== *)
theory MakerBot
  imports Restock
begin

text \<open>
  The reference maker, \<open>backend/src/rfq/maker-bot.ts\<close>: its settings from the environment, which
  requests it quotes and at what price, the calls it makes, its own reader of the event stream, and
  the balances it hands the inventory loop. The server's replies, the wallet and JSON are arguments.
  The lemmas: a quote stays within the band it asks the contract to enforce, and the bot reads the
  stream as the SDK does.
\<close>

section \<open>Settings\<close>

record bot_config =
  bc_api :: string
  bc_key :: string
  bc_me :: string
  bc_spread :: num
  bc_max :: num
  bc_pairs :: "string list"
  bc_fallback :: bool
  bc_band :: num

text \<open>Without a key or a secret the process ends; \<open>public_key\<close> is that of the secret.\<close>

definition bot_config_of :: "(string \<Rightarrow> string) \<Rightarrow> (string \<Rightarrow> string option) \<Rightarrow> bot_config option" where
  "bot_config_of public_key env =
    (let key = env_or (env ''RFQ_MAKER_KEY'') []; secret = env_or (env ''RFQ_MAKER_SECRET'') []
     in if key = [] \<or> secret = [] then None
        else Some \<lparr>bc_api = strip_slash (env_or (env ''UFAMA_API_URL'') ''http://localhost:3001''), bc_key = key, bc_me = public_key secret,
          bc_spread = num_of_string (env_or (env ''RFQ_SPREAD_BPS'') ''5''), bc_max = num_of_string (env_or (env ''RFQ_MAX_NOTIONAL'') ''50000''),
          bc_pairs = filter (\<lambda>p. p \<noteq> []) (map (\<lambda>p. to_upper (trim p)) (split_on (CHR '','') (env_or (env ''RFQ_PAIRS'') []))),
          bc_fallback = (lower (env_or (env ''RFQ_FALLBACK_1TO1'') []) \<in> {''1'', ''true''}),
          bc_band = num_of_string (env_or (env ''RFQ_NAV_BAND_BPS'') ''50'')\<rparr>)"

section \<open>Pricing a request\<close>

datatype bot_skip = AlreadyQuoted | PairNotListed | OwnRequest | TooLarge | NoNav

definition pair_text :: "public_request \<Rightarrow> string" where
  "pair_text r = to_upper (r_symbol_in r @ CHR ''>'' # r_symbol_out r)"

text \<open>The fair amount: the reference's, or one to one where that is allowed.\<close>

definition bot_fair :: "bot_config \<Rightarrow> public_request \<Rightarrow> int option js" where
  "bot_fair cfg r =
    (case rr_nav_out (r_reference r) of
       Some n \<Rightarrow> Inr (Some n)
     | None \<Rightarrow>
         if \<not> bc_fallback cfg then Inr None
         else js_bind (big_pow10 (r_decimals_out r)) (\<lambda>a. js_bind (big_pow10 (r_decimals_in r)) (\<lambda>b. Inr (Some (tdiv (r_amount_in r * a) b)))))"

definition bot_terms :: "bot_config \<Rightarrow> public_request \<Rightarrow> (bot_skip + int \<times> num) js" where
  "bot_terms cfg r =
    (if bc_pairs cfg \<noteq> [] \<and> pair_text r \<notin> set (bc_pairs cfg) then Inr (Inl PairNotListed)
     else if r_taker r = bc_me cfg then Inr (Inl OwnRequest)
     else if num_lt (bc_max cfg) (units (r_amount_in r) (r_decimals_in r)) then Inr (Inl TooLarge)
     else js_bind (bot_fair cfg r) (\<lambda>fair.
       case fair of
         None \<Rightarrow> Inr (Inl NoNav)
       | Some f \<Rightarrow>
           if f \<le> 0 then Inr (Inl NoNav)
           else js_bind (big_of_num (num_sub (Fin 10000) (bc_spread cfg))) (\<lambda>k.
             Inr (Inr (tdiv (f * k) 10000,
               if rr_oracle_on_chain (r_reference r) then num_max (bc_band cfg) (num_add (bc_spread cfg) (Fin 5)) else Fin 0)))))"

section \<open>Quoting\<close>

text \<open>\<open>postWithRetry\<close>: a second attempt when the first is answered by a server error.\<close>

definition post_with_retry :: "(nat \<Rightarrow> http_answer js) \<Rightarrow> http_answer js" where
  "post_with_retry post = js_bind (post 0) (\<lambda>a. if ha_status a \<ge> 500 then post 1 else Inr a)"

datatype bot_outcome = BotSkipped bot_skip | PrepareRefused int | QuoteRefused int | BotQuoted int

text \<open>\<open>prepare\<close> and \<open>submit\<close> are the two posts, the body of the first answer parsed by
  \<open>entry_of\<close>; the request is remembered before anything else.\<close>

definition bot_quote :: "bot_config \<Rightarrow> (int \<Rightarrow> num \<Rightarrow> nat \<Rightarrow> http_answer js) \<Rightarrow> (string \<Rightarrow> (string \<times> int) js) \<Rightarrow> (string \<Rightarrow> int \<Rightarrow> string js)
    \<Rightarrow> (string \<Rightarrow> nat \<Rightarrow> http_answer js) \<Rightarrow> string list \<Rightarrow> public_request \<Rightarrow> string list \<times> bot_outcome js" where
  "bot_quote cfg prepare entry_of sign submit seen r =
    (if r_id r \<in> set seen then (seen, Inr (BotSkipped AlreadyQuoted))
     else (r_id r # seen,
       js_bind (bot_terms cfg r) (\<lambda>terms.
         case terms of
           Inl why \<Rightarrow> Inr (BotSkipped why)
         | Inr (out, band) \<Rightarrow>
             js_bind (post_with_retry (prepare out band)) (\<lambda>a.
             if \<not> ha_ok a then Inr (PrepareRefused (ha_status a))
             else js_bind (entry_of (ha_text a)) (\<lambda>(entry, expiry).
               js_bind (sign entry expiry) (\<lambda>sx.
               js_bind (post_with_retry (submit sx)) (\<lambda>b.
                 Inr (if ha_ok b then BotQuoted out else QuoteRefused (ha_status b)))))))))"

section \<open>The bot's reader of the stream\<close>

function raw_frames :: "string \<Rightarrow> string list \<times> string" where
  "raw_frames buf =
    (case cut_frame buf of
       None \<Rightarrow> ([], buf)
     | Some (raw, rest) \<Rightarrow> (case raw_frames rest of (fs, left) \<Rightarrow> (raw # fs, left)))"
  by pat_completeness auto
termination by (relation "measure length") (auto dest: cut_frame_shorter)

declare raw_frames.simps [simp del]

fun bot_frames :: "string \<Rightarrow> string list \<Rightarrow> string list" where
  "bot_frames buf [] = []"
| "bot_frames buf (piece # pieces) = (case raw_frames (buf @ piece) of (fs, left) \<Rightarrow> fs @ bot_frames left pieces)"

definition bot_line :: "string \<times> string list \<Rightarrow> string \<Rightarrow> string \<times> string list" where
  "bot_line acc line =
    (if starts_with ''event:'' line then (trim (drop 6 line), snd acc)
     else if starts_with ''data:'' line then (fst acc, snd acc @ [trim (drop 5 line)])
     else acc)"

text \<open>\<open>handleFrame\<close>: what is quoted for a frame, the open requests of a greeting or the new
  request.\<close>

definition handle_frame :: "(string \<Rightarrow> 'j option) \<Rightarrow> string \<Rightarrow> 'j client_event option" where
  "handle_frame parse raw =
    (let (event, data) = foldl bot_line (''message'', []) (split_on lf raw)
     in if data = [] then None
        else case parse (join_lines data) of
          None \<Rightarrow> None
        | Some j \<Rightarrow> if event = ''hello'' then Some (Hello j) else if event = ''request.created'' then Some (Passed j) else None)"

definition bot_stream :: "(string \<Rightarrow> 'j option) \<Rightarrow> string list \<Rightarrow> 'j client_event list" where
  "bot_stream parse pieces = List.map_filter (handle_frame parse) (bot_frames [] pieces)"

text \<open>The pauses between connections: a connection that was made resets the pause.\<close>

fun bot_pauses :: "int \<Rightarrow> bool list \<Rightarrow> int list" where
  "bot_pauses b [] = []"
| "bot_pauses b (up # rest) =
    (let b' = (if up then 1000 else b) in b' # bot_pauses (min (b' * 2) 30000) rest)"

section \<open>Inventory\<close>

record balance_line =
  bl_native :: bool
  bl_code :: jv
  bl_balance :: string

definition balance_symbol :: "(num \<Rightarrow> string) \<Rightarrow> balance_line \<Rightarrow> string" where
  "balance_symbol nt b = (if bl_native b then ''XLM'' else text_of_jv nt (bl_code b))"

definition wallet_balances :: "(num \<Rightarrow> string) \<Rightarrow> balance_line list \<Rightarrow> (string, num) jmap" where
  "wallet_balances nt bs =
    foldl (\<lambda>m b. let sy = balance_symbol nt b
        in if sy = [] then m
           else jm_set sy (num_add (case jm_get m sy of Some n \<Rightarrow> n | None \<Rightarrow> Fin 0) (num_of_string (bl_balance b))) m) jm_empty bs"

text \<open>Whether the loop starts: a key, then targets that parse, the organisation and the source
  asset, and a key the issuer knows.\<close>

definition restock_starts :: "(string \<Rightarrow> string option) \<Rightarrow> (string \<Rightarrow> restock_target list option) \<Rightarrow> bool \<Rightarrow> restock_target list option" where
  "restock_starts env parse me_ok =
    (if env_or (env ''ETHERFUSE_API_KEY'') [] = [] then None
     else case parse (env_or (env ''RESTOCK_TARGETS'') ''[]'') of
       None \<Rightarrow> None
     | Some ts \<Rightarrow>
         if env_or (env ''ETHERFUSE_ORG_ID'') [] = [] \<or> env_or (env ''RESTOCK_SOURCE_ASSET'') [] = [] \<or> ts = [] \<or> \<not> me_ok
         then None else Some ts)"

section \<open>Quotes stay in their band\<close>

lemma rnd_int: "\<bar>n\<bar> \<le> 2 ^ 53 \<Longrightarrow> rnd (of_int n) = Fin (of_int n)"
  by (rule rnd_of_int)

text \<open>
  What the bot quotes on a pair with a feed, at a spread of up to 995 basis points and a band of
  up to 1000: the amount is the fair one less the spread, rounded down; for a fair amount of at least
  2000 units the shortfall is within the band it asks for, which is a whole number the server accepts;
  so a prepare call is refused neither for its band nor for its feed.
\<close>

theorem bot_quotes_in_band:
  assumes "bot_terms cfg r = Inr (Inr (out, band))" "bc_spread cfg = Fin (of_int s)" "0 \<le> s" "s \<le> 995"
    and "bc_band cfg = Fin (of_int b)" "0 \<le> b" "b \<le> 1000" "rr_nav_out (r_reference r) = Some fair" "rr_oracle_on_chain (r_reference r)"
  shows "out = fair * (10000 - s) div 10000 \<and> band = Fin (of_int (max b (s + 5))) \<and> max b (s + 5) \<le> max_nav_band \<and>
    (2000 \<le> fair \<longrightarrow> (fair - out) * 10000 \<le> max b (s + 5) * fair) \<and>
    (\<forall>req ttl ledger now nonce maker. r_reference req = r_reference r \<longrightarrow>
      (\<exists>f. prepare_fields req \<lparr>pi_maker = maker, pi_out = out, pi_ttl = ttl, pi_band = Some band\<rparr> ledger now nonce = Inr f))"
proof -
  have "rnd (10000 + - of_int s) = Fin (of_int (10000 - s))" using rnd_int [of "10000 - s"] assms(3,4) by simp
  then have k: "big_of_num (num_sub (Fin 10000) (bc_spread cfg)) = Inr (10000 - s)"
    by (simp add: num_sub_def assms(2) big_of_num_def num_int_def)
  have "rnd (of_int s + 5) = Fin (of_int (s + 5))" using rnd_int [of "s + 5"] assms(3,4) by simp
  then have m: "num_max (bc_band cfg) (num_add (bc_spread cfg) (Fin 5)) = Fin (of_int (max b (s + 5)))"
    by (auto simp: num_max_def assms(2,5) max_def)
  have fair: "0 < fair" and o1: "out = tdiv (fair * (10000 - s)) 10000" and band: "band = Fin (of_int (max b (s + 5)))"
    using assms(1) unfolding bot_terms_def bot_fair_def by (auto simp: assms(8,9) k m split: if_split_asm)
  have out: "out = fair * (10000 - s) div 10000" using o1 fair assms(3,4) by (simp add: tdiv_nonneg)
  have top: "max b (s + 5) \<le> max_nav_band" "0 \<le> max b (s + 5)" using assms(3,4,6,7) by (simp_all add: max_nav_band_def)
  have short: "(fair - out) * 10000 \<le> max b (s + 5) * fair" if "2000 \<le> fair"
  proof -
    have "fair * (10000 - s) < (out + 1) * 10000" unfolding out by (simp add: div_less_iff [symmetric])
    then have "(fair - out) * 10000 \<le> s * fair + 10000" by (simp add: algebra_simps)
    also have "\<dots> \<le> (s + 5) * fair" using that by (simp add: algebra_simps)
    also have "\<dots> \<le> max b (s + 5) * fair" using fair by (intro mult_right_mono) simp_all
    finally show ?thesis .
  qed
  have "\<exists>f. prepare_fields req \<lparr>pi_maker = maker, pi_out = out, pi_ttl = ttl, pi_band = Some band\<rparr> ledger now nonce = Inr f"
    if "r_reference req = r_reference r" for req ttl ledger now nonce maker
    using that top assms(9) by (simp add: prepare_fields_def band Let_def not_less [symmetric] del: max_less_iff_conj max.bounded_iff)
  with out band top short show ?thesis by blast
qed

section \<open>Two readers of one stream\<close>

lemma drain_raw: "drain buf = (List.map_filter to_frame (fst (raw_frames buf)), snd (raw_frames buf))"
proof (induction buf rule: raw_frames.induct)
  case (1 buf)
  then show ?case
    by (auto simp: drain.simps [of buf] raw_frames.simps [of buf] List.map_filter_def split: option.split prod.split)
qed

lemma parse_sse_raw: "parse_sse buf pieces = List.map_filter to_frame (bot_frames buf pieces)"
proof (induction pieces arbitrary: buf)
  case (Cons piece pieces)
  have app: "List.map_filter to_frame (xs @ ys) = List.map_filter to_frame xs @ List.map_filter to_frame ys" for xs ys
    by (simp add: List.map_filter_def)
  show ?case using Cons by (simp add: drain_raw app split: prod.split)
qed (simp add: List.map_filter_def)

text \<open>A line whose data has no spaces behind it, as a JSON text has none.\<close>

definition tight_line :: "string \<Rightarrow> bool" where
  "tight_line line \<longleftrightarrow> (starts_with ''data:'' line \<longrightarrow> trim (drop 5 line) = trim_start (drop 5 line))"

lemma bot_line_same: "tight_line line \<Longrightarrow> bot_line acc line = frame_line acc line"
  by (cases line) (auto simp: bot_line_def frame_line_def tight_line_def starts_with_def)

lemma bot_lines_same: "\<forall>line\<in>set lines. tight_line line \<Longrightarrow> foldl bot_line acc lines = foldl frame_line acc lines"
  by (induction lines arbitrary: acc) (simp_all add: bot_line_same)

text \<open>
  The bot and the SDK read one stream alike: cut in the same or in different pieces, the bot acts
  on exactly the frames for which the SDK calls its listener, the closing of requests left out, as
  long as no data line ends in spaces.
\<close>

theorem bot_reads_like_sdk:
  assumes "concat pieces = concat pieces'" "\<forall>raw\<in>set (bot_frames [] pieces). \<forall>line\<in>set (split_on lf raw). tight_line line"
  shows "bot_stream parse pieces =
    List.map_filter (\<lambda>f. if fr_event f = ''request.closed'' then None else frame_event parse f) (parse_sse [] pieces')"
proof -
  have one: "handle_frame parse raw =
      Option.bind (to_frame raw) (\<lambda>f. if fr_event f = ''request.closed'' then None else frame_event parse f)"
    if "\<forall>line\<in>set (split_on lf raw). tight_line line" for raw
    using bot_lines_same [OF that, of "(''message'', [])"]
    by (auto simp: handle_frame_def to_frame_def frame_event_def Let_def split: prod.split option.split)
  have "parse_sse [] pieces' = parse_sse [] pieces" by (simp add: parse_sse_whole assms(1) del: parse_sse.simps)
  then have "parse_sse [] pieces' = List.map_filter to_frame (bot_frames [] pieces)" by (simp add: parse_sse_raw del: parse_sse.simps)
  moreover have "List.map_filter (handle_frame parse) raws =
      List.map_filter (\<lambda>f. if fr_event f = ''request.closed'' then None else frame_event parse f) (List.map_filter to_frame raws)"
    if "\<forall>raw\<in>set raws. \<forall>line\<in>set (split_on lf raw). tight_line line" for raws
    using that
  proof (induction raws)
    case (Cons raw raws)
    then show ?case by (cases "to_frame raw") (simp_all add: one List.map_filter_def)
  qed (simp add: List.map_filter_def)
  ultimately show ?thesis using assms(2) by (simp add: bot_stream_def del: bot_frames.simps parse_sse.simps)
qed

section \<open>The properties at concrete inputs\<close>

definition demo_bot :: bot_config where
  "demo_bot = \<lparr>bc_api = ''a'', bc_key = ''k'', bc_me = ''M'', bc_spread = Fin 5, bc_max = PInf, bc_pairs = [], bc_fallback = False, bc_band = Fin 50\<rparr>"

definition demo_feed :: public_request where
  "demo_feed = (demo_open [])\<lparr>r_reference := no_reference\<lparr>rr_nav_out := Some 4000, rr_oracle_on_chain := True\<rparr>\<rparr>"

theorem bot_quotes_in_band_witness:
  "\<exists>out band. bot_terms demo_bot demo_feed = Inr (Inr (out, band)) \<and> (4000 - out) * 10000 \<le> 50 * 4000"
proof -
  have feed: "rr_nav_out (r_reference demo_feed) = Some 4000" "rr_oracle_on_chain (r_reference demo_feed)" "r_taker demo_feed = ''T''"
    by (simp_all add: demo_feed_def)
  have k: "big_of_num (num_sub (Fin 10000) (Fin 5)) = Inr 9995"
    using rnd_int [of 9995] by (simp add: num_sub_def big_of_num_def num_int_def)
  have big: "\<not> num_lt PInf x" for x by (cases x) simp_all
  obtain out band where t: "bot_terms demo_bot demo_feed = Inr (Inr (out, band))"
    by (simp add: bot_terms_def bot_fair_def demo_bot_def feed k big)
  have "2000 \<le> (4000 :: int) \<longrightarrow> (4000 - out) * 10000 \<le> max 50 (5 + 5) * 4000"
    using bot_quotes_in_band [OF t, of 5 50 4000] feed by (simp add: demo_bot_def)
  with t show ?thesis by auto
qed

theorem bot_reads_like_sdk_witness:
  "bot_stream Some [sse_frame ''hello'' ''{}''] = [Hello ''{}'']"
proof -
  let ?p = "[sse_frame ''hello'' ''{}'']"
  have raws: "bot_frames [] ?p = [''event: hello'' @ [lf] @ ''data: {}'']" by code_simp
  have tight: "\<forall>raw\<in>set (bot_frames [] ?p). \<forall>line\<in>set (split_on lf raw). tight_line line"
    unfolding raws by code_simp
  have "List.map_filter (\<lambda>f. if fr_event f = ''request.closed'' then None else frame_event Some f) (parse_sse [] ?p) = [Hello ''{}'']"
    by code_simp
  with bot_reads_like_sdk [OF refl tight, of Some] show ?thesis by simp
qed

end
