(* ===== verification/TokenSearch.thy ===== *)
theory TokenSearch
  imports ReadApi SdkStream "HOL-Library.Word" "HOL-Library.Product_Lexorder"
begin

text \<open>
  The token picker of \<open>frontend/src/components/SwapWidget.tsx\<close>: how a listed asset becomes a
  token of the page, its colour, and the search with its typo tolerance (\<open>editDistLe\<close>,
  \<open>matchRank\<close>, the ranked list).

  Theorems: the bounded table-filling test decides whether one text can be turned into another by so
  many single-character edits; the picker never lists the token of the other side, ranks by match
  quality, and keeps every token whose symbol the query is close to.
\<close>

section \<open>Tokens of the page\<close>

record page_token =
  pt_symbol :: string
  pt_name :: string
  pt_color :: "string option"
  pt_live :: bool
  pt_sac :: "string option"
  pt_issuer :: "string option"
  pt_decimals :: int
  pt_home :: "string option"
  pt_verified :: bool
  pt_volume :: num
  pt_twap :: bool

text \<open>\<open>hashColor\<close>: \<open>>>> 0\<close> keeps the low 32 bits.\<close>

definition hash_symbol :: "string \<Rightarrow> 32 word" where
  "hash_symbol s = foldl (\<lambda>h c. h * 31 + of_nat (of_char c)) 0 s"

definition hash_color :: "string \<Rightarrow> string" where
  "hash_color s = ''hsl('' @ nat_string (unat (hash_symbol s) mod 360) @ '', 55%, 48%)''"

text \<open>The curated colours; a symbol that names a property every object inherits finds that
  instead, which has no colour.\<close>

definition curated_colors :: "(string \<times> string) list" where
  "curated_colors = [(''USDC'', ''#2775ca''), (''PYUSD'', ''#0070e0''), (''USDY'', ''#5865f2''), (''USDT0'', ''#26a17b''), (''SolvBTC'', ''#f7931a'')]"

definition inherited_names :: "string list" where
  "inherited_names = [''constructor'', ''toString'', ''valueOf'', ''toLocaleString'', ''hasOwnProperty'', ''isPrototypeOf'',
     ''propertyIsEnumerable'', ''__proto__'', ''__defineGetter__'', ''__defineSetter__'', ''__lookupGetter__'', ''__lookupSetter__'']"

definition token_color :: "string \<Rightarrow> string option" where
  "token_color s =
    (case map_of curated_colors s of
       Some c \<Rightarrow> Some c
     | None \<Rightarrow> if s \<in> set inherited_names then None else Some (hash_color s))"

definition or_undefined :: "string \<Rightarrow> string option" where
  "or_undefined s = (if s = [] then None else Some s)"

definition asset_to_token :: "asset_row \<Rightarrow> page_token" where
  "asset_to_token a =
    (let t = ar_token a
     in \<lparr>pt_symbol = at_symbol t, pt_name = at_name t, pt_color = token_color (at_symbol t), pt_live = at_live t,
         pt_sac = or_undefined (at_sac t), pt_issuer = or_undefined (at_issuer t), pt_decimals = at_decimals t,
         pt_home = (case at_home t of None \<Rightarrow> None | Some d \<Rightarrow> or_undefined d), pt_verified = at_verified t,
         pt_volume = at_volume t, pt_twap = ar_twap a\<rparr>)"

section \<open>The bounded edit distance\<close>

text \<open>One row of the table from the previous one: \<open>left\<close> is the entry before.\<close>

fun row_cells :: "char \<Rightarrow> string \<Rightarrow> nat list \<Rightarrow> nat \<Rightarrow> nat list" where
  "row_cells c (x # xs) (p # q # ps) left =
    (let v = min (min (q + 1) (left + 1)) (p + (if c = x then 0 else 1)) in v # row_cells c xs (q # ps) v)"
| "row_cells c xs ps left = []"

definition next_row :: "char \<Rightarrow> string \<Rightarrow> nat list \<Rightarrow> nat \<Rightarrow> nat list" where
  "next_row c b prev i = i # row_cells c b prev i"

definition row_min :: "nat list \<Rightarrow> nat" where
  "row_min row = foldl min (hd row) (tl row)"

fun rows_within :: "nat \<Rightarrow> string \<Rightarrow> nat \<Rightarrow> nat list \<Rightarrow> string \<Rightarrow> bool" where
  "rows_within mx b i prev [] = (prev ! length b \<le> mx)"
| "rows_within mx b i prev (c # cs) =
    (let cur = next_row c b prev i in if row_min cur > mx then False else rows_within mx b (Suc i) cur cs)"

definition edit_dist_le :: "string \<Rightarrow> string \<Rightarrow> nat \<Rightarrow> bool" where
  "edit_dist_le a b mx =
    (if \<bar>int (length a) - int (length b)\<bar> > int mx then False
     else rows_within mx b 1 [0..<Suc (length b)] a)"

section \<open>Ranking and listing\<close>

text \<open>\<open>includes\<close>\<close>

fun contains_text :: "string \<Rightarrow> string \<Rightarrow> bool" where
  "contains_text p [] = (p = [])"
| "contains_text p (c # cs) = (starts_with p (c # cs) \<or> contains_text p cs)"

text \<open>\<open>/^[cg][a-z2-7]+$/\<close>\<close>

definition base32_char :: "char \<Rightarrow> bool" where
  "base32_char c \<longleftrightarrow> (let n = of_char c :: nat in 97 \<le> n \<and> n \<le> 122 \<or> 50 \<le> n \<and> n \<le> 55)"

definition address_like :: "string \<Rightarrow> bool" where
  "address_like q = (case q of c # cs \<Rightarrow> (c = CHR ''c'' \<or> c = CHR ''g'') \<and> cs \<noteq> [] \<and> list_all base32_char cs | [] \<Rightarrow> False)"

definition address_prefix :: "string \<Rightarrow> string option \<Rightarrow> bool" where
  "address_prefix q a = (case a of Some s \<Rightarrow> starts_with q (lower s) | None \<Rightarrow> False)"

definition typo_close :: "string \<Rightarrow> string \<Rightarrow> bool" where
  "typo_close q sy =
    (3 \<le> length q \<and>
     (let tol = (if 6 \<le> length q then 2 else 1)
      in edit_dist_le sy q tol \<or> edit_dist_le (take (length q) sy) q tol \<or>
         edit_dist_le (take (min (length sy) (length q + 1)) sy) q tol))"

definition match_rank :: "string \<Rightarrow> page_token \<Rightarrow> nat" where
  "match_rank q t =
    (let sy = lower (pt_symbol t)
     in if sy = q then 0
        else if starts_with q sy then 1
        else if 6 \<le> length q \<and> address_like q \<and> (address_prefix q (pt_sac t) \<or> address_prefix q (pt_issuer t)) then 0
        else if contains_text q sy then 2
        else if contains_text q (lower (pt_name t)) then 3
        else if typo_close q sy then 4 else 5)"

definition search_query :: "string \<Rightarrow> string" where
  "search_query typed = lower (trim typed)"

text \<open>\<open>exclude\<close> is the token of the other side; without a query the order is kept.\<close>

definition available_tokens :: "string option \<Rightarrow> string \<Rightarrow> page_token list \<Rightarrow> page_token list" where
  "available_tokens exclude typed ts =
    (let q = search_query typed
     in js_sort (\<lambda>a b. q \<noteq> [] \<and>
            (if match_rank q a \<noteq> match_rank q b then match_rank q a > match_rank q b
             else length (pt_symbol a) > length (pt_symbol b)))
          (filter (\<lambda>t. Some (pt_symbol t) \<noteq> exclude \<and> (q = [] \<or> match_rank q t < 5)) ts))"

section \<open>Single-character edits\<close>

text \<open>One edit inserts, deletes or replaces one character; \<open>edits n\<close> is n of them.\<close>

inductive edit :: "'a list \<Rightarrow> 'a list \<Rightarrow> bool" where
  ins: "edit (u @ v) (u @ c # v)"
| del: "edit (u @ c # v) (u @ v)"
| rep: "edit (u @ c # v) (u @ d # v)"

inductive edits :: "nat \<Rightarrow> 'a list \<Rightarrow> 'a list \<Rightarrow> bool" where
  edits_none: "edits 0 s s"
| edits_more: "edit s t \<Longrightarrow> edits n t u \<Longrightarrow> edits (Suc n) s u"

text \<open>The recursion the table fills in, on heads.\<close>

fun lev :: "'a list \<Rightarrow> 'a list \<Rightarrow> nat" where
  "lev [] ys = length ys"
| "lev (x # xs) [] = Suc (length xs)"
| "lev (x # xs) (y # ys) = min (min (lev xs (y # ys) + 1) (lev (x # xs) ys + 1)) (lev xs ys + (if x = y then 0 else 1))"

lemma lev_Nil_right [simp]: "lev xs [] = length xs"
  by (cases xs) simp_all

lemma lev_refl [simp]: "lev xs xs = 0"
  by (induction xs) simp_all

lemma lev_length: "length xs \<le> length ys + lev xs ys" "length ys \<le> length xs + lev xs ys"
  by (induction xs ys rule: lev.induct) auto

lemma lev_sym: "lev xs ys = lev ys xs"
  by (induction xs ys rule: lev.induct) (auto simp: min_def)

lemma lev_le:
  "lev (x # xs) (y # ys) \<le> lev xs (y # ys) + 1"
  "lev (x # xs) (y # ys) \<le> lev (x # xs) ys + 1"
  "lev (x # xs) (y # ys) \<le> lev xs ys + (if x = y then 0 else 1)"
  by (simp_all add: min.coboundedI1)

lemma lev_cases:
  obtains (del) "lev (x # xs) (y # ys) = lev xs (y # ys) + 1"
  | (ins) "lev (x # xs) (y # ys) = lev (x # xs) ys + 1"
  | (rep) "lev (x # xs) (y # ys) = lev xs ys + (if x = y then 0 else 1)"
  unfolding lev.simps(3) min_def by argo

declare lev.simps(3) [simp del]

lemma lev_triangle: "lev xs zs \<le> lev xs ys + lev ys zs"
proof (induction "length xs + length ys + length zs" arbitrary: xs ys zs rule: less_induct)
  case less
  consider "xs = []" | "zs = []" | "ys = []" | x xs' y ys' z zs' where "xs = x # xs'" "ys = y # ys'" "zs = z # zs'"
    by (metis list.exhaust)
  then show ?case
  proof cases
    case 1
    then show ?thesis using lev_length(2) [of zs ys] by simp
  next
    case 2
    then show ?thesis using lev_length(1) [of xs ys] by simp
  next
    case 3
    have "lev xs zs \<le> length xs + length zs"
    proof (induction xs zs rule: lev.induct)
      case (3 x xs y ys)
      then show ?case using lev_le(3) [of x xs y ys] by (simp split: if_split_asm)
    qed auto
    with 3 show ?thesis by simp
  next
    case (4 x xs' y ys' z zs')
    have IH: "lev a c \<le> lev a b + lev b c" if "length a + length b + length c < length xs + length ys + length zs" for a b c :: "'a list"
      by (rule less) (use that in simp)
    note le = lev_le [of x xs' z zs', folded 4]
    consider (d1) "lev xs ys = lev xs' ys + 1" | (i1) "lev xs ys = lev xs ys' + 1" | (r1) "lev xs ys = lev xs' ys' + (if x = y then 0 else 1)"
      using lev_cases [of x xs' y ys'] unfolding 4 by blast
    then show ?thesis
    proof cases
      case d1
      then show ?thesis using le(1) IH [of xs' ys zs] 4 by simp
    next
      case i1
      consider (d2) "lev ys zs = lev ys' zs + 1" | (i2) "lev ys zs = lev ys zs' + 1" | (r2) "lev ys zs = lev ys' zs' + (if y = z then 0 else 1)"
        using lev_cases [of y ys' z zs'] unfolding 4 by blast
      then show ?thesis
      proof cases
        case d2
        then show ?thesis using i1 IH [of xs ys' zs] 4 by simp
      next
        case i2
        then show ?thesis using le(2) IH [of xs ys zs'] 4 by simp
      next
        case r2
        then show ?thesis using i1 le(2) IH [of xs ys' zs'] 4 by (simp split: if_split_asm)
      qed
    next
      case r1
      consider (d2) "lev ys zs = lev ys' zs + 1" | (i2) "lev ys zs = lev ys zs' + 1" | (r2) "lev ys zs = lev ys' zs' + (if y = z then 0 else 1)"
        using lev_cases [of y ys' z zs'] unfolding 4 by blast
      then show ?thesis
      proof cases
        case d2
        then show ?thesis using r1 le(1) IH [of xs' ys' zs] 4 by (simp split: if_split_asm)
      next
        case i2
        then show ?thesis using le(2) IH [of xs ys zs'] 4 by simp
      next
        case r2
        then show ?thesis using r1 le(3) IH [of xs' ys' zs'] 4 by (auto split: if_split_asm)
      qed
    qed
  qed
qed

lemma lev_append: "lev (u @ xs) (u @ ys) \<le> lev xs ys"
proof (induction u)
  case (Cons c u)
  then show ?case using lev_le(3) [of c "u @ xs" c "u @ ys"] by simp
qed simp

lemma edit_lev: "edit s t \<Longrightarrow> lev s t \<le> 1"
proof (induction rule: edit.induct)
  case (ins u v c)
  have "lev v (c # v) \<le> 1" using lev_le(2) [of "hd v" "tl v" c v] by (cases v) simp_all
  with lev_append [of u v "c # v"] show ?case by simp
next
  case (del u c v)
  have "lev (c # v) v \<le> 1" using lev_le(1) [of c v "hd v" "tl v"] by (cases v) simp_all
  with lev_append [of u "c # v" v] show ?case by simp
next
  case (rep u c v d)
  have "lev (c # v) (d # v) \<le> 1" using lev_le(3) [of c v d v] by (simp split: if_split_asm)
  with lev_append [of u "c # v" "d # v"] show ?case by simp
qed

lemma edits_lev: "edits n s t \<Longrightarrow> lev s t \<le> n"
proof (induction rule: edits.induct)
  case (edits_more s t n u)
  then show ?case using edit_lev [of s t] lev_triangle [of s u t] by simp
qed simp

lemma edit_Cons: "edit s t \<Longrightarrow> edit (c # s) (c # t)"
  by (auto elim!: edit.cases) (metis append_Cons edit.intros)+

lemma edits_Cons: "edits n s t \<Longrightarrow> edits n (c # s) (c # t)"
  by (induction rule: edits.induct) (auto intro: edits.intros edit_Cons)

lemma edits_all: "edits (length s) s []" "edits (length s) [] s"
proof -
  show "edits (length s) s []"
  proof (induction s)
    case (Cons c s)
    have "edit (c # s) s" using edit.del [of "[]" c s] by simp
    with Cons show ?case by (auto intro: edits_more)
  qed (simp add: edits_none)
  show "edits (length s) [] s"
  proof (induction s rule: rev_induct)
    case (snoc c s)
    have "edits n t s \<Longrightarrow> edits (Suc n) t (s @ [c])" for n t
    proof (induction rule: edits.induct)
      case (edits_none s)
      show ?case using edit.ins [of s "[]" c] by (auto intro: edits.intros)
    next
      case (edits_more s t n u)
      then show ?case by (metis edits.edits_more)
    qed
    with snoc show ?case by simp
  qed (simp add: edits_none)
qed

lemma lev_edits: "edits (lev s t) s t"
proof (induction s t rule: lev.induct)
  case (3 x xs y ys)
  show ?case
  proof (cases rule: lev_cases [of x xs y ys])
    case del
    have "edit (x # xs) xs" using edit.del [of "[]" x xs] by simp
    with del 3(1) show ?thesis by (auto intro: edits_more)
  next
    case ins
    have "edit (x # xs) (y # x # xs)" using edit.ins [of "[]" "x # xs" y] by simp
    with ins edits_Cons [OF 3(2), of y] show ?thesis by (auto intro: edits_more)
  next
    case rep
    show ?thesis
    proof (cases "x = y")
      case True
      with rep edits_Cons [OF 3(3), of y] show ?thesis by simp
    next
      case False
      have "edit (x # xs) (y # xs)" using edit.rep [of "[]" x xs y] by simp
      with False rep edits_Cons [OF 3(3), of y] show ?thesis by (auto intro: edits_more)
    qed
  qed
next
  case (2 x xs)
  show ?case using edits_all(1) [of "x # xs"] by simp
qed (simp add: edits_all)

lemma edits_iff: "(\<exists>n\<le>k. edits n s t) \<longleftrightarrow> lev s t \<le> k"
  using edits_lev lev_edits by (metis le_trans)

lemma edit_rev: "edit s t \<Longrightarrow> edit (rev s) (rev t)"
proof (induction rule: edit.induct)
  case (ins u v c)
  show ?case using edit.ins [of "rev v" "rev u" c] by simp
next
  case (del u c v)
  show ?case using edit.del [of "rev v" c "rev u"] by simp
next
  case (rep u c v d)
  show ?case using edit.rep [of "rev v" c "rev u" d] by simp
qed

lemma edits_rev: "edits n s t \<Longrightarrow> edits n (rev s) (rev t)"
  by (induction rule: edits.induct) (auto intro: edits.intros edit_rev)

lemma lev_rev: "lev (rev s) (rev t) = lev s t"
  using edits_lev [OF edits_rev [OF lev_edits [of s t]]] edits_lev [OF edits_rev [OF lev_edits [of "rev s" "rev t"]]] by simp

section \<open>The table\<close>

text \<open>A row: the distances of the reversed prefix \<open>s\<close> of one text to the reversed prefixes of
  the other, \<open>u\<close> being the part already passed.\<close>

fun dp_row :: "string \<Rightarrow> string \<Rightarrow> string \<Rightarrow> nat list" where
  "dp_row s u [] = [lev s u]"
| "dp_row s u (x # xs) = lev s u # dp_row s (x # u) xs"

lemma dp_row_first: "dp_row s u xs = lev s u # tl (dp_row s u xs)"
  by (cases xs) simp_all

lemma dp_row_start: "dp_row [] u xs = [length u..<Suc (length u + length xs)]"
  by (induction xs arbitrary: u) (simp_all add: upt_conv_Cons del: upt_Suc)

lemma dp_row_end: "dp_row s u xs ! length xs = lev s (rev xs @ u)"
  by (induction xs arbitrary: u) simp_all

lemma dp_row_mem: "lev s (rev p @ u) \<in> set (dp_row s u (p @ r))"
proof (induction p arbitrary: u)
  case Nil
  then show ?case by (cases r) simp_all
qed simp

lemma row_cells_row: "row_cells c xs (dp_row s u xs) (lev (c # s) u) = tl (dp_row (c # s) u xs)"
proof (induction xs arbitrary: u)
  case (Cons x xs)
  obtain ps where ps: "dp_row s (x # u) xs = lev s (x # u) # ps" using dp_row_first by metis
  have v: "min (min (lev s (x # u) + 1) (lev (c # s) u + 1)) (lev s u + (if c = x then 0 else 1)) = lev (c # s) (x # u)"
    by (simp only: lev.simps(3))
  show ?case
    by (simp only: dp_row.simps ps row_cells.simps Let_def v list.sel Cons [of "x # u", unfolded ps] dp_row_first [symmetric])
qed simp

lemma next_row_row: "next_row c b (dp_row s [] b) (Suc (length s)) = dp_row (c # s) [] b"
  using row_cells_row [of c b s "[]"] dp_row_first [of "c # s" "[]" b] by (simp add: next_row_def)

lemma row_min_le: "row \<noteq> [] \<Longrightarrow> row_min row \<le> v \<longleftrightarrow> (\<exists>x\<in>set row. x \<le> v)"
proof -
  have "foldl min m xs \<le> v \<longleftrightarrow> m \<le> v \<or> (\<exists>x\<in>set xs. x \<le> v)" for m and xs :: "nat list"
    by (induction xs arbitrary: m) auto
  then show "row \<noteq> [] \<Longrightarrow> row_min row \<le> v \<longleftrightarrow> (\<exists>x\<in>set row. x \<le> v)" by (cases row) (simp_all add: row_min_def)
qed

text \<open>What the early exit rests on: later rows have no smaller entries.\<close>

lemma lev_suffix: "\<exists>z1 z2. z = z1 @ z2 \<and> lev s z2 \<le> lev (t @ s) z"
proof (induction t z rule: lev.induct)
  case (2 x xs)
  show ?case by simp
next
  case (3 x xs y ys)
  show ?case
  proof (cases rule: lev_cases [of x "xs @ s" y ys])
    case del
    from 3(1) obtain z1 z2 where "y # ys = z1 @ z2" "lev s z2 \<le> lev (xs @ s) (y # ys)" by blast
    with del show ?thesis by (intro exI [of _ z1] exI [of _ z2]) simp
  next
    case ins
    from 3(2) obtain z1 z2 where "ys = z1 @ z2" "lev s z2 \<le> lev ((x # xs) @ s) ys" by blast
    with ins show ?thesis by (intro exI [of _ "y # z1"] exI [of _ z2]) simp
  next
    case rep
    from 3(3) obtain z1 z2 where "ys = z1 @ z2" "lev s z2 \<le> lev (xs @ s) ys" by blast
    with rep show ?thesis by (intro exI [of _ "y # z1"] exI [of _ z2]) simp
  qed
qed auto

lemma row_min_lower: "row_min (dp_row s [] b) \<le> lev (t @ s) (rev b)"
proof -
  obtain z1 z2 where z: "rev b = z1 @ z2" "lev s z2 \<le> lev (t @ s) (rev b)" using lev_suffix by metis
  then have b: "b = rev z2 @ rev z1" by (metis rev_append rev_rev_ident)
  have "lev s z2 \<in> set (dp_row s [] b)" using dp_row_mem [of s "rev z2" "[]" "rev z1"] by (simp add: b)
  with z(2) row_min_le [of "dp_row s [] b"] show ?thesis by (cases b) auto
qed

lemma rows_within_lev: "rows_within mx b (Suc (length s)) (dp_row s [] b) cs \<longleftrightarrow> lev (rev cs @ s) (rev b) \<le> mx"
proof (induction cs arbitrary: s)
  case Nil
  then show ?case using dp_row_end [of s "[]" b] by simp
next
  case (Cons c cs)
  have "mx < row_min (dp_row (c # s) [] b) \<Longrightarrow> \<not> lev (rev cs @ c # s) (rev b) \<le> mx"
    using row_min_lower [of "c # s" b "rev cs"] by linarith
  then show ?case using Cons [of "c # s"] by (auto simp: next_row_row Let_def)
qed

lemma edit_dist_le_lev: "edit_dist_le a b mx \<longleftrightarrow> lev a b \<le> mx"
proof -
  have "rows_within mx b 1 [0..<Suc (length b)] a \<longleftrightarrow> lev a b \<le> mx"
    using rows_within_lev [of mx b "[]" a] dp_row_start [of "[]" b] lev_rev [of a b] by simp
  moreover have "lev a b \<le> mx \<Longrightarrow> \<bar>int (length a) - int (length b)\<bar> \<le> int mx"
    using lev_length(1) [of a b] lev_length(2) [of b a] by linarith
  ultimately show ?thesis by (auto simp: edit_dist_le_def)
qed

text \<open>
  C15. The bounded test of the token search is exact: it accepts two texts if and only if at most so
  many insertions, deletions and replacements of single characters turn one into the other. Comparing
  lengths first and giving up once a whole row is above the bound lose nothing.
\<close>

theorem edit_distance_exact: "edit_dist_le a b mx \<longleftrightarrow> (\<exists>n\<le>mx. edits n a b)"
  by (simp only: edit_dist_le_lev edits_iff)

section \<open>The ranked list\<close>

lemma available_mem: "t \<in> set (available_tokens ex typed ts) \<longleftrightarrow>
    t \<in> set ts \<and> Some (pt_symbol t) \<noteq> ex \<and> (search_query typed = [] \<or> match_rank (search_query typed) t < 5)"
  by (auto simp: available_tokens_def Let_def)

lemma available_sorted:
  assumes "search_query typed = q" "q \<noteq> []"
  shows "sorted (map (\<lambda>t. (match_rank q t, length (pt_symbol t))) (available_tokens ex typed ts))"
proof -
  let ?key = "\<lambda>t. (match_rank q t, length (pt_symbol t))"
  have "(\<lambda>a b. q \<noteq> [] \<and> (if match_rank q a \<noteq> match_rank q b then match_rank q a > match_rank q b else length (pt_symbol a) > length (pt_symbol b)))
      = (\<lambda>a b. ?key b < ?key a)"
    using assms(2) by (auto simp: fun_eq_iff)
  then show ?thesis unfolding available_tokens_def assms(1) Let_def by (simp only: js_sort_sorted)
qed

text \<open>
  What the picker lists for a query: never the token of the other side; the better the match the
  earlier, shorter symbols first among equals; every token whose symbol starts with the query; and
  every token whose symbol is at most one edit away from the query, two from six characters on, so a
  typo does not make a token disappear. Without a query the list keeps its order.
\<close>

theorem search_keeps_and_ranks:
  assumes "search_query typed = q"
  shows "(q = [] \<longrightarrow> available_tokens ex typed ts = filter (\<lambda>t. Some (pt_symbol t) \<noteq> ex) ts) \<and>
    (\<forall>t\<in>set (available_tokens ex typed ts). t \<in> set ts \<and> Some (pt_symbol t) \<noteq> ex) \<and>
    (q \<noteq> [] \<longrightarrow> sorted (map (\<lambda>t. (match_rank q t, length (pt_symbol t))) (available_tokens ex typed ts))) \<and>
    (\<forall>t\<in>set ts. Some (pt_symbol t) \<noteq> ex \<and>
      (starts_with q (lower (pt_symbol t)) \<or>
       3 \<le> length q \<and> (\<exists>n\<le>(if 6 \<le> length q then 2 else 1). edits n (lower (pt_symbol t)) q)) \<longrightarrow>
      t \<in> set (available_tokens ex typed ts))"
proof -
  have same: "js_sort (\<lambda>_ _. False) xs = xs" for xs :: "page_token list"
  proof (induction xs)
    case (Cons x xs)
    have "js_insert (\<lambda>_ _. False) x xs = x # xs" by (cases xs) simp_all
    with Cons show ?case by simp
  qed simp
  have "match_rank q t < 5"
    if "starts_with q (lower (pt_symbol t)) \<or> 3 \<le> length q \<and> (\<exists>n\<le>(if 6 \<le> length q then 2 else 1). edits n (lower (pt_symbol t)) q)" for t
    using that by (auto simp: match_rank_def typo_close_def edit_dist_le_lev edits_iff [symmetric] Let_def)
  moreover have "q = [] \<Longrightarrow> available_tokens ex typed ts = filter (\<lambda>t. Some (pt_symbol t) \<noteq> ex) ts"
    by (simp add: available_tokens_def assms same)
  ultimately show ?thesis using available_sorted [OF assms] by (auto simp: available_mem assms)
qed

section \<open>The properties at concrete inputs\<close>

definition demo_page_token :: "string \<Rightarrow> page_token" where
  "demo_page_token s = \<lparr>pt_symbol = s, pt_name = [], pt_color = token_color s, pt_live = True, pt_sac = None, pt_issuer = None,
     pt_decimals = 7, pt_home = None, pt_verified = False, pt_volume = Fin 0, pt_twap = False\<rparr>"

theorem edit_distance_exact_witness: "edits 1 ''solvbtc'' ''solvebtc'' \<and> edit_dist_le ''solvbtc'' ''solvebtc'' 1 \<and> \<not> edit_dist_le ''solvbtc'' ''usdc'' 2"
proof -
  have "edit ''solvbtc'' ''solvebtc''" using edit.ins [of "''solv''" "''btc''" "CHR ''e''"] by simp
  then have e: "edits 1 ''solvbtc'' ''solvebtc''" using edits_more [OF _ edits_none] by fastforce
  moreover have "\<not> edit_dist_le ''solvbtc'' ''usdc'' 2" by code_simp
  ultimately show ?thesis using edit_distance_exact [of "''solvbtc''" "''solvebtc''" 1] by auto
qed

theorem search_keeps_and_ranks_witness:
  "demo_page_token ''SolvBTC'' \<in> set (available_tokens (Some ''USDC'') '' Solvebtc '' [demo_page_token ''USDC'', demo_page_token ''SolvBTC''])"
proof -
  have q: "search_query '' Solvebtc '' = ''solvebtc''" "lower (pt_symbol (demo_page_token ''SolvBTC'')) = ''solvbtc''" by code_simp+
  have "edit ''solvbtc'' ''solvebtc''" using edit.ins [of "''solv''" "''btc''" "CHR ''e''"] by simp
  then have "edits 1 ''solvbtc'' ''solvebtc''" using edits_more [OF _ edits_none] by fastforce
  then have "\<exists>n\<le>2. edits n (lower (pt_symbol (demo_page_token ''SolvBTC''))) ''solvebtc''" unfolding q(2) by (intro exI [of _ 1]) simp
  with search_keeps_and_ranks [OF q(1), of "Some ''USDC''" "[demo_page_token ''USDC'', demo_page_token ''SolvBTC'']"]
  show ?thesis by (simp add: demo_page_token_def)
qed

end
