(* ===== verification/WalletGate.thy ===== *)
theory WalletGate
  imports TokenSearch
begin

text \<open>
  The wallet connection of the pages: \<open>frontend/src/context/WalletContext.tsx\<close> with the
  acknowledgment of the terms kept by \<open>lib/legal.ts\<close>. \<open>connect\<close>,
  \<open>signTransaction\<close> and the restored session are cut at their awaits, a task being what is
  left of one; a run is any sequence of the pieces, of the user's decisions and of the wallet's
  answers. What the pages ask of the wallet, and what the user decides, is recorded in order.

  Theorems: a signature is asked only for the address of a connection, for the expected network,
  after the terms were accepted; a waiter of the acknowledgment is never forgotten; disconnecting
  does not stop a signature that waits.
\<close>

section \<open>Constants and storage\<close>

definition expected_passphrase :: string where
  "expected_passphrase = ''Test SDF Network ; September 2015''"

definition terms_version :: string where
  "terms_version = ''2026-11-02''"

text \<open>What the two keys of \<open>localStorage\<close> hold, or nothing when the browser refuses
  access to it (every call then throws). The session is the parsed JSON text.\<close>

record stored =
  st_ack :: "string option"
  st_session :: "(string option \<times> string) option"

definition has_accepted_terms :: "stored option \<Rightarrow> bool" where
  "has_accepted_terms storage = (case storage of Some s \<Rightarrow> st_ack s = Some terms_version | None \<Rightarrow> False)"

definition record_terms_acceptance :: "stored option \<Rightarrow> stored option" where
  "record_terms_acceptance storage = map_option (\<lambda>s. s\<lparr>st_ack := Some terms_version\<rparr>) storage"

definition set_session :: "(string option \<times> string) option \<Rightarrow> stored option \<Rightarrow> stored option" where
  "set_session v storage = map_option (\<lambda>s. s\<lparr>st_session := v\<rparr>) storage"

section \<open>State\<close>

record wallet_state =
  wl_connected :: bool
  wl_address :: "string option"
  wl_network :: "string option"
  wl_passphrase :: "string option"
  wl_mismatch :: bool
  wl_loading :: bool

definition disconnected :: wallet_state where
  "disconnected = \<lparr>wl_connected = False, wl_address = None, wl_network = None, wl_passphrase = None, wl_mismatch = False, wl_loading = False\<rparr>"

text \<open>What is left of a call: waiting for the acknowledgment (with its answer once there is one),
  for the wallet's picker, its network, its signature, or for a restored wallet; or over.\<close>

datatype task =
    ConnectGate "bool option"
  | ConnectPicker
  | ConnectNetwork string
  | SignGate string string "bool option"
  | SignNetwork string string
  | SignWallet string string
  | RestoreWallet
  | RestoreNetwork string
  | Finished "string + string option"

text \<open>Calls to the wallet (a signature with the network the wallet had reported) and decisions of the
  user.\<close>

datatype wallet_event = TermsAccepted | TermsDeclined | AskedPicker | AskedSignature string string string "string option"

record wallet_page =
  wp_state :: wallet_state
  wp_renders :: "wallet_state list"
  wp_gate_open :: bool
  wp_resolver :: "nat option"
  wp_tasks :: "nat \<Rightarrow> task option"
  wp_storage :: "stored option"
  wp_events :: "wallet_event list"

text \<open>\<open>setState\<close>: every state set is rendered, and its closures may be called later.\<close>

definition set_state :: "wallet_state \<Rightarrow> wallet_page \<Rightarrow> wallet_page" where
  "set_state s w = w\<lparr>wp_state := s, wp_renders := s # wp_renders w\<rparr>"

definition set_task :: "nat \<Rightarrow> task \<Rightarrow> wallet_page \<Rightarrow> wallet_page" where
  "set_task i t w = w\<lparr>wp_tasks := (wp_tasks w)(i \<mapsto> t)\<rparr>"

definition note_event :: "wallet_event \<Rightarrow> wallet_page \<Rightarrow> wallet_page" where
  "note_event e w = w\<lparr>wp_events := wp_events w @ [e]\<rparr>"

section \<open>The acknowledgment\<close>

text \<open>Resolving the promise of a waiting task.\<close>

fun gate_answer :: "bool \<Rightarrow> task \<Rightarrow> task" where
  "gate_answer b (ConnectGate None) = ConnectGate (Some b)"
| "gate_answer b (SignGate xdr addr None) = SignGate xdr addr (Some b)"
| "gate_answer b t = t"

definition resolve :: "bool \<Rightarrow> wallet_page \<Rightarrow> wallet_page" where
  "resolve b w =
    (case wp_resolver w of
       None \<Rightarrow> w
     | Some i \<Rightarrow> w\<lparr>wp_tasks := (wp_tasks w)(i := map_option (gate_answer b) (wp_tasks w i))\<rparr>)"

text \<open>\<open>ensureTermsAccepted\<close> for a new task \<open>i\<close>: \<open>gate\<close> is the task, given the
  answer it has already.\<close>

definition ensure_terms_accepted :: "nat \<Rightarrow> (bool option \<Rightarrow> task) \<Rightarrow> wallet_page \<Rightarrow> wallet_page" where
  "ensure_terms_accepted i gate w =
    (if has_accepted_terms (wp_storage w) then set_task i (gate (Some True)) w
     else (set_task i (gate None) (resolve False w))\<lparr>wp_resolver := Some i, wp_gate_open := True\<rparr>)"

definition decide_gate :: "bool \<Rightarrow> wallet_page \<Rightarrow> wallet_page" where
  "decide_gate accepted w =
    (let w1 = w\<lparr>wp_gate_open := False\<rparr>;
         w2 = (if accepted then w1\<lparr>wp_storage := record_terms_acceptance (wp_storage w1)\<rparr> else w1)
     in note_event (if accepted then TermsAccepted else TermsDeclined) ((resolve accepted w2)\<lparr>wp_resolver := None\<rparr>))"

section \<open>Connecting\<close>

definition network_name :: "string \<Rightarrow> string" where
  "network_name p = (if starts_with ''Public Global'' p then ''PUBLIC'' else ''TESTNET'')"

definition apply_connection :: "string \<Rightarrow> string option \<Rightarrow> wallet_page \<Rightarrow> wallet_page" where
  "apply_connection addr pass = set_state \<lparr>wl_connected = True, wl_address = Some addr,
     wl_network = (case pass of Some p \<Rightarrow> if p = [] then None else Some (network_name p) | None \<Rightarrow> None),
     wl_passphrase = pass, wl_mismatch = (case pass of Some p \<Rightarrow> p \<noteq> expected_passphrase | None \<Rightarrow> False), wl_loading = False\<rparr>"

definition connect_start :: "nat \<Rightarrow> wallet_page \<Rightarrow> wallet_page" where
  "connect_start i w = ensure_terms_accepted i ConnectGate w"

definition set_loading :: "bool \<Rightarrow> wallet_page \<Rightarrow> wallet_page" where
  "set_loading b w = set_state ((wp_state w)\<lparr>wl_loading := b\<rparr>) w"

definition connect_gated :: "nat \<Rightarrow> bool \<Rightarrow> wallet_page \<Rightarrow> wallet_page" where
  "connect_gated i ok w =
    (if \<not> ok then set_task i (Finished (Inr None)) w
     else note_event AskedPicker (set_task i ConnectPicker (set_loading True w)))"

text \<open>\<open>authModal\<close> answers an address, or rejects.\<close>

definition connect_picked :: "nat \<Rightarrow> string option \<Rightarrow> wallet_page \<Rightarrow> wallet_page" where
  "connect_picked i addr w =
    (case addr of
       Some a \<Rightarrow> if a = [] then set_loading False (set_task i (Finished (Inr None)) w) else set_task i (ConnectNetwork a) w
     | None \<Rightarrow> set_loading False (set_task i (Finished (Inr None)) w))"

text \<open>\<open>getNetwork\<close> answers a passphrase or rejects; \<open>wallet_id\<close> is the module chosen.\<close>

definition connect_done :: "nat \<Rightarrow> string \<Rightarrow> string option \<Rightarrow> string option \<Rightarrow> wallet_page \<Rightarrow> wallet_page" where
  "connect_done i addr pass wallet_id w =
    apply_connection addr pass
      (set_task i (Finished (Inr None)) (w\<lparr>wp_storage := set_session (Some (wallet_id, addr)) (wp_storage w)\<rparr>))"

definition disconnect :: "wallet_page \<Rightarrow> wallet_page" where
  "disconnect w = set_state disconnected (w\<lparr>wp_storage := set_session None (wp_storage w)\<rparr>)"

text \<open>The session of an earlier visit.\<close>

definition restore_start :: "nat \<Rightarrow> wallet_page \<Rightarrow> wallet_page" where
  "restore_start i w =
    (case wp_storage w of
       Some s \<Rightarrow>
         (case st_session s of
            Some (Some wallet_id, addr) \<Rightarrow> if wallet_id = [] \<or> addr = [] then w else set_task i RestoreWallet w
          | _ \<Rightarrow> w)
     | None \<Rightarrow> w)"

definition restore_fetched :: "nat \<Rightarrow> string option \<Rightarrow> wallet_page \<Rightarrow> wallet_page" where
  "restore_fetched i addr w =
    (case addr of
       Some a \<Rightarrow> if a = [] then set_task i (Finished (Inr None)) w else set_task i (RestoreNetwork a) w
     | None \<Rightarrow> set_task i (Finished (Inr None)) w)"

definition restore_done :: "nat \<Rightarrow> string \<Rightarrow> string option \<Rightarrow> wallet_page \<Rightarrow> wallet_page" where
  "restore_done i addr pass w = apply_connection addr pass (set_task i (Finished (Inr None)) w)"

section \<open>Signing\<close>

text \<open>The closure called is that of a rendered state \<open>s\<close>.\<close>

definition sign_start :: "nat \<Rightarrow> string \<Rightarrow> wallet_state \<Rightarrow> wallet_page \<Rightarrow> wallet_page" where
  "sign_start i xdr s w =
    (case wl_address s of
       Some a \<Rightarrow> if \<not> wl_connected s \<or> a = [] then set_task i (Finished (Inl ''Wallet not connected'')) w
                 else ensure_terms_accepted i (SignGate xdr a) w
     | None \<Rightarrow> set_task i (Finished (Inl ''Wallet not connected'')) w)"

definition sign_gated :: "nat \<Rightarrow> string \<Rightarrow> string \<Rightarrow> bool \<Rightarrow> wallet_page \<Rightarrow> wallet_page" where
  "sign_gated i xdr addr ok w =
    (if \<not> ok then set_task i (Finished (Inl ''You need to accept the Terms of Use before signing'')) w
     else set_task i (SignNetwork xdr addr) w)"

definition wrong_network :: string where
  "wrong_network = ''Wrong network: your wallet is on a different network than this app ('' @ [CHR 0x22] @ expected_passphrase @ [CHR 0x22]
     @ ''). Switch networks in your wallet and try again.''"

text \<open>\<open>getNetwork\<close> answers the wallet's network or rejects with a message.\<close>

definition network_refusal :: "string + string option \<Rightarrow> string option" where
  "network_refusal answer =
    (case answer of
       Inr (Some p) \<Rightarrow> if p \<noteq> [] \<and> p \<noteq> expected_passphrase then Some wrong_network else None
     | Inr None \<Rightarrow> None
     | Inl m \<Rightarrow> if contains_text ''Wrong network'' m then Some m else None)"

definition reported_network :: "string + string option \<Rightarrow> string option" where
  "reported_network answer = (case answer of Inr p \<Rightarrow> p | Inl _ \<Rightarrow> None)"

definition sign_network :: "nat \<Rightarrow> string \<Rightarrow> string \<Rightarrow> string + string option \<Rightarrow> wallet_page \<Rightarrow> wallet_page" where
  "sign_network i xdr addr answer w =
    (case network_refusal answer of
       Some m \<Rightarrow> set_task i (Finished (Inl m)) w
     | None \<Rightarrow> note_event (AskedSignature xdr expected_passphrase addr (reported_network answer)) (set_task i (SignWallet xdr addr) w))"

definition sign_answered :: "nat \<Rightarrow> string + string option \<Rightarrow> wallet_page \<Rightarrow> wallet_page" where
  "sign_answered i answer =
    set_task i (Finished
      (case answer of
         Inl m \<Rightarrow> Inl m
       | Inr (Some x) \<Rightarrow> if x = [] then Inl ''Signing failed or was rejected in the wallet'' else Inr (Some x)
       | Inr None \<Rightarrow> Inl ''Signing failed or was rejected in the wallet''))"

section \<open>Runs\<close>

datatype wallet_action =
    CallConnect nat
  | CallSign nat string nat
  | CallRestore nat
  | Decide bool
  | Resume nat
  | Picked nat "string option"
  | Fetched nat "string option"
  | Network nat "string + string option" "string option"
  | KitFailed nat string
  | Signed nat "string + string option"
  | ClickDisconnect

text \<open>An action that does not apply (a used id, a task waiting for something else) changes
  nothing.\<close>

definition resume :: "nat \<Rightarrow> wallet_page \<Rightarrow> wallet_page" where
  "resume i w =
    (case wp_tasks w i of
       Some (ConnectGate (Some b)) \<Rightarrow> connect_gated i b w
     | Some (SignGate xdr addr (Some b)) \<Rightarrow> sign_gated i xdr addr b w
     | _ \<Rightarrow> w)"

definition network_answer :: "nat \<Rightarrow> string + string option \<Rightarrow> string option \<Rightarrow> wallet_page \<Rightarrow> wallet_page" where
  "network_answer i answer wallet_id w =
    (case wp_tasks w i of
       Some (ConnectNetwork a) \<Rightarrow> connect_done i a (reported_network answer) wallet_id w
     | Some (SignNetwork xdr addr) \<Rightarrow> sign_network i xdr addr answer w
     | Some (RestoreNetwork a) \<Rightarrow> restore_done i a (reported_network answer) w
     | _ \<Rightarrow> w)"

definition idle :: "nat \<Rightarrow> wallet_page \<Rightarrow> bool" where
  "idle i w \<longleftrightarrow> wp_tasks w i = None"

fun wallet_exec :: "wallet_action \<Rightarrow> wallet_page \<Rightarrow> wallet_page" where
  "wallet_exec (CallConnect i) w = (if idle i w then connect_start i w else w)"
| "wallet_exec (CallSign i xdr k) w =
    (if idle i w \<and> k < length (wp_renders w) then sign_start i xdr (wp_renders w ! k) w else w)"
| "wallet_exec (CallRestore i) w = (if idle i w then restore_start i w else w)"
| "wallet_exec (Decide b) w = (if wp_gate_open w then decide_gate b w else w)"
| "wallet_exec (Resume i) w = resume i w"
| "wallet_exec (Picked i a) w = (if wp_tasks w i = Some ConnectPicker then connect_picked i a w else w)"
| "wallet_exec (Fetched i a) w = (if wp_tasks w i = Some RestoreWallet then restore_fetched i a w else w)"
| "wallet_exec (Network i answer wid) w = network_answer i answer wid w"
| "wallet_exec (KitFailed i m) w =
    (case wp_tasks w i of Some (SignNetwork _ _) \<Rightarrow> set_task i (Finished (Inl m)) w | _ \<Rightarrow> w)"
| "wallet_exec (Signed i answer) w =
    (case wp_tasks w i of Some (SignWallet _ _) \<Rightarrow> sign_answered i answer w | _ \<Rightarrow> w)"
| "wallet_exec ClickDisconnect w = disconnect w"

definition opened_page :: "stored option \<Rightarrow> wallet_page" where
  "opened_page storage = \<lparr>wp_state = disconnected, wp_renders = [disconnected], wp_gate_open = False, wp_resolver = None,
     wp_tasks = (\<lambda>_. None), wp_storage = storage, wp_events = []\<rparr>"

definition wallet_runs :: "wallet_action list \<Rightarrow> stored option \<Rightarrow> wallet_page" where
  "wallet_runs as storage = foldl (\<lambda>w a. wallet_exec a w) (opened_page storage) as"

section \<open>The waiters of the acknowledgment\<close>

fun waits :: "task \<Rightarrow> bool" where
  "waits (ConnectGate None) = True"
| "waits (SignGate xdr addr None) = True"
| "waits t = False"

definition waiting :: "nat \<Rightarrow> wallet_page \<Rightarrow> bool" where
  "waiting i w \<longleftrightarrow> (case wp_tasks w i of Some t \<Rightarrow> waits t | None \<Rightarrow> False)"

definition gate_inv :: "wallet_page \<Rightarrow> bool" where
  "gate_inv w \<longleftrightarrow> (wp_gate_open w \<longleftrightarrow> wp_resolver w \<noteq> None) \<and> (\<forall>i. waiting i w \<longleftrightarrow> wp_resolver w = Some i)"

lemma set_fields [simp]:
  "wp_gate_open (set_task i t w) = wp_gate_open w" "wp_resolver (set_task i t w) = wp_resolver w"
  "wp_gate_open (set_state s w) = wp_gate_open w" "wp_resolver (set_state s w) = wp_resolver w"
  "wp_gate_open (note_event e w) = wp_gate_open w" "wp_resolver (note_event e w) = wp_resolver w"
  "wp_tasks (set_task i t w) = (wp_tasks w)(i \<mapsto> t)" "wp_tasks (set_state s w) = wp_tasks w" "wp_tasks (note_event e w) = wp_tasks w"
  "wp_storage (set_task i t w) = wp_storage w" "wp_storage (set_state s w) = wp_storage w" "wp_storage (note_event e w) = wp_storage w"
  "wp_events (set_task i t w) = wp_events w" "wp_events (set_state s w) = wp_events w" "wp_events (note_event e w) = wp_events w @ [e]"
  "wp_renders (set_task i t w) = wp_renders w" "wp_renders (set_state s w) = s # wp_renders w" "wp_renders (note_event e w) = wp_renders w"
  "wp_state (set_task i t w) = wp_state w" "wp_state (set_state s w) = s" "wp_state (note_event e w) = wp_state w"
  by (simp_all add: set_task_def set_state_def note_event_def)

lemma resolve_fields [simp]:
  "wp_gate_open (resolve b w) = wp_gate_open w" "wp_resolver (resolve b w) = wp_resolver w" "wp_storage (resolve b w) = wp_storage w"
  "wp_events (resolve b w) = wp_events w" "wp_renders (resolve b w) = wp_renders w" "wp_state (resolve b w) = wp_state w"
  by (simp_all add: resolve_def split: option.split)

lemma gate_answer_not_waits [simp]: "\<not> waits (gate_answer b t)"
  by (cases "(b, t)" rule: gate_answer.cases) simp_all

lemma gate_inv_cong:
  assumes "gate_inv w" "wp_gate_open w' = wp_gate_open w" "wp_resolver w' = wp_resolver w"
    "\<And>j. waiting j w' \<longleftrightarrow> waiting j w"
  shows "gate_inv w'"
  using assms by (simp add: gate_inv_def)

lemma gate_inv_task:
  assumes "gate_inv w" "\<not> waiting i w" "\<not> waits t" "wp_tasks w' = (wp_tasks w)(i \<mapsto> t)"
    "wp_gate_open w' = wp_gate_open w" "wp_resolver w' = wp_resolver w"
  shows "gate_inv w'"
  using assms by (auto intro!: gate_inv_cong [OF assms(1)] simp: waiting_def split: if_split_asm)

lemma resolve_waiting:
  assumes "gate_inv w"
  shows "\<not> waiting j (resolve b w)"
proof (cases "wp_resolver w = Some j")
  case True
  then show ?thesis by (auto simp: waiting_def resolve_def split: option.split)
next
  case False
  then have "waiting j (resolve b w) \<longleftrightarrow> waiting j w" by (auto simp: waiting_def resolve_def split: option.split)
  with False assms show ?thesis by (simp add: gate_inv_def)
qed

lemma ensure_gate_inv:
  assumes "gate_inv w" "idle i w" "waits (gate None)" "\<not> waits (gate (Some True))"
  shows "gate_inv (ensure_terms_accepted i gate w)"
proof (cases "has_accepted_terms (wp_storage w)")
  case True
  with assms show ?thesis
    by (auto intro!: gate_inv_task [where i = i and w = w] simp: ensure_terms_accepted_def idle_def waiting_def)
next
  case False
  have "waiting j (ensure_terms_accepted i gate w) \<longleftrightarrow> j = i" for j
    using resolve_waiting [OF assms(1), of j False] assms(3) False
    by (simp add: ensure_terms_accepted_def waiting_def)
  with False show ?thesis by (auto simp: gate_inv_def ensure_terms_accepted_def)
qed

lemma decide_gate_inv: "gate_inv w \<Longrightarrow> gate_inv (decide_gate b w) \<and> (\<forall>i. \<not> waiting i (decide_gate b w))"
proof -
  assume inv: "gate_inv w"
  have "wp_tasks (decide_gate b w) = wp_tasks (resolve b w)"
    by (simp add: decide_gate_def Let_def resolve_def split: option.split)
  then have "\<not> waiting i (decide_gate b w)" for i
    using resolve_waiting [OF inv, of i b] by (simp add: waiting_def)
  moreover have "\<not> wp_gate_open (decide_gate b w)" "wp_resolver (decide_gate b w) = None"
    by (simp_all add: decide_gate_def Let_def)
  ultimately show ?thesis by (simp add: gate_inv_def)
qed

lemmas task_steps = connect_gated_def connect_picked_def connect_done_def apply_connection_def set_loading_def
  sign_gated_def sign_network_def sign_answered_def restore_start_def restore_fetched_def restore_done_def disconnect_def

lemma wallet_exec_gate_inv: "gate_inv w \<Longrightarrow> gate_inv (wallet_exec a w)"
proof (cases a)
  case (CallConnect i)
  then show "gate_inv w \<Longrightarrow> ?thesis" using ensure_gate_inv [of w i ConnectGate] by (simp add: connect_start_def)
next
  case (CallSign i xdr k)
  then show "gate_inv w \<Longrightarrow> ?thesis"
    using ensure_gate_inv [of w i "SignGate xdr addr" for addr]
    by (auto intro!: gate_inv_task [where i = i and w = w] simp: sign_start_def idle_def waiting_def split: option.split)
next
  case (Decide b)
  then show "gate_inv w \<Longrightarrow> ?thesis" using decide_gate_inv by simp
next
  case (CallRestore i)
  then show "gate_inv w \<Longrightarrow> ?thesis"
    by (auto intro!: gate_inv_task [where i = i and w = w] simp: task_steps idle_def waiting_def split: option.split)
next
  case (Resume i)
  then show "gate_inv w \<Longrightarrow> ?thesis"
    by (auto intro!: gate_inv_task [where i = i and w = w] simp: resume_def task_steps waiting_def split: option.split task.split)
next
  case (Network i answer wid)
  then show "gate_inv w \<Longrightarrow> ?thesis"
    by (auto intro!: gate_inv_task [where i = i and w = w] simp: network_answer_def task_steps waiting_def split: option.split task.split)
next
  case ClickDisconnect
  then show "gate_inv w \<Longrightarrow> ?thesis" by (auto intro: gate_inv_cong simp: task_steps waiting_def)
qed (auto intro!: gate_inv_task [where w = w] simp: task_steps waiting_def split: option.split task.split)

lemma opened_gate_inv: "gate_inv (opened_page storage)"
  by (simp add: gate_inv_def opened_page_def waiting_def)

lemma wallet_runs_gate_inv: "gate_inv (wallet_runs as storage)"
  unfolding wallet_runs_def by (rule foldl_keeps) (auto intro: wallet_exec_gate_inv opened_gate_inv)

text \<open>
  At every moment at most one call waits for the acknowledgment, and exactly while the dialog is
  open; whatever the user then decides answers it, so no call is left waiting for a dialog that is
  closed, nor does the dialog stay open without a call.
\<close>

theorem gate_forgets_no_waiter:
  "(wp_gate_open (wallet_runs as storage) \<longleftrightarrow> {i. waiting i (wallet_runs as storage)} \<noteq> {}) \<and>
    (\<exists>k. {i. waiting i (wallet_runs as storage)} \<subseteq> {k}) \<and>
    {i. waiting i (wallet_exec (Decide b) (wallet_runs as storage))} = {}"
proof -
  have inv: "gate_inv (wallet_runs as storage)" by (rule wallet_runs_gate_inv)
  have "\<not> waiting i (wallet_exec (Decide b) (wallet_runs as storage))" for i
    using inv decide_gate_inv [OF inv, of b] by (auto simp: gate_inv_def)
  with inv show ?thesis by (auto simp: gate_inv_def)
qed

section \<open>What is asked of the wallet\<close>

definition terms_ok :: "stored option \<Rightarrow> wallet_page \<Rightarrow> bool" where
  "terms_ok storage w \<longleftrightarrow> has_accepted_terms storage \<or> TermsAccepted \<in> set (wp_events w)"

definition was_connected :: "string \<Rightarrow> wallet_page \<Rightarrow> bool" where
  "was_connected addr w \<longleftrightarrow> (\<exists>s\<in>set (wp_renders w). wl_connected s \<and> wl_address s = Some addr)"

fun task_ok :: "stored option \<Rightarrow> wallet_page \<Rightarrow> task \<Rightarrow> bool" where
  "task_ok st w (ConnectGate (Some True)) = terms_ok st w"
| "task_ok st w (SignGate xdr addr b) = (was_connected addr w \<and> (b = Some True \<longrightarrow> terms_ok st w))"
| "task_ok st w (SignNetwork xdr addr) = (was_connected addr w \<and> terms_ok st w)"
| "task_ok st w t = True"

text \<open>An event, after those of \<open>es\<close>, in a page whose renders are those of \<open>w\<close>.\<close>

fun event_ok :: "stored option \<Rightarrow> wallet_page \<Rightarrow> wallet_event list \<Rightarrow> wallet_event \<Rightarrow> bool" where
  "event_ok st w es (AskedSignature xdr pass addr seen) =
    (pass = expected_passphrase \<and> seen \<in> {None, Some [], Some expected_passphrase} \<and> was_connected addr w \<and>
     (has_accepted_terms st \<or> TermsAccepted \<in> set es))"
| "event_ok st w es AskedPicker = (has_accepted_terms st \<or> TermsAccepted \<in> set es)"
| "event_ok st w es e = True"

definition trace_inv :: "stored option \<Rightarrow> wallet_page \<Rightarrow> bool" where
  "trace_inv st w \<longleftrightarrow> (has_accepted_terms (wp_storage w) \<longrightarrow> terms_ok st w) \<and>
    (\<forall>i t. wp_tasks w i = Some t \<longrightarrow> task_ok st w t) \<and>
    (\<forall>es e rest. wp_events w = es @ e # rest \<longrightarrow> event_ok st w es e)"

text \<open>Nothing that holds is lost when renders and events are only added.\<close>

definition grows :: "wallet_page \<Rightarrow> wallet_page \<Rightarrow> bool" where
  "grows w w' \<longleftrightarrow> set (wp_renders w) \<subseteq> set (wp_renders w') \<and> set (wp_events w) \<subseteq> set (wp_events w')"

lemma task_ok_grows: "task_ok st w t \<Longrightarrow> grows w w' \<Longrightarrow> task_ok st w' t"
  by (induction st w t rule: task_ok.induct) (auto simp: terms_ok_def was_connected_def grows_def)

lemma event_ok_grows: "event_ok st w es e \<Longrightarrow> grows w w' \<Longrightarrow> event_ok st w' es e"
  by (cases e) (auto simp: was_connected_def grows_def)

lemma trace_inv_step:
  assumes inv: "trace_inv st w" and g: "grows w w'"
    and storage: "has_accepted_terms (wp_storage w') \<Longrightarrow> terms_ok st w'"
    and tasks: "\<And>i t. wp_tasks w' i = Some t \<Longrightarrow> wp_tasks w i = Some t \<or> task_ok st w' t"
    and events: "wp_events w' = wp_events w \<or> (\<exists>e. wp_events w' = wp_events w @ [e] \<and> event_ok st w' (wp_events w) e)"
  shows "trace_inv st w'"
  unfolding trace_inv_def
proof (intro conjI allI impI)
  show "terms_ok st w'" if "has_accepted_terms (wp_storage w')" using storage that .
  show "task_ok st w' t" if "wp_tasks w' i = Some t" for i t
    using tasks [OF that] inv task_ok_grows [OF _ g] by (auto simp: trace_inv_def)
  show "event_ok st w' es e" if split: "wp_events w' = es @ e # rest" for es e rest
  proof (cases "\<exists>rest'. wp_events w = es @ e # rest'")
    case True
    then show ?thesis using inv event_ok_grows [OF _ g] by (auto simp: trace_inv_def)
  next
    case False
    with split events obtain e' where "es @ e # rest = wp_events w @ [e']" "event_ok st w' (wp_events w) e'" by metis
    from this(1) have "rest = [] \<or> wp_events w = es @ e # butlast rest" by (cases rest rule: rev_cases) simp_all
    with False \<open>es @ e # rest = _\<close> \<open>event_ok st w' (wp_events w) e'\<close> show ?thesis by auto
  qed
qed

lemma growth [simp]: "grows w (set_task i t w)" "grows w (set_state s w)" "grows w (note_event e w)" "grows w w"
  by (auto simp: grows_def)

lemma grows_fields: "wp_renders w' = wp_renders w \<Longrightarrow> wp_events w' = wp_events w \<Longrightarrow> grows w w'"
  by (simp add: grows_def)

lemma gate_answer_ok: "task_ok st w t \<Longrightarrow> (b \<Longrightarrow> terms_ok st w) \<Longrightarrow> task_ok st w (gate_answer b t)"
  by (cases "(b, t)" rule: gate_answer.cases) (cases b; auto)+

lemma resolve_tasks: "wp_tasks (resolve b w) i = Some t \<Longrightarrow> wp_tasks w i = Some t \<or> (\<exists>t'. wp_tasks w i = Some t' \<and> t = gate_answer b t')"
  by (auto simp: resolve_def split: option.splits if_split_asm)

lemma ensure_trace_inv:
  assumes inv: "trace_inv st w" and "task_ok st w (gate None)"
    and "terms_ok st w \<Longrightarrow> task_ok st w (gate (Some True))"
  shows "trace_inv st (ensure_terms_accepted i gate w)"
proof (rule trace_inv_step [OF inv])
  let ?w = "ensure_terms_accepted i gate w"
  have fields: "wp_renders ?w = wp_renders w" "wp_events ?w = wp_events w" "wp_storage ?w = wp_storage w"
    by (simp_all add: ensure_terms_accepted_def)
  then show g: "grows w ?w" by (simp add: grows_fields)
  show "wp_events ?w = wp_events w \<or> (\<exists>e. wp_events ?w = wp_events w @ [e] \<and> event_ok st ?w (wp_events w) e)"
    by (simp add: fields)
  show "terms_ok st ?w" if "has_accepted_terms (wp_storage ?w)"
    using that inv fields by (auto simp: trace_inv_def terms_ok_def)
  show "wp_tasks w j = Some t \<or> task_ok st ?w t" if j: "wp_tasks ?w j = Some t" for j t
  proof (cases "has_accepted_terms (wp_storage w)")
    case True
    with inv have "terms_ok st w" by (simp add: trace_inv_def)
    with j True assms(3) task_ok_grows [OF _ g] show ?thesis
      by (auto simp: ensure_terms_accepted_def split: if_split_asm)
  next
    case False
    with j have "t = gate None \<and> i = j \<or> wp_tasks (resolve False w) j = Some t"
      by (auto simp: ensure_terms_accepted_def split: if_split_asm)
    then show ?thesis
    proof
      assume "wp_tasks (resolve False w) j = Some t"
      from resolve_tasks [OF this] inv gate_answer_ok [of st w _ False] show ?thesis
        by (auto simp: trace_inv_def intro: task_ok_grows [OF _ g])
    qed (use task_ok_grows [OF assms(2) g] in auto)
  qed
qed

lemma decide_trace_inv:
  assumes inv: "trace_inv st w"
  shows "trace_inv st (decide_gate b w)"
proof (rule trace_inv_step [OF inv])
  let ?w = "decide_gate b w"
  have fields: "wp_renders ?w = wp_renders w" "wp_events ?w = wp_events w @ [if b then TermsAccepted else TermsDeclined]"
    by (simp_all add: decide_gate_def Let_def)
  then show g: "grows w ?w" by (auto simp: grows_def)
  have yes: "terms_ok st ?w" if b using that fields by (simp add: terms_ok_def)
  have "wp_storage ?w = wp_storage w" if "\<not> b" using that by (simp add: decide_gate_def Let_def)
  with yes inv show "terms_ok st ?w" if "has_accepted_terms (wp_storage ?w)"
    using that fields by (cases b) (auto simp: trace_inv_def terms_ok_def)
  show "wp_events ?w = wp_events w \<or> (\<exists>e. wp_events ?w = wp_events w @ [e] \<and> event_ok st ?w (wp_events w) e)"
    by (simp add: fields)
  show "wp_tasks w j = Some t \<or> task_ok st ?w t" if j: "wp_tasks ?w j = Some t" for j t
  proof -
    have "wp_tasks ?w = wp_tasks (resolve b w)" by (simp add: decide_gate_def Let_def resolve_def split: option.split)
    with j have "wp_tasks (resolve b w) j = Some t" by simp
    from resolve_tasks [OF this] show ?thesis
    proof
      assume "\<exists>t'. wp_tasks w j = Some t' \<and> t = gate_answer b t'"
      then obtain t' where "wp_tasks w j = Some t'" "t = gate_answer b t'" by blast
      with inv g have "task_ok st ?w t'" by (auto simp: trace_inv_def intro: task_ok_grows)
      with yes \<open>t = _\<close> show ?thesis by (auto intro: gate_answer_ok)
    qed simp
  qed
qed

lemma trace_inv_task:
  assumes inv: "trace_inv st w" and "wp_tasks w' = (wp_tasks w)(i \<mapsto> t)" and g: "grows w w'" and "task_ok st w' t"
    and "has_accepted_terms (wp_storage w') \<Longrightarrow> has_accepted_terms (wp_storage w)"
    and "wp_events w' = wp_events w \<or> (\<exists>e. wp_events w' = wp_events w @ [e] \<and> event_ok st w' (wp_events w) e)"
  shows "trace_inv st w'"
proof (rule trace_inv_step [OF inv g _ _ assms(6)])
  show "terms_ok st w'" if "has_accepted_terms (wp_storage w')"
    using assms(5) [OF that] inv g by (auto simp: trace_inv_def terms_ok_def grows_def)
qed (use assms(2,4) in \<open>auto split: if_split_asm\<close>)

lemma set_session_accepted [simp]: "has_accepted_terms (set_session v storage) = has_accepted_terms storage"
  by (cases storage) (simp_all add: set_session_def has_accepted_terms_def)

lemma network_refusal_seen:
  "network_refusal answer = None \<Longrightarrow> reported_network answer \<in> {None, Some [], Some expected_passphrase}"
  by (auto simp: network_refusal_def reported_network_def split: sum.splits option.splits if_split_asm)

lemma wallet_exec_trace_inv:
  assumes inv: "trace_inv st w"
  shows "trace_inv st (wallet_exec a w)"
proof -
  have held: "task_ok st w t" if "wp_tasks w i = Some t" for i t using inv that by (auto simp: trace_inv_def)
  have mono: "terms_ok st w'" "was_connected x w \<Longrightarrow> was_connected x w'"
    if "terms_ok st w" "grows w w'" for w' x
    using that by (auto simp: terms_ok_def was_connected_def grows_def)
  show ?thesis
  proof (cases a)
    case (CallConnect i)
    then show ?thesis using ensure_trace_inv [OF inv, of ConnectGate i] inv by (simp add: connect_start_def)
  next
    case (CallSign i xdr k)
    have "trace_inv st (sign_start i xdr s w)" if "s \<in> set (wp_renders w)" for s
    proof (cases "wl_connected s \<and> wl_address s \<noteq> None \<and> wl_address s \<noteq> Some []")
      case True
      then obtain addr where "wl_connected s" "wl_address s = Some addr" "addr \<noteq> []" by auto
      with that ensure_trace_inv [OF inv, of "SignGate xdr addr" i] show ?thesis
        by (auto simp: sign_start_def was_connected_def)
    next
      case False
      then show ?thesis
        by (auto intro!: trace_inv_task [OF inv, where i = i] simp: sign_start_def split: option.split)
    qed
    with CallSign inv show ?thesis by simp
  next
    case (Decide b)
    then show ?thesis using decide_trace_inv [OF inv] inv by simp
  next
    case (CallRestore i)
    then show ?thesis using inv
      by (auto intro!: trace_inv_task [OF inv, where i = i] simp: task_steps split: option.split)
  next
    case (Resume i)
    have "trace_inv st (connect_gated i b w)" if "wp_tasks w i = Some (ConnectGate (Some b))" for b
      using held [OF that]
      by (cases b) (auto intro!: trace_inv_task [OF inv, where i = i] simp: task_steps grows_def terms_ok_def)
    moreover have "trace_inv st (sign_gated i xdr addr b w)" if "wp_tasks w i = Some (SignGate xdr addr (Some b))" for xdr addr b
      using held [OF that]
      by (auto intro!: trace_inv_task [OF inv, where i = i] simp: task_steps terms_ok_def was_connected_def)
    ultimately show ?thesis using Resume inv by (auto simp: resume_def split: option.split task.split)
  next
    case (Network i answer wid)
    have "trace_inv st (sign_network i xdr addr answer w)" if "wp_tasks w i = Some (SignNetwork xdr addr)" for xdr addr
      using held [OF that] network_refusal_seen [of answer]
      by (auto intro!: trace_inv_task [OF inv, where i = i] simp: task_steps terms_ok_def was_connected_def grows_def split: option.split)
    moreover have "trace_inv st (connect_done i x p wid w)" "trace_inv st (restore_done i x p w)" for x p
      by (auto intro!: trace_inv_task [OF inv, where i = i] simp: task_steps grows_def)
    ultimately show ?thesis using Network inv by (auto simp: network_answer_def split: option.split task.split)
  next
    case ClickDisconnect
    have "trace_inv st (disconnect w)"
    proof (rule trace_inv_step [OF inv])
      show "terms_ok st (disconnect w)" if "has_accepted_terms (wp_storage (disconnect w))"
        using inv that by (simp add: trace_inv_def task_steps terms_ok_def)
    qed (simp_all add: task_steps grows_def subset_insertI)
    with ClickDisconnect show ?thesis by simp
  qed (use inv in \<open>auto intro!: trace_inv_task [OF inv] simp: task_steps grows_def split: option.split task.split\<close>)
qed

lemma opened_trace_inv: "trace_inv storage (opened_page storage)"
  by (simp add: trace_inv_def opened_page_def terms_ok_def)

lemma wallet_runs_trace_inv: "trace_inv storage (wallet_runs as storage)"
  unfolding wallet_runs_def by (rule foldl_keeps) (rule opened_trace_inv, rule wallet_exec_trace_inv)

text \<open>
  C14. The wallet is asked to sign only for an address it had been connected with in this visit, for
  the network the page was built for, when it reports no other network, and after the current terms
  were accepted, now or in an earlier visit.
\<close>

theorem signature_gated:
  assumes "wp_events (wallet_runs as storage) = es @ AskedSignature xdr pass addr seen # rest"
  shows "pass = expected_passphrase \<and> seen \<in> {None, Some [], Some expected_passphrase} \<and>
    was_connected addr (wallet_runs as storage) \<and> (has_accepted_terms storage \<or> TermsAccepted \<in> set es)"
proof -
  from wallet_runs_trace_inv [of storage as] assms
  have "event_ok storage (wallet_runs as storage) es (AskedSignature xdr pass addr seen)"
    unfolding trace_inv_def by blast
  then show ?thesis by simp
qed

section \<open>Disconnecting\<close>

definition two_leg_run :: "string \<Rightarrow> string \<Rightarrow> string \<Rightarrow> wallet_action list" where
  "two_leg_run addr leg1 leg2 =
    [CallRestore 0, Fetched 0 (Some addr), Network 0 (Inr (Some expected_passphrase)) None,
     CallSign 1 leg1 0, Resume 1, Network 1 (Inr (Some expected_passphrase)) None, Signed 1 (Inr (Some leg1)),
     ClickDisconnect,
     CallSign 2 leg2 1, Resume 2, Network 2 (Inr (Some expected_passphrase)) None]"

text \<open>
  A caller that holds the callback of an earlier moment, as the page does while it signs the
  parts of a swap one after the other, is not stopped by disconnecting: the wallet is asked to sign
  for the address that was disconnected.
\<close>

theorem disconnect_keeps_signing:
  assumes "addr \<noteq> []" "wid \<noteq> []"
    and "storage = Some \<lparr>st_ack = Some terms_version, st_session = Some (Some wid, addr)\<rparr>"
  shows "wp_state (wallet_runs (two_leg_run addr leg1 leg2) storage) = disconnected \<and>
    wp_events (wallet_runs (two_leg_run addr leg1 leg2) storage) =
      [AskedSignature leg1 expected_passphrase addr (Some expected_passphrase),
       AskedSignature leg2 expected_passphrase addr (Some expected_passphrase)]"
  using assms by (simp add: two_leg_run_def wallet_runs_def opened_page_def task_steps idle_def resume_def network_answer_def sign_start_def ensure_terms_accepted_def has_accepted_terms_def set_session_def network_refusal_def reported_network_def)

theorem disconnect_keeps_signing_witness:
  "wp_state (wallet_runs (two_leg_run ''GABC'' ''AAAA'' ''BBBB'') (Some \<lparr>st_ack = Some terms_version, st_session = Some (Some ''freighter'', ''GABC'')\<rparr>))
    = disconnected"
  using disconnect_keeps_signing [of "''GABC''" "''freighter''" "Some \<lparr>st_ack = Some terms_version, st_session = Some (Some ''freighter'', ''GABC'')\<rparr>" "''AAAA''" "''BBBB''"]
  by simp

text \<open>A first visit: the dialog is answered, the wallet picked, and a transaction signed.\<close>

definition first_visit :: "wallet_action list" where
  "first_visit = [CallConnect 0, Decide True, Resume 0, Picked 0 (Some ''GABC''), Network 0 (Inl ''unsupported'') (Some ''xbull''),
     CallSign 1 ''AAAA'' 0, Resume 1, Network 1 (Inr None) None]"

lemma first_visit_events:
  "wp_events (wallet_runs first_visit (Some \<lparr>st_ack = None, st_session = None\<rparr>)) =
    [TermsAccepted, AskedPicker] @ AskedSignature ''AAAA'' expected_passphrase ''GABC'' None # []"
  by (simp add: first_visit_def wallet_runs_def opened_page_def task_steps idle_def resume_def network_answer_def sign_start_def connect_start_def
      ensure_terms_accepted_def has_accepted_terms_def record_terms_acceptance_def set_session_def network_refusal_def reported_network_def decide_gate_def resolve_def terms_version_def)

theorem signature_gated_witness:
  "was_connected ''GABC'' (wallet_runs first_visit (Some \<lparr>st_ack = None, st_session = None\<rparr>))"
  using signature_gated [OF first_visit_events] by simp

end
