(* ===== verification/QuotePanel.thy ===== *)
theory QuotePanel
  imports TokenSearch
begin

text \<open>
  How the swap page quotes while the user types: \<open>fetchQuoteDebounced\<close> of
  \<open>frontend/src/components/SwapWidget.tsx\<close> and the effect that calls it. A timer waits for
  the typing to pause; then two requests are sent, a fast one and the full search, whose answers
  arrive in any order and are numbered. A run is any sequence of the pieces.

  Theorems: what is published only improves (a later request, or the full answer after the fast one),
  the page shows nothing else, and it searches exactly while the newest full answer is awaited; but an
  answer for what is no longer typed is still shown.
\<close>

section \<open>Lookups in the token list\<close>

definition find_token :: "page_token list \<Rightarrow> string \<Rightarrow> page_token option" where
  "find_token ts s = find (\<lambda>t. pt_symbol t = s) ts"

definition decimals_of :: "page_token list \<Rightarrow> string \<Rightarrow> int" where
  "decimals_of ts s = (case find_token ts s of Some t \<Rightarrow> pt_decimals t | None \<Rightarrow> 7)"

definition token_param :: "page_token list \<Rightarrow> string \<Rightarrow> string" where
  "token_param ts s =
    (case find_token ts s of Some t \<Rightarrow> (case pt_sac t of Some c \<Rightarrow> if c = [] then s else c | None \<Rightarrow> s) | None \<Rightarrow> s)"

section \<open>State\<close>

datatype page_mode = Instant | P2P | Twap

record quote_input =
  qi_amount :: string
  qi_in :: string
  qi_out :: string

text \<open>The two requests sent by one firing of the timer: what is asked, which answers are awaited,
  and whether the full answer came.\<close>

record flight =
  fl_seq :: nat
  fl_ask :: "string \<times> string \<times> string"
  fl_input :: quote_input
  fl_decimals :: "int \<times> int"
  fl_fast :: bool
  fl_full :: bool
  fl_got :: bool

text \<open>What is published: the answer with the labels that ride along.\<close>

record 'q shown_quote =
  sq_seq :: nat
  sq_full :: bool
  sq_data :: 'q
  sq_input :: quote_input
  sq_decimals :: "int \<times> int"

record 'q quote_panel =
  qp_seq :: nat
  qp_timer :: "(page_token list \<times> quote_input) option"
  qp_flights :: "flight list"
  qp_quote :: "'q shown_quote option"
  qp_routed :: "'q shown_quote list"
  qp_loading :: bool
  qp_searching :: bool
  qp_note :: string

definition panel_init :: "'q quote_panel" where
  "panel_init = \<lparr>qp_seq = 0, qp_timer = None, qp_flights = [], qp_quote = None, qp_routed = [], qp_loading = False, qp_searching = False, qp_note = ''''\<rparr>"

section \<open>The pieces\<close>

definition no_amount :: "string \<Rightarrow> bool" where
  "no_amount amount = (amount = [] \<or> num_le (parse_float amount) (Fin 0))"

definition fetch_quote_debounced :: "page_token list \<Rightarrow> quote_input \<Rightarrow> 'q quote_panel \<Rightarrow> 'q quote_panel" where
  "fetch_quote_debounced ts q p =
    (let p1 = p\<lparr>qp_timer := None\<rparr>
     in if no_amount (qi_amount q) then p1\<lparr>qp_quote := None\<rparr> else p1\<lparr>qp_timer := Some (ts, q)\<rparr>)"

text \<open>The effect on a change of the inputs: its clean-up clears the timer, then the new inputs are
  quoted unless the page is in the RFQ tab.\<close>

definition inputs_changed :: "page_token list \<Rightarrow> page_mode \<Rightarrow> quote_input \<Rightarrow> 'q quote_panel \<Rightarrow> 'q quote_panel" where
  "inputs_changed ts md q p =
    (let p1 = p\<lparr>qp_timer := None\<rparr> in if md = P2P then p1 else fetch_quote_debounced ts q p1)"

definition publish :: "flight \<Rightarrow> bool \<Rightarrow> 'q \<Rightarrow> 'q quote_panel \<Rightarrow> 'q quote_panel" where
  "publish f full d p =
    (let s = \<lparr>sq_seq = fl_seq f, sq_full = full, sq_data = d, sq_input = fl_input f, sq_decimals = fl_decimals f\<rparr>
     in p\<lparr>qp_quote := Some s, qp_routed := s # qp_routed p\<rparr>)"

definition settle :: "nat \<Rightarrow> 'q quote_panel \<Rightarrow> 'q quote_panel" where
  "settle n p = (if n = qp_seq p then p\<lparr>qp_loading := False, qp_searching := False\<rparr> else p)"

definition no_route_note :: "string \<Rightarrow> string" where
  "no_route_note m =
    (if contains_text ''No route'' m then ''No route - no venue has enough liquidity for this pair at this size.''
     else ''Quote unavailable - try again in a moment.'')"

definition quote_failed :: "nat \<Rightarrow> string \<Rightarrow> 'q quote_panel \<Rightarrow> 'q quote_panel" where
  "quote_failed n m p = settle n (if n = qp_seq p then p\<lparr>qp_quote := None, qp_note := no_route_note m\<rparr> else p)"

text \<open>The timer fires. An amount that cannot be converted fails before anything is sent.\<close>

definition timer_fires :: "'q quote_panel \<Rightarrow> 'q quote_panel" where
  "timer_fires p =
    (case qp_timer p of
       None \<Rightarrow> p
     | Some (ts, q) \<Rightarrow>
         (let n = Suc (qp_seq p);
              p1 = p\<lparr>qp_timer := None, qp_seq := n, qp_loading := True, qp_searching := True, qp_note := ''''\<rparr>
          in case to_base_units (qi_amount q) (decimals_of ts (qi_in q)) of
               Inl _ \<Rightarrow> quote_failed n ''Invalid count value'' p1
             | Inr base \<Rightarrow>
                 p1\<lparr>qp_flights := \<lparr>fl_seq = n, fl_ask = (token_param ts (qi_in q), token_param ts (qi_out q), base), fl_input = q,
                      fl_decimals = (decimals_of ts (qi_in q), decimals_of ts (qi_out q)), fl_fast = True, fl_full = True, fl_got = False\<rparr>
                      # qp_flights p1\<rparr>))"

definition set_flight :: "nat \<Rightarrow> (flight \<Rightarrow> flight) \<Rightarrow> 'q quote_panel \<Rightarrow> 'q quote_panel" where
  "set_flight n g p = p\<lparr>qp_flights := map (\<lambda>f. if fl_seq f = n then g f else f) (qp_flights p)\<rparr>"

definition fast_answer :: "flight \<Rightarrow> string + 'q \<Rightarrow> 'q quote_panel \<Rightarrow> 'q quote_panel" where
  "fast_answer f answer p =
    (let p1 = set_flight (fl_seq f) (\<lambda>f. f\<lparr>fl_fast := False\<rparr>) p
     in case answer of
          Inl _ \<Rightarrow> p1
        | Inr d \<Rightarrow> if fl_seq f = qp_seq p \<and> \<not> fl_got f then publish f False d p1 else p1)"

definition full_answer :: "flight \<Rightarrow> string + 'q \<Rightarrow> 'q quote_panel \<Rightarrow> 'q quote_panel" where
  "full_answer f answer p =
    (case answer of
       Inl m \<Rightarrow> quote_failed (fl_seq f) m (set_flight (fl_seq f) (\<lambda>f. f\<lparr>fl_full := False\<rparr>) p)
     | Inr d \<Rightarrow>
         let p1 = set_flight (fl_seq f) (\<lambda>f. f\<lparr>fl_full := False, fl_got := True\<rparr>) p
         in settle (fl_seq f) (if fl_seq f = qp_seq p then publish f True d p1 else p1))"

section \<open>Runs\<close>

datatype 'q panel_event =
    Inputs "page_token list" page_mode quote_input
  | TimerFires
  | FastAnswer nat "string + 'q"
  | FullAnswer nat "string + 'q"
  | QuoteCleared

fun panel_exec :: "'q panel_event \<Rightarrow> 'q quote_panel \<Rightarrow> 'q quote_panel" where
  "panel_exec (Inputs ts md q) p = inputs_changed ts md q p"
| "panel_exec TimerFires p = timer_fires p"
| "panel_exec (FastAnswer n answer) p =
    (case find (\<lambda>f. fl_seq f = n \<and> fl_fast f) (qp_flights p) of Some f \<Rightarrow> fast_answer f answer p | None \<Rightarrow> p)"
| "panel_exec (FullAnswer n answer) p =
    (case find (\<lambda>f. fl_seq f = n \<and> fl_full f) (qp_flights p) of Some f \<Rightarrow> full_answer f answer p | None \<Rightarrow> p)"
| "panel_exec QuoteCleared p = p\<lparr>qp_quote := None\<rparr>"

definition panel_runs :: "'q panel_event list \<Rightarrow> 'q quote_panel" where
  "panel_runs es = foldl (\<lambda>p e. panel_exec e p) panel_init es"

section \<open>What is published improves\<close>

definition rank_of :: "'q shown_quote \<Rightarrow> nat" where
  "rank_of s = 2 * sq_seq s + (if sq_full s then 1 else 0)"

text \<open>A flight of the newest request may still publish only above what it published.\<close>

definition flight_ok :: "'q quote_panel \<Rightarrow> flight \<Rightarrow> bool" where
  "flight_ok p f \<longleftrightarrow> fl_seq f \<le> qp_seq p \<and>
    (fl_seq f = qp_seq p \<longrightarrow>
      (fl_fast f \<and> \<not> fl_got f \<longrightarrow> (\<forall>s\<in>set (qp_routed p). rank_of s < 2 * qp_seq p)) \<and>
      (fl_full f \<longrightarrow> (\<forall>s\<in>set (qp_routed p). rank_of s < 2 * qp_seq p + 1) \<and> \<not> fl_got f))"

definition awaited :: "'q quote_panel \<Rightarrow> bool" where
  "awaited p \<longleftrightarrow> (\<exists>f\<in>set (qp_flights p). fl_seq f = qp_seq p \<and> fl_full f)"

definition panel_inv :: "'q quote_panel \<Rightarrow> bool" where
  "panel_inv p \<longleftrightarrow>
    sorted_wrt (\<lambda>a b. rank_of b < rank_of a) (qp_routed p) \<and>
    (\<forall>s\<in>set (qp_routed p). sq_seq s \<le> qp_seq p) \<and>
    (qp_quote p = None \<or> (\<exists>rest. qp_routed p = the (qp_quote p) # rest)) \<and>
    distinct (map fl_seq (qp_flights p)) \<and> (\<forall>f\<in>set (qp_flights p). flight_ok p f) \<and>
    qp_loading p = awaited p \<and> qp_searching p = awaited p"

lemma panel_inv_cong:
  assumes "panel_inv p" "qp_seq p' = qp_seq p" "qp_flights p' = qp_flights p" "qp_routed p' = qp_routed p"
    "qp_loading p' = qp_loading p" "qp_searching p' = qp_searching p" "qp_quote p' = qp_quote p \<or> qp_quote p' = None"
  shows "panel_inv p'"
  using assms by (auto simp: panel_inv_def flight_ok_def awaited_def)

lemma inputs_inv: "panel_inv p \<Longrightarrow> panel_inv (inputs_changed ts md q p)"
  by (erule panel_inv_cong) (simp_all add: inputs_changed_def fetch_quote_debounced_def Let_def)

lemma routed_below:
  assumes "panel_inv p" "s \<in> set (qp_routed p)"
  shows "rank_of s < 2 * Suc (qp_seq p)"
proof -
  from assms have "sq_seq s \<le> qp_seq p" by (auto simp: panel_inv_def)
  then show ?thesis by (simp add: rank_of_def)
qed

lemma timer_inv:
  assumes inv: "panel_inv p"
  shows "panel_inv (timer_fires p)"
proof (cases "qp_timer p")
  case (Some tq)
  obtain ts q where tq: "tq = (ts, q)" by force
  have old: "fl_seq f \<le> qp_seq p" if "f \<in> set (qp_flights p)" for f
    using inv that by (auto simp: panel_inv_def flight_ok_def)
  then have fresh: "fl_seq f \<noteq> Suc (qp_seq p)" if "f \<in> set (qp_flights p)" for f using that by force
  have below: "rank_of s < Suc (Suc (2 * qp_seq p))" "rank_of s < Suc (Suc (Suc (2 * qp_seq p)))" if "s \<in> set (qp_routed p)" for s
    using routed_below [OF inv that] by simp_all
  have parts: "sorted_wrt (\<lambda>a b. rank_of b < rank_of a) (qp_routed p)" "distinct (map fl_seq (qp_flights p))"
    "\<forall>s\<in>set (qp_routed p). sq_seq s \<le> qp_seq p" "qp_quote p = None \<or> (\<exists>rest. qp_routed p = the (qp_quote p) # rest)"
    using inv by (auto simp: panel_inv_def)
  show ?thesis
  proof (cases "to_base_units (qi_amount q) (decimals_of ts (qi_in q))")
    case (Inl e)
    have "panel_inv (timer_fires p)"
      using parts unfolding panel_inv_def awaited_def flight_ok_def
      by (auto dest: fresh old simp: timer_fires_def Some tq Inl Let_def quote_failed_def settle_def le_SucI)
    then show ?thesis .
  next
    case (Inr base)
    show ?thesis
      using parts unfolding panel_inv_def awaited_def flight_ok_def
      by (auto dest: fresh old intro: below simp: timer_fires_def Some tq Inr Let_def le_SucI)
  qed
qed (use inv in \<open>simp add: timer_fires_def\<close>)

lemma set_flight_simps [simp]:
  "qp_seq (set_flight n g p) = qp_seq p" "qp_routed (set_flight n g p) = qp_routed p" "qp_quote (set_flight n g p) = qp_quote p"
  "qp_loading (set_flight n g p) = qp_loading p" "qp_searching (set_flight n g p) = qp_searching p"
  "qp_flights (set_flight n g p) = map (\<lambda>f. if fl_seq f = n then g f else f) (qp_flights p)"
  by (simp_all add: set_flight_def)

lemma same_flight:
  assumes "panel_inv p" "f \<in> set (qp_flights p)" "f' \<in> set (qp_flights p)" "fl_seq f' = fl_seq f"
  shows "f' = f"
  using assms by (auto simp: panel_inv_def distinct_map inj_on_def)

text \<open>An answer changes only its own flight, publishes at most once, above everything published,
  and leaves the two indicators on exactly while the newest full answer is awaited.\<close>

lemma answer_inv:
  assumes inv: "panel_inv p" and f: "f \<in> set (qp_flights p)"
    and seq: "qp_seq p' = qp_seq p"
    and flights: "qp_flights p' = map (\<lambda>f'. if fl_seq f' = fl_seq f then g f' else f') (qp_flights p)"
    and g: "fl_seq (g f) = fl_seq f" "fl_fast (g f) \<Longrightarrow> fl_fast f" "fl_full (g f) \<Longrightarrow> fl_full f" "fl_got (g f) \<or> \<not> fl_got f" "fl_full (g f) \<Longrightarrow> fl_got (g f) = fl_got f"
    and routed: "qp_routed p' = qp_routed p \<and> (qp_quote p' = qp_quote p \<or> qp_quote p' = None) \<or>
      (\<exists>s. qp_routed p' = s # qp_routed p \<and> qp_quote p' = Some s \<and> sq_seq s = qp_seq p \<and> fl_seq f = qp_seq p \<and>
        (\<forall>s'\<in>set (qp_routed p). rank_of s' < rank_of s) \<and>
        (fl_fast (g f) \<and> \<not> fl_got (g f) \<longrightarrow> False) \<and> (fl_full (g f) \<longrightarrow> \<not> sq_full s))"
    and on: "qp_loading p' = (if fl_seq f = qp_seq p then fl_full (g f) else awaited p)" "qp_searching p' = qp_loading p'"
  shows "panel_inv p'"
proof -
  have same: "f' = f" if "f' \<in> set (qp_flights p)" "fl_seq f' = fl_seq f" for f'
    using same_flight [OF inv f that] .
  have flight: "flight_ok p f'" if "f' \<in> set (qp_flights p)" for f'
    using inv that by (simp add: panel_inv_def)
  have keys: "map fl_seq (qp_flights p') = map fl_seq (qp_flights p)"
    using same g(1) by (auto simp: flights)
  have mem: "f' \<in> set (qp_flights p') \<longleftrightarrow> f' = g f \<or> f' \<in> set (qp_flights p) \<and> fl_seq f' \<noteq> fl_seq f" for f'
    using same f by (auto simp: flights image_iff)
  have sorted: "sorted_wrt (\<lambda>a b. rank_of b < rank_of a) (qp_routed p')" "\<forall>s\<in>set (qp_routed p'). sq_seq s \<le> qp_seq p'"
    "qp_quote p' = None \<or> (\<exists>rest. qp_routed p' = the (qp_quote p') # rest)"
    using routed
  proof (atomize (full), elim disjE exE conjE)
    fix s
    assume "qp_routed p' = s # qp_routed p" "qp_quote p' = Some s" "sq_seq s = qp_seq p" "\<forall>s'\<in>set (qp_routed p). rank_of s' < rank_of s"
    with inv seq show "sorted_wrt (\<lambda>a b. rank_of b < rank_of a) (qp_routed p') \<and> (\<forall>s\<in>set (qp_routed p'). sq_seq s \<le> qp_seq p') \<and>
      (qp_quote p' = None \<or> (\<exists>rest. qp_routed p' = the (qp_quote p') # rest))"
      by (simp add: panel_inv_def)
  qed (use inv seq in \<open>simp_all add: panel_inv_def\<close>)
  have ok: "flight_ok p' f'" if "f' \<in> set (qp_flights p')" for f'
  proof (cases "f' = g f")
    case True
    have fr: "fl_fast (g f) \<and> \<not> fl_got (g f) \<longrightarrow> fl_fast f \<and> \<not> fl_got f"
      "fl_full (g f) \<longrightarrow> fl_full f \<and> fl_got (g f) = fl_got f" using g by auto
    from routed show ?thesis
    proof
      assume "qp_routed p' = qp_routed p \<and> (qp_quote p' = qp_quote p \<or> qp_quote p' = None)"
      with fr flight [OF f] g(1) seq show ?thesis by (simp add: True flight_ok_def)
    next
      assume "\<exists>s. qp_routed p' = s # qp_routed p \<and> qp_quote p' = Some s \<and> sq_seq s = qp_seq p \<and> fl_seq f = qp_seq p \<and>
        (\<forall>s'\<in>set (qp_routed p). rank_of s' < rank_of s) \<and>
        (fl_fast (g f) \<and> \<not> fl_got (g f) \<longrightarrow> False) \<and> (fl_full (g f) \<longrightarrow> \<not> sq_full s)"
      then obtain s where s: "qp_routed p' = s # qp_routed p" "sq_seq s = qp_seq p" "fl_fast (g f) \<and> \<not> fl_got (g f) \<longrightarrow> False"
        "fl_full (g f) \<longrightarrow> \<not> sq_full s" by blast
      with fr flight [OF f] g(1) seq show ?thesis by (simp add: True flight_ok_def rank_of_def)
    qed
  next
    case False
    with that have f': "f' \<in> set (qp_flights p)" "fl_seq f' \<noteq> fl_seq f" by (auto simp: mem)
    from routed have "fl_seq f \<noteq> qp_seq p \<Longrightarrow> qp_routed p' = qp_routed p" by blast
    with f'(2) flight [OF f'(1)] seq show ?thesis unfolding flight_ok_def by metis
  qed
  have "awaited p' = (if fl_seq f = qp_seq p then fl_full (g f) else awaited p)"
  proof -
    have "awaited p' \<longleftrightarrow> fl_seq f = qp_seq p \<and> fl_full (g f) \<or> (\<exists>f'\<in>set (qp_flights p). fl_seq f' \<noteq> fl_seq f \<and> fl_seq f' = qp_seq p \<and> fl_full f')"
      unfolding awaited_def Bex_def mem seq using g(1) by metis
    moreover have "fl_seq f' = fl_seq f \<and> f' = f \<or> fl_seq f' \<noteq> fl_seq f" if "f' \<in> set (qp_flights p)" for f'
      using same that by blast
    ultimately show ?thesis unfolding awaited_def by metis
  qed
  with on have "qp_loading p' = awaited p'" "qp_searching p' = awaited p'" by simp_all
  moreover have "distinct (map fl_seq (qp_flights p'))" using inv unfolding keys panel_inv_def by blast
  ultimately show ?thesis unfolding panel_inv_def using sorted ok by blast
qed

lemma awaited_own:
  assumes "panel_inv p" "f \<in> set (qp_flights p)" "fl_seq f = qp_seq p"
  shows "qp_loading p = fl_full f \<and> qp_searching p = fl_full f"
proof -
  have "awaited p = fl_full f" unfolding awaited_def using same_flight [OF assms(1,2)] assms(2,3) by metis
  moreover have "qp_loading p = awaited p \<and> qp_searching p = awaited p" using assms(1) unfolding panel_inv_def by blast
  ultimately show ?thesis by simp
qed

lemma fast_answer_inv:
  assumes inv: "panel_inv p" and f: "f \<in> set (qp_flights p)" "fl_fast f"
  shows "panel_inv (fast_answer f answer p)"
proof (rule answer_inv [OF inv f(1), where g = "\<lambda>f. f\<lparr>fl_fast := False\<rparr>"])
  have own: "flight_ok p f" using inv f(1) by (simp add: panel_inv_def)
  show "qp_routed (fast_answer f answer p) = qp_routed p \<and> (qp_quote (fast_answer f answer p) = qp_quote p \<or> qp_quote (fast_answer f answer p) = None) \<or>
      (\<exists>s. qp_routed (fast_answer f answer p) = s # qp_routed p \<and> qp_quote (fast_answer f answer p) = Some s \<and> sq_seq s = qp_seq p \<and> fl_seq f = qp_seq p \<and>
        (\<forall>s'\<in>set (qp_routed p). rank_of s' < rank_of s) \<and>
        (fl_fast (f\<lparr>fl_fast := False\<rparr>) \<and> \<not> fl_got (f\<lparr>fl_fast := False\<rparr>) \<longrightarrow> False) \<and> (fl_full (f\<lparr>fl_fast := False\<rparr>) \<longrightarrow> \<not> sq_full s))"
    using own f(2) by (cases answer) (simp_all add: fast_answer_def Let_def publish_def flight_ok_def rank_of_def)
  show "qp_loading (fast_answer f answer p) = (if fl_seq f = qp_seq p then fl_full (f\<lparr>fl_fast := False\<rparr>) else awaited p)"
    using awaited_own [OF inv f(1)] inv by (cases answer) (auto simp: fast_answer_def Let_def publish_def panel_inv_def)
  show "qp_searching (fast_answer f answer p) = qp_loading (fast_answer f answer p)"
    using inv by (cases answer) (simp_all add: fast_answer_def Let_def publish_def panel_inv_def)
qed (cases answer; simp add: fast_answer_def Let_def publish_def)+

lemma full_answer_inv:
  assumes inv: "panel_inv p" and f: "f \<in> set (qp_flights p)" "fl_full f"
  shows "panel_inv (full_answer f answer p)"
proof -
  have own: "flight_ok p f" using inv f(1) by (simp add: panel_inv_def)
  let ?p = "full_answer f answer p"
  let ?g = "\<lambda>f'. case answer of Inl _ \<Rightarrow> f'\<lparr>fl_full := False\<rparr> | Inr _ \<Rightarrow> f'\<lparr>fl_full := False, fl_got := True\<rparr>"
  note defs = full_answer_def Let_def publish_def quote_failed_def settle_def
  show ?thesis
  proof (rule answer_inv [OF inv f(1), where g = ?g])
    show "qp_routed ?p = qp_routed p \<and> (qp_quote ?p = qp_quote p \<or> qp_quote ?p = None) \<or>
      (\<exists>s. qp_routed ?p = s # qp_routed p \<and> qp_quote ?p = Some s \<and> sq_seq s = qp_seq p \<and> fl_seq f = qp_seq p \<and>
        (\<forall>s'\<in>set (qp_routed p). rank_of s' < rank_of s) \<and>
        (fl_fast (?g f) \<and> \<not> fl_got (?g f) \<longrightarrow> False) \<and> (fl_full (?g f) \<longrightarrow> \<not> sq_full s))"
      using own f(2) by (cases answer) (auto simp: defs flight_ok_def rank_of_def)
    show "qp_loading ?p = (if fl_seq f = qp_seq p then fl_full (?g f) else awaited p)"
      using inv by (cases answer) (auto simp: defs panel_inv_def)
    show "qp_searching ?p = qp_loading ?p"
      using inv by (cases answer) (auto simp: defs panel_inv_def)
    show "qp_flights ?p = map (\<lambda>f'. if fl_seq f' = fl_seq f then ?g f' else f') (qp_flights p)"
      by (cases answer) (simp_all add: defs)
    show "fl_got (?g f) \<or> \<not> fl_got f" "fl_full (?g f) \<Longrightarrow> fl_got (?g f) = fl_got f" by (cases answer; simp)+
  qed (cases answer; simp add: defs)+
qed

lemma panel_exec_inv:
  assumes "panel_inv p"
  shows "panel_inv (panel_exec e p)"
proof (cases e)
  case (Inputs ts md q)
  with assms show ?thesis by (simp add: inputs_inv)
next
  case TimerFires
  with assms show ?thesis by (simp add: timer_inv)
next
  case (FastAnswer n answer)
  with assms show ?thesis by (auto split: option.split dest!: find_SomeD intro: fast_answer_inv)
next
  case (FullAnswer n answer)
  with assms show ?thesis by (auto split: option.split dest!: find_SomeD intro: full_answer_inv)
next
  case QuoteCleared
  from assms have "panel_inv (p\<lparr>qp_quote := None\<rparr>)" by (rule panel_inv_cong) simp_all
  with QuoteCleared show ?thesis by simp
qed

lemma panel_init_inv: "panel_inv panel_init"
  by (simp add: panel_inv_def panel_init_def awaited_def)

lemma panel_runs_inv: "panel_inv (panel_runs es)"
  unfolding panel_runs_def by (rule foldl_keeps) (rule panel_init_inv, rule panel_exec_inv)

text \<open>
  C22. However answers and inputs interleave, every answer published outranks all those published
  before it (a later request, or the full answer of the same one), the page shows the last of them or
  nothing, and it says it is searching exactly while the newest request's full answer is awaited.
\<close>

theorem published_quotes_improve:
  "sorted_wrt (\<lambda>a b. rank_of b < rank_of a) (qp_routed (panel_runs es)) \<and>
    set_option (qp_quote (panel_runs es)) \<subseteq> set (take 1 (qp_routed (panel_runs es))) \<and>
    (qp_searching (panel_runs es) \<longleftrightarrow> awaited (panel_runs es)) \<and> (qp_loading (panel_runs es) \<longleftrightarrow> awaited (panel_runs es))"
  using panel_runs_inv [of es] by (auto simp: panel_inv_def)

section \<open>Answers for what is no longer typed\<close>

text \<open>Clearing the amount, like changing a token or the tab, starts no new number, so an answer on
  its way is still taken for the newest.\<close>

definition cleared_run :: "page_token list \<Rightarrow> quote_input \<Rightarrow> quote_input \<Rightarrow> 'q \<Rightarrow> 'q panel_event list" where
  "cleared_run ts typed cleared d = [Inputs ts Instant typed, TimerFires, Inputs ts Instant cleared, FullAnswer 1 (Inr d)]"

text \<open>
  An answer that arrives after the amount was cleared, or the tokens exchanged and the amount
  cleared, is still shown: the page has a quote for an input it no longer has, until the next one is
  typed.
\<close>

theorem quote_for_cleared_input:
  assumes "\<not> no_amount (qi_amount typed)" "to_base_units (qi_amount typed) (decimals_of ts (qi_in typed)) = Inr base"
    "no_amount (qi_amount cleared)"
  shows "\<exists>s. qp_quote (panel_runs (cleared_run ts typed cleared d)) = Some s \<and> sq_data s = d \<and> sq_input s = typed"
  using assms
  by (simp add: cleared_run_def panel_runs_def panel_init_def inputs_changed_def fetch_quote_debounced_def timer_fires_def
      full_answer_def publish_def settle_def set_flight_def Let_def)

text \<open>A fast answer that comes after the full search found nothing is shown under its note.\<close>

lemma fast_after_no_route:
  fixes d :: 'q
  assumes "\<not> no_amount (qi_amount typed)" "to_base_units (qi_amount typed) (decimals_of ts (qi_in typed)) = Inr base"
  defines "p \<equiv> panel_runs [Inputs ts Instant typed, TimerFires, FullAnswer 1 (Inl ''No route''), FastAnswer 1 (Inr d)]"
  shows "(\<exists>s. qp_quote p = Some s \<and> sq_data s = d) \<and> qp_note p = no_route_note ''No route''"
  unfolding p_def using assms(1,2)
  by (simp add: panel_runs_def panel_init_def inputs_changed_def fetch_quote_debounced_def timer_fires_def
      full_answer_def fast_answer_def publish_def settle_def set_flight_def quote_failed_def Let_def)

section \<open>The properties at concrete inputs\<close>

lemma demo_typed: "\<not> no_amount ''1''" "to_base_units ''1'' 7 = Inr ''10000000''" "no_amount ''''"
  by code_simp+

theorem quote_for_cleared_input_witness:
  "\<exists>s. qp_quote (panel_runs (cleared_run [] \<lparr>qi_amount = ''1'', qi_in = ''USDC'', qi_out = ''PYUSD''\<rparr>
      \<lparr>qi_amount = '''', qi_in = ''USDC'', qi_out = ''PYUSD''\<rparr> (5::int))) = Some s \<and> sq_data s = 5"
  using quote_for_cleared_input [of "\<lparr>qi_amount = ''1'', qi_in = ''USDC'', qi_out = ''PYUSD''\<rparr>" "[]" "''10000000''"
      "\<lparr>qi_amount = '''', qi_in = ''USDC'', qi_out = ''PYUSD''\<rparr>" "5::int"] demo_typed
  by (auto simp: decimals_of_def find_token_def)

end
