(* ===== verification/SwapPage.thy ===== *)
theory SwapPage
  imports QuotePanel SwapBuild TwapApi RfqHook
begin

text \<open>
  The swap page, \<open>frontend/src/components/SwapWidget.tsx\<close>: the token lists and balances it
  keeps, the two sides of the pair, the tolerance, the requests it sends, what its button does, and
  the execution of an instant swap, which signs the parts of a plan one after the other and builds the
  deferred ones at their turn (\<open>handleInstantSwap\<close>). The answers of the server, the wallet
  and the submission are arguments, one per turn.

  Theorems: every transaction the page asks to sign guards the output, at most eight are asked for,
  and the card shown tells how many settled; the two sides differ; the tolerance is one the server
  accepts; the button starts nothing it should not. Two flaws: the bound on the turns stops plans the
  server gives, and the floor of a standing order is in the wrong units.
\<close>

section \<open>The token lists\<close>

definition pinned :: "string list" where
  "pinned = [''XLM'', ''USDC'', ''USDT0'', ''SOLVBTC'', ''DEJTRSY'', ''DEJAAA'', ''USTRY'', ''USDY'', ''CETES'', ''TESOURO'']"

definition pin_rank :: "string \<Rightarrow> nat" where
  "pin_rank s = length (takeWhile (\<lambda>p. p \<noteq> to_upper s) pinned)"

text \<open>\<open>collate\<close> tells whether \<open>localeCompare\<close> puts the first after the second.\<close>

definition loaded_tokens :: "(string \<Rightarrow> string \<Rightarrow> bool) \<Rightarrow> asset_row list \<Rightarrow> page_token list \<Rightarrow> page_token list" where
  "loaded_tokens collate assets old =
    (if assets = [] then old
     else js_sort (\<lambda>a b. if pin_rank (pt_symbol a) \<noteq> pin_rank (pt_symbol b) then pin_rank (pt_symbol a) > pin_rank (pt_symbol b)
                         else collate (pt_symbol a) (pt_symbol b)) (map asset_to_token assets))"

definition p2p_tokens :: "string list \<Rightarrow> page_token list \<Rightarrow> page_token list" where
  "p2p_tokens allowed ts = filter (\<lambda>t. \<exists>a\<in>set allowed. to_upper a = to_upper (pt_symbol t)) ts"

definition twap_tokens :: "page_token list \<Rightarrow> page_token list" where
  "twap_tokens ts = filter pt_twap ts"

definition p2p_live :: "string list \<Rightarrow> page_token list \<Rightarrow> string \<Rightarrow> bool" where
  "p2p_live allowed ts s = (case find_token (p2p_tokens allowed ts) s of Some t \<Rightarrow> pt_live t | None \<Rightarrow> False)"

section \<open>Balances and trustlines\<close>

datatype horizon_line = NativeLine string | AssetLine string string string | PoolLine

record holdings =
  ho_balances :: "(string, string) jmap"
  ho_lines :: "string list option"

definition line_key :: "string \<Rightarrow> string \<Rightarrow> string" where
  "line_key code issuer = code @ '':'' @ issuer"

fun add_line :: "page_token list \<Rightarrow> horizon_line \<Rightarrow> (string, string) jmap \<times> string list \<Rightarrow> (string, string) jmap \<times> string list" where
  "add_line ts (NativeLine b) (bs, ls) = (jm_set ''XLM'' b bs, ls)"
| "add_line ts (AssetLine code issuer b) (bs, ls) =
    (let k = line_key code issuer; ls' = (if k \<in> set ls then ls else ls @ [k])
     in case find (\<lambda>t. pt_symbol t = code \<and> pt_issuer t = Some issuer) ts of
          Some t \<Rightarrow> (jm_set (pt_symbol t) b bs, ls')
        | None \<Rightarrow> (bs, ls'))"
| "add_line ts PoolLine (bs, ls) = (bs, ls)"

text \<open>\<open>fetchBalances\<close>: \<open>horizon\<close> is nothing when the call fails, else the lines
  of the account, if it has one; \<open>native\<close> what \<open>/api/balances\<close> answers.\<close>

definition add_native :: "(string \<times> string option) list option \<Rightarrow> (string, string) jmap \<Rightarrow> (string, string) jmap" where
  "add_native native bs =
    (case native of
       None \<Rightarrow> bs
     | Some rows \<Rightarrow>
         foldl (\<lambda>bs (sy, b). if sy = [] then bs else case b of Some v \<Rightarrow> jm_set sy v bs | None \<Rightarrow> bs) bs rows)"

definition fetch_balances :: "page_token list \<Rightarrow> string option \<Rightarrow> horizon_line list option option
    \<Rightarrow> (string \<times> string option) list option \<Rightarrow> holdings \<Rightarrow> holdings" where
  "fetch_balances ts wallet horizon native h =
    (if wallet = None \<or> wallet = Some [] then \<lparr>ho_balances = jm_empty, ho_lines = None\<rparr>
     else case horizon of
            None \<Rightarrow> h
          | Some None \<Rightarrow> h\<lparr>ho_lines := None\<rparr>
          | Some (Some lines) \<Rightarrow>
              let (bs, ls) = foldl (\<lambda>a l. add_line ts l a) (jm_empty, []) lines
              in \<lparr>ho_balances = add_native native bs, ho_lines = Some ls\<rparr>)"

definition missing_trustline :: "bool \<Rightarrow> holdings \<Rightarrow> page_token list \<Rightarrow> string \<Rightarrow> page_token option" where
  "missing_trustline is_connected h ts tout =
    (case ho_lines h of
       None \<Rightarrow> None
     | Some ls \<Rightarrow>
         if \<not> is_connected \<or> tout = ''XLM'' then None
         else case find_token ts tout of
                None \<Rightarrow> None
              | Some t \<Rightarrow> (case pt_issuer t of
                    None \<Rightarrow> None
                  | Some i \<Rightarrow> if i = [] \<or> line_key (pt_symbol t) i \<in> set ls then None else Some t))"

text \<open>\<open>formatBalance\<close> and the label; \<open>format\<close> is the locale's.\<close>

definition format_balance :: "(num \<Rightarrow> string) \<Rightarrow> string \<Rightarrow> string" where
  "format_balance format raw = (let v = parse_float raw in if is_finite v then format v else ''--'')"

definition balance_label :: "(num \<Rightarrow> string) \<Rightarrow> string option \<Rightarrow> holdings \<Rightarrow> page_token list \<Rightarrow> string \<Rightarrow> string" where
  "balance_label format wallet h ts s =
    (if wallet = None \<or> wallet = Some [] then ''Balance: --''
     else case jm_get (ho_balances h) s of
            Some b \<Rightarrow> ''Balance: '' @ format_balance format b
          | None \<Rightarrow>
              if s = ''XLM'' \<or> (case find_token ts s of Some t \<Rightarrow> truthy (pt_issuer t) | None \<Rightarrow> False) then ''Balance: 0''
              else ''Balance: --'')"

text \<open>\<open>fillMaxBalance\<close>; \<open>to_fixed\<close> is \<open>toFixed(7)\<close>.\<close>

definition drop_point :: "string \<Rightarrow> string" where
  "drop_point s = (if s \<noteq> [] \<and> last s = CHR ''.'' then butlast s else s)"

definition fill_max :: "(num \<Rightarrow> string) \<Rightarrow> holdings \<Rightarrow> string \<Rightarrow> string option" where
  "fill_max to_fixed h tin =
    (case jm_get (ho_balances h) tin of
       None \<Rightarrow> None
     | Some raw \<Rightarrow>
         if tin = ''XLM'' then
           (let n = num_sub (parse_float raw) (Fin 2)
            in if num_le n (Fin 0) then None
               else Some (drop_point (rev (dropWhile (\<lambda>c. c = CHR ''0'') (rev (to_fixed n))))))
         else Some raw)"

section \<open>The pair\<close>

record sides =
  sd_in :: string
  sd_out :: string

definition first_sides :: sides where
  "first_sides = \<lparr>sd_in = ''USDC'', sd_out = ''PYUSD''\<rparr>"

definition swap_sides :: "sides \<Rightarrow> sides" where
  "swap_sides p = \<lparr>sd_in = sd_out p, sd_out = sd_in p\<rparr>"

definition select_in :: "string \<Rightarrow> sides \<Rightarrow> sides" where
  "select_in s p = \<lparr>sd_in = s, sd_out = (if s = sd_out p then sd_in p else sd_out p)\<rparr>"

definition select_out :: "string \<Rightarrow> sides \<Rightarrow> sides" where
  "select_out s p = \<lparr>sd_in = (if s = sd_in p then sd_out p else sd_in p), sd_out = s\<rparr>"

text \<open>The TWAP tab moves both sides to tokens that have a pool.\<close>

definition eligible :: "page_token list \<Rightarrow> string \<Rightarrow> bool" where
  "eligible tw s = (\<exists>t\<in>set tw. pt_symbol t = s)"

definition choose_tab :: "page_mode \<Rightarrow> page_token list \<Rightarrow> sides \<Rightarrow> sides" where
  "choose_tab tab ts p =
    (let tw = twap_tokens ts
     in if tab = Twap \<and> 2 \<le> length tw then
          let i = (if eligible tw (sd_in p) then sd_in p else pt_symbol (hd tw))
          in \<lparr>sd_in = i,
               sd_out = (if eligible tw (sd_out p) \<and> sd_out p \<noteq> i then sd_out p
                         else case find (\<lambda>t. pt_symbol t \<noteq> i) tw of Some t \<Rightarrow> pt_symbol t | None \<Rightarrow> sd_out p)\<rparr>
        else p)"

datatype side_event = SelectIn string | SelectOut string | SwapSides | ChooseTab page_mode "page_token list"

fun side_exec :: "side_event \<Rightarrow> sides \<Rightarrow> sides" where
  "side_exec (SelectIn s) p = select_in s p"
| "side_exec (SelectOut s) p = select_out s p"
| "side_exec SwapSides p = swap_sides p"
| "side_exec (ChooseTab tab ts) p = choose_tab tab ts p"

definition side_runs :: "side_event list \<Rightarrow> sides" where
  "side_runs es = foldl (\<lambda>p e. side_exec e p) first_sides es"

section \<open>The tolerance\<close>

definition custom_slippage :: "string \<Rightarrow> num \<Rightarrow> num" where
  "custom_slippage typed old =
    (let v = parse_float typed
     in if is_finite v \<and> num_le (rnd (1 / 100)) v \<and> num_le v (Fin 10) then num_round (num_mul v (Fin 100)) else old)"

datatype slippage_event = Preset nat | Typed_percent string

definition slippage_presets :: "num list" where
  "slippage_presets = [Fin 25, Fin 50, Fin 100]"

fun slippage_exec :: "num \<Rightarrow> slippage_event \<Rightarrow> num" where
  "slippage_exec old (Preset k) = (if k < length slippage_presets then slippage_presets ! k else old)"
| "slippage_exec old (Typed_percent typed) = custom_slippage typed old"

definition slippage_runs :: "slippage_event list \<Rightarrow> num" where
  "slippage_runs es = foldl slippage_exec (Fin 50) es"

section \<open>The requests\<close>

definition swap_request :: "page_token list \<Rightarrow> string \<Rightarrow> string \<Rightarrow> sides \<Rightarrow> int \<Rightarrow> string + swap_body" where
  "swap_request ts addr amount p slip =
    (case to_base_units amount (decimals_of ts (sd_in p)) of
       Inl _ \<Rightarrow> Inl ''Invalid count value''
     | Inr base \<Rightarrow> Inr \<lparr>sb_source = addr, sb_in = token_param ts (sd_in p), sb_out = token_param ts (sd_out p),
         sb_amount = js_catch (big_of_string base) 0, sb_slip = slip, sb_deferred = True\<rparr>)"

definition deferred_request :: "string \<Rightarrow> int \<Rightarrow> string \<times> string \<times> int \<Rightarrow> swap_body" where
  "deferred_request addr slip d =
    (case d of (tin, tout, a) \<Rightarrow> \<lparr>sb_source = addr, sb_in = tin, sb_out = tout, sb_amount = a, sb_slip = slip, sb_deferred = True\<rparr>)"

text \<open>The bodies of a standing order and of a TWAP; the price is fixed or at the market.\<close>

record peer_request =
  pq_in :: string
  pq_out :: string
  pq_amount :: string
  pq_min_out :: string
  pq_mode :: nat
  pq_slip :: "num option"
  pq_auto :: "nat option"

definition p2p_request :: "page_token list \<Rightarrow> string \<Rightarrow> sides \<Rightarrow> bool \<Rightarrow> num \<Rightarrow> nat \<Rightarrow> peer_request js" where
  "p2p_request ts amount p market slip minutes =
    js_bind (to_base_units amount (decimals_of ts (sd_in p))) (\<lambda>base.
      Inr \<lparr>pq_in = token_param ts (sd_in p), pq_out = token_param ts (sd_out p), pq_amount = base,
           pq_min_out = (if market then ''0'' else base), pq_mode = (if market then 1 else 0),
           pq_slip = (if market then Some slip else None), pq_auto = (if 0 < minutes then Some minutes else None)\<rparr>)"

record twap_request =
  tq_in :: string
  tq_out :: string
  tq_amount :: string
  tq_minutes :: nat
  tq_limit :: "string option"
  tq_slip :: "num option"
  tq_slice_pct :: num

definition twap_page_request :: "page_token list \<Rightarrow> string \<Rightarrow> sides \<Rightarrow> nat \<Rightarrow> string \<Rightarrow> num \<Rightarrow> num \<Rightarrow> twap_request js" where
  "twap_page_request ts amount p minutes limit slip pct =
    js_bind (to_base_units amount (decimals_of ts (sd_in p))) (\<lambda>base.
      Inr \<lparr>tq_in = token_param ts (sd_in p), tq_out = token_param ts (sd_out p), tq_amount = base, tq_minutes = minutes,
           tq_limit = (if limit = [] then None else Some limit), tq_slip = (if limit = [] then Some slip else None), tq_slice_pct = pct\<rparr>)"

section \<open>Executing an instant swap\<close>

text \<open>The answers of turn \<open>k\<close>: of the server to a request, of the wallet to a
  transaction, of the submission to what was signed. A failure is its message.\<close>

record swap_env =
  en_build :: "nat \<Rightarrow> swap_body \<Rightarrow> string + swap_reply"
  en_sign :: "nat \<Rightarrow> tx \<Rightarrow> string + string"
  en_submit :: "nat \<Rightarrow> string \<Rightarrow> string + string"

text \<open>What the loop keeps; the transactions asked for and the hashes settled are recorded.\<close>

record leg_run =
  lr_queue :: "swap_leg list"
  lr_done :: nat
  lr_hash :: "string option"
  lr_asked :: "tx list"
  lr_settled :: "string list"

text \<open>A reply has one \<open>xdr\<close>, or the legs of a blend.\<close>

definition reply_tx :: "swap_reply \<Rightarrow> tx option" where
  "reply_tx rep = (case sr_legs rep of [l] \<Rightarrow> lg_tx l | _ \<Rightarrow> None)"

definition missing_leg :: string where
  "missing_leg = ''Swap plan leg missing transaction''"

text \<open>The transaction of a leg, or the legs that replace a deferred one.\<close>

definition leg_source :: "swap_env \<Rightarrow> string \<Rightarrow> int \<Rightarrow> nat \<Rightarrow> swap_leg \<Rightarrow> string + swap_leg list + tx" where
  "leg_source env addr slip g leg =
    (case lg_tx leg of
       Some t \<Rightarrow> Inr (Inr t)
     | None \<Rightarrow>
         (case lg_deferred leg of
            None \<Rightarrow> Inl missing_leg
          | Some d \<Rightarrow>
              (case en_build env g (deferred_request addr slip d) of
                 Inl m \<Rightarrow> Inl m
               | Inr rep \<Rightarrow>
                   if sr_kind rep = Blend then Inr (Inl (sr_legs rep))
                   else (case reply_tx rep of None \<Rightarrow> Inl missing_leg | Some t \<Rightarrow> Inr (Inr t)))))"

definition sign_and_submit :: "swap_env \<Rightarrow> nat \<Rightarrow> tx \<Rightarrow> leg_run \<Rightarrow> leg_run \<times> string option" where
  "sign_and_submit env g t r =
    (let r1 = r\<lparr>lr_asked := lr_asked r @ [t]\<rparr>
     in case en_sign env g t of
          Inl m \<Rightarrow> (r1, Some m)
        | Inr signed_tx \<Rightarrow>
            (case en_submit env g signed_tx of
               Inl m \<Rightarrow> (r1, Some m)
             | Inr h \<Rightarrow> (r1\<lparr>lr_done := Suc (lr_done r1), lr_hash := Some h, lr_settled := lr_settled r1 @ [h]\<rparr>, None)))"

definition max_turns :: nat where "max_turns = 8"

text \<open>The loop: each turn takes the first leg; deferred legs that become several go to the
  front. The second component is the message of the failure that ended it.\<close>

function leg_loop :: "swap_env \<Rightarrow> string \<Rightarrow> int \<Rightarrow> nat \<Rightarrow> leg_run \<Rightarrow> leg_run \<times> string option" where
  "leg_loop env addr slip g r =
    (case lr_queue r of
       [] \<Rightarrow> (r, None)
     | leg # rest \<Rightarrow>
         if Suc g > max_turns then (r, Some ''Swap plan has too many legs'')
         else (case leg_source env addr slip (Suc g) leg of
                 Inl m \<Rightarrow> (r\<lparr>lr_queue := rest\<rparr>, Some m)
               | Inr (Inl legs) \<Rightarrow> leg_loop env addr slip (Suc g) (r\<lparr>lr_queue := legs @ rest\<rparr>)
               | Inr (Inr t) \<Rightarrow>
                   (case sign_and_submit env (Suc g) t (r\<lparr>lr_queue := rest\<rparr>) of
                      (r1, Some m) \<Rightarrow> (r1, Some m)
                    | (r1, None) \<Rightarrow> leg_loop env addr slip (Suc g) r1)))"
  by pat_completeness auto
termination by (relation "measure (\<lambda>(env, addr, slip, g, r). Suc max_turns - g)") (auto simp: max_turns_def)

declare leg_loop.simps [simp del]

definition leg_start :: "swap_leg list \<Rightarrow> leg_run" where
  "leg_start legs = \<lparr>lr_queue = legs, lr_done = 0, lr_hash = None, lr_asked = [], lr_settled = []\<rparr>"

text \<open>The card shown at the end.\<close>

datatype swap_card = Swapped "string option" | Partially nat string "string option" | SwapFailed string

definition run_reply :: "swap_env \<Rightarrow> string \<Rightarrow> int \<Rightarrow> swap_reply \<Rightarrow> leg_run \<times> swap_card" where
  "run_reply env addr slip rep =
    (if sr_kind rep = Blend then
       (case leg_loop env addr slip 0 (leg_start (sr_legs rep)) of
          (r, None) \<Rightarrow> (r, Swapped (lr_hash r))
        | (r, Some m) \<Rightarrow> (r, if 0 < lr_done r then Partially (lr_done r) m (lr_hash r) else SwapFailed m))
     else
       (case reply_tx rep of
          None \<Rightarrow> (leg_start [], SwapFailed ''Backend returned no transaction to sign'')
        | Some t \<Rightarrow>
            (case sign_and_submit env 0 t (leg_start []) of
               (r, Some m) \<Rightarrow> (r, SwapFailed m)
             | (r, None) \<Rightarrow> (r, Swapped (lr_hash r)))))"

text \<open>\<open>quoted\<close> is the net output of the quote on screen, if there is one. The title with
  its amounts is written before anything is signed, and may throw.\<close>

definition handle_instant_swap :: "swap_env \<Rightarrow> (num \<Rightarrow> num \<Rightarrow> num \<Rightarrow> string) \<Rightarrow> (num \<Rightarrow> num) \<Rightarrow> string option \<Rightarrow> int option
    \<Rightarrow> page_token list \<Rightarrow> string \<Rightarrow> sides \<Rightarrow> int \<Rightarrow> (leg_run \<times> swap_card) option" where
  "handle_instant_swap env format log10 wallet quoted ts amount p slip =
    (case (wallet, quoted) of
       (Some addr, Some net) \<Rightarrow>
         if addr = [] then None
         else Some
           (case swap_request ts addr amount p slip of
              Inl m \<Rightarrow> (leg_start [], SwapFailed m)
            | Inr body \<Rightarrow>
                (case en_build env 0 body of
                   Inl m \<Rightarrow> (leg_start [], SwapFailed m)
                 | Inr rep \<Rightarrow>
                     (case format_units format log10 (Inr net) (decimals_of ts (sd_out p)) None of
                        Inl _ \<Rightarrow> (leg_start [], SwapFailed ''maximumFractionDigits value is out of range.'')
                      | Inr _ \<Rightarrow> run_reply env addr slip rep)))
     | _ \<Rightarrow> None)"

text \<open>What the end of a swap leaves of the amount typed and of the quote.\<close>

fun after_swap :: "swap_card \<Rightarrow> string \<times> 'q option \<Rightarrow> string \<times> 'q option" where
  "after_swap (Swapped h) (amount, quote) = ('''', None)"
| "after_swap (Partially k m h) (amount, quote) = (amount, None)"
| "after_swap (SwapFailed m) (amount, quote) = (amount, quote)"

section \<open>Standing orders\<close>

text \<open>\<open>handleP2pSubmit\<close> signs the transactions of the plan one after the other.\<close>

fun sign_all :: "swap_env \<Rightarrow> nat \<Rightarrow> tx list \<Rightarrow> leg_run \<Rightarrow> leg_run \<times> string option" where
  "sign_all env k [] r = (r, None)"
| "sign_all env k (t # ts) r =
    (case sign_and_submit env k t r of (r1, Some m) \<Rightarrow> (r1, Some m) | (r1, None) \<Rightarrow> sign_all env (Suc k) ts r1)"

datatype order_card = OrderPlaced "string option" | NothingToSign | OrderFailed string

definition p2p_submit :: "swap_env \<Rightarrow> string + tx list \<Rightarrow> leg_run \<times> order_card" where
  "p2p_submit env plan =
    (case plan of
       Inl m \<Rightarrow> (leg_start [], OrderFailed m)
     | Inr [] \<Rightarrow> (leg_start [], NothingToSign)
     | Inr (t # ts) \<Rightarrow>
         (case sign_all env 0 (t # ts) (leg_start []) of
            (r, Some m) \<Rightarrow> (r, OrderFailed m)
          | (r, None) \<Rightarrow> (r, OrderPlaced (lr_hash r))))"

section \<open>The action button\<close>

datatype button_action = ConnectWallet | AddTrustline | StartTwap | StartSwap | AcceptQuote string | PostOrder | StartRfq

record button_state =
  bs_connected :: bool
  bs_mode :: page_mode
  bs_amount :: string
  bs_loading :: bool
  bs_submitting :: bool
  bs_adding :: bool
  bs_missing :: "page_token option"
  bs_quote :: "bool option"
  bs_phase :: rfq_phase
  bs_seconds :: int
  bs_quotes :: "string list"
  bs_pair_ready :: bool

definition has_amount :: "button_state \<Rightarrow> bool" where
  "has_amount b \<longleftrightarrow> bs_amount b \<noteq> [] \<and> num_lt (Fin 0) (parse_float (bs_amount b))"

definition trustline_gate :: "button_state \<Rightarrow> bool" where
  "trustline_gate b \<longleftrightarrow> bs_missing b \<noteq> None \<and> has_amount b \<and> \<not> bs_adding b"

text \<open>\<open>bs_quote\<close> is the quote's \<open>priceImpactBlocked\<close>, when there is a quote.\<close>

definition impact_blocked :: "button_state \<Rightarrow> bool" where
  "impact_blocked b \<longleftrightarrow> bs_mode b = Instant \<and> bs_quote b = Some True"

definition rfq_waiting :: "button_state \<Rightarrow> bool" where
  "rfq_waiting b \<longleftrightarrow> bs_mode b = P2P \<and>
    (bs_phase b = Requesting \<or> bs_phase b = Accepting \<or> bs_phase b = PhaseOpen \<and> 0 < bs_seconds b \<and> bs_quotes b = [])"

definition button_disabled :: "button_state \<Rightarrow> bool" where
  "button_disabled b =
    (if trustline_gate b then False
     else \<not> has_amount b \<or> bs_loading b \<or> bs_submitting b \<or> bs_adding b \<or> impact_blocked b \<or> rfq_waiting b)"

definition rfq_action :: "button_state \<Rightarrow> button_action option" where
  "rfq_action b =
    (if \<not> has_amount b \<or> bs_phase b = Requesting \<or> bs_phase b = Accepting then None
     else if bs_phase b = PhaseOpen \<or> bs_phase b = Closed then
       (case bs_quotes b of
          q # _ \<Rightarrow> Some (AcceptQuote q)
        | [] \<Rightarrow> if bs_phase b = PhaseOpen \<and> 0 < bs_seconds b then None
                else if bs_pair_ready b then Some PostOrder else Some StartRfq)
     else Some StartRfq)"

definition on_click :: "button_state \<Rightarrow> button_action option" where
  "on_click b =
    (if \<not> bs_connected b then Some ConnectWallet
     else if bs_adding b then None
     else if trustline_gate b then Some AddTrustline
     else if bs_submitting b \<or> bs_loading b then None
     else case bs_mode b of
            Twap \<Rightarrow> if has_amount b then Some StartTwap else None
          | Instant \<Rightarrow> if impact_blocked b \<and> has_amount b then None
                       else if bs_quote b \<noteq> None \<and> has_amount b then Some StartSwap else None
          | P2P \<Rightarrow> rfq_action b)"

text \<open>A click acts when the button is not disabled.\<close>

definition click :: "button_state \<Rightarrow> button_action option" where
  "click b = (if button_disabled b \<and> bs_connected b then None else on_click b)"

section \<open>What is signed\<close>

text \<open>A reply that the server's builder gives, when its paths promise something at every hop.\<close>

definition served :: "swap_body \<Rightarrow> swap_reply \<Rightarrow> bool" where
  "served b rep \<longleftrightarrow> (\<exists>screening sdk adapter cf ex plan. swap_build screening sdk adapter cf b ex plan = Inr rep \<and>
    (\<forall>br p h. plan = Inr br \<and> br_multi br = Some p \<and> h \<in> set (pr_hops p) \<longrightarrow> 0 < hq_min_out h))"

lemma served_guarded: "served b rep \<Longrightarrow> l \<in> set (sr_legs rep) \<Longrightarrow> lg_tx l = Some t \<Longrightarrow> tx_guarded t"
  unfolding served_def using swap_build_guarded by (fastforce simp: legs_guarded_def)

lemma reply_tx_leg: "reply_tx rep = Some t \<Longrightarrow> \<exists>l\<in>set (sr_legs rep). lg_tx l = Some t"
  by (auto simp: reply_tx_def split: list.splits)

definition legs_fine :: "swap_leg list \<Rightarrow> bool" where
  "legs_fine ls \<longleftrightarrow> (\<forall>l\<in>set ls. \<forall>t. lg_tx l = Some t \<longrightarrow> tx_guarded t)"

lemma leg_source_guarded:
  assumes "\<And>k b rep. en_build env k b = Inr rep \<Longrightarrow> served b rep" "\<And>t. lg_tx leg = Some t \<Longrightarrow> tx_guarded t"
  shows "leg_source env addr slip g leg = Inr (Inr t) \<Longrightarrow> tx_guarded t"
    and "leg_source env addr slip g leg = Inr (Inl legs) \<Longrightarrow> legs_fine legs"
proof -
  have built: "tx_guarded t" if "en_build env k b = Inr rep" "l \<in> set (sr_legs rep)" "lg_tx l = Some t" for k b rep l t
    using served_guarded [OF assms(1)] that by blast
  show "leg_source env addr slip g leg = Inr (Inr t) \<Longrightarrow> tx_guarded t"
    using assms(2) by (auto simp: leg_source_def dest!: reply_tx_leg intro: built split: option.splits sum.splits if_split_asm)
  show "leg_source env addr slip g leg = Inr (Inl legs) \<Longrightarrow> legs_fine legs"
    by (auto simp: leg_source_def legs_fine_def intro: built split: option.splits sum.splits if_split_asm)
qed

text \<open>The rule of the loop: \<open>P g\<close> holds after \<open>g\<close> turns, \<open>Q\<close> when it is
  left by a failure.\<close>

lemma leg_loop_rule:
  assumes "P g r" "\<And>g r. P g r \<Longrightarrow> Q r"
    and "\<And>g r leg rest. P g r \<Longrightarrow> lr_queue r = leg # rest \<Longrightarrow> Q (r\<lparr>lr_queue := rest\<rparr>)"
    and "\<And>g r leg rest legs. P g r \<Longrightarrow> g < max_turns \<Longrightarrow> lr_queue r = leg # rest \<Longrightarrow>
      leg_source env addr slip (Suc g) leg = Inr (Inl legs) \<Longrightarrow> P (Suc g) (r\<lparr>lr_queue := legs @ rest\<rparr>)"
    and "\<And>g r leg rest t r1 m. P g r \<Longrightarrow> g < max_turns \<Longrightarrow> lr_queue r = leg # rest \<Longrightarrow>
      leg_source env addr slip (Suc g) leg = Inr (Inr t) \<Longrightarrow> sign_and_submit env (Suc g) t (r\<lparr>lr_queue := rest\<rparr>) = (r1, m) \<Longrightarrow>
      (case m of None \<Rightarrow> P (Suc g) r1 | Some x \<Rightarrow> Q r1)"
  shows "case leg_loop env addr slip g r of (r', None) \<Rightarrow> (\<exists>g'. P g' r') | (r', Some m) \<Rightarrow> Q r'"
  using assms(1)
proof (induction "Suc max_turns - g" arbitrary: g r)
  case (Suc n)
  show ?case
  proof (cases "lr_queue r")
    case Nil
    with Suc.prems show ?thesis by (auto simp: leg_loop.simps)
  next
    case (Cons leg rest)
    show ?thesis
    proof (cases "Suc g > max_turns")
      case True
      with Cons assms(2) [OF Suc.prems] show ?thesis by (simp add: leg_loop.simps)
    next
      case False
      then have n: "n = Suc max_turns - Suc g" "g < max_turns" using Suc.hyps(2) by auto
      consider m where "leg_source env addr slip (Suc g) leg = Inl m"
        | legs where "leg_source env addr slip (Suc g) leg = Inr (Inl legs)"
        | t where "leg_source env addr slip (Suc g) leg = Inr (Inr t)"
        by (metis sum.exhaust)
      then show ?thesis
      proof cases
        case 1
        with Cons False assms(3) [OF Suc.prems Cons] show ?thesis by (simp add: leg_loop.simps)
      next
        case (2 legs)
        from Suc.hyps(1) [OF n(1) assms(4) [OF Suc.prems n(2) Cons 2]] 2 Cons False show ?thesis
          by (simp add: leg_loop.simps [of _ _ _ g])
      next
        case (3 t)
        obtain r1 m where r1: "sign_and_submit env (Suc g) t (r\<lparr>lr_queue := rest\<rparr>) = (r1, m)" by force
        from assms(5) [OF Suc.prems n(2) Cons 3 r1] Suc.hyps(1) [OF n(1), of r1] r1 3 Cons False show ?thesis
          by (cases m) (simp_all add: leg_loop.simps [of _ _ _ g])
      qed
    qed
  qed
qed (use assms(2) in \<open>auto simp: leg_loop.simps split: list.split\<close>)

lemma sign_and_submit_fields:
  assumes "sign_and_submit env g t r = (r1, m)"
  shows "lr_asked r1 = lr_asked r @ [t]" "lr_queue r1 = lr_queue r"
    "m = None \<Longrightarrow> \<exists>h. lr_done r1 = Suc (lr_done r) \<and> lr_hash r1 = Some h \<and> lr_settled r1 = lr_settled r @ [h]"
    "m \<noteq> None \<Longrightarrow> lr_done r1 = lr_done r \<and> lr_hash r1 = lr_hash r \<and> lr_settled r1 = lr_settled r"
  using assms by (auto simp: sign_and_submit_def Let_def split: sum.splits)

lemma leg_loop_guarded:
  assumes "\<And>k b rep. en_build env k b = Inr rep \<Longrightarrow> served b rep" "legs_fine legs"
  shows "\<forall>t\<in>set (lr_asked (fst (leg_loop env addr slip g (leg_start legs)))). tx_guarded t"
proof -
  let ?P = "\<lambda>g::nat. \<lambda>r. legs_fine (lr_queue r) \<and> (\<forall>t\<in>set (lr_asked r). tx_guarded t)"
  let ?Q = "\<lambda>r. \<forall>t\<in>set (lr_asked r). tx_guarded t"
  have "case leg_loop env addr slip g (leg_start legs) of (r', None) \<Rightarrow> (\<exists>g'. ?P g' r') | (r', Some m) \<Rightarrow> ?Q r'"
  proof (rule leg_loop_rule)
    show "?P g (leg_start legs)" using assms(2) by (simp add: leg_start_def)
  next
    fix g :: nat and r leg rest legs
    assume a: "?P g r" "lr_queue r = leg # rest" "leg_source env addr slip (Suc g) leg = Inr (Inl legs)"
    have "legs_fine legs"
    proof (rule leg_source_guarded(2) [OF assms(1) _ a(3)])
      show "tx_guarded u" if "lg_tx leg = Some u" for u using a(1,2) that by (simp add: legs_fine_def)
    qed
    with a(1,2) show "?P (Suc g) (r\<lparr>lr_queue := legs @ rest\<rparr>)" by (auto simp: legs_fine_def)
  next
    fix g :: nat and r leg rest t r1 m
    assume a: "?P g r" "lr_queue r = leg # rest" "leg_source env addr slip (Suc g) leg = Inr (Inr t)"
      and s: "sign_and_submit env (Suc g) t (r\<lparr>lr_queue := rest\<rparr>) = (r1, m)"
    have "tx_guarded t"
    proof (rule leg_source_guarded(1) [OF assms(1) _ a(3)])
      show "tx_guarded u" if "lg_tx leg = Some u" for u using a(1,2) that by (simp add: legs_fine_def)
    qed
    with a sign_and_submit_fields(1,2) [OF s] show "case m of None \<Rightarrow> ?P (Suc g) r1 | Some x \<Rightarrow> ?Q r1"
      by (auto simp: legs_fine_def split: option.split)
  qed auto
  then show ?thesis by (cases "leg_loop env addr slip g (leg_start legs)"; cases "snd (leg_loop env addr slip g (leg_start legs))") auto
qed

text \<open>What the counters say of the run, while it goes on and when a failure ended it.\<close>

definition counted :: "leg_run \<Rightarrow> bool" where
  "counted r \<longleftrightarrow> lr_done r = length (lr_settled r) \<and> lr_hash r = (if lr_settled r = [] then None else Some (last (lr_settled r)))"

lemma counted_sign:
  assumes "sign_and_submit env g t r = (r1, m)" "counted r"
  shows "counted r1" "length (lr_asked r1) = Suc (length (lr_asked r))"
    "length (lr_settled r1) = (if m = None then Suc (length (lr_settled r)) else length (lr_settled r))"
  using sign_and_submit_fields [OF assms(1)] assms(2) by (cases m; auto simp: counted_def)+

lemma leg_loop_counted:
  "case leg_loop env addr slip 0 (leg_start legs) of
     (r, None) \<Rightarrow> counted r \<and> length (lr_asked r) = length (lr_settled r) \<and> length (lr_asked r) \<le> max_turns
   | (r, Some m) \<Rightarrow> counted r \<and> length (lr_asked r) \<in> {length (lr_settled r), Suc (length (lr_settled r))} \<and> length (lr_asked r) \<le> max_turns"
proof -
  let ?P = "\<lambda>g r. counted r \<and> length (lr_asked r) = length (lr_settled r) \<and> length (lr_asked r) \<le> g \<and> g \<le> max_turns"
  let ?Q = "\<lambda>r. counted r \<and> length (lr_asked r) \<in> {length (lr_settled r), Suc (length (lr_settled r))} \<and> length (lr_asked r) \<le> max_turns"
  have "case leg_loop env addr slip 0 (leg_start legs) of (r', None) \<Rightarrow> (\<exists>g'. ?P g' r') | (r', Some m) \<Rightarrow> ?Q r'"
  proof (rule leg_loop_rule)
    show "?P 0 (leg_start legs)" by (simp add: leg_start_def counted_def)
  next
    fix g :: nat and r leg rest t r1 m
    assume a: "?P g r" "g < max_turns" and s: "sign_and_submit env (Suc g) t (r\<lparr>lr_queue := rest\<rparr>) = (r1, m)"
    from a(1) have c: "counted (r\<lparr>lr_queue := rest\<rparr>)" by (simp add: counted_def)
    from counted_sign [OF s c] a show "case m of None \<Rightarrow> ?P (Suc g) r1 | Some x \<Rightarrow> ?Q r1"
      by (cases m) simp_all
  qed (auto simp: counted_def)
  then show ?thesis by (cases "leg_loop env addr slip 0 (leg_start legs)"; cases "snd (leg_loop env addr slip 0 (leg_start legs))") auto
qed

text \<open>The swap that is run, when the page runs one.\<close>

lemma handle_runs:
  assumes "handle_instant_swap env format log10 wallet quoted ts amount p slip = Some (r, shown)"
  shows "(r = leg_start [] \<and> (\<exists>m. shown = SwapFailed m)) \<or>
    (\<exists>addr body rep. en_build env 0 body = Inr rep \<and> run_reply env addr slip rep = (r, shown))"
  using assms by (auto simp: handle_instant_swap_def split: option.splits if_split_asm sum.splits)



text \<open>
  The bound of eight turns is too small for plans the server gives: of four parts, the last three
  of them deferred and each answered by a split in two, five are signed and settled before the page
  gives up, with the amount in an intermediate token.
\<close>

definition deferred_leg :: "string \<times> string \<times> int \<Rightarrow> swap_leg \<Rightarrow> bool" where
  "deferred_leg d l \<longleftrightarrow> lg_tx l = None \<and> lg_deferred l = Some d"

theorem four_parts_run_out:
  assumes "sr_kind rep = Blend" "sr_legs rep = [l, d1, d2, d3]" "lg_tx l = Some t"
    and "deferred_leg q1 d1" "deferred_leg q2 d2" "deferred_leg q3 d3"
    and "\<And>k q. en_build env k (deferred_request addr slip q) = Inr half" "sr_kind half = Blend" "sr_legs half = [a, b]"
    and "lg_tx a = Some ta" "lg_tx b = Some tb"
    and "\<And>k u. en_sign env k u = Inr (sg k u)" "\<And>k x. en_submit env k x = Inr (hs k x)"
  shows "\<exists>h. snd (run_reply env addr slip rep) = Partially 5 ''Swap plan has too many legs'' (Some h)"
  using assms
  by (simp add: run_reply_def leg_start_def leg_loop.simps leg_source_def deferred_leg_def sign_and_submit_def max_turns_def Let_def)

section \<open>The sides differ\<close>

lemma find_other:
  assumes "distinct (map pt_symbol tw)" "2 \<le> length tw"
  obtains t where "find (\<lambda>t. pt_symbol t \<noteq> i) tw = Some t"
proof (cases "find (\<lambda>t. pt_symbol t \<noteq> i) tw")
  case None
  then have "\<forall>t\<in>set tw. pt_symbol t = i" by (simp add: find_None_iff)
  moreover obtain a b us where "tw = a # b # us" using assms(2) by (cases tw; cases "tl tw") auto
  ultimately show ?thesis using assms(1) by simp
qed (use that in blast)

lemma choose_tab_eligible:
  assumes "distinct (map pt_symbol ts)" "2 \<le> length (twap_tokens ts)"
  shows "sd_in (choose_tab Twap ts p) \<noteq> sd_out (choose_tab Twap ts p) \<and>
    eligible (twap_tokens ts) (sd_in (choose_tab Twap ts p)) \<and> eligible (twap_tokens ts) (sd_out (choose_tab Twap ts p))"
proof -
  let ?tw = "twap_tokens ts"
  let ?i = "if eligible ?tw (sd_in p) then sd_in p else pt_symbol (hd ?tw)"
  have d: "distinct (map pt_symbol ?tw)" using assms(1) by (simp add: twap_tokens_def distinct_map_filter)
  obtain t where t: "find (\<lambda>t. pt_symbol t \<noteq> ?i) ?tw = Some t" by (rule find_other [OF d assms(2)])
  then have other: "t \<in> set ?tw" "pt_symbol t \<noteq> ?i" using find_SomeD [OF t] by simp_all
  have first: "eligible ?tw ?i" using assms(2) by (cases ?tw) (auto simp: eligible_def)
  have i: "sd_in (choose_tab Twap ts p) = ?i" using assms(2) by (simp add: choose_tab_def Let_def)
  have o': "sd_out (choose_tab Twap ts p) = (if eligible ?tw (sd_out p) \<and> sd_out p \<noteq> ?i then sd_out p else pt_symbol t)"
    using assms(2) t by (simp add: choose_tab_def Let_def)
  have "eligible ?tw (pt_symbol t)" using other(1) by (auto simp: eligible_def)
  then have "j \<noteq> (if eligible ?tw (sd_out p) \<and> sd_out p \<noteq> j then sd_out p else pt_symbol t) \<and> eligible ?tw j \<and>
      eligible ?tw (if eligible ?tw (sd_out p) \<and> sd_out p \<noteq> j then sd_out p else pt_symbol t)"
    if "eligible ?tw j" "pt_symbol t \<noteq> j" for j using that by auto
  from this [OF first other(2)] show ?thesis unfolding i o' .
qed

lemma side_exec_differ:
  assumes "sd_in p \<noteq> sd_out p" "\<And>tab ts. e = ChooseTab tab ts \<Longrightarrow> distinct (map pt_symbol ts)"
  shows "sd_in (side_exec e p) \<noteq> sd_out (side_exec e p)"
proof (cases e)
  case (ChooseTab tab ts)
  with assms choose_tab_eligible [of ts p] show ?thesis by (auto simp: choose_tab_def Let_def)
qed (use assms(1) in \<open>auto simp: select_in_def select_out_def swap_sides_def\<close>)

text \<open>
  Whatever the user picks, exchanges or opens, the page never has the same token on both sides;
  and in the TWAP tab, when two tokens have a pool, both sides are tokens that have one.
\<close>

theorem sides_differ:
  assumes "\<And>tab ts. ChooseTab tab ts \<in> set es \<Longrightarrow> distinct (map pt_symbol ts)"
  shows "sd_in (side_runs es) \<noteq> sd_out (side_runs es) \<and>
    (\<forall>ts. distinct (map pt_symbol ts) \<and> 2 \<le> length (twap_tokens ts) \<longrightarrow>
      eligible (twap_tokens ts) (sd_in (choose_tab Twap ts (side_runs es))) \<and>
      eligible (twap_tokens ts) (sd_out (choose_tab Twap ts (side_runs es))))"
proof -
  have "sd_in (side_runs es) \<noteq> sd_out (side_runs es)"
    unfolding side_runs_def
  proof (rule foldl_keeps)
    show "sd_in (side_exec e p) \<noteq> sd_out (side_exec e p)" if "e \<in> set es" "sd_in p \<noteq> sd_out p" for e p
      using side_exec_differ [OF that(2), of e] that(1) assms by blast
  qed (simp add: first_sides_def)
  with choose_tab_eligible show ?thesis by blast
qed

section \<open>The tolerance is accepted\<close>

lemma rnd_ge_pow:
  assumes "2 powi k \<le> x" "-1000 \<le> k" "k \<le> 0"
  shows "Fin (2 powi k) \<le> rnd x"
proof -
  have "ilog2 (2 powi k) = k" by (rule ilog2_eq) (simp_all add: power_int_add)
  then have "2 powi k \<le> mag (2 powi k)" using assms(2,3) by (intro mag_above_pow) (simp_all add: ulp_exp_def)
  moreover have "(2::rat) powi k < 0 \<longleftrightarrow> False" by (simp add: not_less)
  ultimately have "Fin (2 powi k) \<le> rnd (2 powi k)" by (simp add: rnd_def Let_def)
  from this rnd_mono [OF assms(1)] show ?thesis by (rule order.trans)
qed

lemma small_powers: "(2::rat) powi (-7) = 1 / 128" "(2::rat) powi (-1) = 1 / 2"
  by (simp_all add: power_int_def power_one_over)

lemma custom_slippage_int:
  assumes "old = Fin (of_int k)" "1 \<le> k" "k \<le> 1000"
  obtains n where "custom_slippage typed old = Fin (of_int n)" "1 \<le> n" "n \<le> 1000"
proof (cases "is_finite (parse_float typed) \<and> num_le (rnd (1 / 100)) (parse_float typed) \<and> num_le (parse_float typed) (Fin 10)")
  case True
  then obtain v where v: "parse_float typed = Fin v" by (cases "parse_float typed") (auto simp: is_finite_def)
  have "Fin (1 / 128) \<le> rnd (1 / 100)" using rnd_ge_pow [of "-7" "1 / 100"] by (simp add: small_powers)
  also have "\<dots> \<le> Fin v" using True v by (simp add: num_le_less_eq)
  finally have lo: "1 / 128 \<le> v" by (simp only: num_order_simps)
  have hi: "v \<le> 10" using True v by (simp add: num_le_less_eq)
  have "Fin (1 / 2) \<le> rnd (v * 100)" using rnd_ge_pow [of "-1" "v * 100"] lo by (simp add: small_powers)
  moreover have "rnd (v * 100) \<le> Fin 1000" using rnd_mono [of "v * 100" "of_int 1000"] hi by (simp add: rnd_numeral)
  ultimately obtain y where y: "rnd (v * 100) = Fin y" "1 / 2 \<le> y" "y \<le> 1000" by (cases "rnd (v * 100)") auto
  define n where "n = \<lfloor>y + 1 / 2\<rfloor>"
  have n: "1 \<le> n" "n \<le> 1000" using y(2,3) by (auto simp: n_def le_floor_iff floor_le_iff)
  have "custom_slippage typed old = rnd (of_int n)" using True v y(1) by (simp add: custom_slippage_def Let_def num_round_def n_def)
  also have "\<dots> = Fin (of_int n)" using n by (intro rnd_of_int) simp
  finally show ?thesis using that n by blast
next
  case False
  with assms show ?thesis by (intro that [of k]) (auto simp: custom_slippage_def Let_def)
qed

text \<open>
  Whatever presets are clicked and percentages typed, the tolerance the page sends is a whole number
  of basis points that the server accepts as it is.
\<close>

theorem page_slippage_accepted:
  "\<exists>n. slippage_runs es = Fin (of_int n) \<and> parse_slippage_bps (JNum (slippage_runs es)) fallback = Inr n"
proof -
  have "\<exists>n. slippage_runs es = Fin (of_int n) \<and> 1 \<le> n \<and> n \<le> 1000"
    unfolding slippage_runs_def
  proof (rule foldl_keeps)
    show "\<exists>n. (Fin 50 :: num) = Fin (of_int n) \<and> 1 \<le> n \<and> n \<le> 1000" by (intro exI [of _ 50]) simp
    fix old e
    assume old: "\<exists>n. old = Fin (of_int n) \<and> 1 \<le> n \<and> n \<le> 1000"
    show "\<exists>n. slippage_exec old e = Fin (of_int n) \<and> 1 \<le> n \<and> n \<le> 1000"
    proof (cases e)
      case (Preset k)
      have "x \<in> {Fin (of_int 25), Fin (of_int 50), Fin (of_int 100)}" if "x \<in> set slippage_presets" for x
        using that by (auto simp: slippage_presets_def)
      with Preset old nth_mem [of k slippage_presets] show ?thesis by fastforce
    next
      case (Typed_percent typed)
      from old obtain k where k: "old = Fin (of_int k)" "1 \<le> k" "k \<le> 1000" by blast
      obtain n where "custom_slippage typed old = Fin (of_int n)" "1 \<le> n" "n \<le> 1000" by (rule custom_slippage_int [OF k])
      with Typed_percent show ?thesis by auto
    qed
  qed
  then show ?thesis by (auto simp: parse_slippage_bps_def)
qed

section \<open>The floor of a standing order\<close>

lemma one_whole:
  assumes "0 \<le> decs"
  shows "to_base_units ''1'' decs = Inr (CHR ''1'' # replicate (nat decs) (CHR ''0''))"
proof -
  have "trim ''1'' = ''1''" "typed_amount ''1''" "split_point ''1'' = (''1'', [])" by code_simp+
  moreover have "strip_leading (CHR ''1'' # xs) = CHR ''1'' # xs" for xs by (cases xs) simp_all
  ultimately show ?thesis using assms by (simp add: to_base_units_def Let_def)
qed

text \<open>
  A standing order at a fixed price asks for as many base units of the token bought as it sells of
  the other: one for one only when both have the same decimals, otherwise off by a power of ten.
\<close>

theorem p2p_floor_units:
  assumes "0 \<le> decimals_of ts (sd_in p)" "0 \<le> decimals_of ts (sd_out p)"
  shows "\<exists>r. p2p_request ts ''1'' p False slip minutes = Inr r \<and> pq_min_out r = pq_amount r \<and>
    (to_base_units ''1'' (decimals_of ts (sd_out p)) = Inr (pq_min_out r) \<longleftrightarrow> decimals_of ts (sd_in p) = decimals_of ts (sd_out p))"
  using one_whole [OF assms(1)] one_whole [OF assms(2)] assms by (auto simp: p2p_request_def js_bind_simps replicate_eq_replicate nat_eq_iff)

section \<open>What the button starts\<close>

text \<open>
  A click starts a swap, a TWAP, an order or a quote only for a connected wallet with an amount,
  with nothing being signed or loaded and no trustline missing; a swap only with a quote whose price
  impact is allowed, an acceptance only of the first quote shown.
\<close>

theorem click_starts_safely:
  assumes "click b = Some a" "a \<noteq> ConnectWallet" "a \<noteq> AddTrustline"
  shows "bs_connected b \<and> has_amount b \<and> \<not> bs_loading b \<and> \<not> bs_submitting b \<and> \<not> bs_adding b \<and> bs_missing b = None \<and>
    (a = StartSwap \<longrightarrow> bs_quote b = Some False) \<and> (\<forall>q. a = AcceptQuote q \<longrightarrow> bs_quotes b \<noteq> [] \<and> q = hd (bs_quotes b))"
  using assms by (cases "bs_mode b"; cases "bs_quotes b"; cases "bs_quote b")
    (auto simp: click_def on_click_def button_disabled_def trustline_gate_def impact_blocked_def rfq_action_def split: if_split_asm)

section \<open>The properties at concrete inputs\<close>

text \<open>A server that always finds the best price on the classic exchange.\<close>

definition demo_env :: swap_env where
  "demo_env = \<lparr>en_build = (\<lambda>k b. case swap_build (Inr ()) (\<lambda>_. Inr ()) (\<lambda>_ _ _ _. None) demo_config b
       \<lparr>ex_kind = Classic, ex_single = Classic, ex_route = None, ex_sdex_out = 1000, ex_blend = None\<rparr> (Inl TypeError) of
         Inl _ \<Rightarrow> Inl ''refused'' | Inr rep \<Rightarrow> Inr rep),
     en_sign = (\<lambda>k t. Inr ''signed''), en_submit = (\<lambda>k x. Inr ''hash'')\<rparr>"

lemma demo_env_served:
  assumes "en_build demo_env k b = Inr rep"
  shows "served b rep"
proof -
  from assms have "swap_build (Inr ()) (\<lambda>_. Inr ()) (\<lambda>_ _ _ _. None) demo_config b
       \<lparr>ex_kind = Classic, ex_single = Classic, ex_route = None, ex_sdex_out = 1000, ex_blend = None\<rparr> (Inl TypeError) = Inr rep"
    by (simp add: demo_env_def split: sum.splits)
  then show ?thesis unfolding served_def by blast
qed

lemma demo_swap:
  "\<exists>r. handle_instant_swap demo_env format log10 (Some ''G'') (Some 0) [] ''1'' first_sides 50 = Some (r, Swapped (Some ''hash'')) \<and>
    length (lr_asked r) = 1"
proof -
  have amount: "to_base_units ''1'' 7 = Inr (CHR ''1'' # replicate 7 (CHR ''0''))" using one_whole [of 7] by simp
  have title: "format_units format log10 (Inr 0) 7 None = Inr ''0.00''"
    by (simp add: format_units_def from_base_units_def num_of_big_def num_abs_def tdiv_def tmod_def Let_def js_bind_simps js_catch_simps)
  show ?thesis
    by (simp add: handle_instant_swap_def swap_request_def decimals_of_def find_token_def first_sides_def amount title demo_env_def
        swap_build_def classic_reply_def and_then_def build_def run_reply_def reply_tx_def single_leg_def sign_and_submit_def leg_start_def Let_def)
qed



definition demo_tx :: tx where "demo_tx = ClassicPayment ''G'' ''A'' ''1'' ''B'' ''1''"

definition demo_part :: "tx option \<Rightarrow> (string \<times> string \<times> int) option \<Rightarrow> swap_leg" where
  "demo_part t d = \<lparr>lg_kind = Soroban, lg_tx = t, lg_deferred = d, lg_in = 1, lg_out = 1\<rparr>"

lemma demo_part_fields [simp]: "lg_tx (demo_part t d) = t" "lg_deferred (demo_part t d) = d"
  by (simp_all add: demo_part_def)

definition demo_blend :: "swap_leg list \<Rightarrow> swap_reply" where
  "demo_blend legs = \<lparr>sr_kind = Blend, sr_legs = legs, sr_total_in = 1, sr_net = 1, sr_min_total = 1, sr_bps = Fin 0, sr_gain = None, sr_path = None, sr_segments = []\<rparr>"

definition split_env :: swap_env where
  "split_env = \<lparr>en_build = (\<lambda>k b. Inr (demo_blend [demo_part (Some demo_tx) None, demo_part (Some demo_tx) None])),
     en_sign = (\<lambda>k t. Inr ''signed''), en_submit = (\<lambda>k x. Inr ''hash'')\<rparr>"

theorem four_parts_run_out_witness:
  "\<exists>h. snd (run_reply split_env ''G'' 50 (demo_blend [demo_part (Some demo_tx) None, demo_part None (Some (''A'', ''B'', 1)),
      demo_part None (Some (''B'', ''C'', 1)), demo_part None (Some (''C'', ''D'', 1))])) = Partially 5 ''Swap plan has too many legs'' (Some h)"
  by (rule four_parts_run_out [where half = "demo_blend [demo_part (Some demo_tx) None, demo_part (Some demo_tx) None]"
        and t = demo_tx and ta = demo_tx and tb = demo_tx and ?q1.0 = "(''A'', ''B'', 1)" and ?q2.0 = "(''B'', ''C'', 1)" and ?q3.0 = "(''C'', ''D'', 1)"
        and sg = "\<lambda>_ _. ''signed''" and hs = "\<lambda>_ _. ''hash''"])
    (simp_all add: demo_blend_def deferred_leg_def split_env_def)+

theorem sides_differ_witness:
  "sd_in (side_runs [SwapSides, SelectIn ''XLM'', ChooseTab Instant []]) \<noteq> sd_out (side_runs [SwapSides, SelectIn ''XLM'', ChooseTab Instant []])"
  using sides_differ [of "[SwapSides, SelectIn ''XLM'', ChooseTab Instant []]"] by auto

theorem p2p_floor_units_witness:
  "\<exists>r. p2p_request [(demo_page_token ''deJAAA'')\<lparr>pt_decimals := 18\<rparr>] ''1'' \<lparr>sd_in = ''deJAAA'', sd_out = ''USDC''\<rparr> False (Fin 50) 0 = Inr r \<and>
    pq_min_out r = pq_amount r \<and> to_base_units ''1'' 7 \<noteq> Inr (pq_min_out r)"
proof -
  let ?ts = "[(demo_page_token ''deJAAA'')\<lparr>pt_decimals := 18\<rparr>]"
  let ?p = "\<lparr>sd_in = ''deJAAA'', sd_out = ''USDC''\<rparr>"
  have d: "decimals_of ?ts (sd_in ?p) = 18" "decimals_of ?ts (sd_out ?p) = 7"
    by (simp_all add: decimals_of_def find_token_def demo_page_token_def)
  from p2p_floor_units [of ?ts ?p "Fin 50" 0] show ?thesis unfolding d by auto
qed

definition demo_button :: button_state where
  "demo_button = \<lparr>bs_connected = True, bs_mode = Instant, bs_amount = ''1'', bs_loading = False, bs_submitting = False, bs_adding = False,
     bs_missing = None, bs_quote = Some False, bs_phase = Idle, bs_seconds = 0, bs_quotes = [], bs_pair_ready = False\<rparr>"

theorem click_starts_safely_witness:
  "click demo_button = Some StartSwap \<and> bs_quote demo_button = Some False"
proof -
  have "click demo_button = Some StartSwap" by code_simp
  with click_starts_safely [of demo_button StartSwap] show ?thesis by simp
qed

end
