(* ===== verification/WebClients.thy ===== *)
theory WebClients
  imports SdkFlows
begin

text \<open>
  Two HTTP clients: that of the bond issuer's API (\<open>services/etherfuse-client.ts\<close>) and that of
  the pages (\<open>frontend/src/lib/api.ts\<close> and the helpers of \<open>lib/rfq.ts\<close>). A call is the
  request it makes and what becomes of the answer; the transport and the parser are arguments, as in
  \<open>SdkFlows\<close>.

  Theorems: a key of one environment is never sent to the host of the other and an organization
  cannot change the route of a call; an answer without a waiting time is read as one of no time; the
  pages and the SDK reach the same RFQ routes.
\<close>

section \<open>The issuer's API\<close>

datatype ether_env = Sand | Prod

fun env_name :: "ether_env \<Rightarrow> string" where
  "env_name Sand = ''sand''"
| "env_name Prod = ''prod''"

fun ether_host :: "ether_env \<Rightarrow> string" where
  "ether_host Sand = ''https://api.sand.etherfuse.com''"
| "ether_host Prod = ''https://api.etherfuse.com''"

record ether_client =
  ec_key :: string
  ec_env :: ether_env
  ec_org :: string

definition key_prefix :: "ether_env \<Rightarrow> string" where
  "key_prefix e = ''api_'' @ env_name e @ '':''"

definition new_ether_client :: "string \<Rightarrow> ether_env \<Rightarrow> string \<Rightarrow> ether_client js" where
  "new_ether_client key e org =
    (if starts_with (key_prefix e) key then Inr \<lparr>ec_key = key, ec_env = e, ec_org = org\<rparr>
     else Inl (Thrown (''Etherfuse key does not match env '' @ env_name e)))"

datatype json = JsonText string | JsonNum num | JsonObj "(string \<times> json) list"

record quote_params =
  qa_source :: string
  qa_dest :: string
  qa_amount :: string
  qa_from :: string
  qa_to :: string
  qa_rail :: "string option"
  qa_partner_bps :: "num option"

datatype ether_op =
    Me
  | SupportedAssets "string option" "string option"
  | RegisterWallet string string
  | Account string
  | Accounts
  | Balances string
  | AskQuote quote_params
  | CreateOrder string "string option"
  | GetOrder string
  | CancelOrder string
  | RefreshFunding string

fun ether_reads :: "ether_op \<Rightarrow> bool" where
  "ether_reads (RegisterWallet a l) = False"
| "ether_reads (AskQuote q) = False"
| "ether_reads (CreateOrder q m) = False"
| "ether_reads (CancelOrder i) = False"
| "ether_reads (RefreshFunding i) = False"
| "ether_reads oper = True"

definition org_path :: "ether_client \<Rightarrow> string \<Rightarrow> string" where
  "org_path c rest = ''/organization/'' @ encode_component (ec_org c) @ CHR ''/'' # rest"

fun ether_path :: "ether_client \<Rightarrow> ether_op \<Rightarrow> string" where
  "ether_path c Me = ''/me''"
| "ether_path c (SupportedAssets chain cur) =
    (let qs = query_string [(''chain'', chain), (''currency'', cur)]
     in ''/supported_assets'' @ (if qs = [] then [] else CHR ''?'' # qs))"
| "ether_path c (RegisterWallet a l) = org_path c ''payment_account''"
| "ether_path c (Account i) = org_path c (''payment_account/'' @ i)"
| "ether_path c Accounts = org_path c ''payment_accounts''"
| "ether_path c (Balances i) = org_path c (''payment_account/'' @ i @ ''/balances'')"
| "ether_path c (AskQuote q) = org_path c ''quote''"
| "ether_path c (CreateOrder q m) = org_path c ''order''"
| "ether_path c (GetOrder i) = org_path c (''order/'' @ i)"
| "ether_path c (CancelOrder i) = org_path c (''order/'' @ i @ ''/cancel'')"
| "ether_path c (RefreshFunding i) = org_path c (''order/'' @ i @ ''/funding_instructions/refresh'')"

definition stored_party :: "string \<Rightarrow> json" where
  "stored_party i = JsonObj [(''type'', JsonText ''stored''), (''id'', JsonText i)]"

fun ether_body :: "ether_op \<Rightarrow> json option" where
  "ether_body (RegisterWallet a l) = Some (JsonObj [(''kind'', JsonText ''wallet''), (''label'', JsonText l),
     (''accountDetails'', JsonObj [(''kind'', JsonText ''address''), (''address'', JsonText a), (''chain'', JsonText ''stellar'')])])"
| "ether_body (AskQuote q) = Some (JsonObj ([(''source'', stored_party (qa_source q)), (''destination'', stored_party (qa_dest q)),
     (''sourceAmount'', JsonText (qa_amount q)), (''sourceAsset'', JsonText (qa_from q)), (''destinationAsset'', JsonText (qa_to q))]
     @ (case qa_rail q of Some r \<Rightarrow> if r = [] then [] else [(''sourceRail'', JsonText r), (''destinationRail'', JsonText r)] | None \<Rightarrow> [])
     @ (case qa_partner_bps q of Some n \<Rightarrow> [(''partnerFeeBpsOverride'', JsonNum n)] | None \<Rightarrow> [])))"
| "ether_body (CreateOrder q m) = Some (JsonObj ((''quoteId'', JsonText q) #
     (case m of Some t \<Rightarrow> if t = [] then [] else [(''memo'', JsonText t)] | None \<Rightarrow> [])))"
| "ether_body oper = None"

record ether_request =
  er_method :: string
  er_url :: string
  er_auth :: string
  er_body :: "json option"

definition ether_request_of :: "ether_client \<Rightarrow> ether_op \<Rightarrow> ether_request" where
  "ether_request_of c oper = \<lparr>er_method = (if ether_reads oper then ''GET'' else ''POST''),
     er_url = ether_host (ec_env c) @ ether_path c oper, er_auth = ec_key c, er_body = ether_body oper\<rparr>"

text \<open>The answer, with its header \<open>retry-after\<close>; what a problem document says.\<close>

record ether_answer = http_answer +
  ea_retry :: "string option"

record problem =
  pb_type :: "string option"
  pb_detail :: "string option"
  pb_title :: "string option"
  pb_error :: "string option"
  pb_instance :: "string option"

definition no_problem :: problem where
  "no_problem = \<lparr>pb_type = None, pb_detail = None, pb_title = None, pb_error = None, pb_instance = None\<rparr>"

record ether_error =
  ee_message :: string
  ee_status :: int
  ee_code :: string
  ee_instance :: "string option"
  ee_retry :: "num option"

definition or_else :: "'a option \<Rightarrow> 'a option \<Rightarrow> 'a option" where
  "or_else a b = (case a of Some x \<Rightarrow> Some x | None \<Rightarrow> b)"

definition problem_slug :: "string option \<Rightarrow> string" where
  "problem_slug ty = (case ty of Some s \<Rightarrow> last (split_on (CHR ''/'') s) | None \<Rightarrow> ''error'')"

definition retry_after :: "string option \<Rightarrow> num option" where
  "retry_after header = (let ra = num_of_string (case header of Some h \<Rightarrow> h | None \<Rightarrow> []) in if is_finite ra then Some ra else None)"

definition ether_error_of :: "ether_answer \<Rightarrow> problem \<Rightarrow> ether_error" where
  "ether_error_of a p = \<lparr>ee_message = (case or_else (pb_detail p) (or_else (pb_title p) (pb_error p)) of Some m \<Rightarrow> m
       | None \<Rightarrow> big_string (ha_status a) @ CHR '' '' # ha_reason a),
     ee_status = ha_status a, ee_code = problem_slug (pb_type p), ee_instance = pb_instance p, ee_retry = retry_after (ea_retry a)\<rparr>"

definition retryable :: "ether_error \<Rightarrow> bool" where
  "retryable e \<longleftrightarrow> ee_code e \<in> {''quote-unavailable'', ''internal-error'', ''service-unavailable'', ''rate-limit-exceeded''}"

text \<open>\<open>call\<close>: nothing parsed gives the empty object. \<open>problem_of\<close> reads the fields
  of a parsed body.\<close>

definition ether_call :: "(string \<Rightarrow> 'j option) \<Rightarrow> ('j \<Rightarrow> problem) \<Rightarrow> (ether_request \<Rightarrow> ether_answer js) \<Rightarrow> ether_client \<Rightarrow> ether_op
    \<Rightarrow> (js_exn + ether_error) + 'j option" where
  "ether_call parse problem_of fetch c oper =
    (case fetch (ether_request_of c oper) of
       Inl e \<Rightarrow> Inl (Inl e)
     | Inr a \<Rightarrow>
         let data = (if ha_text a = [] then None else parse (ha_text a))
         in if ha_ok a then Inr data
            else Inl (Inr (ether_error_of a (case data of Some j \<Rightarrow> problem_of j | None \<Rightarrow> no_problem))))"

definition stellar_asset_id :: "string \<Rightarrow> string \<Rightarrow> string" where
  "stellar_asset_id code issuer = code @ '':'' @ issuer"

section \<open>The pages' API client\<close>

text \<open>\<open>URLSearchParams\<close> of an object: every entry, also the empty ones.\<close>

definition search_params :: "(string \<times> string) list \<Rightarrow> string" where
  "search_params ps =
    (case map (\<lambda>(k, v). form_text k @ CHR ''='' # form_text v) ps of [] \<Rightarrow> [] | p # rest \<Rightarrow> p @ concat (map (\<lambda>q. CHR ''&'' # q) rest))"

datatype web_op =
    WebQuote string string string "string option" bool
  | WebAssets
  | WebOrders string string
  | WebUserOrders string
  | WebTwapFee
  | WebOraclePrice string string
  | WebPeerSwap
  | WebCancelOrder
  | WebSwapBuild
  | WebTwapBuild
  | WebTwapOrders "string option"
  | WebTwapCancel
  | WebSubmit
  | WebTrustline
  | WebHealth
  | WebRfqRequest
  | WebRfqReference string string string "string option"
  | WebRfqGet string
  | WebRfqAccept string
  | WebRfqCancel string
  | WebRfqSettled string

fun web_path :: "web_op \<Rightarrow> string" where
  "web_path (WebQuote tin tout a slip fast) = ''/api/quote?'' @ search_params ([(''tokenIn'', tin), (''tokenOut'', tout), (''amountIn'', a)]
     @ (case slip of Some s \<Rightarrow> [(''slippage'', s)] | None \<Rightarrow> []) @ (if fast then [(''fast'', ''1'')] else []))"
| "web_path WebAssets = ''/api/assets''"
| "web_path (WebOrders tin tout) = ''/api/orders?'' @ search_params [(''tokenIn'', tin), (''tokenOut'', tout)]"
| "web_path (WebUserOrders a) = ''/api/orders/user/'' @ a"
| "web_path WebTwapFee = ''/api/twap/fee''"
| "web_path (WebOraclePrice tin tout) = ''/api/oracle/price?'' @ search_params [(''tokenIn'', tin), (''tokenOut'', tout)]"
| "web_path WebPeerSwap = ''/api/peer-swap/build''"
| "web_path WebCancelOrder = ''/api/orders/cancel''"
| "web_path WebSwapBuild = ''/api/swap/build''"
| "web_path WebTwapBuild = ''/api/twap/build''"
| "web_path (WebTwapOrders maker) = ''/api/twap/orders'' @
     (case maker of Some m \<Rightarrow> if m = [] then [] else ''?maker='' @ encode_component m | None \<Rightarrow> [])"
| "web_path WebTwapCancel = ''/api/twap/cancel''"
| "web_path WebSubmit = ''/api/swap/submit''"
| "web_path WebTrustline = ''/api/trustline/build''"
| "web_path WebHealth = ''/api/health''"
| "web_path WebRfqRequest = ''/api/rfq/request''"
| "web_path (WebRfqReference tin tout a taker) = ''/api/rfq/reference?'' @ search_params ([(''tokenIn'', tin), (''tokenOut'', tout), (''amountIn'', a)]
     @ (case taker of Some t \<Rightarrow> if t = [] then [] else [(''taker'', t)] | None \<Rightarrow> []))"
| "web_path (WebRfqGet i) = ''/api/rfq/'' @ i"
| "web_path (WebRfqAccept i) = ''/api/rfq/'' @ i @ ''/accept''"
| "web_path (WebRfqCancel i) = ''/api/rfq/'' @ i @ ''/cancel''"
| "web_path (WebRfqSettled i) = ''/api/rfq/'' @ i @ ''/settled''"

fun web_reads :: "web_op \<Rightarrow> bool" where
  "web_reads WebPeerSwap = False"
| "web_reads WebCancelOrder = False"
| "web_reads WebSwapBuild = False"
| "web_reads WebTwapBuild = False"
| "web_reads WebTwapCancel = False"
| "web_reads WebSubmit = False"
| "web_reads WebTrustline = False"
| "web_reads WebRfqRequest = False"
| "web_reads (WebRfqAccept i) = False"
| "web_reads (WebRfqCancel i) = False"
| "web_reads (WebRfqSettled i) = False"
| "web_reads oper = True"

text \<open>What a refusal becomes: the server's reason if it gives one, else a text of the call with the
  status; or that text alone; or an answer all the same.\<close>

datatype refusal = Reason "string \<Rightarrow> string" | StatusOnly string | Absent | Ignored

fun refusal_style :: "web_op \<Rightarrow> refusal" where
  "refusal_style (WebQuote tin tout a slip fast) = Reason (\<lambda>st. st)"
| "refusal_style WebAssets = StatusOnly ''Assets fetch failed: ''"
| "refusal_style (WebOrders tin tout) = StatusOnly ''Orders fetch failed: ''"
| "refusal_style (WebUserOrders a) = StatusOnly ''User orders fetch failed: ''"
| "refusal_style WebTwapFee = Absent"
| "refusal_style (WebOraclePrice tin tout) = Absent"
| "refusal_style WebPeerSwap = StatusOnly ''Peer swap build failed: ''"
| "refusal_style WebCancelOrder = StatusOnly ''Cancel build failed: ''"
| "refusal_style WebSwapBuild = Reason ((@) ''Swap build failed: '')"
| "refusal_style WebTwapBuild = Reason ((@) ''TWAP build failed: '')"
| "refusal_style (WebTwapOrders maker) = StatusOnly ''TWAP orders fetch failed: ''"
| "refusal_style WebTwapCancel = Reason ((@) ''Cancel build failed: '')"
| "refusal_style WebSubmit = Reason ((@) ''Submit failed: '')"
| "refusal_style WebTrustline = Reason ((@) ''Trustline build failed: '')"
| "refusal_style WebHealth = Ignored"
| "refusal_style (WebRfqReference tin tout a taker) = Reason ((@) ''RFQ reference failed: '')"
| "refusal_style (WebRfqGet i) = Reason ((@) ''RFQ read failed: '')"
| "refusal_style oper = Reason (\<lambda>st. web_path oper @ '' failed: '' @ st)"

datatype 'j web_result = Answer 'j | NoAnswer | Rejected string | Threw js_exn

text \<open>Where a body that is no JSON is taken for an empty one.\<close>

fun web_lenient :: "web_op \<Rightarrow> bool" where
  "web_lenient WebTwapFee = True"
| "web_lenient WebRfqRequest = True"
| "web_lenient (WebRfqReference tin tout a taker) = True"
| "web_lenient (WebRfqGet i) = True"
| "web_lenient (WebRfqAccept i) = True"
| "web_lenient (WebRfqCancel i) = True"
| "web_lenient (WebRfqSettled i) = True"
| "web_lenient oper = False"

text \<open>\<open>error_of\<close> is the field \<open>error\<close> of a body, when it has one.\<close>

definition web_call :: "(string \<Rightarrow> 'j option) \<Rightarrow> ('j \<Rightarrow> string option) \<Rightarrow> (http_request \<Rightarrow> http_answer js) \<Rightarrow> string \<Rightarrow> web_op \<Rightarrow> string
    \<Rightarrow> 'j web_result" where
  "web_call parse error_of fetch base oper body =
    (case fetch \<lparr>hq_method = (if web_reads oper then ''GET'' else ''POST''), hq_url = base @ web_path oper, hq_key = None,
                 hq_body = (if web_reads oper then None else Some body)\<rparr> of
       Inl e \<Rightarrow> (if oper = WebTwapFee then NoAnswer else Threw e)
     | Inr a \<Rightarrow>
         let answer = (case parse (ha_text a) of Some j \<Rightarrow> Answer j | None \<Rightarrow> if web_lenient oper then NoAnswer else Threw (Thrown ''Unexpected token''))
         in if ha_ok a then answer
            else (case refusal_style oper of
                    Reason other \<Rightarrow>
                      (case parse (ha_text a) of
                         None \<Rightarrow> Rejected (other (ha_reason a))
                       | Some j \<Rightarrow> Rejected (case error_of j of Some m \<Rightarrow> if m = [] then other (ha_reason a) else m | None \<Rightarrow> other (ha_reason a)))
                  | StatusOnly prefix_text \<Rightarrow> Rejected (prefix_text @ ha_reason a)
                  | Absent \<Rightarrow> NoAnswer
                  | Ignored \<Rightarrow> answer))"

section \<open>Hosts, keys and routes\<close>

lemma split_org_path:
  "split_on (CHR ''/'') (org_path c rest) = [[], ''organization'', encode_component (ec_org c)] @ split_on (CHR ''/'') rest"
proof -
  have "CHR ''/'' \<notin> set (encode_component (ec_org c))" using encode_component_plain by blast
  then have "split_on (CHR ''/'') (encode_component (ec_org c) @ CHR ''/'' # rest) = encode_component (ec_org c) # split_on (CHR ''/'') rest"
    by (rule split_on_once)
  then show ?thesis by (simp add: org_path_def)
qed

definition about_org :: "ether_op \<Rightarrow> bool" where
  "about_org oper \<longleftrightarrow> (case oper of Me \<Rightarrow> False | SupportedAssets ch cur \<Rightarrow> False | _ \<Rightarrow> True)"

lemma about_org_path: "about_org oper \<Longrightarrow> \<exists>rest. ether_path c oper = org_path c rest"
  by (cases oper) (auto simp: about_org_def)

text \<open>
  A client exists only with a key of its environment; every request it makes goes to the host of
  that environment, with that key, which is not one of the other; and whatever text the organization
  is, a call about it stays on the routes of that organization.
\<close>

theorem ether_requests_scoped:
  assumes "new_ether_client key e org = Inr c"
  shows "er_auth (ether_request_of c oper) = key \<and> starts_with (key_prefix e) key \<and>
    (\<forall>e'. starts_with (key_prefix e') key \<longrightarrow> e' = e) \<and>
    er_url (ether_request_of c oper) = ether_host e @ ether_path c oper \<and>
    (about_org oper \<longrightarrow> take 3 (split_on (CHR ''/'') (ether_path c oper)) = [[], ''organization'', encode_component org])"
proof -
  from assms have c: "c = \<lparr>ec_key = key, ec_env = e, ec_org = org\<rparr>" "starts_with (key_prefix e) key"
    by (auto simp: new_ether_client_def split: if_split_asm)
  have one: "e' = e" if "starts_with (key_prefix e') key" for e'
    using that c(2) by (cases e; cases e') (auto simp: key_prefix_def starts_with_def)
  have org: "take 3 (split_on (CHR ''/'') (ether_path c oper)) = [[], ''organization'', encode_component org]" if about: "about_org oper"
  proof -
    from about_org_path [OF about] obtain rest where "ether_path c oper = org_path c rest" by blast
    then show ?thesis by (simp add: split_org_path c(1) eval_nat_numeral)
  qed
  have "er_auth (ether_request_of c oper) = key" "er_url (ether_request_of c oper) = ether_host e @ ether_path c oper"
    by (simp_all add: ether_request_of_def c(1))
  with one c(2) org show ?thesis by blast
qed

text \<open>
  A refusal without the header that tells how long to wait is read as one that asks for no wait:
  the error carries 0 seconds, not none.
\<close>

theorem no_retry_header_reads_zero:
  assumes "fetch (ether_request_of c oper) = Inr a" "\<not> ha_ok a" "ea_retry a = None"
  shows "\<exists>e. ether_call parse problem_of fetch c oper = Inl (Inr e) \<and> ee_retry e = Some (Fin 0)"
proof -
  have "num_of_string [] = Fin 0" by code_simp
  with assms show ?thesis by (simp add: ether_call_def ether_error_of_def retry_after_def is_finite_def Let_def)
qed

lemma encode_component_same: "list_all unreserved i \<Longrightarrow> encode_component i = i"
  by (induction i) (simp_all add: encode_component_def)

text \<open>
  For the ids the server gives out the pages and the SDK make the same RFQ calls: the same routes
  with the same methods.
\<close>

theorem pages_call_like_sdk:
  assumes "list_all unreserved i"
  shows "web_path (WebRfqGet i) = op_path (RfqGet i) \<and> web_path (WebRfqAccept i) = op_path (RfqAccept i) \<and>
    web_path (WebRfqCancel i) = op_path (RfqCancel i) \<and> web_path (WebRfqSettled i) = op_path (RfqSettled i) \<and>
    web_path WebRfqRequest = op_path RfqRequest \<and> web_path WebAssets = op_path Assets \<and> web_path WebSubmit = op_path Submit \<and>
    map web_reads [WebRfqGet i, WebRfqAccept i, WebRfqCancel i, WebRfqSettled i, WebRfqRequest, WebAssets, WebSubmit] =
      map op_reads [RfqGet i, RfqAccept i, RfqCancel i, RfqSettled i, RfqRequest, Assets, Submit]"
  using encode_component_same [OF assms] by (simp add: rfq_path_def)

text \<open>
  When the server refuses with a reason, building a swap, a TWAP, a trustline or a submission fails
  with that reason; building a standing order or its cancellation fails with the bare status instead.
\<close>

theorem refusal_reason:
  assumes "\<And>q. fetch q = Inr a" "\<not> ha_ok a" "parse (ha_text a) = Some j" "error_of j = Some m" "m \<noteq> []"
  shows "map (\<lambda>oper. web_call parse error_of fetch base oper body) [WebSwapBuild, WebTwapBuild, WebTrustline, WebSubmit] =
      replicate 4 (Rejected m) \<and>
    web_call parse error_of fetch base WebPeerSwap body = Rejected (''Peer swap build failed: '' @ ha_reason a) \<and>
    web_call parse error_of fetch base WebCancelOrder body = Rejected (''Cancel build failed: '' @ ha_reason a)"
  using assms by (simp add: web_call_def eval_nat_numeral)

section \<open>The properties at concrete inputs\<close>

definition demo_client :: ether_client where
  "demo_client = \<lparr>ec_key = ''api_sand:k:o'', ec_env = Sand, ec_org = ''a/b''\<rparr>"

lemma demo_client_new: "new_ether_client ''api_sand:k:o'' Sand ''a/b'' = Inr demo_client"
  by (simp add: new_ether_client_def demo_client_def key_prefix_def starts_with_def)

theorem ether_requests_scoped_witness:
  "er_auth (ether_request_of demo_client Accounts) = ''api_sand:k:o'' \<and> \<not> starts_with (key_prefix Prod) ''api_sand:k:o''"
  using ether_requests_scoped [OF demo_client_new, of Accounts] by auto

theorem no_retry_header_reads_zero_witness:
  "\<exists>e. ether_call (\<lambda>_. None) (\<lambda>_::nat. no_problem) (\<lambda>_. Inr \<lparr>ha_ok = False, ha_status = 503, ha_reason = ''Down'', ha_text = [], ea_retry = None\<rparr>) demo_client Me = Inl (Inr e) \<and>
    ee_retry e = Some (Fin 0)"
  by (rule no_retry_header_reads_zero) (simp_all)+

theorem pages_call_like_sdk_witness:
  "web_path (WebRfqAccept ''3f-a'') = op_path (RfqAccept ''3f-a'')"
proof -
  have "list_all unreserved ''3f-a''" by code_simp
  from pages_call_like_sdk [OF this] show ?thesis by blast
qed

theorem refusal_reason_witness:
  "web_call (\<lambda>_. Some 1) (\<lambda>_::nat. Some ''no liquidity'') (\<lambda>_. Inr \<lparr>ha_ok = False, ha_status = 400, ha_reason = ''Bad Request'', ha_text = ''x''\<rparr>) [] WebPeerSwap []
    = Rejected ''Peer swap build failed: Bad Request''"
  using refusal_reason [of "\<lambda>_. Inr \<lparr>ha_ok = False, ha_status = 400, ha_reason = ''Bad Request'', ha_text = ''x''\<rparr>"
      "\<lparr>ha_ok = False, ha_status = 400, ha_reason = ''Bad Request'', ha_text = ''x''\<rparr>" "\<lambda>_. Some 1" "1::nat" "\<lambda>_. Some ''no liquidity''" "''no liquidity''"]
  by simp

end
