(* ===== verification/PageViews.thy ===== *)
theory PageViews
  imports SwapPage
begin

text \<open>
  What the other pages compute from the server's answers: the orders page
  (\<open>frontend/src/app/orders/page.tsx\<close>), the order book
  (\<open>components/OrderBook.tsx\<close>), the offers of an RFQ (\<open>components/RfqPanel.tsx\<close>)
  and the route shown with a quote (\<open>components/RoutePreview.tsx\<close>). Rendering is left out;
  locale and fixed-point formatting are arguments.

  Theorems: at most one offer of an RFQ is marked best and no maker's quote pays more than it, though
  a pool may; the ladder has one level per price, sorted; cancelling signs only what was built and
  refreshes only after success.
\<close>

section \<open>The offers of an RFQ\<close>

text \<open>The reference of the request and the live quotes' outputs, best first.\<close>

record offers =
  of_amount_in :: int
  of_book_out :: "int option"
  of_book_used :: "int option"
  of_amm_out :: "int option"
  of_quotes :: "int list"

definition best_out :: "offers \<Rightarrow> int option" where
  "best_out o1 = (case of_quotes o1 of [] \<Rightarrow> None | q # _ \<Rightarrow> Some q)"

definition book_partial :: "offers \<Rightarrow> bool" where
  "book_partial o1 \<longleftrightarrow> (case of_book_used o1 of Some u \<Rightarrow> u < of_amount_in o1 | None \<Rightarrow> False)"

definition beats :: "int option \<Rightarrow> int option \<Rightarrow> bool" where
  "beats a b \<longleftrightarrow> (case a of None \<Rightarrow> False | Some x \<Rightarrow> (case b of None \<Rightarrow> True | Some y \<Rightarrow> y < x))"

definition book_beats_best :: "offers \<Rightarrow> bool" where
  "book_beats_best o1 \<longleftrightarrow> \<not> book_partial o1 \<and> beats (of_book_out o1) (best_out o1)"

definition amm_beats_best :: "offers \<Rightarrow> bool" where
  "amm_beats_best o1 \<longleftrightarrow> beats (of_amm_out o1) (best_out o1) \<and> \<not> book_beats_best o1"

definition quote_marked :: "offers \<Rightarrow> nat \<Rightarrow> bool" where
  "quote_marked o1 i \<longleftrightarrow> i = 0 \<and> \<not> book_beats_best o1 \<and> \<not> amm_beats_best o1"

text \<open>\<open>navLabel\<close>, \<open>navColor\<close>, \<open>ageLabel\<close>; \<open>fixed\<close> is
  \<open>toFixed(1)\<close>.\<close>

definition nav_label :: "(num \<Rightarrow> string) \<Rightarrow> num option \<Rightarrow> string" where
  "nav_label fixed vs =
    (case vs of
       None \<Rightarrow> ''no NAV ref''
     | Some v \<Rightarrow>
         if num_lt (num_abs v) (rnd (5 / 100)) then ''at NAV''
         else if num_lt (Fin 0) v then ''NAV -'' @ fixed v @ '' bps'' else ''NAV +'' @ fixed (num_neg v) @ '' bps'')"

definition nav_color :: "num option \<Rightarrow> string" where
  "nav_color vs =
    (case vs of
       None \<Rightarrow> ''#8a8f9c''
     | Some v \<Rightarrow> if num_le v (Fin 0) then ''#22c55e'' else if num_le v (Fin 10) then ''#a3e635''
                 else if num_le v (Fin 50) then ''#eab308'' else ''#ef4444'')"

definition age_label :: "(num \<Rightarrow> string) \<Rightarrow> int option \<Rightarrow> string" where
  "age_label fixed age =
    (case age of
       None \<Rightarrow> []
     | Some s \<Rightarrow>
         if s < 90 then big_string s @ ''s old''
         else if s < 5400 then big_string \<lfloor>(of_int s / 60 :: rat) + 1 / 2\<rfloor> @ '' min old''
         else fixed (num_div (num_of_big s) (Fin 3600)) @ '' h old'')"

definition seconds_shown :: "int \<Rightarrow> int \<Rightarrow> int" where
  "seconds_shown expires now = max 0 \<lceil>(of_int (expires - now) / 1000 :: rat)\<rceil>"

section \<open>The order book\<close>

record level =
  lv_price :: num
  lv_size :: num

text \<open>\<open>aggregate\<close>: levels by the price at five digits, in the order they come;
  \<open>precision\<close> is \<open>toPrecision(5)\<close>.\<close>

definition usable_level :: "level \<Rightarrow> bool" where
  "usable_level l \<longleftrightarrow> is_finite (lv_price l) \<and> \<not> num_le (lv_price l) (Fin 0) \<and> \<not> num_le (lv_size l) (Fin 0)"

definition add_level :: "(num \<Rightarrow> string) \<Rightarrow> (string, level) jmap \<Rightarrow> level \<Rightarrow> (string, level) jmap" where
  "add_level precision levels l =
    (if \<not> usable_level l then levels
     else let k = precision (lv_price l)
          in case jm_get levels k of
               Some old \<Rightarrow> jm_set k (old\<lparr>lv_size := num_add (lv_size old) (lv_size l)\<rparr>) levels
             | None \<Rightarrow> jm_set k \<lparr>lv_price = num_of_string k, lv_size = lv_size l\<rparr> levels)"

definition aggregate :: "(num \<Rightarrow> string) \<Rightarrow> level list \<Rightarrow> level list" where
  "aggregate precision raw = map snd (foldl (add_level precision) jm_empty raw)"

text \<open>A standing order as the server lists it, with its amounts in base units.\<close>

record listed_order =
  lo_amount_in :: int
  lo_remaining :: int
  lo_min_out :: int
  lo_market :: bool

definition ask_level :: "int \<Rightarrow> int \<Rightarrow> listed_order \<Rightarrow> level" where
  "ask_level base_dec quote_dec x =
    (let full = from_base_units (Inr (lo_amount_in x)) base_dec
     in \<lparr>lv_price = (if num_lt (Fin 0) full then num_div (from_base_units (Inr (lo_min_out x)) quote_dec) full else Fin 0),
         lv_size = from_base_units (Inr (lo_remaining x)) base_dec\<rparr>)"

definition bid_level :: "int \<Rightarrow> int \<Rightarrow> listed_order \<Rightarrow> level" where
  "bid_level base_dec quote_dec x =
    (let want = from_base_units (Inr (lo_min_out x)) base_dec;
         price = (if num_lt (Fin 0) want then num_div (from_base_units (Inr (lo_amount_in x)) quote_dec) want else Fin 0)
     in \<lparr>lv_price = price,
         lv_size = (if num_lt (Fin 0) price then num_div (from_base_units (Inr (lo_remaining x)) quote_dec) price else Fin 0)\<rparr>)"

record book_side =
  bk_levels :: "level list"
  bk_pegged :: nat

definition fixed_orders :: "listed_order list \<Rightarrow> listed_order list" where
  "fixed_orders os = filter (\<lambda>x. \<not> lo_market x) os"

definition ask_side :: "(num \<Rightarrow> string) \<Rightarrow> int \<Rightarrow> int \<Rightarrow> listed_order list \<Rightarrow> book_side" where
  "ask_side precision base_dec quote_dec os =
    \<lparr>bk_levels = js_sort (\<lambda>a b. num_lt (Fin 0) (num_sub (lv_price a) (lv_price b)))
       (aggregate precision (map (ask_level base_dec quote_dec) (fixed_orders os))),
     bk_pegged = length os - length (fixed_orders os)\<rparr>"

definition bid_side :: "(num \<Rightarrow> string) \<Rightarrow> int \<Rightarrow> int \<Rightarrow> listed_order list \<Rightarrow> book_side" where
  "bid_side precision base_dec quote_dec os =
    \<lparr>bk_levels = js_sort (\<lambda>a b. num_lt (Fin 0) (num_sub (lv_price b) (lv_price a)))
       (aggregate precision (map (bid_level base_dec quote_dec) (fixed_orders os))),
     bk_pegged = length os - length (fixed_orders os)\<rparr>"

section \<open>The orders page\<close>

definition parse_leading :: "string \<Rightarrow> num" where
  "parse_leading raw = (let s = (if raw = [] then ''0'' else raw); ds = takeWhile is_digit s
     in if ds = [] then NaN else num_of_big (int (digits_val ds)))"

definition format_amount :: "(num \<Rightarrow> string) \<Rightarrow> string \<Rightarrow> string" where
  "format_amount format raw = format (num_div (parse_leading raw) (Fin 10000000))"

definition fill_percent :: "string \<Rightarrow> string \<Rightarrow> num" where
  "fill_percent amount_in remaining =
    (let whole = parse_leading amount_in; rem = parse_leading remaining
     in if num_le whole (Fin 0) then Fin 0
        else num_round (num_mul (num_div (num_sub whole rem) whole) (Fin 100)))"

record user_order =
  uo_id :: int
  uo_status :: string

definition order_open :: "user_order \<Rightarrow> bool" where
  "order_open u \<longleftrightarrow> uo_status u = ''Open'' \<or> uo_status u = ''PartialFill''"

definition open_orders :: "user_order list \<Rightarrow> user_order list" where
  "open_orders us = filter order_open us"

definition past_orders :: "user_order list \<Rightarrow> user_order list" where
  "past_orders us = filter (\<lambda>u. uo_status u \<noteq> ''Open'' \<and> uo_status u \<noteq> ''PartialFill'') us"

record orders_page =
  op_orders :: "user_order list"
  op_twaps :: "user_order list"
  op_loading :: bool
  op_cancelling :: "int option"

text \<open>\<open>fetchOrders\<close>: both lists or none; a TWAP list that fails is empty.\<close>

definition orders_fetched :: "user_order list js \<Rightarrow> user_order list js \<Rightarrow> orders_page \<Rightarrow> orders_page" where
  "orders_fetched orders twaps p =
    (case orders of
       Inl _ \<Rightarrow> p\<lparr>op_loading := False\<rparr>
     | Inr os \<Rightarrow> p\<lparr>op_orders := os, op_twaps := js_catch twaps [], op_loading := False\<rparr>)"

text \<open>\<open>handleCancel\<close>, which refuses an empty transaction, and \<open>handleTwapCancel\<close>,
  with what their calls answer: what was signed, what was submitted, and whether the lists are read
  again.\<close>

record cancel_run =
  cr_signed :: "string list"
  cr_submitted :: "string list"
  cr_refreshed :: bool

definition no_cancel :: cancel_run where
  "no_cancel = \<lparr>cr_signed = [], cr_submitted = [], cr_refreshed = False\<rparr>"

definition cancel_order :: "bool \<Rightarrow> string js \<Rightarrow> (string \<Rightarrow> string js) \<Rightarrow> (string \<Rightarrow> string js) \<Rightarrow> string option \<Rightarrow> cancel_run" where
  "cancel_order strict built sign submit addr =
    (if addr = None \<or> addr = Some [] then no_cancel
     else case built of
       Inl _ \<Rightarrow> no_cancel
     | Inr xdr \<Rightarrow>
         if strict \<and> xdr = [] then no_cancel
         else case sign xdr of
           Inl _ \<Rightarrow> no_cancel\<lparr>cr_signed := [xdr]\<rparr>
         | Inr sx \<Rightarrow>
             (case submit sx of
                Inl _ \<Rightarrow> \<lparr>cr_signed = [xdr], cr_submitted = [sx], cr_refreshed = False\<rparr>
              | Inr st \<Rightarrow> \<lparr>cr_signed = [xdr], cr_submitted = [sx], cr_refreshed = (st = ''SUCCESS'')\<rparr>))"

text \<open>A TWAP's row: behind its schedule by more than five points; only an active one can be
  cancelled.\<close>

definition behind_schedule :: "num option \<Rightarrow> num option \<Rightarrow> bool" where
  "behind_schedule filled elapsed =
    num_lt (num_add (case filled of Some v \<Rightarrow> v | None \<Rightarrow> Fin 0) (Fin 5)) (case elapsed of Some v \<Rightarrow> v | None \<Rightarrow> Fin 0)"

definition twap_cancellable :: "user_order \<Rightarrow> bool" where
  "twap_cancellable u \<longleftrightarrow> uo_status u = ''Active''"

section \<open>The route\<close>

record shown_segment =
  sh_venue :: string
  sh_in :: "int js"
  sh_out :: int

definition shown_segments :: "shown_segment list \<Rightarrow> shown_segment list" where
  "shown_segments ss = filter (\<lambda>s. case sh_in s of Inl _ \<Rightarrow> False | Inr a \<Rightarrow> 0 < a) ss"

definition venue_color :: "string \<Rightarrow> string \<Rightarrow> string" where
  "venue_color other v = (case map_of [(''SwapBook'', ''#6366f1''), (''StellarDEX'', ''#4fc3f7''), (''Aqua'', ''#06b6d4''),
     (''SushiSwap'', ''#ec4899''), (''Curve'', ''#eab308'')] v of Some c \<Rightarrow> c | None \<Rightarrow> other)"

definition hop_arrows :: "(string \<times> int) list \<Rightarrow> (string \<times> int) list" where
  "hop_arrows venues = (if 1 < length venues then take 2 venues else venues)"

section \<open>The mark of the best offer\<close>

text \<open>What the marked offer pays.\<close>

definition marked_out :: "offers \<Rightarrow> int option" where
  "marked_out o1 = (if book_beats_best o1 then of_book_out o1 else if amm_beats_best o1 then of_amm_out o1 else best_out o1)"

lemma best_out_max: "sorted_wrt (\<ge>) (of_quotes o1) \<Longrightarrow> q \<in> set (of_quotes o1) \<Longrightarrow> \<exists>b. best_out o1 = Some b \<and> q \<le> b"
  by (cases "of_quotes o1") (auto simp: best_out_def)

text \<open>
  The offer marked best pays at least what every maker's quote pays and at least what the book
  pays for the whole amount; it pays at least what the pools pay unless it is the book, which is then
  marked also when the pools pay more.
\<close>

theorem best_mark:
  assumes "sorted_wrt (\<ge>) (of_quotes o1)" "marked_out o1 = Some m"
  shows "(\<forall>q\<in>set (of_quotes o1). q \<le> m) \<and> (\<forall>k. of_book_out o1 = Some k \<and> \<not> book_partial o1 \<longrightarrow> k \<le> m) \<and>
    (\<forall>a. of_amm_out o1 = Some a \<longrightarrow> a \<le> m \<or> book_beats_best o1)"
proof -
  have quotes: "q \<le> m" if "q \<in> set (of_quotes o1)" for q
    using best_out_max [OF assms(1) that] assms(2)
    by (auto simp: marked_out_def book_beats_best_def amm_beats_best_def beats_def split: if_split_asm option.splits)
  have rest: "(\<forall>k. of_book_out o1 = Some k \<and> \<not> book_partial o1 \<longrightarrow> k \<le> m) \<and> (\<forall>a. of_amm_out o1 = Some a \<longrightarrow> a \<le> m \<or> book_beats_best o1)"
    using assms(2) by (auto simp: marked_out_def book_beats_best_def amm_beats_best_def beats_def split: if_split_asm option.splits)
  from quotes rest show ?thesis by blast
qed

definition three_offers :: offers where
  "three_offers = \<lparr>of_amount_in = 10, of_book_out = Some 21, of_book_used = Some 10, of_amm_out = Some 25, of_quotes = [20]\<rparr>"

lemma book_marked_over_pool: "book_beats_best three_offers \<and> \<not> amm_beats_best three_offers \<and> marked_out three_offers = Some 21"
  by (simp add: three_offers_def book_beats_best_def amm_beats_best_def book_partial_def beats_def best_out_def marked_out_def)

section \<open>The ladder\<close>

definition keyed_levels :: "(string, level) jmap \<Rightarrow> string set \<Rightarrow> bool" where
  "keyed_levels levels ks \<longleftrightarrow> distinct (map fst levels) \<and> fst ` set levels = ks \<and> (\<forall>(k, v)\<in>set levels. lv_price v = num_of_string k)"

lemma keyed_levels_set:
  assumes "keyed_levels levels ks" "lv_price v = num_of_string k"
  shows "keyed_levels (jm_set k v levels) (insert k ks)"
  using assms jm_set_distinct [of levels k v] jm_set_keys [of k v levels]
  by (auto simp: keyed_levels_def dest!: jm_set_mem)

lemma keyed_levels_add:
  assumes "keyed_levels levels ks"
  shows "keyed_levels (add_level precision levels l) (ks \<union> (if usable_level l then {precision (lv_price l)} else {}))"
proof (cases "usable_level l")
  case True
  let ?k = "precision (lv_price l)"
  show ?thesis
  proof (cases "jm_get levels ?k")
    case None
    with True keyed_levels_set [OF assms, of "\<lparr>lv_price = num_of_string ?k, lv_size = lv_size l\<rparr>" ?k] show ?thesis
      by (simp add: add_level_def Let_def)
  next
    case (Some old)
    then have "lv_price old = num_of_string ?k" using assms jm_get_mem [OF Some] by (auto simp: keyed_levels_def)
    with True Some keyed_levels_set [OF assms, of "old\<lparr>lv_size := num_add (lv_size old) (lv_size l)\<rparr>" ?k] show ?thesis
      by (simp add: add_level_def Let_def)
  qed
qed (use assms in \<open>simp add: add_level_def\<close>)

lemma aggregate_keyed:
  "keyed_levels levels ks \<Longrightarrow> keyed_levels (foldl (add_level precision) levels raw) (ks \<union> (\<lambda>l. precision (lv_price l)) ` {l \<in> set raw. usable_level l})"
proof (induction raw arbitrary: levels ks)
  case (Cons l raw)
  have "ks \<union> (if usable_level l then {precision (lv_price l)} else {}) \<union> (\<lambda>l. precision (lv_price l)) ` {l \<in> set raw. usable_level l} =
      ks \<union> (\<lambda>l. precision (lv_price l)) ` {la \<in> set (l # raw). usable_level la}" by auto
  with Cons.IH [OF keyed_levels_add [OF Cons.prems, of precision l]] show ?case by (simp only: foldl.simps)
qed simp

text \<open>
  The ladder has exactly one level for each price, at five digits, at which a usable order rests,
  and each level's price is the number that text reads as.
\<close>

theorem ladder_one_level_per_price:
  "\<exists>ks. distinct ks \<and> set ks = (\<lambda>l. precision (lv_price l)) ` {l \<in> set raw. usable_level l} \<and>
    map lv_price (aggregate precision raw) = map num_of_string ks"
proof -
  let ?m = "foldl (add_level precision) jm_empty raw"
  have "keyed_levels ?m ({} \<union> (\<lambda>l. precision (lv_price l)) ` {l \<in> set raw. usable_level l})"
    by (rule aggregate_keyed) (simp add: keyed_levels_def jm_empty_def)
  then have "distinct (map fst ?m)" "set (map fst ?m) = (\<lambda>l. precision (lv_price l)) ` {l \<in> set raw. usable_level l}"
    "map lv_price (map snd ?m) = map num_of_string (map fst ?m)" by (auto simp: keyed_levels_def)
  then show ?thesis unfolding aggregate_def by blast
qed

section \<open>The share filled\<close>

lemma parse_leading_digits: "parse_leading (nat_string n) = num_of_big (int n)"
proof -
  have all: "takeWhile is_digit (nat_string n) = nat_string n"
    using nat_string_digits [of n] by (simp add: takeWhile_eq_all_conv list_all_iff)
  show ?thesis by (simp add: parse_leading_def Let_def all nat_string_ne nat_string_val)
qed

text \<open>
  The share filled that the orders page shows is a whole number of percent from 0 to 100, for every
  order whose remainder is at most its amount.
\<close>

theorem fill_percent_bounds:
  assumes "0 < n" "r \<le> n" "n \<le> 2 ^ 53"
  shows "\<exists>k. fill_percent (nat_string n) (nat_string r) = Fin (of_int k) \<and> 0 \<le> k \<and> k \<le> 100"
proof -
  have exact: "num_of_big (int x) = Fin (of_nat x)" if "x \<le> 2 ^ 53" for x
    using rnd_of_int [of "int x"] that by (simp add: num_of_big_def)
  have sub: "rnd (of_nat n - of_nat r) = Fin (of_nat n - of_nat r)"
    using rnd_of_int [of "int n - int r"] assms by (simp add: of_nat_diff)
  have "of_int 0 \<le> (of_nat n - of_nat r) / (of_nat n :: rat)" "(of_nat n - of_nat r) / (of_nat n :: rat) \<le> of_int 1"
    using assms by (simp_all add: divide_simps)
  then obtain y where y: "rnd ((of_nat n - of_nat r) / of_nat n) = Fin y" "0 \<le> y" "y \<le> 1" by (rule rnd_between) simp_all
  then obtain z where z: "rnd (y * 100) = Fin z" "0 \<le> z" "z \<le> 100" by (rule_tac rnd_between [of 0 "y * 100" 100]) simp_all
  then obtain k where "num_round (Fin z) = Fin (of_int k)" "0 \<le> k" "k \<le> 100" by (rule_tac num_round_between [of 0 z 100]) simp_all
  moreover have "fill_percent (nat_string n) (nat_string r) = num_round (Fin z)"
    using assms by (simp add: fill_percent_def parse_leading_digits exact sub num_sub_def num_le_def y(1) z(1) Let_def)
  ultimately show ?thesis by auto
qed

section \<open>Cancelling\<close>

text \<open>
  Cancelling asks the wallet for nothing but the transaction that was built for it, submits only
  what the wallet signed, and reads the lists again only when the submission reports success.
\<close>

theorem cancel_signs_built:
  "set (cr_signed (cancel_order strict built sign submit addr)) \<subseteq> {xdr. built = Inr xdr} \<and>
    set (cr_submitted (cancel_order strict built sign submit addr)) \<subseteq> {sx. \<exists>xdr. built = Inr xdr \<and> sign xdr = Inr sx} \<and>
    (cr_refreshed (cancel_order strict built sign submit addr) \<longleftrightarrow>
      (\<exists>sx. cr_submitted (cancel_order strict built sign submit addr) = [sx] \<and> submit sx = Inr ''SUCCESS''))"
  by (auto simp: cancel_order_def no_cancel_def split: sum.split)

section \<open>The properties at concrete inputs\<close>

theorem best_mark_witness: "\<forall>q\<in>set (of_quotes three_offers). q \<le> 21"
  using best_mark [of three_offers 21] book_marked_over_pool by (simp add: three_offers_def)

theorem fill_percent_bounds_witness: "\<exists>k. fill_percent (nat_string 1000) (nat_string 250) = Fin (of_int k) \<and> 0 \<le> k \<and> k \<le> 100"
  by (rule fill_percent_bounds) simp_all

end
