(* ===== verification/Spec2Isabelle.thy ===== *)
theory Spec2Isabelle
  imports Prelude JsNumber JsText QuoteCurve BookFill Engine Pathfinder Impact QuoteXdr RfqStore RfqService RfqSafety
    Keeper Stellar SwapBuild Tokens Discovery Params Orders FairValue TwapApi Venues TxBuild PartnerApi
    RfqReference RfqApi SdkStream SdkFlows Units RfqHook Nav PriceOracle Sep1 Restock MakerBot ReadApi TokenSearch
    WalletGate QuotePanel SwapPage WebClients PageViews
begin

text \<open>
  A model of a swap aggregator on the Stellar network: its backend, its SDK and the logic of its pages.

  \<^bold>\<open>The program.\<close> The backend (\<open>src/backend/src/\<close>) finds how to swap one token for
  another over several venues, builds the transactions a wallet signs, and runs two keepers. Its
  parts call each other downwards:

    \<^item> \<open>server.ts\<close>: the HTTP endpoints. It validates the request, asks the router for a plan, and
      asks the Soroban SDK to build a transaction. It never signs.
    \<^item> \<open>router/\<close>: \<open>engine.ts\<close> splits an amount over the venues, \<open>pathfinder.ts\<close>
      chains hops when no direct route is good enough, \<open>impact.ts\<close> refuses trades that move
      the price too far.
    \<^item> \<open>venues/\<close>: one adapter per liquidity source behind a common interface, and their
      registry; \<open>services/quote-curve-cache.ts\<close> caches what the pools answer.
    \<^item> \<open>services/\<close>: which tokens exist (\<open>token-discovery.ts\<close>,
      \<open>curve-discovery.ts\<close>), what they are worth (\<open>fair-value.ts\<close>), whether a wallet is
      blocked (\<open>screening.ts\<close>), and the keepers (\<open>twap-keeper.ts\<close>,
      \<open>timer-sweep.ts\<close>).
    \<^item> \<open>rfq/\<close>: requests for quote. Makers answer a request with signed quotes, the taker
      accepts one, the settlement is reported.
    \<^item> \<open>stellar/\<close>: the RPC client and the registry of tokens.

  The SDK (\<open>src/sdk/src/\<close>) calls these endpoints for a taker or a maker, reads the event
  stream, and signs quotes; the pages (\<open>src/frontend/src/\<close>) do the same for a wallet in the
  browser.

  \<^bold>\<open>The theories.\<close>

    \<^item> \<open>Prelude\<close>: rejections as sums, truncating division, rounding up, the insertion-ordered
      \<open>Map\<close> and \<open>sort\<close> of the language; the locales \<open>fee_schedule\<close> and
      \<open>js_map\<close>. \<open>JsNumber\<close>: IEEE doubles as exact rationals with rounding,
      infinities and NaN. \<open>JsText\<close>: strings, their conversions, untyped JSON values.
    \<^item> \<open>Engine\<close> (\<open>router/engine.ts\<close>), \<open>Pathfinder\<close> (\<open>router/pathfinder.ts\<close>;
      the locale \<open>hop_router\<close> is what it asks of the engine), \<open>Impact\<close>
      (\<open>router/impact.ts\<close>).
    \<^item> \<open>QuoteCurve\<close> (\<open>services/quote-curve-cache.ts\<close>; the locale
      \<open>concave_curve\<close> is what makes interpolation safe), \<open>Venues\<close> (\<open>venues/\<close>).
    \<^item> \<open>Tokens\<close> (\<open>stellar/tokens.ts\<close>), \<open>Discovery\<close>
      (\<open>services/token-discovery.ts\<close>, \<open>services/curve-discovery.ts\<close>),
      \<open>FairValue\<close> (\<open>services/fair-value.ts\<close>).
    \<^item> \<open>QuoteXdr\<close> (\<open>rfq/quote-xdr.ts\<close>), \<open>RfqStore\<close> (\<open>rfq/store.ts\<close>),
      \<open>RfqService\<close> (\<open>rfq/service.ts\<close>), \<open>RfqSafety\<close> (its invariant).
    \<^item> \<open>Keeper\<close> (both keepers), \<open>Stellar\<close> (\<open>stellar/client.ts\<close>).
    \<^item> Of \<open>server.ts\<close>: \<open>Params\<close> (validation, error replies; with
      \<open>services/screening.ts\<close>), \<open>BookFill\<close> (fills of standing orders),
      \<open>SwapBuild\<close> (best execution, \<open>POST /api/swap/build\<close>), \<open>Orders\<close> (the order
      endpoints, peer swaps), \<open>TwapApi\<close> (the TWAP endpoints), \<open>TxBuild\<close> (the shapes of built
      transactions and the relays that submit signed ones), \<open>PartnerApi\<close> (\<open>/api/v1\<close>:
      keys, rate limits, quoting and building for integrators), \<open>RfqApi\<close> (\<open>/api/rfq\<close>
      and its event stream), \<open>ReadApi\<close> (the read-only endpoints: tokens, quotes,
      balances, prices, screening, health).
    \<^item> \<open>RfqReference\<close>: the reference prices of \<open>rfq/service.ts\<close>, its preview of a
      request and its cache. \<open>Nav\<close> (\<open>services/etherfuse-nav.ts\<close>), \<open>PriceOracle\<close>
      (\<open>services/oracle.ts\<close>), \<open>Sep1\<close> (\<open>services/sep1-verify.ts\<close>): the services
      that feed prices and trust marks.
    \<^item> The other side of the API: \<open>SdkStream\<close> (\<open>sdk/src/sse.ts\<close> and the stream of
      \<open>client.ts\<close>), \<open>SdkFlows\<close> (\<open>client.ts\<close>, \<open>flows.ts\<close>,
      \<open>signing.ts\<close>); \<open>Restock\<close> and \<open>MakerBot\<close> (\<open>rfq/restock.ts\<close>,
      \<open>rfq/maker-bot.ts\<close>, the reference maker); \<open>Units\<close> and \<open>RfqHook\<close> (the
      amounts and the RFQ panel's state in \<open>frontend/src/lib\<close>), \<open>TokenSearch\<close>,
      \<open>QuotePanel\<close> and \<open>SwapPage\<close> (the token picker, quoting while the user types and the
      swap itself, of \<open>frontend/src/components/SwapWidget.tsx\<close>), \<open>WalletGate\<close>
      (\<open>frontend/src/context/WalletContext.tsx\<close>, \<open>lib/legal.ts\<close>), \<open>PageViews\<close>
      (the other pages: orders, order book, RFQ offers, route). \<open>WebClients\<close>: the HTTP clients of
      the pages (\<open>lib/api.ts\<close>) and of the bond issuer
      (\<open>services/etherfuse-client.ts\<close>).

  \<^bold>\<open>State and operations.\<close> The objects that keep state are records: the quote cache
  (\<open>curve_cache\<close>), the RFQ store (\<open>rfq_store\<close>: a heap of request objects, the ids the
  store holds, what was emitted), discovery (\<open>disc_state\<close>), the pool caches, the registry,
  the endpoints that are down. A synchronous operation is a function on the record. An asynchronous
  one is cut at its awaits into pieces, and a step relation runs the pieces of all operations in any
  order (\<open>qc_reach\<close>, the system of \<open>RfqService\<close>, \<open>disc_reach\<close>); in the server's
  handlers, which keep no state of their own, what the awaited calls answer are arguments. A bigint
  is an \<open>int\<close>, a number a double (\<open>num\<close>), an id a \<open>string\<close>; a
  rejection, a thrown error or a refusal is an \<open>Inl\<close> carrying the code's error.

  \<^bold>\<open>What is shown.\<close>

    \<^item> Routing: a route spends exactly the amount over distinct allowed venues, is the cheapest
      split of its ladder, promises nothing a venue did not quote; its instructions and fee are
      exact, it always answers, also for the real venues of the registry. Multi-hop paths chain
      guaranteed outputs, never revisit a token, and all short paths are found.
    \<^item> Building: a plan over the book conserves the budget; the blend of best execution is taken
      only when both routes can be built and it beats the single ones; a built swap carries the
      slippage guard; a peer swap spends its amount and its remainder keeps the price.
    \<^item> Quotes: the cache never over-quotes a concave pool, samples a point once at a time, keeps
      its lists sorted and its size bounded.
    \<^item> RFQ: a settled request was settled with a quote its maker signed for that very request; one
      live quote per maker; the states move only forward; the encoding round-trips.
    \<^item> Discovery serves no token under the symbol or address of a curated one. The keepers stay
      within an order's slices and its floor, and reach every order in turn. The client fails over
      only when another endpoint can help, and answers one of four outcomes for a submission.
    \<^item> The SDK reads back every event the server streams, however the transport cuts the text, and
      the reference maker reads it alike; a taker's flow settles the best acceptable quote; the
      maker's quotes stay within the band they ask the contract to enforce. The services answer only
      prices and domains that their sources vouch for.

    \<^item> The pages read an amount as the backend does; a balance they show can be spent, a verified
      mark was earned, and the bounded edit distance of the token search is exact. The wallet is asked
      to sign only for a connected address after the terms were accepted; every transaction of an
      instant swap guards its output, and the card shown at its end tells what settled.

  \<^bold>\<open>Bounds and fuel.\<close> The only recursion on fuel is the depth-first search of the
  pathfinder, whose fuel is the bound on hops the code itself tests, and the polling loop of a
  submission, bounded by the code's own number of attempts. Environment variables are at their
  defaults (cache times, caps, fees, spam floors), as definitions of their own. The double
  arithmetic is exact IEEE rounding to nearest even without subnormals; the figures of the code stay
  far from them.

  \<^bold>\<open>Arguments of the model.\<close> What is not in the repository is passed in: the answers of
  Horizon, of contracts' simulations and of other HTTP services, the SDK's XDR conversion and
  transaction building, the clock, \<open>Math.log\<close>. A theorem that relies on a law of one of
  them names it as a hypothesis (that of \<open>concave_curve\<close> for a pool's curve).

  \<^bold>\<open>Not modelled.\<close> Logging, console texts and non-ASCII message texts; express wiring,
  timers; the markup of the pages; the Rust contracts (another language, referred to by the calls the
  backend makes); scripts; the wire types and abort signals of the SDK.
\<close>

end
